(* ===== verification/Prelude.thy ===== *)
theory Prelude
  imports Main "HOL-Library.Word" "HOL-Library.Monad_Syntax"
begin

text \<open>
  Shared vocabulary of the development: the machine integer types of
  \<^verbatim>\<open>kernel/kernel.h\<close>, C strings as character arrays with an implicit terminator, the
  first-match scan that every table of the kernel is searched with, byte-addressed
  memory, and the lemma collections the component theories add to.
\<close>

unbundle bit_operations_syntax

section \<open>Lemma collections\<close>

named_theorems cstr_simps \<open>evaluation of the C string functions on character lists\<close>
named_theorems frame_simps \<open>what an operation leaves unchanged\<close>
named_theorems inv_intros \<open>operations preserve the invariant of their component\<close>

section \<open>Machine integers\<close>

type_synonym u8 = "8 word"
type_synonym u16 = "16 word"
type_synonym u32 = "32 word"

text \<open>The null pointer; addresses are 32-bit words.\<close>

abbreviation NULL :: u32 where "NULL \<equiv> 0"

lemma unat_add_exact:
  fixes a b :: u32
  assumes "unat a + unat b < 2 ^ 32"
  shows "unat (a + b) = unat a + unat b"
  using assms by (simp add: unat_word_ariths)

lemma unat_sub_exact:
  fixes a b :: u32
  assumes "b \<le> a"
  shows "unat (a - b) = unat a - unat b"
  using assms by (simp add: unat_sub)

lemma unat_u32_bound: "unat (a :: u32) < 2 ^ 32"
  using unsigned_less [of a] by simp

lemma unat_of_nat_exact: "n < 2 ^ 32 \<Longrightarrow> unat (of_nat n :: u32) = n"
  by (simp add: unat_of_nat take_bit_eq_mod)

text \<open>The overflow test \<^verbatim>\<open>end < start\<close> of the source: a wrapped sum is below both summands.\<close>

lemma add_no_wrap_iff:
  fixes a b :: u32
  shows "a \<le> a + b \<longleftrightarrow> unat a + unat b < 2 ^ 32"
proof
  assume "a \<le> a + b"
  then have "unat a \<le> (unat a + unat b) mod 2 ^ 32"
    by (simp add: word_le_nat_alt unat_word_ariths)
  moreover have "unat a < 2 ^ 32" "unat b < 2 ^ 32" by (rule unat_u32_bound)+
  ultimately show "unat a + unat b < 2 ^ 32"
    by (cases "unat a + unat b < 2 ^ 32") (auto simp: mod_if split: if_splits)
next
  assume "unat a + unat b < 2 ^ 32"
  then show "a \<le> a + b" by (simp add: word_le_nat_alt unat_add_exact)
qed

lemma unat_max_u32: "unat (- 1 :: u32) = 2 ^ 32 - 1"
  by (simp add: unsigned_minus_1_eq_mask mask_eq_exp_minus_1)

lemma unat_inc:
  assumes "w \<noteq> (- 1 :: u32)"
  shows "unat (w + 1) = unat w + 1"
proof -
  have "unat w \<noteq> 2 ^ 32 - 1" using assms by (metis unat_max_u32 word_unat_eq_iff)
  then show ?thesis using unat_u32_bound [of w] unat_add_exact [of w 1] by simp
qed

text \<open>The casts between \<^verbatim>\<open>int\<close> and \<^verbatim>\<open>u32\<close> on values that both types have.\<close>

lemma sint_small: "unat (w :: u32) < 2 ^ 31 \<Longrightarrow> sint w = uint w"
proof -
  assume "unat w < 2 ^ 31"
  then have "int (unat w) < int (2 ^ 31)" by (simp only: of_nat_less_iff)
  then have lt: "uint w < 2 ^ 31" by simp
  have "- (2 ^ 31) \<le> uint w" by (rule order_trans [OF _ uint_ge_0]) simp
  then have "signed_take_bit 31 (uint w) = uint w" using lt by (rule signed_take_bit_int_eq_self)
  then show ?thesis by (simp add: sint_uint)
qed

lemma unat_of_int_small:
  assumes "0 \<le> k" and "k < 2 ^ 32"
  shows "unat (word_of_int k :: u32) = nat k"
proof -
  have "uint (word_of_int k :: u32) = k" using assms by (simp add: uint_word_of_int)
  then show ?thesis by (metis nat_uint_eq)
qed

lemma nat_less_unat_iff: "0 \<le> k \<Longrightarrow> nat k < unat w \<longleftrightarrow> k < uint w"
  by (metis nat_less_eq_zless nat_uint_eq)

lemma uint_inc: "unat (w :: u32) + 1 < 2 ^ 32 \<Longrightarrow> uint (w + 1) = uint w + 1"
proof -
  assume "unat w + 1 < 2 ^ 32"
  then have "unat (w + 1) = unat w + 1" using unat_add_exact [of w 1] by simp
  then have "int (unat (w + 1)) = int (unat w) + 1" by simp
  then show ?thesis by simp
qed

lemma uint_less_of_unat: "unat w < n \<Longrightarrow> uint w < int n"
  using of_nat_less_iff [of "unat w" n] by simp

text \<open>Clearing the low bits rounds down to a multiple of the power of two.\<close>

lemma and_not_mask_eq: "(w :: u32) AND NOT (mask k) = w - take_bit k w"
proof -
  have "w - take_bit k w = w AND NOT (take_bit k w)"
    by (rule disjunctive_diff) (auto simp: bit_take_bit_iff)
  also have "\<dots> = w AND NOT (mask k)"
    by (rule bit_eqI) (auto simp: bit_simps)
  finally show ?thesis by simp
qed

lemma unat_and_not_mask: "unat ((w :: u32) AND NOT (mask k)) = unat w div 2 ^ k * 2 ^ k"
proof -
  have "unat (take_bit k w) = take_bit k (unat w)" by (rule unsigned_take_bit_eq)
  then have t: "unat (take_bit k w) = unat w mod 2 ^ k" by (simp only: take_bit_eq_mod)
  then have "take_bit k w \<le> w" by (simp add: word_le_nat_alt)
  then show ?thesis
    unfolding and_not_mask_eq by (simp add: unat_sub_exact t minus_mod_eq_div_mult)
qed

section \<open>C strings\<close>

text \<open>
  A \<^verbatim>\<open>const char *\<close> that points into a NUL-terminated array is the list of the characters
  from the pointer to the end of the array; the terminator behind the last one is
  implicit.  \<open>deref\<close> is \<^verbatim>\<open>*p\<close>, \<open>tl\<close> is \<^verbatim>\<open>p + 1\<close>.  A list may hold a NUL itself: the C
  functions stop there, and \<open>cstr\<close> is the part they see.
\<close>

abbreviation NUL :: char where "NUL \<equiv> CHR 0x00"

definition deref :: "string \<Rightarrow> char" where
  "deref s = (case s of [] \<Rightarrow> NUL | c # _ \<Rightarrow> c)"

definition cstr :: "string \<Rightarrow> string" where
  "cstr s = takeWhile (\<lambda>c. c \<noteq> NUL) s"

lemma deref_simps [simp]: "deref [] = NUL" "deref (c # s) = c"
  by (simp_all add: deref_def)

lemma deref_not_NUL: "deref s \<noteq> NUL \<Longrightarrow> s = deref s # tl s"
  by (cases s) auto

lemma cstr_simps_list [simp]:
  "cstr [] = []" "cstr (c # s) = (if c = NUL then [] else c # cstr s)"
  by (simp_all add: cstr_def)

lemma cstr_Nil_iff: "cstr s = [] \<longleftrightarrow> deref s = NUL"
  by (cases s) auto

lemma cstr_unfold: "deref s \<noteq> NUL \<Longrightarrow> cstr s = deref s # cstr (tl s)"
  by (cases s) auto

lemma cstr_id [simp]: "NUL \<notin> set s \<Longrightarrow> cstr s = s"
  by (induction s) auto

lemma NUL_notin_cstr [simp]: "NUL \<notin> set (cstr s)"
  unfolding cstr_def by (auto dest: set_takeWhileD)

lemma cstr_idem [simp]: "cstr (cstr s) = cstr s"
  by (rule cstr_id) simp

lemma length_cstr_le: "length (cstr s) \<le> length s"
  by (simp add: cstr_def length_takeWhile_le)

text \<open>
  \<^verbatim>\<open>char\<close> is signed on i386: its integer value, as the comparisons of the source see it.
\<close>

definition char_val :: "char \<Rightarrow> int" where
  "char_val c = (let n = int (of_char c :: nat) in if n < 128 then n else n - 256)"

text \<open>\<^verbatim>\<open>lo <= c && c <= hi\<close> for two ASCII bounds.\<close>

definition char_between :: "char \<Rightarrow> char \<Rightarrow> char \<Rightarrow> bool" where
  "char_between lo hi c \<longleftrightarrow> char_val lo \<le> char_val c \<and> char_val c \<le> char_val hi"

section \<open>First-match scans\<close>

text \<open>
  \<^verbatim>\<open>for (i = 0; i < N; ++i) if (P(table[i])) return i; return -1;\<close>  The result \<^verbatim>\<open>-1\<close> is
  \<open>None\<close>.
\<close>

fun find_index :: "('a \<Rightarrow> bool) \<Rightarrow> 'a list \<Rightarrow> nat option" where
  "find_index P [] = None"
| "find_index P (x # xs) = (if P x then Some 0 else map_option Suc (find_index P xs))"

lemma find_index_Some_iff:
  "find_index P xs = Some i \<longleftrightarrow> i < length xs \<and> P (xs ! i) \<and> (\<forall>j < i. \<not> P (xs ! j))"
proof (induction xs arbitrary: i)
  case Nil
  then show ?case by simp
next
  case (Cons x xs)
  show ?case
  proof (cases i)
    case 0
    then show ?thesis by auto
  next
    case (Suc k)
    then show ?thesis using Cons.IH [of k] by (auto simp: less_Suc_eq_0_disj)
  qed
qed

lemma find_index_None_iff: "find_index P xs = None \<longleftrightarrow> (\<forall>x \<in> set xs. \<not> P x)"
  by (induction xs) auto

lemma find_index_SomeD:
  assumes "find_index P xs = Some i"
  shows "i < length xs" "P (xs ! i)" "j < i \<Longrightarrow> \<not> P (xs ! j)"
  using assms by (auto simp: find_index_Some_iff)

lemma find_index_in_set: "find_index P xs = Some i \<Longrightarrow> \<exists>x \<in> set xs. P x"
  by (auto simp: find_index_Some_iff)

lemma find_index_exists: "i < length xs \<Longrightarrow> P (xs ! i) \<Longrightarrow> \<exists>k. find_index P xs = Some k"
  by (cases "find_index P xs") (auto simp: find_index_None_iff)

text \<open>A scan for a key that at most one entry carries finds that entry.\<close>

lemma find_index_unique:
  assumes "i < length xs" and "P (xs ! i)"
    and "\<And>j. j < length xs \<Longrightarrow> P (xs ! j) \<Longrightarrow> j = i"
  shows "find_index P xs = Some i"
proof -
  obtain k where k: "find_index P xs = Some k"
    using find_index_exists [of i xs P] assms(1,2) by blast
  then have "k = i" using assms(3) by (auto dest: find_index_SomeD)
  with k show ?thesis by simp
qed

text \<open>Rewriting one entry that satisfies the predicate neither before nor after.\<close>

lemma find_index_update_irrelevant:
  assumes "i < length xs" and "P (xs ! i) = P y"
  shows "find_index P (xs[i := y]) = find_index P xs"
  using assms by (induction xs arbitrary: i) (auto split: nat.splits)

lemma find_index_replicate: "0 < n \<Longrightarrow> P x \<Longrightarrow> find_index P (replicate n x) = Some 0"
  by (cases n) auto

text \<open>How many entries of a table satisfy a predicate, and how one write changes that.\<close>

lemma nth_update_proj:
  assumes "f e = f (xs ! i)"
  shows "f (xs[i := e] ! j) = f (xs ! j)"
proof (cases "i < length xs")
  case True
  then show ?thesis using assms by (cases "j = i") simp_all
qed (simp add: list_update_beyond)

definition count_if :: "('a \<Rightarrow> bool) \<Rightarrow> 'a list \<Rightarrow> nat" where
  "count_if P xs = length (filter P xs)"

lemma count_if_simps [simp]:
  "count_if P [] = 0"
  "count_if P (x # xs) = (if P x then Suc (count_if P xs) else count_if P xs)"
  by (simp_all add: count_if_def)

lemma count_if_replicate: "count_if P (replicate n x) = (if P x then n else 0)"
  by (induction n) auto

lemma count_if_pos: "i < length xs \<Longrightarrow> P (xs ! i) \<Longrightarrow> 0 < count_if P xs"
  by (auto simp: count_if_def filter_empty_conv)

lemma count_if_le_length: "count_if P xs \<le> length xs"
  by (simp add: count_if_def)

lemma count_if_all: "count_if P xs = length xs \<longleftrightarrow> (\<forall>x \<in> set xs. P x)"
proof (induction xs)
  case (Cons x xs)
  then show ?case using count_if_le_length [of P xs] by auto
qed simp

lemma count_if_update:
  "i < length xs \<Longrightarrow>
   count_if P (xs[i := y]) + (if P (xs ! i) then 1 else 0) =
   count_if P xs + (if P y then 1 else 0)"
proof (induction xs arbitrary: i)
  case (Cons x xs)
  show ?case
  proof (cases i)
    case (Suc k)
    with Cons.IH [of k] Cons.prems show ?thesis by (auto split: if_splits)
  qed simp
qed simp

section \<open>Byte-addressed memory\<close>

type_synonym memory = "u32 \<Rightarrow> u8"

text \<open>\<^verbatim>\<open>for (i = 0; i < n; ++i) dst[i] = v[i];\<close> for bytes \<open>v\<close> the caller holds.\<close>

fun mem_write :: "u32 \<Rightarrow> u8 list \<Rightarrow> memory \<Rightarrow> memory" where
  "mem_write dst [] m = m"
| "mem_write dst (b # bs) m = mem_write (dst + 1) bs (m(dst := b))"

text \<open>\<^verbatim>\<open>for (i = 0; i < n; ++i) dst[i] = src[i];\<close> inside one memory, byte by byte.\<close>

fun mem_copy :: "u32 \<Rightarrow> u32 \<Rightarrow> nat \<Rightarrow> memory \<Rightarrow> memory" where
  "mem_copy dst src 0 m = m"
| "mem_copy dst src (Suc n) m = mem_copy (dst + 1) (src + 1) n (m(dst := m src))"

definition mem_read :: "memory \<Rightarrow> u32 \<Rightarrow> nat \<Rightarrow> u8 list" where
  "mem_read m a n = map (\<lambda>i. m (a + of_nat i)) [0..<n]"

text \<open>The bytes \<open>a, a + 1, \<dots>, a + n - 1\<close>, with the wrap-around of 32-bit addresses.\<close>

definition in_block :: "u32 \<Rightarrow> nat \<Rightarrow> u32 \<Rightarrow> bool" where
  "in_block a n x \<longleftrightarrow> unat (x - a) < n"

lemma length_mem_read [simp]: "length (mem_read m a n) = n"
  by (simp add: mem_read_def)

lemma mem_read_nth: "i < n \<Longrightarrow> mem_read m a n ! i = m (a + of_nat i)"
  by (simp add: mem_read_def)

lemma mem_read_0 [simp]: "mem_read m a 0 = []"
  by (simp add: mem_read_def)

lemma mem_read_Suc: "mem_read m a (Suc n) = m a # mem_read m (a + 1) n"
  by (simp add: mem_read_def map_upt_Suc add.assoc del: upt_Suc)

lemma in_block_0 [simp]: "\<not> in_block a 0 x"
  by (simp add: in_block_def)

lemma in_block_start [simp]: "0 < n \<Longrightarrow> in_block a n a"
  by (simp add: in_block_def)

lemma unat_diff_Suc:
  fixes x a :: u32
  assumes "x \<noteq> a"
  shows "unat (x - a) = Suc (unat (x - (a + 1)))"
proof -
  have "x - a \<noteq> 0" using assms by simp
  then have "0 < unat (x - a)" by (simp add: unat_gt_0)
  moreover have "unat (x - a - 1) = unat (x - a) - 1"
    using \<open>x - a \<noteq> 0\<close> by (rule unat_minus_one)
  ultimately have "unat (x - a) = Suc (unat (x - a - 1))" by simp
  then show ?thesis by (simp add: algebra_simps)
qed

lemma in_block_Suc: "in_block a (Suc n) x \<longleftrightarrow> x = a \<or> in_block (a + 1) n x \<and> x \<noteq> a"
  by (cases "x = a") (simp_all add: in_block_def unat_diff_Suc)

lemma in_block_mono: "in_block a n x \<Longrightarrow> n \<le> k \<Longrightarrow> in_block a k x"
  by (simp add: in_block_def)

lemma start_notin_tail_block:
  assumes "n < 2 ^ 32" shows "\<not> in_block (a + 1) n (a :: u32)"
proof -
  have "a - (a + 1) = (- 1 :: u32)" by simp
  then have "unat (a - (a + 1)) = unat (- 1 :: u32)" by simp
  also have "\<dots> = 2 ^ 32 - 1" by (simp add: unsigned_minus_1_eq_mask mask_eq_exp_minus_1)
  finally show ?thesis using assms by (simp add: in_block_def)
qed

lemma mem_write_other:
  "\<not> in_block dst (length bs) x \<Longrightarrow> mem_write dst bs m x = m x"
  by (induction bs arbitrary: dst m) (auto simp: in_block_Suc)

lemma mem_write_read:
  "length bs < 2 ^ 32 \<Longrightarrow> mem_read (mem_write dst bs m) dst (length bs) = bs"
proof (induction bs arbitrary: dst m)
  case (Cons b bs)
  have "mem_write (dst + 1) bs (m(dst := b)) dst = b"
    using Cons.prems by (simp add: mem_write_other start_notin_tail_block)
  with Cons show ?case by (simp add: mem_read_Suc)
qed simp

lemma mem_read_cong:
  "(\<And>x. in_block a n x \<Longrightarrow> m x = m' x) \<Longrightarrow> mem_read m a n = mem_read m' a n"
  by (induction n arbitrary: a) (auto simp: mem_read_Suc in_block_Suc)

text \<open>Blocks that do not wrap are intervals of naturals; disjoint intervals are disjoint blocks.\<close>

lemma in_block_iff:
  assumes "unat a + n \<le> 2 ^ 32"
  shows "in_block a n x \<longleftrightarrow> unat a \<le> unat x \<and> unat x < unat a + n"
proof (cases "a \<le> x")
  case True
  then show ?thesis
    by (auto simp: in_block_def unat_sub_exact word_le_nat_alt)
next
  case False
  then have lt: "unat x < unat a" by (simp add: word_le_nat_alt)
  have b: "unat a < 2 ^ 32" "unat x < 2 ^ 32" by (rule unat_u32_bound)+
  have "unat (x - a) = 2 ^ 32 + unat x - unat a"
    using lt b by (simp add: unat_sub_if_size word_size not_le)
  then show ?thesis using lt assms b by (auto simp: in_block_def)
qed

text \<open>A byte-wise copy between blocks that do not overlap moves the whole source block.\<close>

lemma mem_copy_other:
  "\<not> in_block dst n x \<Longrightarrow> mem_copy dst src n m x = m x"
  by (induction n arbitrary: dst src m) (auto simp: in_block_Suc)

lemma mem_copy_eq_write:
  assumes "\<And>x. in_block dst n x \<Longrightarrow> \<not> in_block src n x" and "n < 2 ^ 32"
  shows "mem_copy dst src n m = mem_write dst (mem_read m src n) m"
  using assms
proof (induction n arbitrary: dst src m)
  case (Suc n)
  have d: "\<not> in_block (dst + 1) n dst" using Suc.prems(2) by (simp add: start_notin_tail_block)
  have src: "\<not> in_block src (Suc n) dst" using Suc.prems(1) by simp
  have disj: "\<not> in_block (src + 1) n x" if "in_block (dst + 1) n x" for x
  proof
    assume s: "in_block (src + 1) n x"
    have "x \<noteq> src"
      using s Suc.prems(2) start_notin_tail_block [of n src] by auto
    moreover have "x \<noteq> dst" using that d by blast
    ultimately have "in_block dst (Suc n) x" "in_block src (Suc n) x"
      using that s by (simp_all add: in_block_Suc)
    then show False using Suc.prems(1) by blast
  qed
  have "mem_read (m(dst := m src)) (src + 1) n = mem_read m (src + 1) n"
    by (rule mem_read_cong) (use src in \<open>auto simp: in_block_Suc\<close>)
  then show ?case using Suc.IH disj Suc.prems(2) by (simp add: mem_read_Suc)
qed simp

section \<open>Words in memory\<close>

text \<open>i386 is little endian.\<close>

definition rd16 :: "memory \<Rightarrow> u32 \<Rightarrow> u16" where
  "rd16 m a = ucast (m a) OR push_bit 8 (ucast (m (a + 1)))"

definition rd32 :: "memory \<Rightarrow> u32 \<Rightarrow> u32" where
  "rd32 m a = ucast (m a) OR push_bit 8 (ucast (m (a + 1))) OR
     push_bit 16 (ucast (m (a + 2))) OR push_bit 24 (ucast (m (a + 3)))"

definition le32 :: "u32 \<Rightarrow> u8 list" where
  "le32 w = [ucast w, ucast (drop_bit 8 w), ucast (drop_bit 16 w), ucast (drop_bit 24 w)]"

lemma length_le32 [simp]: "length (le32 w) = 4"
  by (simp add: le32_def)

lemma le32_join:
  fixes w :: u32
  shows "ucast (ucast w :: u8) OR push_bit 8 (ucast (ucast (drop_bit 8 w) :: u8)) OR
    push_bit 16 (ucast (ucast (drop_bit 16 w) :: u8)) OR push_bit 24 (ucast (ucast (drop_bit 24 w) :: u8)) = w" (is "?L = w")
proof (rule bit_word_eqI)
  fix n
  assume "n < LENGTH(32)"
  then consider "n < 8" | "8 \<le> n" "n < 16" | "16 \<le> n" "n < 24" | "24 \<le> n" "n < 32" by fastforce
  then show "bit ?L n = bit w n"
    by cases (auto simp: bit_simps)
qed

lemma rd32_mem_read: "mem_read m a 4 = le32 w \<Longrightarrow> rd32 m a = w"
  using le32_join [of w] by (simp add: mem_read_def rd32_def le32_def numeral_eq_Suc add.commute)

lemma rd32_le32: "rd32 (mem_write a (le32 w) m) a = w"
  using mem_write_read [of "le32 w" a m] by (intro rd32_mem_read) simp

lemma rd32_cong: "(\<And>x. in_block a 4 x \<Longrightarrow> m x = m' x) \<Longrightarrow> rd32 m a = rd32 m' a"
proof -
  assume h: "\<And>x. in_block a 4 x \<Longrightarrow> m x = m' x"
  have "in_block a 4 a" "in_block a 4 (a + 1)" "in_block a 4 (a + 2)" "in_block a 4 (a + 3)"
    by (simp_all add: in_block_def)
  then show ?thesis by (simp add: rd32_def h)
qed

definition byte_of :: "char \<Rightarrow> u8" where "byte_of c = of_nat (of_char c)"
definition char_of_byte :: "u8 \<Rightarrow> char" where "char_of_byte b = char_of (unat b)"

lemma char_of_byte_of [simp]: "char_of_byte (byte_of c) = c"
proof -
  have "unat (byte_of c) = of_char c"
    unfolding byte_of_def by (simp add: unat_of_nat take_bit_eq_mod)
  then show ?thesis by (simp add: char_of_byte_def)
qed

end
