(* ===== verification/Util.thy ===== *)
theory Util
  imports Prelude
begin

text \<open>
  \<^verbatim>\<open>kernel/util.c\<close>: string comparison and copying, decimal parsing and memory clearing, one
  definition per function, written over the pointer view of strings of \<open>Prelude\<close>.
  The lemmas say what each function computes on the C strings its arguments denote, and
  are what the other components use: \<open>str_eq\<close> is equality of C strings,
  \<open>str_startswith\<close> the prefix test, \<open>str_copy\<close> truncation to the size of the buffer,
  \<open>parse_u32_dec\<close> the decimal value modulo \<open>2 ^ 32\<close>, and \<open>mem_zero\<close> clears
  exactly the bytes of its block although it writes words first.
\<close>

section \<open>The functions\<close>

function str_eq :: "string \<Rightarrow> string \<Rightarrow> bool" where
  "str_eq a b =
     (if deref a \<noteq> NUL \<and> deref b \<noteq> NUL
      then (if deref a \<noteq> deref b then False else str_eq (tl a) (tl b))
      else deref a = deref b)"
  by pat_completeness auto
termination
  by (relation "measure (\<lambda>(a, b). length a)") (auto dest: deref_not_NUL simp: deref_def split: list.splits)

function str_cmp :: "string \<Rightarrow> string \<Rightarrow> int" where
  "str_cmp a b =
     (if deref a \<noteq> NUL \<and> deref b \<noteq> NUL \<and> deref a = deref b
      then str_cmp (tl a) (tl b)
      else int (of_char (deref a)) - int (of_char (deref b)))"
  by pat_completeness auto
termination
  by (relation "measure (\<lambda>(a, b). length a)") (auto simp: deref_def split: list.splits)

function str_startswith :: "string \<Rightarrow> string \<Rightarrow> bool" where
  "str_startswith s prefix =
     (if deref prefix \<noteq> NUL
      then (if deref s \<noteq> deref prefix then False else str_startswith (tl s) (tl prefix))
      else True)"
  by pat_completeness auto
termination
  by (relation "measure (\<lambda>(s, prefix). length prefix)") (auto simp: deref_def split: list.splits)

function str_len_loop :: "string \<Rightarrow> u32 \<Rightarrow> u32" where
  "str_len_loop s len = (if deref s \<noteq> NUL then str_len_loop (tl s) (len + 1) else len)"
  by pat_completeness auto
termination
  by (relation "measure (\<lambda>(s, len). length s)") (auto simp: deref_def split: list.splits)

definition str_len :: "string \<Rightarrow> u32" where
  "str_len s = str_len_loop s 0"

text \<open>
  \<open>str_copy_loop src sz\<close> is the string the loop and the final \<^verbatim>\<open>*dst = '\0'\<close> leave in the
  buffer when \<open>sz > 0\<close> bytes are left in it.
\<close>

function str_copy_loop :: "string \<Rightarrow> nat \<Rightarrow> string" where
  "str_copy_loop src sz =
     (if deref src \<noteq> NUL \<and> 1 < sz
      then deref src # str_copy_loop (tl src) (sz - 1)
      else [])"
  by pat_completeness auto
termination
  by (relation "measure (\<lambda>(src, sz). sz)") auto

definition str_copy :: "string \<Rightarrow> string \<Rightarrow> u32 \<Rightarrow> string" where
  "str_copy dst src sz = (if sz = 0 then dst else str_copy_loop src (unat sz))"

text \<open>The value and the \<^verbatim>\<open>*ok\<close> flag.\<close>

function parse_u32_dec_loop :: "string \<Rightarrow> u32 \<Rightarrow> u32 \<times> bool" where
  "parse_u32_dec_loop s v =
     (if deref s \<noteq> NUL
      then (if char_val (deref s) < char_val (CHR ''0'') \<or> char_val (deref s) > char_val (CHR ''9'')
            then (0, False)
            else parse_u32_dec_loop (tl s)
                   (v * 10 + of_int (char_val (deref s) - char_val (CHR ''0''))))
      else (v, True))"
  by pat_completeness auto
termination
  by (relation "measure (\<lambda>(s, v). length s)") (auto simp: deref_def split: list.splits)

definition parse_u32_dec :: "string \<Rightarrow> u32 \<times> bool" where
  "parse_u32_dec s = (if deref s = NUL then (0, False) else parse_u32_dec_loop s 0)"

fun mem_zero_bytes :: "u32 \<Rightarrow> nat \<Rightarrow> memory \<Rightarrow> memory" where
  "mem_zero_bytes p 0 m = m"
| "mem_zero_bytes p (Suc n) m = mem_zero_bytes (p + 1) n (m(p := 0))"

text \<open>One store \<^verbatim>\<open>*words++ = 0u\<close> clears four bytes.\<close>

function mem_zero_words :: "u32 \<Rightarrow> nat \<Rightarrow> memory \<Rightarrow> memory" where
  "mem_zero_words p sz m =
     (if 4 \<le> sz
      then mem_zero_words (p + 4) (sz - 4) (m(p := 0, p + 1 := 0, p + 2 := 0, p + 3 := 0))
      else mem_zero_bytes p sz m)"
  by pat_completeness auto
termination
  by (relation "measure (\<lambda>(p, sz, m). sz)") auto

definition mem_zero :: "u32 \<Rightarrow> u32 \<Rightarrow> memory \<Rightarrow> memory" where
  "mem_zero dst sz m = mem_zero_words dst (unat sz) m"

declare str_eq.simps [simp del] str_cmp.simps [simp del] str_startswith.simps [simp del]
  str_len_loop.simps [simp del] str_copy_loop.simps [simp del]
  parse_u32_dec_loop.simps [simp del] mem_zero_words.simps [simp del]

section \<open>What the string functions compute\<close>

lemma str_eq_iff [cstr_simps]: "str_eq a b \<longleftrightarrow> cstr a = cstr b"
proof (induction a b rule: str_eq.induct)
  case (1 a b)
  show ?case
  proof (cases "deref a \<noteq> NUL \<and> deref b \<noteq> NUL")
    case True
    with 1 show ?thesis by (auto simp: str_eq.simps [of a b] cstr_unfold)
  next
    case False
    then show ?thesis
      unfolding str_eq.simps [of a b] by (cases a; cases b) auto
  qed
qed

lemma str_eq_NUL_free: "NUL \<notin> set a \<Longrightarrow> NUL \<notin> set b \<Longrightarrow> str_eq a b \<longleftrightarrow> a = b"
  by (simp add: str_eq_iff)

lemma str_cmp_0_iff: "str_cmp a b = 0 \<longleftrightarrow> cstr a = cstr b"
proof (induction a b rule: str_cmp.induct)
  case (1 a b)
  show ?case
  proof (cases "deref a \<noteq> NUL \<and> deref b \<noteq> NUL \<and> deref a = deref b")
    case True
    with 1 show ?thesis by (simp add: str_cmp.simps [of a b] cstr_unfold)
  next
    case False
    have "int (of_char (deref a)) - int (of_char (deref b)) = 0 \<longleftrightarrow> deref a = deref b" by simp
    moreover have "cstr a = cstr b \<longleftrightarrow> deref a = deref b"
      using False by (cases a; cases b) auto
    ultimately show ?thesis using False by (auto simp: str_cmp.simps [of a b])
  qed
qed

lemma str_cmp_antisym: "str_cmp b a = - str_cmp a b"
proof (induction a b rule: str_cmp.induct)
  case (1 a b)
  then show ?case
    by (cases "deref a \<noteq> NUL \<and> deref b \<noteq> NUL \<and> deref a = deref b")
      (auto simp: str_cmp.simps [of a b] str_cmp.simps [of b a])
qed

lemma str_startswith_iff [cstr_simps]:
  "str_startswith s prefix \<longleftrightarrow> (\<exists>rest. cstr s = cstr prefix @ rest)"
proof (induction s prefix rule: str_startswith.induct)
  case (1 s prefix)
  show ?case
  proof (cases "deref prefix = NUL")
    case True
    then show ?thesis by (simp add: str_startswith.simps [of s prefix] cstr_Nil_iff [THEN iffD2])
  next
    case False
    then show ?thesis
    proof (cases "deref s = deref prefix")
      case True
      with 1 False show ?thesis by (simp add: str_startswith.simps [of s prefix] cstr_unfold)
    next
      case neq: False
      have "cstr s \<noteq> cstr prefix @ rest" for rest
        using False neq by (cases s) (auto simp: cstr_unfold [of prefix] split: if_splits)
      with False neq show ?thesis by (simp add: str_startswith.simps [of s prefix])
    qed
  qed
qed

lemma str_len_loop_eq: "str_len_loop s len = len + of_nat (length (cstr s))"
proof (induction s len rule: str_len_loop.induct)
  case (1 s len)
  then show ?case
    by (cases "deref s = NUL") (simp_all add: str_len_loop.simps [of s len] cstr_unfold cstr_Nil_iff [THEN iffD2])
qed

lemma str_len_eq [cstr_simps]: "str_len s = of_nat (length (cstr s))"
  by (simp add: str_len_def str_len_loop_eq)

lemma unat_str_len: "length s < 2 ^ 32 \<Longrightarrow> unat (str_len s) = length (cstr s)"
  using length_cstr_le [of s] by (simp add: str_len_eq unat_of_nat_exact)

lemma str_copy_loop_eq: "str_copy_loop src sz = take (sz - 1) (cstr src)"
proof (induction src sz rule: str_copy_loop.induct)
  case (1 src sz)
  show ?case
  proof (cases "deref src \<noteq> NUL \<and> 1 < sz")
    case True
    then obtain k where k: "sz = Suc (Suc k)" by (metis less_imp_Suc_add plus_1_eq_Suc)
    with True 1 show ?thesis
      by (simp add: str_copy_loop.simps [of src "Suc (Suc k)"] cstr_unfold)
  next
    case False
    then show ?thesis unfolding str_copy_loop.simps [of src sz] by (cases src) auto
  qed
qed

lemma str_copy_eq [cstr_simps]:
  "0 < sz \<Longrightarrow> str_copy dst src sz = take (unat sz - 1) (cstr src)"
  by (simp add: str_copy_def str_copy_loop_eq word_gt_0)

lemma NUL_notin_str_copy: "NUL \<notin> set dst \<Longrightarrow> NUL \<notin> set (str_copy dst src sz)"
  using NUL_notin_cstr [of src]
  by (auto simp: str_copy_def str_copy_loop_eq dest: in_set_takeD)

lemma length_str_copy: "0 < sz \<Longrightarrow> length (str_copy dst src sz) < unat sz"
proof -
  assume "0 < sz"
  then have "0 < unat sz" by (simp add: unat_gt_0 word_gt_0)
  moreover have "length (str_copy dst src sz) \<le> unat sz - 1"
    using \<open>0 < sz\<close> by (simp add: str_copy_eq)
  ultimately show ?thesis by linarith
qed

section \<open>Decimal parsing\<close>

definition is_digit :: "char \<Rightarrow> bool" where
  "is_digit c \<longleftrightarrow> char_between (CHR ''0'') (CHR ''9'') c"

definition digit_val :: "char \<Rightarrow> nat" where
  "digit_val c = nat (char_val c - char_val (CHR ''0''))"

definition dec_value :: "string \<Rightarrow> nat" where
  "dec_value s = foldl (\<lambda>v c. v * 10 + digit_val c) 0 s"

lemma not_is_digit_NUL [simp]: "\<not> is_digit NUL"
  by (simp add: is_digit_def char_between_def char_val_def)

lemma foldl_dec_shift:
  "foldl (\<lambda>v c. v * 10 + digit_val c) a xs = a * 10 ^ length xs + dec_value xs"
proof (induction xs arbitrary: a)
  case (Cons c xs)
  have "dec_value (c # xs) = digit_val c * 10 ^ length xs + dec_value xs"
    using Cons.IH [of "digit_val c"] by (simp add: dec_value_def)
  with Cons.IH [of "a * 10 + digit_val c"] show ?case by (simp add: algebra_simps)
qed (simp add: dec_value_def)

lemma dec_value_Cons: "dec_value (c # xs) = digit_val c * 10 ^ length xs + dec_value xs"
  using foldl_dec_shift [of "digit_val c" xs] by (simp add: dec_value_def)

lemma parse_loop_eq:
  "parse_u32_dec_loop s v =
     (if list_all is_digit (cstr s)
      then (v * 10 ^ length (cstr s) + of_nat (dec_value (cstr s)), True)
      else (0, False))"
proof (induction s v rule: parse_u32_dec_loop.induct)
  case (1 s v)
  let ?c = "deref s"
  show ?case
  proof (cases "?c = NUL")
    case True
    then have "cstr s = []" by (simp add: cstr_Nil_iff)
    with True show ?thesis by (simp add: parse_u32_dec_loop.simps [of s v] dec_value_def)
  next
    case nz: False
    show ?thesis
    proof (cases "is_digit ?c")
      case False
      with nz show ?thesis
        by (auto simp: parse_u32_dec_loop.simps [of s v] cstr_unfold is_digit_def char_between_def)
    next
      case True
      have "of_int (char_val ?c - char_val (CHR ''0'')) = (of_nat (digit_val ?c) :: u32)"
        using True by (simp add: digit_val_def is_digit_def char_between_def)
      with 1 nz True show ?thesis
        by (auto simp: parse_u32_dec_loop.simps [of s v] cstr_unfold is_digit_def
            char_between_def dec_value_Cons algebra_simps)
    qed
  qed
qed

lemma parse_u32_dec_eq:
  "parse_u32_dec s =
     (if cstr s \<noteq> [] \<and> list_all is_digit (cstr s) then (of_nat (dec_value (cstr s)), True)
      else (0, False))"
  by (simp add: parse_u32_dec_def parse_loop_eq cstr_Nil_iff)

section \<open>Clearing memory\<close>

lemma mem_zero_bytes_eq: "mem_zero_bytes p n m x = (if in_block p n x then 0 else m x)"
  by (induction n arbitrary: p m) (auto simp: in_block_Suc)

lemma in_block_4:
  "in_block p (Suc (Suc (Suc (Suc k)))) x \<longleftrightarrow>
     x = p \<or> x = p + 1 \<or> x = p + 2 \<or> x = p + 3 \<or> in_block (p + 4) k x"
proof -
  have "p + 1 + 1 = p + 2" "p + 2 + 1 = p + 3" "p + 3 + 1 = p + 4" by simp_all
  then show ?thesis by (auto simp: in_block_Suc add.commute)
qed

lemma mem_zero_words_eq: "mem_zero_words p n m x = (if in_block p n x then 0 else m x)"
proof (induction n arbitrary: p m rule: less_induct)
  case (less n)
  show ?case
  proof (cases "4 \<le> n")
    case False
    then show ?thesis by (simp add: mem_zero_words.simps [of p n m] mem_zero_bytes_eq)
  next
    case True
    then obtain k where n: "n = Suc (Suc (Suc (Suc k)))"
      using that [of "n - 4"] by simp
    let ?m = "m(p := 0, p + 1 := 0, p + 2 := 0, p + 3 := 0)"
    have "mem_zero_words p n m x = mem_zero_words (p + 4) k ?m x"
      by (subst mem_zero_words.simps) (simp add: n)
    also have "\<dots> = (if in_block (p + 4) k x then 0 else ?m x)"
      by (rule less.IH) (simp add: n)
    finally show ?thesis by (auto simp: n in_block_4)
  qed
qed

lemma mem_zero_eq: "mem_zero p sz m x = (if in_block p (unat sz) x then 0 else m x)"
  by (simp add: mem_zero_def mem_zero_words_eq)

end
