(* ===== verification/Ktypes.thy ===== *)
theory Ktypes
  imports Prelude
begin

text \<open>
  The structures of \<^verbatim>\<open>kernel/kernel.h\<close> that several components share: the boot
  information, console targets, saved user registers and the result of \<^verbatim>\<open>stat\<close>.
  An \<^verbatim>\<open>int\<close> used as a flag is a \<open>bool\<close>; a pid is an \<open>int\<close>; an address is a \<open>u32\<close>.
\<close>

definition MULTIBOOT_MAGIC :: u32 where
  "MULTIBOOT_MAGIC = 0x2BADB002"

record multiboot_info =
  mb_flags :: u32
  mb_mem_lower :: u32
  mb_mem_upper :: u32

datatype console_target = CONSOLE_VGA | CONSOLE_SERIAL | CONSOLE_BOTH

record user_stat =
  st_mode :: u32
  st_size :: u32

record user_context =
  uc_edi :: u32
  uc_esi :: u32
  uc_ebp :: u32
  uc_esp_dummy :: u32
  uc_ebx :: u32
  uc_edx :: u32
  uc_ecx :: u32
  uc_eax :: u32
  uc_eip :: u32
  uc_cs :: u32
  uc_eflags :: u32
  uc_user_esp :: u32
  uc_user_ss :: u32

text \<open>The context after \<^verbatim>\<open>mem_zero\<close>.\<close>

definition zero_context :: user_context where
  "zero_context = \<lparr>uc_edi = 0, uc_esi = 0, uc_ebp = 0, uc_esp_dummy = 0, uc_ebx = 0,
     uc_edx = 0, uc_ecx = 0, uc_eax = 0, uc_eip = 0, uc_cs = 0, uc_eflags = 0,
     uc_user_esp = 0, uc_user_ss = 0\<rparr>"

end
