(* ===== verification/Kheap.thy ===== *)
theory Kheap
  imports Util Ktypes
begin

text \<open>
  \<^verbatim>\<open>kernel/heap.c\<close>: the kernel's watermark allocator.  \<open>heap_state\<close> is the static
  \<^verbatim>\<open>struct heap_state\<close>; \<open>kmem\<close> adds the byte memory the returned blocks lie in, and is the
  record the file system states extend.  The locale \<open>allocator\<close> is what clients may rely
  on: a block is fresh, does not wrap, and stays taken; its lemma says that any sequence
  of requests yields pairwise disjoint blocks.  It is interpreted on \<open>kmalloc\<close>.
\<close>

section \<open>Definitions\<close>

definition USER_IMAGE_RESERVED_BASE :: u32 where
  "USER_IMAGE_RESERVED_BASE = 0x00300000"

record heap_state =
  h_start :: u32
  h_current :: u32
  h_limit :: u32
  h_ready :: bool

record kmem =
  heap :: heap_state
  mem :: memory

definition align_up :: "u32 \<Rightarrow> u32 \<Rightarrow> u32" where
  "align_up v alignment = (let mask = alignment - 1 in (v + mask) AND NOT mask)"

text \<open>\<open>kernel_end\<close> is the address of the linker symbol; no boot information is \<open>None\<close>.\<close>

definition heap_init :: "u32 \<Rightarrow> multiboot_info option \<Rightarrow> u32 \<Rightarrow> heap_state" where
  "heap_init kernel_end mbi magic =
     (let heap_start = align_up kernel_end 16;
          h = \<lparr>h_start = heap_start, h_current = heap_start, h_limit = heap_start,
               h_ready = False\<rparr>
      in case mbi of
           None \<Rightarrow> h
         | Some i \<Rightarrow>
             if magic = MULTIBOOT_MAGIC \<and> mb_flags i AND 0x1 \<noteq> 0 then
               (let l1 = 0x00100000 + mb_mem_upper i * 1024;
                    l2 = align_up l1 16;
                    l3 = (if l2 > USER_IMAGE_RESERVED_BASE then USER_IMAGE_RESERVED_BASE else l2)
                in if l3 > heap_start then h\<lparr>h_limit := l3, h_ready := True\<rparr> else h)
             else h)"

definition kmalloc :: "u32 \<Rightarrow> 'a kmem_scheme \<Rightarrow> u32 \<times> 'a kmem_scheme" where
  "kmalloc sz s =
     (let h = heap s in
      if \<not> h_ready h \<or> sz = 0 then (NULL, s)
      else
        (let start = align_up (h_current h) 16;
             finish = start + sz
         in if finish < start \<or> finish > h_limit h then (NULL, s)
            else (start, s\<lparr>heap := h\<lparr>h_current := align_up finish 16\<rparr>\<rparr>)))"

definition kcalloc :: "u32 \<Rightarrow> 'a kmem_scheme \<Rightarrow> u32 \<times> 'a kmem_scheme" where
  "kcalloc sz s =
     (let (ptr, s1) = kmalloc sz s in
      if ptr \<noteq> NULL then (ptr, s1\<lparr>mem := mem_zero ptr sz (mem s1)\<rparr>) else (ptr, s1))"

definition heap_bytes_total :: "heap_state \<Rightarrow> u32" where
  "heap_bytes_total h = h_limit h - h_start h"

definition heap_bytes_used :: "heap_state \<Rightarrow> u32" where
  "heap_bytes_used h = h_current h - h_start h"

definition heap_bytes_free :: "heap_state \<Rightarrow> u32" where
  "heap_bytes_free h = h_limit h - h_current h"

definition heap_is_ready :: "heap_state \<Rightarrow> bool" where
  "heap_is_ready h = h_ready h"

section \<open>Alignment\<close>

lemma align_up_16_unat:
  assumes "unat v + 15 < 2 ^ 32"
  shows "unat (align_up v 16) = (unat v + 15) div 16 * 16"
proof -
  have "(15 :: u32) = mask 4" by (simp add: mask_eq_exp_minus_1)
  then have "align_up v 16 = (v + 15) AND NOT (mask 4)" by (simp add: align_up_def)
  then show ?thesis using assms by (simp add: unat_and_not_mask unat_add_exact)
qed

lemma align_up_16_fix:
  assumes "16 dvd unat v" and "unat v + 15 < 2 ^ 32" shows "align_up v 16 = v"
proof (rule word_unat_eq_iff [THEN iffD2])
  obtain k where k: "unat v = 16 * k" using assms(1) by blast
  have "(16 * k + 15) div 16 = k" by presburger
  then show "unat (align_up v 16) = unat v" using assms(2) by (simp add: align_up_16_unat k)
qed

lemma align_up_16_aligned: "16 dvd unat (align_up v 16)"
proof -
  have "(15 :: u32) = mask 4" by (simp add: mask_eq_exp_minus_1)
  then have "align_up v 16 = (v + 15) AND NOT (mask 4)" by (simp add: align_up_def)
  then show ?thesis by (simp add: unat_and_not_mask)
qed

section \<open>The allocator interface\<close>

text \<open>
  \<open>taken s\<close> is the set of addresses the allocator has handed out or passed over,
  \<open>arena s\<close> the addresses it may ever hand out.
\<close>

locale allocator =
  fixes alloc :: "u32 \<Rightarrow> 's \<Rightarrow> u32 \<times> 's"
    and ainv :: "'s \<Rightarrow> bool"
    and taken :: "'s \<Rightarrow> u32 set"
    and arena :: "'s \<Rightarrow> u32 set"
  assumes alloc_ainv: "ainv s \<Longrightarrow> alloc n s = (p, s') \<Longrightarrow> ainv s'"
    and alloc_NULL: "ainv s \<Longrightarrow> alloc n s = (NULL, s') \<Longrightarrow> s' = s"
    and alloc_mono: "ainv s \<Longrightarrow> alloc n s = (p, s') \<Longrightarrow> taken s \<subseteq> taken s'"
    and alloc_block: "ainv s \<Longrightarrow> alloc n s = (p, s') \<Longrightarrow> p \<noteq> NULL \<Longrightarrow>
          in_block p (unat n) x \<Longrightarrow> x \<notin> taken s \<and> x \<in> taken s' \<and> x \<in> arena s"
    and alloc_no_wrap: "ainv s \<Longrightarrow> alloc n s = (p, s') \<Longrightarrow> p \<noteq> NULL \<Longrightarrow>
          0 < unat n \<and> unat p + unat n < 2 ^ 32"
    and alloc_arena: "ainv s \<Longrightarrow> alloc n s = (p, s') \<Longrightarrow> arena s' = arena s"

text \<open>
  A run of requests and the blocks it returned, failed requests left out.
\<close>

fun alloc_seq :: "(u32 \<Rightarrow> 's \<Rightarrow> u32 \<times> 's) \<Rightarrow> u32 list \<Rightarrow> 's \<Rightarrow> (u32 \<times> u32) list \<times> 's" where
  "alloc_seq alloc [] s = ([], s)"
| "alloc_seq alloc (n # ns) s =
     (let (p, s1) = alloc n s; (bs, s2) = alloc_seq alloc ns s1
      in (if p = NULL then bs else (p, n) # bs, s2))"

fun blocks_disjoint :: "(u32 \<times> u32) list \<Rightarrow> bool" where
  "blocks_disjoint [] = True"
| "blocks_disjoint ((p, n) # bs) =
     (list_all (\<lambda>(q, k). unat p + unat n \<le> unat q \<or> unat q + unat k \<le> unat p) bs \<and>
      blocks_disjoint bs)"

context allocator
begin

lemma alloc_seq_ainv: "ainv s \<Longrightarrow> alloc_seq alloc ns s = (bs, s') \<Longrightarrow> ainv s'"
  by (induction ns arbitrary: s bs s') (auto split: prod.splits dest: alloc_ainv)

lemma alloc_seq_fresh:
  "ainv s \<Longrightarrow> alloc_seq alloc ns s = (bs, s') \<Longrightarrow> (q, k) \<in> set bs \<Longrightarrow>
   q \<noteq> NULL \<and> 0 < unat k \<and> unat q + unat k < 2 ^ 32 \<and>
   (\<forall>x. in_block q (unat k) x \<longrightarrow> x \<notin> taken s \<and> x \<in> arena s)"
proof (induction ns arbitrary: s bs)
  case (Cons n ns)
  obtain p s1 where a: "alloc n s = (p, s1)" by fastforce
  obtain bs1 s2 where b: "alloc_seq alloc ns s1 = (bs1, s2)" by fastforce
  have bs: "bs = (if p = NULL then bs1 else (p, n) # bs1)" and s2: "s' = s2"
    using Cons.prems(2) a b by auto
  have i1: "ainv s1" using alloc_ainv [OF Cons.prems(1) a] .
  show ?case
  proof (cases "p \<noteq> NULL \<and> (q, k) = (p, n)")
    case True
    then have "p \<noteq> NULL" "q = p" "k = n" by auto
    then show ?thesis
      using alloc_block [OF Cons.prems(1) a] alloc_no_wrap [OF Cons.prems(1) a] by blast
  next
    case False
    then have "(q, k) \<in> set bs1" using Cons.prems(3) bs by (auto split: if_splits)
    then have "q \<noteq> NULL \<and> 0 < unat k \<and> unat q + unat k < 2 ^ 32 \<and>
        (\<forall>x. in_block q (unat k) x \<longrightarrow> x \<notin> taken s1 \<and> x \<in> arena s1)"
      using Cons.IH [OF i1 b [folded s2]] by blast
    then show ?thesis
      using alloc_mono [OF Cons.prems(1) a] alloc_arena [OF Cons.prems(1) a] by blast
  qed
qed simp

lemma alloc_seq_disjoint: "ainv s \<Longrightarrow> alloc_seq alloc ns s = (bs, s') \<Longrightarrow> blocks_disjoint bs"
proof (induction ns arbitrary: s bs)
  case (Cons n ns)
  obtain p s1 where a: "alloc n s = (p, s1)" by fastforce
  obtain bs1 s2 where b: "alloc_seq alloc ns s1 = (bs1, s2)" by fastforce
  have bs: "bs = (if p = NULL then bs1 else (p, n) # bs1)" and s2: "s' = s2"
    using Cons.prems(2) a b by auto
  have i1: "ainv s1" using alloc_ainv [OF Cons.prems(1) a] .
  have tail: "blocks_disjoint bs1" using Cons.IH [OF i1 b [folded s2]] .
  have "unat p + unat n \<le> unat q \<or> unat q + unat k \<le> unat p"
    if qk: "(q, k) \<in> set bs1" and p: "p \<noteq> NULL" for q k
  proof (rule ccontr)
    assume "\<not> ?thesis"
    then have o: "unat q < unat p + unat n" "unat p < unat q + unat k" by auto
    have w: "0 < unat n" "unat p + unat n < 2 ^ 32"
      using alloc_no_wrap [OF Cons.prems(1) a p] by auto
    have f: "0 < unat k" "unat q + unat k < 2 ^ 32" "\<forall>x. in_block q (unat k) x \<longrightarrow> x \<notin> taken s1"
      using alloc_seq_fresh [OF i1 b qk] by auto
    define x where "x = (if p \<le> q then q else p)"
    have "in_block p (unat n) x" "in_block q (unat k) x"
      using o w f by (auto simp: x_def in_block_iff word_le_nat_alt split: if_splits)
    then show False using alloc_block [OF Cons.prems(1) a p] f(3) by blast
  qed
  with tail show ?case by (auto simp: bs list_all_iff)
qed simp

end

section \<open>The invariant\<close>

definition heap_inv :: "heap_state \<Rightarrow> bool" where
  "heap_inv h \<longleftrightarrow>
     0 < h_start h \<and> h_start h \<le> h_current h \<and> h_current h \<le> h_limit h \<and>
     16 dvd unat (h_start h) \<and> 16 dvd unat (h_current h) \<and> 16 dvd unat (h_limit h) \<and>
     (if h_ready h then h_limit h \<le> USER_IMAGE_RESERVED_BASE else h_limit h = h_start h)"

definition heap_taken :: "heap_state \<Rightarrow> u32 set" where
  "heap_taken h = {x. x < h_current h}"

lemma kmalloc_eqD:
  assumes "kmalloc n s = (p, s')"
  shows "p = NULL \<and> s' = s \<or>
    h_ready (heap s) \<and> n \<noteq> 0 \<and> p = align_up (h_current (heap s)) 16 \<and> p \<le> p + n \<and>
    p + n \<le> h_limit (heap s) \<and> s' = s\<lparr>heap := (heap s)\<lparr>h_current := align_up (p + n) 16\<rparr>\<rparr>"
  using assms by (auto simp: kmalloc_def Let_def not_less split: if_splits)

text \<open>A successful request starts at the watermark and moves it past the block.\<close>

lemma kmalloc_ok:
  assumes inv: "heap_inv (heap s)" and k: "kmalloc n s = (p, s')" and p: "p \<noteq> NULL"
  shows "p = h_current (heap s)" and "0 < unat n"
    and "unat p + unat n \<le> unat (h_limit (heap s))"
    and "unat (h_current (heap s')) = (unat p + unat n + 15) div 16 * 16"
    and "s' = s\<lparr>heap := (heap s)\<lparr>h_current := h_current (heap s')\<rparr>\<rparr>"
    and "h_limit (heap s) \<le> USER_IMAGE_RESERVED_BASE" and "h_ready (heap s)"
proof -
  from p k have *: "h_ready (heap s)" "n \<noteq> 0" "p = align_up (h_current (heap s)) 16"
      "p \<le> p + n" "p + n \<le> h_limit (heap s)"
      "s' = s\<lparr>heap := (heap s)\<lparr>h_current := align_up (p + n) 16\<rparr>\<rparr>"
    using kmalloc_eqD [OF k] by auto
  have lim: "h_limit (heap s) \<le> 0x300000" "h_current (heap s) \<le> h_limit (heap s)"
      "16 dvd unat (h_current (heap s))"
    using inv *(1) by (auto simp: heap_inv_def USER_IMAGE_RESERVED_BASE_def)
  then have cur: "unat (h_current (heap s)) + 15 < 2 ^ 32"
    by (simp add: word_le_nat_alt)
  show pc: "p = h_current (heap s)" using *(3) lim(3) cur by (simp add: align_up_16_fix)
  show "0 < unat n" using *(2) by (simp add: unat_gt_0)
  have nw: "unat p + unat n < 2 ^ 32" using *(4) by (simp add: add_no_wrap_iff)
  then show le: "unat p + unat n \<le> unat (h_limit (heap s))"
    using *(5) by (simp add: word_le_nat_alt unat_add_exact)
  then have "unat p + unat n + 15 < 2 ^ 32" using lim(1) by (simp add: word_le_nat_alt)
  then show "unat (h_current (heap s')) = (unat p + unat n + 15) div 16 * 16"
    using *(6) nw by (simp add: align_up_16_unat unat_add_exact)
  show "s' = s\<lparr>heap := (heap s)\<lparr>h_current := h_current (heap s')\<rparr>\<rparr>" using *(6) by simp
  show "h_limit (heap s) \<le> USER_IMAGE_RESERVED_BASE" and "h_ready (heap s)"
    using lim(1) *(1) by (simp_all add: USER_IMAGE_RESERVED_BASE_def)
qed

lemma round_up_16: "m \<le> l \<Longrightarrow> 16 dvd l \<Longrightarrow> (m + 15) div 16 * 16 \<le> (l :: nat)"
proof -
  assume "m \<le> l" "16 dvd l"
  then obtain k where "l = 16 * k" by blast
  have "(m + 15) div 16 \<le> (16 * k + 15) div 16"
    using \<open>m \<le> l\<close> \<open>l = 16 * k\<close> by (intro div_le_mono) simp
  then have "(m + 15) div 16 \<le> k" by simp
  with \<open>l = 16 * k\<close> show ?thesis by simp
qed

lemma le_round_up_16: "(m :: nat) \<le> (m + 15) div 16 * 16"
  by linarith

lemma kmalloc_NULL:
  assumes inv: "heap_inv (heap s)" and k: "kmalloc n s = (NULL, s')"
  shows "s' = s"
proof (rule ccontr)
  assume "s' \<noteq> s"
  then have *: "h_ready (heap s)" "NULL = align_up (h_current (heap s)) 16"
    using kmalloc_eqD [OF k] by auto
  have "h_current (heap s) \<le> 0x300000" "16 dvd unat (h_current (heap s))" "0 < h_current (heap s)"
    using inv *(1) by (auto simp: heap_inv_def USER_IMAGE_RESERVED_BASE_def)
  then have "align_up (h_current (heap s)) 16 \<noteq> NULL"
    by (subst align_up_16_fix) (auto simp: word_le_nat_alt)
  with *(2) show False by simp
qed

lemma kmalloc_heap_inv [inv_intros]:
  assumes inv: "heap_inv (heap s)" and k: "kmalloc n s = (p, s')"
  shows "heap_inv (heap s')"
proof (cases "p = NULL")
  case True
  then show ?thesis using k inv kmalloc_NULL by blast
next
  case False
  note ok = kmalloc_ok [OF inv k False]
  let ?c = "unat (h_current (heap s'))"
  have h': "heap s' = (heap s)\<lparr>h_current := h_current (heap s')\<rparr>" by (subst ok(5)) simp
  have "?c \<le> unat (h_limit (heap s))"
    unfolding ok(4) using ok(3) inv by (intro round_up_16) (auto simp: heap_inv_def)
  moreover have "unat (h_current (heap s)) \<le> ?c" 
    using le_round_up_16 [of "unat p + unat n"] by (simp add: ok(4) flip: ok(1))
  moreover have "16 dvd ?c" unfolding ok(4) by simp
  ultimately show ?thesis
    using inv by (subst h') (auto simp: heap_inv_def word_le_nat_alt)
qed

interpretation kheap: allocator kmalloc "\<lambda>s. heap_inv (heap s)" "\<lambda>s. heap_taken (heap s)"
  "\<lambda>s. {x. h_start (heap s) \<le> x \<and> x < h_limit (heap s)}"
proof (unfold_locales, goal_cases)
  case 1
  then show ?case by (rule kmalloc_heap_inv)
next
  case 2
  then show ?case by (rule kmalloc_NULL)
next
  case (3 s n p s')
  show ?case
  proof (cases "p = NULL")
    case True
    with 3 show ?thesis using kmalloc_NULL by blast
  next
    case False
    note ok = kmalloc_ok [OF 3 False]
    have "unat (h_current (heap s)) \<le> unat (h_current (heap s'))"
      using le_round_up_16 [of "unat p + unat n"] by (simp add: ok(4) flip: ok(1))
    then show ?thesis by (auto simp: heap_taken_def word_less_nat_alt)
  qed
next
  case (4 s n p s' x)
  note ok = kmalloc_ok [OF 4(1-3)]
  have "unat p + unat n < 2 ^ 32" using ok(3,6) unat_u32_bound
    by (simp add: word_le_nat_alt USER_IMAGE_RESERVED_BASE_def)
  then have x: "unat p \<le> unat x" "unat x < unat p + unat n"
    using 4(4) by (simp_all add: in_block_iff)
  have "unat p + unat n \<le> unat (h_current (heap s'))"
    using le_round_up_16 [of "unat p + unat n"] by (simp add: ok(4))
  then show ?case using x ok(3) 4(1)
    by (auto simp: heap_taken_def word_less_nat_alt word_le_nat_alt heap_inv_def ok(1) [symmetric])
next
  case (5 s n p s')
  note ok = kmalloc_ok [OF 5]
  show ?case using ok(2,3,6) by (simp add: word_le_nat_alt USER_IMAGE_RESERVED_BASE_def)
next
  case (6 s n p s')
  then show ?case using kmalloc_eqD [OF 6(2)] by auto
qed

section \<open>Further facts for the clients\<close>

lemma kmalloc_more [frame_simps]:
  "kmalloc n s = (p, s') \<Longrightarrow> mem s' = mem s \<and> kmem.more s' = kmem.more s"
  using kmalloc_eqD by fastforce

lemma kcalloc_heap: "kcalloc n s = (p, s') \<Longrightarrow> \<exists>s1. kmalloc n s = (p, s1)"
  by (auto simp: kcalloc_def split: prod.splits if_splits)

text \<open>The last decision of \<open>heap_init\<close>, for any aligned limit below the reserved region.\<close>

lemma heap_inv_start:
  assumes "0 < st" and "16 dvd unat st" and "16 dvd unat l" and "l \<le> USER_IMAGE_RESERVED_BASE"
    and "h = \<lparr>h_start = st, h_current = st, h_limit = st, h_ready = False\<rparr>"
  shows "heap_inv h" and "heap_inv (if l > st then h\<lparr>h_limit := l, h_ready := True\<rparr> else h)"
  using assms by (auto simp: heap_inv_def)

section \<open>Properties\<close>

text \<open>
  C8: whatever sizes are requested in whatever order, the blocks \<open>kmalloc\<close> hands out are
  pairwise disjoint, never null, non-empty, lie between the end of the kernel and the heap limit
  (so below the region reserved for user images), and the invariant of the heap still
  holds afterwards.
\<close>

theorem kmalloc_run_disjoint:
  assumes "heap_inv (heap s)" and "alloc_seq kmalloc ns s = (bs, s')"
  shows "heap_inv (heap s') \<and> blocks_disjoint bs \<and>
    (\<forall>(p, n) \<in> set bs. p \<noteq> NULL \<and> 0 < unat n \<and> h_start (heap s) \<le> p \<and>
        unat p + unat n \<le> unat (h_limit (heap s)))"
proof -
  have "p \<noteq> NULL \<and> 0 < unat n \<and> h_start (heap s) \<le> p \<and>
        unat p + unat n \<le> unat (h_limit (heap s))" if pn: "(p, n) \<in> set bs" for p n
  proof -
    have f: "p \<noteq> NULL" "0 < unat n" "unat p + unat n < 2 ^ 32"
      "\<And>x. in_block p (unat n) x \<Longrightarrow> h_start (heap s) \<le> x \<and> x < h_limit (heap s)"
      using kheap.alloc_seq_fresh [OF assms pn] by auto
    define x where "x = p + (n - 1)"
    have "unat (n - 1) = unat n - 1" using f(2) by (intro unat_minus_one) (auto simp: unat_gt_0)
    then have x: "unat x = unat p + unat n - 1"
      unfolding x_def using f(2,3) by (subst unat_add_exact) auto
    then have "in_block p (unat n) x" using f(2,3) by (auto simp: in_block_iff)
    then have "unat x < unat (h_limit (heap s))" using f(4) by (simp add: word_less_nat_alt)
    then show ?thesis using f x by auto
  qed
  then show ?thesis
    using kheap.alloc_seq_ainv [OF assms] kheap.alloc_seq_disjoint [OF assms] by blast
qed

text \<open>
  \<open>kcalloc\<close> returns a block of zero bytes, writes no byte outside that block, and takes it
  from the heap exactly as \<open>kmalloc\<close> does; when it fails it changes nothing.
\<close>

theorem kcalloc_zeroed:
  assumes "heap_inv (heap s)" and "kcalloc n s = (p, s')"
  shows "(p = NULL \<longrightarrow> s' = s) \<and> fst (kmalloc n s) = p \<and> heap s' = heap (snd (kmalloc n s)) \<and>
    (p \<noteq> NULL \<longrightarrow> mem_read (mem s') p (unat n) = replicate (unat n) 0) \<and>
    (\<forall>x. p = NULL \<or> \<not> in_block p (unat n) x \<longrightarrow> mem s' x = mem s x)"
proof -
  obtain s1 where k: "kmalloc n s = (p, s1)" using kcalloc_heap [OF assms(2)] by blast
  have s': "s' = (if p = NULL then s1 else s1\<lparr>mem := mem_zero p n (mem s1)\<rparr>)"
    using assms(2) k by (auto simp: kcalloc_def)
  have m: "mem s1 = mem s" using kmalloc_more [OF k] by simp
  have z: "mem_read (mem_zero p n (mem s)) p (unat n) = replicate (unat n) 0" if "p \<noteq> NULL"
  proof -
    have "unat p + unat n < 2 ^ 32" using kheap.alloc_no_wrap [OF assms(1) k that] by simp
    then have "in_block p (unat n) (p + of_nat i)" if "i < unat n" for i
      using that by (simp add: in_block_def unat_of_nat_exact)
    then show ?thesis
      by (intro nth_equalityI) (auto simp: mem_read_nth mem_zero_eq)
  qed
  show ?thesis
    using s' m z k kmalloc_NULL [OF assms(1), of n s1] by (auto simp: mem_zero_eq)
qed

lemma heap_init_inv:
  assumes "0 < kernel_end" and "kernel_end \<le> 0xFFFFFFF0"
  shows "heap_inv (heap_init kernel_end mbi magic)" and "kernel_end \<le> h_start (heap_init kernel_end mbi magic)"
proof -
  let ?st = "align_up kernel_end 16"
  have b: "0 < unat kernel_end" "unat kernel_end + 15 < 2 ^ 32"
    using assms by (simp_all add: word_le_nat_alt unat_gt_0 word_gt_0)
  then have le: "unat kernel_end \<le> unat ?st"
    using le_round_up_16 [of "unat kernel_end"] by (simp add: align_up_16_unat)
  then show "kernel_end \<le> h_start (heap_init kernel_end mbi magic)"
    by (simp add: heap_init_def Let_def word_le_nat_alt split: option.split)
  from b le have st: "0 < ?st" by (simp add: word_less_nat_alt)
  let ?l = "\<lambda>i. let l2 = align_up (0x00100000 + mb_mem_upper i * 1024) 16
              in if l2 > USER_IMAGE_RESERVED_BASE then USER_IMAGE_RESERVED_BASE else l2"
  have l: "16 dvd unat (?l i)" "?l i \<le> USER_IMAGE_RESERVED_BASE" for i
    by (auto simp: Let_def align_up_16_aligned USER_IMAGE_RESERVED_BASE_def)
  note hi = heap_inv_start [OF st align_up_16_aligned l refl]
  show "heap_inv (heap_init kernel_end mbi magic)"
  proof (cases "\<exists>i. mbi = Some i \<and> magic = MULTIBOOT_MAGIC \<and> mb_flags i AND 0x1 \<noteq> 0")
    case True
    then obtain i where "mbi = Some i" "magic = MULTIBOOT_MAGIC" "mb_flags i AND 0x1 \<noteq> 0" by blast
    then show ?thesis using hi(2) [of i] unfolding heap_init_def Let_def by simp
  next
    case False
    then show ?thesis using hi(1) unfolding heap_init_def Let_def by (auto split: option.split)
  qed
qed

text \<open>
  C37: from any kernel end below the top of the address space the heap starts out
  well-formed: aligned, empty, and, when the boot information makes it ready, limited to
  the memory below the user image region; used and free bytes always add up to the total.
\<close>

theorem heap_init_wf:
  assumes "0 < kernel_end" and "kernel_end \<le> 0xFFFFFFF0"
  shows "heap_inv (heap_init kernel_end mbi magic) \<and>
    heap_bytes_used (heap_init kernel_end mbi magic) = 0 \<and>
    (\<forall>h. heap_bytes_used h + heap_bytes_free h = heap_bytes_total h)"
proof -
  have "heap_bytes_used (heap_init kernel_end mbi magic) = 0"
    by (simp add: heap_init_def heap_bytes_used_def Let_def split: option.split)
  then show ?thesis
    using heap_init_inv(1) [OF assms] by (simp add: heap_bytes_used_def heap_bytes_free_def heap_bytes_total_def)
qed

text \<open>What a client of the two allocation functions relies on, in one place.\<close>

lemma kmalloc_frame:
  assumes "heap_inv (heap s)" and "kmalloc n s = (p, s')" and "p \<noteq> NULL"
  shows "p = h_current (heap s)" and "heap_inv (heap s')"
    and "unat p + unat n \<le> unat (h_current (heap s'))"
    and "h_limit (heap s') = h_limit (heap s)"
    and "unat p + unat n \<le> unat (h_limit (heap s))"
    and "s' = s\<lparr>heap := heap s'\<rparr>"
    and "0 < unat n"
proof -
  note ok = kmalloc_ok [OF assms]
  show "p = h_current (heap s)" "unat p + unat n \<le> unat (h_limit (heap s))" "0 < unat n"
    using ok(1-3) by simp_all
  show "heap_inv (heap s')" using assms(1,2) by (rule kmalloc_heap_inv)
  show "unat p + unat n \<le> unat (h_current (heap s'))" using le_round_up_16 by (simp add: ok(4))
  show "h_limit (heap s') = h_limit (heap s)" by (subst ok(5)) simp
  show "s' = s\<lparr>heap := heap s'\<rparr>" by (subst (1 2) ok(5)) simp
qed

lemma kcalloc_frame:
  assumes "heap_inv (heap s)" and "kcalloc n s = (p, s')"
  shows "p = NULL \<Longrightarrow> s' = s"
    and "p = NULL \<longleftrightarrow> fst (kmalloc n s) = NULL"
    and "p \<noteq> NULL \<Longrightarrow> p = h_current (heap s) \<and> heap_inv (heap s') \<and>
      unat p + unat n \<le> unat (h_current (heap s')) \<and> h_limit (heap s') = h_limit (heap s) \<and> 0 < unat n \<and>
      s' = s\<lparr>heap := heap s', mem := mem s'\<rparr> \<and> (\<forall>x. \<not> in_block p (unat n) x \<longrightarrow> mem s' x = mem s x)"
proof -
  obtain q s1 where k: "kmalloc n s = (q, s1)" by fastforce
  have eq: "p = q" "s' = (if q \<noteq> NULL then s1\<lparr>mem := mem_zero q n (mem s1)\<rparr> else s1)"
    using assms(2) by (auto simp: kcalloc_def k split: if_splits)
  show "p = NULL \<Longrightarrow> s' = s" using k eq kmalloc_NULL [OF assms(1)] by simp
  show "p = NULL \<longleftrightarrow> fst (kmalloc n s) = NULL" by (simp add: k eq(1))
  assume nz: "p \<noteq> NULL"
  then have q: "q \<noteq> NULL" by (simp add: eq(1))
  note f = kmalloc_frame [OF assms(1) k q]
  have "mem s1 = mem s" by (subst f(6)) simp
  then show "p = h_current (heap s) \<and> heap_inv (heap s') \<and>
      unat p + unat n \<le> unat (h_current (heap s')) \<and> h_limit (heap s') = h_limit (heap s) \<and> 0 < unat n \<and>
      s' = s\<lparr>heap := heap s', mem := mem s'\<rparr> \<and> (\<forall>x. \<not> in_block p (unat n) x \<longrightarrow> mem s' x = mem s x)"
    using f q eq by (simp add: mem_zero_eq)
qed

section \<open>Witnesses\<close>

definition demo_heap :: heap_state where
  "demo_heap = \<lparr>h_start = 0x200000, h_current = 0x200000, h_limit = 0x300000, h_ready = True\<rparr>"

definition demo_kmem :: kmem where
  "demo_kmem = \<lparr>heap = demo_heap, mem = (\<lambda>_. 0xAA)\<rparr>"

lemma demo_heap_inv: "heap_inv demo_heap"
  by (simp add: heap_inv_def demo_heap_def USER_IMAGE_RESERVED_BASE_def)

theorem kmalloc_run_disjoint_witness:
  "fst (alloc_seq kmalloc [56, 100] demo_kmem) = [(0x200000, 56), (0x200040, 100)] \<and>
   blocks_disjoint (fst (alloc_seq kmalloc [56, 100] demo_kmem))"
proof -
  have "heap_inv (heap demo_kmem)" by (simp add: demo_kmem_def demo_heap_inv)
  then have "blocks_disjoint (fst (alloc_seq kmalloc [56, 100] demo_kmem))"
    using kmalloc_run_disjoint [of demo_kmem "[56, 100]"] by (metis prod.collapse)
  then show ?thesis
    by (simp add: demo_kmem_def demo_heap_def kmalloc_def align_up_def)
qed

theorem kcalloc_zeroed_witness:
  "fst (kcalloc 3 demo_kmem) = 0x200000 \<and>
   mem_read (mem (snd (kcalloc 3 demo_kmem))) 0x200000 3 = [0, 0, 0]"
proof -
  have h: "heap_inv (heap demo_kmem)" by (simp add: demo_kmem_def demo_heap_inv)
  have p: "fst (kcalloc 3 demo_kmem) = 0x200000"
    by (simp add: kcalloc_def demo_kmem_def demo_heap_def kmalloc_def align_up_def)
  have "mem_read (mem (snd (kcalloc 3 demo_kmem))) 0x200000 3 = replicate 3 0"
    using kcalloc_zeroed [OF h, of 3 "0x200000" "snd (kcalloc 3 demo_kmem)"] p
    by (simp add: prod_eq_iff)
  with p show ?thesis by (simp add: numeral_3_eq_3)
qed

theorem heap_init_wf_witness:
  "heap_inv (heap_init 0x1F0004 (Some \<lparr>mb_flags = 1, mb_mem_lower = 640, mb_mem_upper = 3072\<rparr>)
     MULTIBOOT_MAGIC)"
  using heap_init_wf [of "0x1F0004"] by simp

end
