(* ===== verification/Storage.thy ===== *)
theory Storage
  imports Util
begin

text \<open>
  \<^verbatim>\<open>kernel/storage.c\<close>: the registry of block devices.  A device's \<^verbatim>\<open>read\<close> callback, applied to
  its context pointer, is a function from a start sector and a sector count to the bytes it
  leaves in the buffer, or \<open>None\<close> where it returns 0; what the callback does is hardware and
  stays a parameter.  A \<^verbatim>\<open>const struct block_device *\<close> is the device it points to, or \<open>None\<close>.
\<close>

type_synonym block_read_fn = "u32 \<Rightarrow> u32 \<Rightarrow> u8 list option"

record block_device =
  bd_id :: int
  bd_name :: string
  bd_sector_size :: u32
  bd_read :: block_read_fn

record storage_state =
  devices :: "block_device list"
  device_count :: u32

definition MAX_BLOCK_DEVICES :: u32 where "MAX_BLOCK_DEVICES = 8"

text \<open>The registry before the first registration: the array is zero, no device is read.\<close>

definition storage_empty :: storage_state where
  "storage_empty = \<lparr>devices = replicate 8 \<lparr>bd_id = 0, bd_name = '''', bd_sector_size = 0,
     bd_read = (\<lambda>_ _. None)\<rparr>, device_count = 0\<rparr>"

fun copy_name_loop :: "string \<Rightarrow> u32 \<Rightarrow> u32 \<Rightarrow> string" where
  "copy_name_loop [] i max_chars = []"
| "copy_name_loop (c # src) i max_chars =
     (if c \<noteq> NUL \<and> i + 1 < max_chars then c # copy_name_loop src (i + 1) max_chars else [])"

definition copy_name :: "string \<Rightarrow> string \<Rightarrow> u32 \<Rightarrow> string" where
  "copy_name dst src max_chars = (if max_chars = 0 then dst else copy_name_loop src 0 max_chars)"

definition storage_register_device ::
  "string option \<Rightarrow> u32 \<Rightarrow> block_read_fn option \<Rightarrow> storage_state \<Rightarrow> int \<times> storage_state" where
  "storage_register_device name sector_size read st =
     (case (name, read) of
        (Some n, Some f) \<Rightarrow>
          if sector_size = 0 \<or> device_count st \<ge> MAX_BLOCK_DEVICES then (- 1, st)
          else
            let i = unat (device_count st) in
            (sint (device_count st),
             st\<lparr>devices := (devices st)[i := \<lparr>bd_id = sint (device_count st),
                   bd_name = copy_name (bd_name (devices st ! i)) n 16,
                   bd_sector_size = sector_size, bd_read = f\<rparr>],
                device_count := device_count st + 1\<rparr>)
      | _ \<Rightarrow> (- 1, st))"

definition storage_get_device :: "storage_state \<Rightarrow> int \<Rightarrow> block_device option" where
  "storage_get_device st dev_id =
     (if dev_id < 0 \<or> (word_of_int dev_id :: u32) \<ge> device_count st then None
      else Some (devices st ! nat dev_id))"

definition storage_find_device :: "storage_state \<Rightarrow> string \<Rightarrow> block_device option" where
  "storage_find_device st name =
     map_option (\<lambda>i. devices st ! i)
       (find_index (\<lambda>d. str_eq (bd_name d) name) (take (unat (device_count st)) (devices st)))"

definition storage_read :: "storage_state \<Rightarrow> int \<Rightarrow> u32 \<Rightarrow> u32 \<Rightarrow> u8 list option" where
  "storage_read st device_id lba count =
     (case storage_get_device st device_id of
        None \<Rightarrow> None
      | Some dev \<Rightarrow> if count = 0 then None else bd_read dev lba count)"

definition storage_device_count :: "storage_state \<Rightarrow> u32" where
  "storage_device_count st = device_count st"

section \<open>What the operations do\<close>

definition storage_inv :: "storage_state \<Rightarrow> bool" where
  "storage_inv st \<longleftrightarrow> length (devices st) = unat MAX_BLOCK_DEVICES \<and> device_count st \<le> MAX_BLOCK_DEVICES \<and>
     (\<forall>i < unat (device_count st). bd_id (devices st ! i) = int i \<and> bd_sector_size (devices st ! i) \<noteq> 0)"

lemma storage_empty_inv: "storage_inv storage_empty"
  by (simp add: storage_inv_def storage_empty_def MAX_BLOCK_DEVICES_def)

lemma copy_name_loop_eq:
  "i < m \<Longrightarrow> copy_name_loop src i m = take (unat (m - i) - 1) (cstr src)"
proof (induction src arbitrary: i)
  case (Cons c src)
  have sub: "unat (m - i) = unat m - unat i" "unat i < unat m"
    using Cons.prems by (simp_all add: unat_sub_exact word_less_nat_alt [symmetric] less_imp_le)
  have i1: "unat (i + 1) = unat i + 1"
    using sub(2) unat_u32_bound [of m] by (subst unat_add_exact) simp_all
  show ?case
  proof (cases "c \<noteq> NUL \<and> i + 1 < m")
    case True
    then have "unat (m - (i + 1)) = unat m - unat (i + 1)" by (intro unat_sub_exact less_imp_le) simp
    moreover have "unat i + 1 < unat m" using True i1 by (simp add: word_less_nat_alt)
    ultimately show ?thesis using True Cons.IH [of "i + 1"] sub
      by (auto simp: i1 take_Cons')
  next
    case False
    then show ?thesis using sub by (auto simp: word_less_nat_alt i1 take_Cons')
  qed
qed simp

lemma copy_name_16: "copy_name dst src 16 = take 15 (cstr src)"
  by (simp add: copy_name_def copy_name_loop_eq)

lemma count_small: "storage_inv st \<Longrightarrow> unat (device_count st) \<le> 8"
  by (simp add: storage_inv_def MAX_BLOCK_DEVICES_def word_le_nat_alt)

lemma storage_get_device_eq:
  assumes "storage_inv st" and "dev_id < 2 ^ 31"
  shows "storage_get_device st dev_id =
    (if 0 \<le> dev_id \<and> dev_id < uint (device_count st) then Some (devices st ! nat dev_id) else None)"
proof (cases "dev_id < 0")
  case False
  then have "unat (word_of_int dev_id :: u32) = nat dev_id"
    using assms(2) by (intro unat_of_int_small) simp_all
  then show ?thesis using False
    by (auto simp: storage_get_device_def word_le_nat_alt not_le nat_less_unat_iff [symmetric])
qed (simp add: storage_get_device_def)

lemma storage_register_spec:
  assumes "storage_inv st" and "storage_register_device name ss read st = (r, st')"
  shows "(r = - 1 \<longleftrightarrow> name = None \<or> read = None \<or> ss = 0 \<or> unat (device_count st) = 8) \<and>
    (r = - 1 \<longrightarrow> st' = st) \<and>
    (r \<noteq> - 1 \<longrightarrow> storage_inv st' \<and> r = uint (device_count st) \<and>
       unat (storage_device_count st') = unat (storage_device_count st) + 1 \<and>
       storage_get_device st' r = Some \<lparr>bd_id = r, bd_name = take 15 (cstr (the name)),
         bd_sector_size = ss, bd_read = the read\<rparr> \<and>
       (\<forall>lba count. storage_read st' r lba count = (if count = 0 then None else the read lba count)) \<and>
       (\<forall>k < r. storage_get_device st' k = storage_get_device st k))"
proof (cases "name = None \<or> read = None \<or> ss = 0 \<or> device_count st \<ge> MAX_BLOCK_DEVICES")
  case True
  then show ?thesis using assms
    by (auto simp: storage_register_device_def storage_inv_def MAX_BLOCK_DEVICES_def word_le_nat_alt
        split: option.splits)
next
  case False
  then obtain n f where nf: "name = Some n" "read = Some f" by auto
  let ?c = "unat (device_count st)"
  have lt: "?c < 8" using False by (simp add: MAX_BLOCK_DEVICES_def word_le_nat_alt not_le)
  have si: "sint (device_count st) = uint (device_count st)"
    using lt by (intro sint_small) simp
  have c1: "unat (device_count st + 1) = ?c + 1" using lt by (subst unat_add_exact) simp_all
  let ?d = "\<lparr>bd_id = uint (device_count st), bd_name = take 15 (cstr n), bd_sector_size = ss, bd_read = f\<rparr>"
  have st': "r = uint (device_count st)" "st' = st\<lparr>devices := (devices st)[?c := ?d], device_count := device_count st + 1\<rparr>"
    using assms(2) False by (auto simp: storage_register_device_def nf copy_name_16 si Let_def)
  have u1: "uint (device_count st + 1) = uint (device_count st) + 1" using lt by (intro uint_inc) simp
  have small: "uint (device_count st) < 8" using uint_less_of_unat [OF lt] by simp
  have inv': "storage_inv st'"
    using assms(1) False lt unfolding storage_inv_def st'
    by (auto simp: c1 nth_list_update less_Suc_eq MAX_BLOCK_DEVICES_def word_le_nat_alt)
  have len: "length (devices st) = 8" using assms(1) by (simp add: storage_inv_def MAX_BLOCK_DEVICES_def)
  have get: "storage_get_device st' r = Some ?d"
    using storage_get_device_eq [OF inv', of r] small len lt by (simp add: st' u1)
  have keep: "storage_get_device st' k = storage_get_device st k" if "k < r" for k
    using storage_get_device_eq [OF inv', of k] storage_get_device_eq [OF assms(1), of k] that small
      nat_less_unat_iff [of k "device_count st"]
    by (auto simp: st' u1)
  have "r \<noteq> - 1" using uint_ge_0 [of "device_count st"] unfolding st'(1) by linarith
  then show ?thesis
    using get keep inv' False lt st'(1)
    by (auto simp: nf c1 st'(2) storage_device_count_def storage_read_def)
qed

lemma storage_register_inv:
  "storage_inv st \<Longrightarrow> storage_register_device name ss read st = (r, st') \<Longrightarrow> storage_inv st'"
  using storage_register_spec [of st name ss read r st'] by blast

section \<open>Properties\<close>

text \<open>
  Registration hands out dense ids.  It fails with -1 exactly for a null name or
  callback, a zero sector size or a full registry, and then changes nothing; otherwise the
  new device has the next id, is found under it with its name cut to 15 characters, reads
  of at least one sector go to its callback, and every earlier device is kept.
\<close>

theorem storage_register_correct:
  assumes "storage_inv st" and "storage_register_device name ss read st = (r, st')"
  shows "(r = - 1 \<longleftrightarrow> name = None \<or> read = None \<or> ss = 0 \<or> unat (device_count st) = 8) \<and>
    (r = - 1 \<longrightarrow> st' = st) \<and>
    (r \<noteq> - 1 \<longrightarrow> storage_inv st' \<and> r = uint (device_count st) \<and>
       unat (storage_device_count st') = unat (storage_device_count st) + 1 \<and>
       storage_get_device st' r = Some \<lparr>bd_id = r, bd_name = take 15 (cstr (the name)),
         bd_sector_size = ss, bd_read = the read\<rparr> \<and>
       (\<forall>lba count. storage_read st' r lba count = (if count = 0 then None else the read lba count)) \<and>
       (\<forall>k < r. storage_get_device st' k = storage_get_device st k))"
  by (rule storage_register_spec [OF assms])

theorem storage_register_correct_witness:
  "storage_read (snd (storage_register_device (Some ''cd0'') 2048 (Some (\<lambda>lba count. Some [1])) storage_empty))
     0 16 1 = Some [1]"
proof -
  have "fst (storage_register_device (Some ''cd0'') 2048 (Some (\<lambda>lba count. Some [1])) storage_empty) = 0"
    by (simp add: storage_register_device_def storage_empty_def MAX_BLOCK_DEVICES_def Let_def)
  then show ?thesis
    using storage_register_correct [OF storage_empty_inv surjective_pairing,
        of "Some ''cd0''" 2048 "Some (\<lambda>lba count. Some [1])"]
    by simp
qed

end
