(* ===== verification/Tables.thy ===== *)
theory Tables
  imports Prelude
begin

text \<open>
  The kernel keeps its objects in fixed arrays of slots: processes, tasks, mailboxes,
  waiters, services, mounts.  A slot is free or used, a used slot carries a key, and a
  lookup scans for the first used slot with that key.  The locale \<open>slot_table\<close> gives
  such an array its meaning as a finite map from keys to entries, as long as no two used
  slots share a key; each component interprets it on its own entry type.
\<close>

definition slot_of :: "('e \<Rightarrow> bool) \<Rightarrow> ('e \<Rightarrow> 'k) \<Rightarrow> 'e list \<Rightarrow> 'k \<Rightarrow> nat option" where
  "slot_of used key xs k = find_index (\<lambda>e. used e \<and> key e = k) xs"

definition unique_keys :: "('e \<Rightarrow> bool) \<Rightarrow> ('e \<Rightarrow> 'k) \<Rightarrow> 'e list \<Rightarrow> bool" where
  "unique_keys used key xs \<longleftrightarrow>
     (\<forall>i < length xs. \<forall>j < length xs.
        used (xs ! i) \<and> used (xs ! j) \<and> key (xs ! i) = key (xs ! j) \<longrightarrow> i = j)"

definition table_map :: "('e \<Rightarrow> bool) \<Rightarrow> ('e \<Rightarrow> 'k) \<Rightarrow> 'e list \<Rightarrow> 'k \<Rightarrow> 'e option" where
  "table_map used key xs k = map_option (\<lambda>i. xs ! i) (slot_of used key xs k)"

lemma find_index_map: "find_index P (map f xs) = find_index (\<lambda>x. P (f x)) xs"
  by (induction xs) auto

lemma find_index_zip_fst:
  "length xs = length ys \<Longrightarrow> find_index (\<lambda>e. P (fst e)) (zip xs ys) = find_index P xs"
  by (simp flip: find_index_map add: map_fst_zip)

lemma zip_update2:
  "zip (xs[i := x]) (ys[i := y]) = (zip xs ys)[i := (x, y)]"
  by (simp add: update_zip)

locale slot_table =
  fixes used :: "'e \<Rightarrow> bool" and key :: "'e \<Rightarrow> 'k" and blank :: 'e
  assumes blank_unused: "\<not> used blank"
begin

abbreviation "slot \<equiv> slot_of used key"
abbreviation "uniq \<equiv> unique_keys used key"
abbreviation "tmap \<equiv> table_map used key"

lemma slot_SomeD: "slot xs k = Some i \<Longrightarrow> i < length xs \<and> used (xs ! i) \<and> key (xs ! i) = k"
  by (auto simp: slot_of_def dest: find_index_SomeD)

lemma slot_None_iff: "slot xs k = None \<longleftrightarrow> tmap xs k = None"
  by (simp add: table_map_def)

lemma slot_eq: "uniq xs \<Longrightarrow> i < length xs \<Longrightarrow> used (xs ! i) \<Longrightarrow> slot xs (key (xs ! i)) = Some i"
  unfolding slot_of_def by (rule find_index_unique) (auto simp: unique_keys_def)

lemma tmap_slot: "slot xs k = Some i \<Longrightarrow> tmap xs k = Some (xs ! i)"
  by (simp add: table_map_def)

lemma tmap_Some_iff:
  "uniq xs \<Longrightarrow> tmap xs k = Some e \<longleftrightarrow> (\<exists>i < length xs. xs ! i = e \<and> used e \<and> key e = k)"
  by (auto simp: table_map_def dest!: slot_SomeD dest: slot_eq)

lemma tmap_None_iff: "tmap xs k = None \<longleftrightarrow> (\<forall>i < length xs. used (xs ! i) \<longrightarrow> key (xs ! i) \<noteq> k)"
  by (auto simp: table_map_def slot_of_def find_index_None_iff all_set_conv_all_nth)

text \<open>Writing a slot keeps keys distinct if the new entry's key is used by no other slot.\<close>

lemma uniq_update:
  assumes "uniq xs"
    and "used e \<Longrightarrow> tmap xs (key e) = None \<or> slot xs (key e) = Some i"
  shows "uniq (xs[i := e])"
  unfolding unique_keys_def
proof (intro allI impI)
  fix a b
  assume ab: "a < length (xs[i := e])" "b < length (xs[i := e])"
    and h: "used (xs[i := e] ! a) \<and> used (xs[i := e] ! b) \<and> key (xs[i := e] ! a) = key (xs[i := e] ! b)"
  have clash: "j = i" if "j < length xs" "used e" "used (xs ! j)" "key (xs ! j) = key e" for j
    using assms(2) [OF that(2)] slot_eq [OF assms(1) that(1,3)] that
    by (auto simp: tmap_None_iff)
  show "a = b"
  proof (cases "a = i \<or> b = i")
    case True
    have "c = i" if c: "c < length xs" "used (xs[i := e] ! c)" "key (xs[i := e] ! c) = key e" "used e" for c
      using clash [of c] c by (cases "c = i") simp_all
    moreover have "a = i \<Longrightarrow> used e \<and> key (xs[i := e] ! b) = key e"
      "b = i \<Longrightarrow> used e \<and> key (xs[i := e] ! a) = key e" using ab h by simp_all
    ultimately show ?thesis using True ab h by (metis length_list_update)
  next
    case False
    then have "a < length xs" "b < length xs" "used (xs ! a)" "used (xs ! b)" "key (xs ! a) = key (xs ! b)"
      using ab h by auto
    then show ?thesis using assms(1) unfolding unique_keys_def by blast
  qed
qed

lemma tmap_update:
  assumes "uniq xs" and "i < length xs"
    and "used e \<Longrightarrow> tmap xs (key e) = None \<or> slot xs (key e) = Some i"
  shows "tmap (xs[i := e]) =
    (let m = (if used (xs ! i) then (tmap xs)(key (xs ! i) := None) else tmap xs)
     in if used e then m(key e \<mapsto> e) else m)"
proof
  fix k
  let ?xs = "xs[i := e]"
  let ?m = "if used (xs ! i) then (tmap xs)(key (xs ! i) := None) else tmap xs"
  have u: "uniq ?xs" using assms(1,3) by (rule uniq_update)
  have old: "tmap ?xs k = Some d \<longleftrightarrow>
      (used e \<and> key e = k \<and> d = e) \<or> (\<exists>j < length xs. j \<noteq> i \<and> xs ! j = d \<and> used d \<and> key d = k)" for d
    unfolding tmap_Some_iff [OF u] using assms(2) by (auto simp: nth_list_update split: if_splits)
  have mk: "?m k = Some d \<longleftrightarrow> (\<exists>j < length xs. j \<noteq> i \<and> xs ! j = d \<and> used d \<and> key d = k)" for d
  proof (cases "used (xs ! i) \<and> key (xs ! i) = k")
    case True
    then have "j = i" if "j < length xs" "used (xs ! j)" "key (xs ! j) = k" for j
      using assms(1,2) that by (auto simp: unique_keys_def)
    with True show ?thesis by auto
  next
    case False
    then have "?m k = tmap xs k" by auto
    with False show ?thesis by (auto simp: tmap_Some_iff [OF assms(1)])
  qed
  have fresh: "?m (key e) = None" if "used e"
  proof (rule ccontr)
    assume "\<not> ?thesis"
    then obtain d where "?m (key e) = Some d" by blast
    then have "tmap xs (key e) = Some d" "used (xs ! i) \<Longrightarrow> key (xs ! i) \<noteq> key e"
      by (auto split: if_splits)
    then show False using assms(3) [OF that] slot_SomeD by fastforce
  qed
  show "tmap ?xs k = (let m = ?m in if used e then m(key e \<mapsto> e) else m) k"
  proof (cases "used e \<and> key e = k")
    case True
    then show ?thesis using old [of e] by (simp add: Let_def)
  next
    case False
    then have "tmap ?xs k = Some d \<longleftrightarrow> ?m k = Some d" for d using old [of d] mk [of d] by auto
    then have "tmap ?xs k = ?m k" by (metis not_None_eq)
    with False show ?thesis by (auto simp: Let_def)
  qed
qed

text \<open>The three writes the components make.\<close>

lemma tmap_insert:
  assumes "uniq xs" and "i < length xs" and "\<not> used (xs ! i)" and "used e" and "tmap xs (key e) = None"
  shows "tmap (xs[i := e]) = (tmap xs)(key e \<mapsto> e)"
  using tmap_update [of xs i e] assms by simp

lemma tmap_modify:
  assumes "uniq xs" and "slot xs k = Some i" and "used e" and "key e = k"
  shows "tmap (xs[i := e]) = (tmap xs)(k \<mapsto> e)"
  using tmap_update [of xs i e] slot_SomeD [OF assms(2)] assms by simp

lemma tmap_delete:
  assumes "uniq xs" and "slot xs k = Some i" and "\<not> used e"
  shows "tmap (xs[i := e]) = (tmap xs)(k := None)"
  using tmap_update [of xs i e] slot_SomeD [OF assms(2)] assms by simp

lemma uniq_insert:
  "uniq xs \<Longrightarrow> tmap xs (key e) = None \<Longrightarrow> uniq (xs[i := e])"
  by (rule uniq_update) auto

lemma uniq_modify: "uniq xs \<Longrightarrow> slot xs (key e) = Some i \<Longrightarrow> uniq (xs[i := e])"
  by (rule uniq_update) auto

lemma uniq_delete: "uniq xs \<Longrightarrow> \<not> used e \<Longrightarrow> uniq (xs[i := e])"
  by (rule uniq_update) auto

lemma uniq_blank: "uniq (replicate n blank)"
  by (simp add: unique_keys_def blank_unused)

lemma tmap_blank: "tmap (replicate n blank) = Map.empty"
  by (rule ext) (simp add: tmap_None_iff blank_unused)

end

end
