(* ===== verification/Proc.thy ===== *)
theory Proc
  imports Util Ktypes Tables
begin

text \<open>
  \<^verbatim>\<open>kernel/proc.c\<close>: the process table.  \<open>proc_table\<close> holds the four static variables of the
  file; the arrays \<^verbatim>\<open>procs\<close> and \<^verbatim>\<open>images\<close> are lists of length \<open>MAX_PROCS\<close>, a slot index of
  \<^verbatim>\<open>-1\<close> is \<open>None\<close>, and \<^verbatim>\<open>next_pid\<close> is an unbounded integer (the C increment is undefined
  beyond \<open>2 ^ 31 - 1\<close>).  \<open>proc_map\<close> is the table read as a map from pids to processes;
  every operation is shown to be the corresponding update of that map.
\<close>

section \<open>Data\<close>

datatype proc_state = PROC_UNUSED | PROC_READY | PROC_RUNNING | PROC_BLOCKED | PROC_ZOMBIE

record process_info =
  pr_pid :: int
  pr_ppid :: int
  pr_state :: proc_state
  pr_exit_code :: int
  pr_name :: string

record proc_image =
  im_loaded :: bool
  im_entry :: u32
  im_image_base :: u32
  im_image_size :: u32
  im_stack_base :: u32
  im_stack_size :: u32
  im_cwd :: u32
  im_output :: console_target
  im_context_valid :: bool
  im_context :: user_context

definition MAX_PROCS :: nat where "MAX_PROCS = 32"

record proc_table =
  procs :: "process_info list"
  images :: "proc_image list"
  procs_used :: u32
  next_pid :: int

text \<open>The values a slot is reset to.\<close>

definition empty_proc :: process_info where
  "empty_proc = \<lparr>pr_pid = - 1, pr_ppid = - 1, pr_state = PROC_UNUSED, pr_exit_code = 0,
     pr_name = ''''\<rparr>"

definition empty_image :: proc_image where
  "empty_image = \<lparr>im_loaded = False, im_entry = 0, im_image_base = 0, im_image_size = 0,
     im_stack_base = 0, im_stack_size = 0, im_cwd = NULL, im_output = CONSOLE_VGA,
     im_context_valid = False, im_context = zero_context\<rparr>"

section \<open>Operations\<close>

definition find_slot_by_pid :: "proc_table \<Rightarrow> int \<Rightarrow> nat option" where
  "find_slot_by_pid t pid =
     find_index (\<lambda>p. pr_state p \<noteq> PROC_UNUSED \<and> pr_pid p = pid) (procs t)"

definition alloc_slot :: "proc_table \<Rightarrow> nat option" where
  "alloc_slot t = find_index (\<lambda>p. pr_state p = PROC_UNUSED) (procs t)"

definition proc_init :: proc_table where
  "proc_init =
     (let t = \<lparr>procs = replicate MAX_PROCS empty_proc, images = replicate MAX_PROCS empty_image,
               procs_used = 0, next_pid = 1\<rparr>
      in case alloc_slot t of
           None \<Rightarrow> t
         | Some slot \<Rightarrow>
             t\<lparr>procs := (procs t)[slot := \<lparr>pr_pid = 0, pr_ppid = - 1, pr_state = PROC_RUNNING,
                 pr_exit_code = 0, pr_name = str_copy '''' ''kmain'' 16\<rparr>],
               procs_used := 1\<rparr>)"

text \<open>A null name is \<open>None\<close>; the result \<^verbatim>\<open>-1\<close> means that the table is full.\<close>

definition proc_spawn_kernel :: "string option \<Rightarrow> int \<Rightarrow> proc_table \<Rightarrow> int \<times> proc_table" where
  "proc_spawn_kernel name ppid t =
     (case alloc_slot t of
        None \<Rightarrow> (- 1, t)
      | Some slot \<Rightarrow>
          (next_pid t,
           t\<lparr>procs := (procs t)[slot := \<lparr>pr_pid = next_pid t, pr_ppid = ppid,
               pr_state = PROC_READY, pr_exit_code = 0,
               pr_name = str_copy (pr_name (procs t ! slot))
                           (case name of Some n \<Rightarrow> n | None \<Rightarrow> ''kproc'') 16\<rparr>],
             images := (images t)[slot := empty_image],
             procs_used := procs_used t + 1,
             next_pid := next_pid t + 1\<rparr>))"

definition proc_exit :: "int \<Rightarrow> int \<Rightarrow> proc_table \<Rightarrow> bool \<times> proc_table" where
  "proc_exit pid code t =
     (case find_slot_by_pid t pid of
        None \<Rightarrow> (False, t)
      | Some slot \<Rightarrow>
          (True, t\<lparr>procs := (procs t)[slot := (procs t ! slot)
             \<lparr>pr_state := PROC_ZOMBIE, pr_exit_code := code\<rparr>]\<rparr>))"

text \<open>Resetting a slot, the common tail of \<^verbatim>\<open>proc_wait\<close> and \<^verbatim>\<open>proc_reap_pid\<close>.\<close>

definition proc_clear_slot :: "nat \<Rightarrow> proc_table \<Rightarrow> proc_table" where
  "proc_clear_slot slot t =
     t\<lparr>procs := (procs t)[slot := empty_proc],
       images := (images t)[slot := empty_image],
       procs_used := (if procs_used t > 0 then procs_used t - 1 else procs_used t)\<rparr>"

text \<open>\<^verbatim>\<open>*child_pid\<close> and \<^verbatim>\<open>*exit_code\<close> are returned with the success flag as an option.\<close>

definition proc_wait :: "int \<Rightarrow> proc_table \<Rightarrow> (int \<times> int) option \<times> proc_table" where
  "proc_wait ppid t =
     (case find_index (\<lambda>p. pr_state p = PROC_ZOMBIE \<and> pr_ppid p = ppid) (procs t) of
        None \<Rightarrow> (None, t)
      | Some i \<Rightarrow> (Some (pr_pid (procs t ! i), pr_exit_code (procs t ! i)), proc_clear_slot i t))"

definition proc_set_state :: "int \<Rightarrow> proc_state \<Rightarrow> proc_table \<Rightarrow> proc_table" where
  "proc_set_state pid state t =
     (case find_slot_by_pid t pid of
        None \<Rightarrow> t
      | Some slot \<Rightarrow> t\<lparr>procs := (procs t)[slot := (procs t ! slot)\<lparr>pr_state := state\<rparr>]\<rparr>)"

definition proc_state_of :: "proc_table \<Rightarrow> int \<Rightarrow> proc_state" where
  "proc_state_of t pid =
     (case find_slot_by_pid t pid of
        None \<Rightarrow> PROC_UNUSED
      | Some slot \<Rightarrow> pr_state (procs t ! slot))"

fun proc_state_name :: "proc_state \<Rightarrow> string" where
  "proc_state_name PROC_RUNNING = ''RUN''"
| "proc_state_name PROC_READY = ''RDY''"
| "proc_state_name PROC_BLOCKED = ''BLK''"
| "proc_state_name PROC_ZOMBIE = ''ZMB''"
| "proc_state_name PROC_UNUSED = ''UNK''"

definition proc_count :: "proc_table \<Rightarrow> u32" where
  "proc_count t = procs_used t"

definition proc_bind_image :: "int \<Rightarrow> proc_image option \<Rightarrow> proc_table \<Rightarrow> bool \<times> proc_table" where
  "proc_bind_image pid img t =
     (case (find_slot_by_pid t pid, img) of
        (Some slot, Some im) \<Rightarrow> (True, t\<lparr>images := (images t)[slot := im]\<rparr>)
      | _ \<Rightarrow> (False, t))"

definition proc_get_image :: "proc_table \<Rightarrow> int \<Rightarrow> proc_image option" where
  "proc_get_image t pid = map_option (\<lambda>slot. images t ! slot) (find_slot_by_pid t pid)"

definition proc_reap_pid :: "int \<Rightarrow> proc_table \<Rightarrow> int option \<times> proc_table" where
  "proc_reap_pid pid t =
     (case find_slot_by_pid t pid of
        None \<Rightarrow> (None, t)
      | Some slot \<Rightarrow>
          if pr_state (procs t ! slot) \<noteq> PROC_ZOMBIE then (None, t)
          else (Some (pr_exit_code (procs t ! slot)), proc_clear_slot slot t))"

section \<open>The table as a map\<close>

abbreviation live :: "process_info \<Rightarrow> bool" where "live p \<equiv> pr_state p \<noteq> PROC_UNUSED"

abbreviation slots :: "proc_table \<Rightarrow> (process_info \<times> proc_image) list" where
  "slots t \<equiv> zip (procs t) (images t)"

definition proc_map :: "proc_table \<Rightarrow> int \<Rightarrow> (process_info \<times> proc_image) option" where
  "proc_map t = table_map (\<lambda>e. live (fst e)) (\<lambda>e. pr_pid (fst e)) (slots t)"

definition proc_inv :: "proc_table \<Rightarrow> bool" where
  "proc_inv t \<longleftrightarrow>
     length (procs t) = MAX_PROCS \<and> length (images t) = MAX_PROCS \<and>
     unique_keys (\<lambda>e. live (fst e)) (\<lambda>e. pr_pid (fst e)) (slots t) \<and>
     procs_used t = of_nat (count_if live (procs t)) \<and>
     0 < next_pid t \<and> (\<forall>p \<in> set (procs t). live p \<longrightarrow> 0 \<le> pr_pid p \<and> pr_pid p < next_pid t)"

interpretation ptab: slot_table "\<lambda>e :: process_info \<times> proc_image. live (fst e)"
  "\<lambda>e. pr_pid (fst e)" "(empty_proc, empty_image)"
  by unfold_locales (simp add: empty_proc_def)

lemma proc_inv_len: "proc_inv t \<Longrightarrow> length (procs t) = MAX_PROCS \<and> length (images t) = MAX_PROCS"
  by (simp add: proc_inv_def)

lemma find_slot_eq: "proc_inv t \<Longrightarrow> find_slot_by_pid t pid = ptab.slot (slots t) pid"
  unfolding find_slot_by_pid_def slot_of_def
  by (subst find_index_zip_fst) (simp_all add: proc_inv_def)

lemma find_slot_SomeD:
  assumes "find_slot_by_pid t pid = Some i"
  shows "i < length (procs t)" "live (procs t ! i)" "pr_pid (procs t ! i) = pid"
  using assms by (auto simp: find_slot_by_pid_def dest: find_index_SomeD)

lemma find_slot_D:
  "find_slot_by_pid t pid = Some i \<Longrightarrow>
   i < length (procs t) \<and> live (procs t ! i) \<and> pr_pid (procs t ! i) = pid \<and> procs t ! i \<in> set (procs t)"
  using find_slot_SomeD [of t pid i] by simp

lemma proc_map_find:
  assumes "proc_inv t"
  shows "proc_map t pid = map_option (\<lambda>i. (procs t ! i, images t ! i)) (find_slot_by_pid t pid)"
  using assms find_slot_SomeD [of t pid] proc_inv_len [OF assms]
  by (cases "find_slot_by_pid t pid") (auto simp: proc_map_def table_map_def find_slot_eq [symmetric])

lemma proc_state_of_map:
  "proc_inv t \<Longrightarrow> proc_state_of t pid = (case proc_map t pid of None \<Rightarrow> PROC_UNUSED | Some e \<Rightarrow> pr_state (fst e))"
  by (auto simp: proc_state_of_def proc_map_find split: option.split)

lemma proc_get_image_map: "proc_inv t \<Longrightarrow> proc_get_image t pid = map_option snd (proc_map t pid)"
  by (auto simp: proc_get_image_def proc_map_find option.map_comp comp_def)

lemma proc_map_SomeD:
  "proc_inv t \<Longrightarrow> proc_map t pid = Some (p, im) \<Longrightarrow>
   live p \<and> pr_pid p = pid \<and> 0 \<le> pid \<and> pid < next_pid t"
  by (auto simp: proc_map_find proc_inv_def dest!: find_slot_D)

lemma proc_map_live_iff: "proc_inv t \<Longrightarrow> proc_map t pid \<noteq> None \<longleftrightarrow> proc_state_of t pid \<noteq> PROC_UNUSED"
  by (auto simp: proc_state_of_map split: option.split dest: proc_map_SomeD)

section \<open>What the operations do to the map\<close>

text \<open>
  Every operation that changes a live slot writes a pair back to it.  \<open>write_slot\<close> names
  that write for the proofs.
\<close>

definition write_slot :: "nat \<Rightarrow> process_info \<Rightarrow> proc_image \<Rightarrow> proc_table \<Rightarrow> proc_table" where
  "write_slot i p im t = t\<lparr>procs := (procs t)[i := p], images := (images t)[i := im]\<rparr>"

lemma slots_write: "slots (write_slot i p im t) = (slots t)[i := (p, im)]"
  by (simp add: write_slot_def zip_update2)

lemma write_same_image: "t\<lparr>procs := (procs t)[i := p]\<rparr> = write_slot i p (images t ! i) t"
  by (simp add: write_slot_def)

lemma write_same_proc: "t\<lparr>images := (images t)[i := im]\<rparr> = write_slot i (procs t ! i) im t"
  by (simp add: write_slot_def)

lemma modify_slot:
  assumes inv: "proc_inv t" and slot: "find_slot_by_pid t pid = Some i"
    and p: "live p" "pr_pid p = pid"
  shows "proc_inv (write_slot i p im t)"
    and "proc_map (write_slot i p im t) = (proc_map t)(pid \<mapsto> (p, im))"
proof -
  note s = find_slot_SomeD [OF slot]
  have sl: "ptab.slot (slots t) pid = Some i" using slot inv by (simp add: find_slot_eq)
  have u: "ptab.uniq (slots t)" using inv by (simp add: proc_inv_def)
  have "count_if live ((procs t)[i := p]) = count_if live (procs t)"
    using count_if_update [OF s(1), of live p] s(2) p by simp
  moreover have "ptab.uniq ((slots t)[i := (p, im)])"
    by (rule ptab.uniq_modify [OF u]) (simp add: p sl)
  moreover have "0 \<le> pid \<and> pid < next_pid t"
    using inv s by (auto simp: proc_inv_def)
  ultimately show "proc_inv (write_slot i p im t)"
    using inv p unfolding proc_inv_def slots_write
    by (auto simp: write_slot_def dest!: set_update_subset_insert [THEN subsetD])
  show "proc_map (write_slot i p im t) = (proc_map t)(pid \<mapsto> (p, im))"
    unfolding proc_map_def slots_write by (rule ptab.tmap_modify [OF u sl]) (simp_all add: p)
qed

lemma proc_set_state_ok [inv_intros]:
  assumes "proc_inv t" and "st \<noteq> PROC_UNUSED"
  shows "proc_inv (proc_set_state pid st t)"
    and "proc_map (proc_set_state pid st t) =
      (case proc_map t pid of None \<Rightarrow> proc_map t
       | Some (p, im) \<Rightarrow> (proc_map t)(pid \<mapsto> (p\<lparr>pr_state := st\<rparr>, im)))"
  using assms find_slot_SomeD [of t pid] modify_slot [OF assms(1)]
  by (auto simp: proc_set_state_def proc_map_find write_same_image split: option.split)

lemma proc_exit_ok [inv_intros]:
  assumes "proc_inv t"
  shows "proc_inv (snd (proc_exit pid code t))"
    and "fst (proc_exit pid code t) \<longleftrightarrow> proc_map t pid \<noteq> None"
    and "proc_map (snd (proc_exit pid code t)) =
      (case proc_map t pid of None \<Rightarrow> proc_map t
       | Some (p, im) \<Rightarrow> (proc_map t)(pid \<mapsto> (p\<lparr>pr_state := PROC_ZOMBIE, pr_exit_code := code\<rparr>, im)))"
  using assms find_slot_SomeD [of t pid] modify_slot [OF assms]
  by (auto simp: proc_exit_def proc_map_find write_same_image split: option.split)

lemma proc_bind_image_ok [inv_intros]:
  assumes "proc_inv t"
  shows "proc_inv (snd (proc_bind_image pid (Some im) t))"
    and "fst (proc_bind_image pid (Some im) t) \<longleftrightarrow> proc_map t pid \<noteq> None"
    and "proc_map (snd (proc_bind_image pid (Some im) t)) =
      (case proc_map t pid of None \<Rightarrow> proc_map t
       | Some (p, _) \<Rightarrow> (proc_map t)(pid \<mapsto> (p, im)))"
  using assms find_slot_SomeD [of t pid] modify_slot [OF assms]
  by (auto simp: proc_bind_image_def proc_map_find write_same_proc split: option.split)

lemma proc_clear_slot_ok:
  assumes inv: "proc_inv t" and slot: "find_slot_by_pid t pid = Some i"
  shows "proc_inv (proc_clear_slot i t)" and "proc_map (proc_clear_slot i t) = (proc_map t)(pid := None)"
    and "next_pid (proc_clear_slot i t) = next_pid t"
proof -
  note s = find_slot_SomeD [OF slot]
  have sl: "ptab.slot (slots t) pid = Some i" using slot inv by (simp add: find_slot_eq)
  have u: "ptab.uniq (slots t)" using inv by (simp add: proc_inv_def)
  have dead: "\<not> live empty_proc" by (simp add: empty_proc_def)
  have sc: "slots (proc_clear_slot i t) = (slots t)[i := (empty_proc, empty_image)]"
    by (simp add: proc_clear_slot_def zip_update2)
  have cnt: "count_if live (procs t) = Suc (count_if live ((procs t)[i := empty_proc]))"
    using count_if_update [OF s(1), of live empty_proc] s(2) dead by simp
  have "count_if live (procs t) \<le> 32"
    using count_if_le_length [of live "procs t"] proc_inv_len [OF inv] by (simp add: MAX_PROCS_def)
  then have "unat (of_nat (count_if live (procs t)) :: u32) \<noteq> 0"
    unfolding cnt by (subst unat_of_nat_exact) auto
  then have "(of_nat (count_if live (procs t)) :: u32) \<noteq> 0" by (auto simp del: of_nat_0)
  then have "procs_used (proc_clear_slot i t) = of_nat (count_if live ((procs t)[i := empty_proc]))"
    using inv cnt by (simp add: proc_clear_slot_def proc_inv_def word_gt_0)
  moreover have "ptab.uniq ((slots t)[i := (empty_proc, empty_image)])"
    by (rule ptab.uniq_delete [OF u]) (simp add: dead)
  ultimately show "proc_inv (proc_clear_slot i t)"
    using inv unfolding proc_inv_def sc
    by (auto simp: proc_clear_slot_def dead dest!: set_update_subset_insert [THEN subsetD])
  show "proc_map (proc_clear_slot i t) = (proc_map t)(pid := None)"
    unfolding proc_map_def sc by (rule ptab.tmap_delete [OF u sl]) (simp add: dead)
  show "next_pid (proc_clear_slot i t) = next_pid t" by (simp add: proc_clear_slot_def)
qed

lemma proc_reap_pid_ok [inv_intros]:
  assumes "proc_inv t"
  shows "proc_inv (snd (proc_reap_pid pid t))"
    and "proc_reap_pid pid t =
      (case proc_map t pid of
         Some (p, im) \<Rightarrow> if pr_state p = PROC_ZOMBIE
            then (Some (pr_exit_code p), snd (proc_reap_pid pid t)) else (None, t)
       | None \<Rightarrow> (None, t))"
    and "proc_map (snd (proc_reap_pid pid t)) =
      (if proc_state_of t pid = PROC_ZOMBIE then (proc_map t)(pid := None) else proc_map t)"
  using assms proc_clear_slot_ok [OF assms]
  by (auto simp: proc_reap_pid_def proc_map_find proc_state_of_def split: option.split)

lemma proc_wait_ok [inv_intros]:
  assumes inv: "proc_inv t"
  shows "proc_inv (snd (proc_wait ppid t))"
    and "fst (proc_wait ppid t) = None \<longleftrightarrow>
      (\<forall>pid p im. proc_map t pid = Some (p, im) \<longrightarrow> \<not> (pr_state p = PROC_ZOMBIE \<and> pr_ppid p = ppid))"
    and "fst (proc_wait ppid t) = Some (pid, code) \<Longrightarrow>
      \<exists>p im. proc_map t pid = Some (p, im) \<and> pr_state p = PROC_ZOMBIE \<and> pr_ppid p = ppid \<and>
        pr_exit_code p = code \<and> proc_map (snd (proc_wait ppid t)) = (proc_map t)(pid := None)"
proof -
  let ?P = "\<lambda>p. pr_state p = PROC_ZOMBIE \<and> pr_ppid p = ppid"
  have slot: "find_slot_by_pid t (pr_pid (procs t ! i)) = Some i"
    if "i < length (procs t)" "live (procs t ! i)" for i
  proof -
    have "slots t ! i = (procs t ! i, images t ! i)" "i < length (slots t)"
      using that(1) proc_inv_len [OF inv] by simp_all
    then show ?thesis
      using ptab.slot_eq [of "slots t" i] inv that by (simp add: find_slot_eq proc_inv_def)
  qed
  have f: "i < length (procs t) \<and> ?P (procs t ! i) \<and> find_slot_by_pid t (pr_pid (procs t ! i)) = Some i"
    if "find_index ?P (procs t) = Some i" for i
    using find_index_SomeD [OF that] slot [of i] by auto
  show "proc_inv (snd (proc_wait ppid t))"
    using inv f proc_clear_slot_ok(1) [OF inv] by (auto simp: proc_wait_def split: option.split)
  show "fst (proc_wait ppid t) = Some (pid, code) \<Longrightarrow>
      \<exists>p im. proc_map t pid = Some (p, im) \<and> pr_state p = PROC_ZOMBIE \<and> pr_ppid p = ppid \<and>
        pr_exit_code p = code \<and> proc_map (snd (proc_wait ppid t)) = (proc_map t)(pid := None)"
    using f proc_clear_slot_ok(2) [OF inv]
    by (auto simp: proc_wait_def proc_map_find [OF inv] split: option.splits)
  show "fst (proc_wait ppid t) = None \<longleftrightarrow>
      (\<forall>pid p im. proc_map t pid = Some (p, im) \<longrightarrow> \<not> ?P p)" (is "?L \<longleftrightarrow> ?R")
  proof
    assume ?L
    then have "find_index ?P (procs t) = None" by (auto simp: proc_wait_def split: option.splits)
    then show ?R
      by (auto simp: find_index_None_iff proc_map_find [OF inv] dest!: find_slot_D)
  next
    assume r: ?R
    have "find_index ?P (procs t) = None"
    proof (rule ccontr)
      assume "\<not> ?thesis"
      then obtain i where "find_index ?P (procs t) = Some i" by blast
      from f [OF this] r show False by (auto simp: proc_map_find [OF inv])
    qed
    then show ?L by (simp add: proc_wait_def)
  qed
qed

lemma alloc_slot_D:
  "alloc_slot t = Some i \<Longrightarrow> i < length (procs t) \<and> pr_state (procs t ! i) = PROC_UNUSED"
  by (auto simp: alloc_slot_def dest: find_index_SomeD)

lemma alloc_slot_None_iff:
  assumes "proc_inv t"
  shows "alloc_slot t = None \<longleftrightarrow> count_if live (procs t) = MAX_PROCS"
proof -
  have "count_if live (procs t) = length (procs t) \<longleftrightarrow> (\<forall>x \<in> set (procs t). live x)"
    by (rule count_if_all)
  then show ?thesis
    using proc_inv_len [OF assms] by (auto simp: alloc_slot_def find_index_None_iff)
qed

text \<open>The process that a spawn creates.\<close>

definition spawned :: "string option \<Rightarrow> int \<Rightarrow> int \<Rightarrow> process_info" where
  "spawned name ppid pid = \<lparr>pr_pid = pid, pr_ppid = ppid, pr_state = PROC_READY,
     pr_exit_code = 0, pr_name = take 15 (cstr (case name of Some n \<Rightarrow> n | None \<Rightarrow> ''kproc''))\<rparr>"

lemma proc_map_fresh: "proc_inv t \<Longrightarrow> next_pid t \<le> pid \<Longrightarrow> proc_map t pid = None"
  using proc_map_SomeD [of t pid] by (cases "proc_map t pid") fastforce+

lemma proc_spawn_ok:
  assumes inv: "proc_inv t" and slot: "alloc_slot t = Some i"
  shows "fst (proc_spawn_kernel name ppid t) = next_pid t"
    and "proc_inv (snd (proc_spawn_kernel name ppid t))"
    and "next_pid (snd (proc_spawn_kernel name ppid t)) = next_pid t + 1"
    and "proc_map (snd (proc_spawn_kernel name ppid t)) =
      (proc_map t)(next_pid t \<mapsto> (spawned name ppid (next_pid t), empty_image))"
proof -
  let ?p = "spawned name ppid (next_pid t)"
  let ?t = "snd (proc_spawn_kernel name ppid t)"
  note s = alloc_slot_D [OF slot]
  have len: "length (procs t) = MAX_PROCS" "length (images t) = MAX_PROCS"
    using proc_inv_len [OF inv] by simp_all
  have eq: "?t = (write_slot i ?p empty_image t)\<lparr>procs_used := procs_used t + 1, next_pid := next_pid t + 1\<rparr>"
    by (simp add: proc_spawn_kernel_def slot write_slot_def spawned_def str_copy_eq)
  have u: "ptab.uniq (slots t)" and live_p: "live ?p" and pid_p: "pr_pid ?p = next_pid t"
    using inv by (simp_all add: proc_inv_def spawned_def)
  have fresh: "ptab.tmap (slots t) (next_pid t) = None"
    using proc_map_fresh [OF inv order_refl] by (simp add: proc_map_def)
  have "count_if live ((procs t)[i := ?p]) = Suc (count_if live (procs t))"
    using count_if_update [of i "procs t" live ?p] s live_p by simp
  moreover have "ptab.uniq ((slots t)[i := (?p, empty_image)])"
    by (rule ptab.uniq_insert [OF u]) (simp add: pid_p fresh)
  ultimately show "proc_inv ?t"
    unfolding eq proc_inv_def using inv slots_write [of i ?p empty_image t] live_p pid_p
    by (auto simp: proc_inv_def write_slot_def dest!: set_update_subset_insert [THEN subsetD])
  have "proc_map (write_slot i ?p empty_image t) = (proc_map t)(next_pid t \<mapsto> (?p, empty_image))"
    unfolding proc_map_def slots_write
    using ptab.tmap_insert [OF u, of i "(?p, empty_image)"] s len live_p pid_p fresh by simp
  then show "proc_map ?t = (proc_map t)(next_pid t \<mapsto> (?p, empty_image))"
    unfolding eq by (simp add: proc_map_def)
  show "fst (proc_spawn_kernel name ppid t) = next_pid t" "next_pid ?t = next_pid t + 1"
    by (simp_all add: proc_spawn_kernel_def slot)
qed

lemma proc_spawn_full: "alloc_slot t = None \<Longrightarrow> proc_spawn_kernel name ppid t = (- 1, t)"
  by (simp add: proc_spawn_kernel_def)

lemma proc_spawn_inv [inv_intros]: "proc_inv t \<Longrightarrow> proc_inv (snd (proc_spawn_kernel name ppid t))"
  using proc_spawn_ok(2) [of t _ name ppid] proc_spawn_full [of t name ppid]
  by (cases "alloc_slot t") auto

lemma next_pid_simps [simp]:
  "next_pid (proc_set_state pid st t) = next_pid t"
  "next_pid (snd (proc_exit pid code t)) = next_pid t"
  "next_pid (snd (proc_bind_image pid img t)) = next_pid t"
  "next_pid (snd (proc_wait ppid t)) = next_pid t"
  "next_pid (snd (proc_reap_pid pid t)) = next_pid t"
  by (auto simp: proc_set_state_def proc_exit_def proc_bind_image_def proc_wait_def proc_reap_pid_def
      proc_clear_slot_def split: option.split)

section \<open>Reachable tables\<close>

inductive proc_step :: "proc_table \<Rightarrow> proc_table \<Rightarrow> bool" where
  spawn: "proc_step t (snd (proc_spawn_kernel name ppid t))"
| exit: "proc_step t (snd (proc_exit pid code t))"
| wait: "proc_step t (snd (proc_wait ppid t))"
| set_state: "st \<noteq> PROC_UNUSED \<Longrightarrow> proc_step t (proc_set_state pid st t)"
| bind: "proc_step t (snd (proc_bind_image pid img t))"
| reap: "proc_step t (snd (proc_reap_pid pid t))"

inductive proc_reachable :: "proc_table \<Rightarrow> bool" where
  init: "proc_reachable proc_init"
| step: "proc_reachable t \<Longrightarrow> proc_step t t' \<Longrightarrow> proc_reachable t'"

lemma proc_init_inv: "proc_inv proc_init"
  unfolding proc_inv_def unique_keys_def proc_init_def alloc_slot_def
  by (simp add: MAX_PROCS_def empty_proc_def eval_nat_numeral All_less_Suc)

lemma proc_bind_image_inv [inv_intros]: "proc_inv t \<Longrightarrow> proc_inv (snd (proc_bind_image pid img t))"
  using proc_bind_image_ok(1) [of t pid]
  by (cases img) (auto simp: proc_bind_image_def split: option.splits)

lemma proc_step_inv: "proc_step t t' \<Longrightarrow> proc_inv t \<Longrightarrow> proc_inv t'"
  by (induction rule: proc_step.induct) (auto intro: inv_intros)

lemma proc_step_next_pid: "proc_step t t' \<Longrightarrow> next_pid t \<le> next_pid t'"
  by (induction rule: proc_step.induct) (auto simp: proc_spawn_kernel_def split: option.split)

lemma proc_reachable_inv: "proc_reachable t \<Longrightarrow> proc_inv t"
  by (induction rule: proc_reachable.induct) (auto intro: proc_init_inv proc_step_inv)

section \<open>Properties\<close>

text \<open>
  C28: in every process table that the kernel can reach, pids identify live processes, the
  used-slot counter that \<^verbatim>\<open>proc_count\<close> returns is the number of live processes (and so at most
  \<open>MAX_PROCS\<close>), and no live process has a pid that is still to be handed out.
\<close>

theorem proc_reachable_wf:
  assumes "proc_reachable t"
  shows "unat (proc_count t) = count_if (\<lambda>p. pr_state p \<noteq> PROC_UNUSED) (procs t) \<and>
    unat (proc_count t) \<le> MAX_PROCS \<and>
    (\<forall>i < MAX_PROCS. \<forall>j < MAX_PROCS.
       pr_state (procs t ! i) \<noteq> PROC_UNUSED \<and> pr_state (procs t ! j) \<noteq> PROC_UNUSED \<and>
       pr_pid (procs t ! i) = pr_pid (procs t ! j) \<longrightarrow> i = j) \<and>
    (\<forall>pid \<ge> next_pid t. proc_state_of t pid = PROC_UNUSED)"
proof -
  have inv: "proc_inv t" using assms by (rule proc_reachable_inv)
  note len = proc_inv_len [OF inv]
  have "count_if live (procs t) \<le> MAX_PROCS" using count_if_le_length [of live "procs t"] len by simp
  moreover from this have "unat (proc_count t) = count_if live (procs t)"
    using inv unat_of_nat_exact [of "count_if live (procs t)"]
    by (simp add: proc_count_def proc_inv_def MAX_PROCS_def)
  moreover have "i = j" if "i < MAX_PROCS" "j < MAX_PROCS" "live (procs t ! i)" "live (procs t ! j)"
    "pr_pid (procs t ! i) = pr_pid (procs t ! j)" for i j
    using inv len that by (auto simp: proc_inv_def unique_keys_def)
  ultimately show ?thesis
    using proc_map_fresh [OF inv] by (auto simp: proc_state_of_map [OF inv])
qed

text \<open>A shell started by \<^verbatim>\<open>kmain\<close> that has exited with status 7.\<close>

definition demo_procs :: proc_table where
  "demo_procs = snd (proc_exit 1 7 (snd (proc_spawn_kernel (Some ''shell'') 0 proc_init)))"

lemma demo_procs_reachable: "proc_reachable demo_procs"
  unfolding demo_procs_def
  by (rule proc_reachable.step [OF proc_reachable.step [OF proc_reachable.init proc_step.spawn] proc_step.exit])

theorem proc_reachable_wf_witness:
  "proc_reachable demo_procs \<and> unat (proc_count demo_procs) \<le> MAX_PROCS"
  using proc_reachable_wf [OF demo_procs_reachable] demo_procs_reachable by blast

text \<open>
  Spawning fails with -1, changing nothing, exactly when all \<open>MAX_PROCS\<close> slots are live.
  Otherwise it returns a pid that no process had, the child is \<open>PROC_READY\<close> with an empty
  image and at most 15 characters of the requested name, and every other process is
  unchanged.
\<close>

theorem proc_spawn_correct:
  assumes "proc_inv t" and "proc_spawn_kernel name ppid t = (pid, t')"
  shows "(pid = - 1 \<longleftrightarrow> count_if (\<lambda>p. pr_state p \<noteq> PROC_UNUSED) (procs t) = MAX_PROCS) \<and>
    (pid = - 1 \<longrightarrow> t' = t) \<and>
    (pid \<noteq> - 1 \<longrightarrow> proc_map t pid = None \<and> proc_inv t' \<and>
       proc_map t' = (proc_map t)(pid \<mapsto>
         (\<lparr>pr_pid = pid, pr_ppid = ppid, pr_state = PROC_READY, pr_exit_code = 0,
           pr_name = take 15 (cstr (case name of Some n \<Rightarrow> n | None \<Rightarrow> ''kproc''))\<rparr>, empty_image)))"
proof (cases "alloc_slot t")
  case None
  then show ?thesis using assms alloc_slot_None_iff [OF assms(1)] by (simp add: proc_spawn_full)
next
  case (Some i)
  have "0 < next_pid t" using assms(1) by (simp add: proc_inv_def)
  then show ?thesis
    using proc_spawn_ok [OF assms(1) Some, of name ppid] assms(2) alloc_slot_None_iff [OF assms(1)] Some
      proc_map_fresh [OF assms(1), of pid]
    by (simp add: spawned_def)
qed

lemma demo_procs_inv: "proc_inv demo_procs"
  by (rule proc_reachable_inv [OF demo_procs_reachable])

theorem proc_spawn_correct_witness:
  "proc_map (snd (proc_spawn_kernel (Some ''init'') 0 demo_procs)) 2 =
     Some (\<lparr>pr_pid = 2, pr_ppid = 0, pr_state = PROC_READY, pr_exit_code = 0, pr_name = ''init''\<rparr>,
           empty_image)"
proof -
  have "fst (proc_spawn_kernel (Some ''init'') 0 demo_procs) = 2" by code_simp
  then have "proc_spawn_kernel (Some ''init'') 0 demo_procs =
      (2, snd (proc_spawn_kernel (Some ''init'') 0 demo_procs))" by (metis prod.collapse)
  from proc_spawn_correct [OF demo_procs_inv this] show ?thesis
    by (simp add: cstr_simps)
qed

text \<open>
  C31: a live process that exits becomes a zombie, which keeps its pid until somebody reaps
  it; reaping returns the status it exited with, frees its pid and touches no other process,
  and a second reap finds nothing.
\<close>

theorem proc_exit_then_reap:
  assumes "proc_inv t" and "proc_state_of t pid \<noteq> PROC_UNUSED"
    and "proc_exit pid code t = (ok, t')"
  shows "ok \<and> proc_state_of t' pid = PROC_ZOMBIE \<and>
    fst (proc_reap_pid pid t') = Some code \<and>
    proc_map (snd (proc_reap_pid pid t')) = (proc_map t)(pid := None) \<and>
    fst (proc_reap_pid pid (snd (proc_reap_pid pid t'))) = None"
proof -
  have t'_def: "t' = snd (proc_exit pid code t)" and ok: "ok = fst (proc_exit pid code t)"
    using assms(3) by simp_all
  obtain p im where pm: "proc_map t pid = Some (p, im)"
    using assms(1,2) proc_map_live_iff by fastforce
  have inv': "proc_inv t'" unfolding t'_def by (rule proc_exit_ok(1) [OF assms(1)])
  have m': "proc_map t' = (proc_map t)(pid \<mapsto> (p\<lparr>pr_state := PROC_ZOMBIE, pr_exit_code := code\<rparr>, im))"
    unfolding t'_def using proc_exit_ok(3) [OF assms(1)] pm by simp
  then have z: "proc_state_of t' pid = PROC_ZOMBIE" by (simp add: proc_state_of_map [OF inv'])
  let ?r = "snd (proc_reap_pid pid t')"
  have r: "proc_inv ?r" "proc_map ?r = (proc_map t)(pid := None)" "fst (proc_reap_pid pid t') = Some code"
    using proc_reap_pid_ok(1) [OF inv', of pid] proc_reap_pid_ok(3) [OF inv', of pid] z
      arg_cong [OF proc_reap_pid_ok(2) [OF inv', of pid], of fst]
    by (simp_all add: m')
  have "fst (proc_reap_pid pid ?r) = None"
    using arg_cong [OF proc_reap_pid_ok(2) [OF r(1), of pid], of fst] by (simp add: r(2))
  then show ?thesis using z r proc_exit_ok(2) [OF assms(1)] pm ok by simp
qed

theorem proc_exit_then_reap_witness:
  "fst (proc_reap_pid 0 (snd (proc_exit 0 3 demo_procs))) = Some 3"
proof -
  have "proc_state_of demo_procs 0 \<noteq> PROC_UNUSED" by code_simp
  from proc_exit_then_reap [OF demo_procs_inv this surjective_pairing] show ?thesis by blast
qed

text \<open>
  \<^verbatim>\<open>proc_wait\<close> succeeds exactly when the parent has a zombie child; it then returns the pid
  and exit status of one, and removes exactly that process.
\<close>

theorem proc_wait_correct:
  assumes "proc_inv t"
  shows "case proc_wait ppid t of
      (None, t') \<Rightarrow> t' = t \<and> (\<forall>pid p im. proc_map t pid = Some (p, im) \<longrightarrow>
        \<not> (pr_state p = PROC_ZOMBIE \<and> pr_ppid p = ppid))
    | (Some (pid, code), t') \<Rightarrow> \<exists>p im. proc_map t pid = Some (p, im) \<and> pr_state p = PROC_ZOMBIE \<and>
        pr_ppid p = ppid \<and> pr_exit_code p = code \<and> proc_map t' = (proc_map t)(pid := None)"
proof (cases "proc_wait ppid t")
  case (Pair r t')
  have "r = None \<Longrightarrow> t' = t" using Pair by (auto simp: proc_wait_def split: option.splits)
  then show ?thesis
    using proc_wait_ok(2) [OF assms, of ppid] proc_wait_ok(3) [OF assms, of ppid] Pair
    by (cases r) auto
qed

theorem proc_wait_correct_witness:
  "\<exists>p im. proc_map demo_procs 1 = Some (p, im) \<and> pr_exit_code p = 7 \<and>
     proc_map (snd (proc_wait 0 demo_procs)) = (proc_map demo_procs)(1 := None)"
proof -
  have "fst (proc_wait 0 demo_procs) = Some (1, 7)" by code_simp
  then have "proc_wait 0 demo_procs = (Some (1, 7), snd (proc_wait 0 demo_procs))"
    by (metis prod.collapse)
  with proc_wait_correct [OF demo_procs_inv, of 0] show ?thesis by force
qed

end
