(* ===== verification/Task.thy ===== *)
theory Task
  imports Proc
begin

text \<open>
  \<^verbatim>\<open>kernel/task.c\<close>: the task table and the round-robin scheduler.  \<open>sched_state\<close> holds the
  static variables of the file and the process table of \<^verbatim>\<open>proc.c\<close> that the scheduler keeps
  in step with it; \<^verbatim>\<open>current_index = -1\<close> is \<open>None\<close>.  The functions of the file that enter
  user mode are in \<open>Exec\<close>.  The theory shows that at most one task runs and that it is
  the current one, what a timer tick does, and that no ready task starves.
\<close>

section \<open>Data\<close>

datatype task_state = TASK_UNUSED | TASK_READY | TASK_RUNNING | TASK_BLOCKED | TASK_ZOMBIE

record task_info =
  tk_pid :: int
  tk_ppid :: int
  tk_state :: task_state
  tk_runtime_ticks :: u32
  tk_name :: string

definition MAX_TASKS :: nat where "MAX_TASKS = 32"
definition SCHED_TIMESLICE_TICKS :: u32 where "SCHED_TIMESLICE_TICKS = 4"

record sched_state =
  sc_procs :: proc_table
  tasks :: "task_info list"
  tasks_used :: u32
  current_index :: "nat option"
  switches :: u32
  slice_ticks :: u32

definition empty_task :: task_info where
  "empty_task = \<lparr>tk_pid = 0, tk_ppid = - 1, tk_state = TASK_UNUSED, tk_runtime_ticks = 0,
     tk_name = ''''\<rparr>"

abbreviation upd_procs :: "(proc_table \<Rightarrow> proc_table) \<Rightarrow> sched_state \<Rightarrow> sched_state" where
  "upd_procs f s \<equiv> s\<lparr>sc_procs := f (sc_procs s)\<rparr>"

definition put_task :: "nat \<Rightarrow> task_info \<Rightarrow> sched_state \<Rightarrow> sched_state" where
  "put_task i t s = s\<lparr>tasks := (tasks s)[i := t]\<rparr>"

abbreviation put_state :: "nat \<Rightarrow> task_state \<Rightarrow> sched_state \<Rightarrow> sched_state" where
  "put_state i st s \<equiv> put_task i ((tasks s ! i)\<lparr>tk_state := st\<rparr>) s"

section \<open>Operations\<close>

definition task_alloc_slot :: "sched_state \<Rightarrow> nat option" where
  "task_alloc_slot s =
     find_index (\<lambda>t. tk_state t = TASK_UNUSED \<or> tk_state t = TASK_ZOMBIE) (tasks s)"

definition task_find_slot_by_pid :: "sched_state \<Rightarrow> int \<Rightarrow> nat option" where
  "task_find_slot_by_pid s pid =
     find_index (\<lambda>t. tk_state t \<noteq> TASK_UNUSED \<and> tk_pid t = pid) (tasks s)"

text \<open>
  The demotion of the current task that \<^verbatim>\<open>task_return_to_kernel_main\<close> and \<^verbatim>\<open>task_set_state\<close>
  share: it becomes ready if it was running and is not the task in \<open>slot\<close>.
\<close>

definition demote_current :: "nat \<Rightarrow> sched_state \<Rightarrow> sched_state" where
  "demote_current slot s =
     (case current_index s of
        None \<Rightarrow> s
      | Some c \<Rightarrow>
          if c \<noteq> slot \<and> tk_state (tasks s ! c) = TASK_RUNNING
          then put_state c TASK_READY (upd_procs (proc_set_state (tk_pid (tasks s ! c)) PROC_READY) s)
          else s)"

definition task_return_to_kernel_main :: "sched_state \<Rightarrow> sched_state" where
  "task_return_to_kernel_main s =
     (case task_find_slot_by_pid s 0 of
        None \<Rightarrow> s\<lparr>current_index := None\<rparr>
      | Some kernel_slot \<Rightarrow>
          let s = demote_current kernel_slot s;
              s = put_state kernel_slot TASK_RUNNING (s\<lparr>current_index := Some kernel_slot\<rparr>);
              s = upd_procs (proc_set_state (tk_pid (tasks s ! kernel_slot)) PROC_RUNNING) s
          in s\<lparr>slice_ticks := 0\<rparr>)"

fun task_state_name :: "task_state \<Rightarrow> string" where
  "task_state_name TASK_RUNNING = ''RUN''"
| "task_state_name TASK_READY = ''RDY''"
| "task_state_name TASK_BLOCKED = ''BLK''"
| "task_state_name TASK_ZOMBIE = ''ZMB''"
| "task_state_name TASK_UNUSED = ''UNK''"

definition tasking_init :: "proc_table \<Rightarrow> sched_state" where
  "tasking_init pt =
     (let s = \<lparr>sc_procs = pt, tasks = replicate MAX_TASKS empty_task, tasks_used = 0,
               current_index = None, switches = 0, slice_ticks = 0\<rparr>
      in case task_alloc_slot s of
           None \<Rightarrow> s
         | Some slot \<Rightarrow>
             (put_task slot \<lparr>tk_pid = 0, tk_ppid = - 1, tk_state = TASK_RUNNING,
                tk_runtime_ticks = 0, tk_name = str_copy '''' ''kmain'' 16\<rparr> s)
             \<lparr>current_index := Some slot, tasks_used := 1\<rparr>)"

text \<open>
  \<^verbatim>\<open>task_spawn_kernel\<close> and \<^verbatim>\<open>task_spawn_user\<close> differ in the default task name only (the
  process keeps the default of \<open>proc_spawn_kernel\<close>).
\<close>

definition task_spawn :: "string \<Rightarrow> string option \<Rightarrow> int \<Rightarrow> sched_state \<Rightarrow> int \<times> sched_state" where
  "task_spawn dflt name ppid s =
     (case task_alloc_slot s of
        None \<Rightarrow> (- 1, s)
      | Some slot \<Rightarrow>
          let (pid, pt) = proc_spawn_kernel name ppid (sc_procs s) in
          if pid < 0 then (- 1, s\<lparr>sc_procs := pt\<rparr>)
          else
            (pid, (put_task slot \<lparr>tk_pid = pid, tk_ppid = ppid, tk_state = TASK_READY,
                     tk_runtime_ticks = 0,
                     tk_name = str_copy (tk_name (tasks s ! slot))
                       (case name of Some n \<Rightarrow> n | None \<Rightarrow> dflt) 16\<rparr> s)
                  \<lparr>sc_procs := pt, tasks_used := tasks_used s + 1\<rparr>))"

definition task_spawn_kernel :: "string option \<Rightarrow> int \<Rightarrow> sched_state \<Rightarrow> int \<times> sched_state" where
  "task_spawn_kernel name ppid s = task_spawn ''kproc'' name ppid s"

definition task_spawn_user :: "string option \<Rightarrow> int \<Rightarrow> sched_state \<Rightarrow> int \<times> sched_state" where
  "task_spawn_user name ppid s = task_spawn ''uproc'' name ppid s"

definition task_set_state :: "int \<Rightarrow> task_state \<Rightarrow> sched_state \<Rightarrow> sched_state" where
  "task_set_state pid state s =
     (case task_find_slot_by_pid s pid of
        None \<Rightarrow> s
      | Some slot \<Rightarrow>
          let s = (if state = TASK_RUNNING then demote_current slot s else s);
              s = put_state slot state s
          in if state = TASK_RUNNING
             then upd_procs (proc_set_state pid PROC_RUNNING)
                    (s\<lparr>current_index := Some slot, slice_ticks := 0\<rparr>)
             else s)"

definition task_reap_pid :: "int \<Rightarrow> sched_state \<Rightarrow> bool \<times> sched_state" where
  "task_reap_pid pid s =
     (case task_find_slot_by_pid s pid of
        None \<Rightarrow> (False, s)
      | Some slot \<Rightarrow>
          let s = (put_task slot empty_task s)
                    \<lparr>tasks_used := (if tasks_used s > 0 then tasks_used s - 1 else tasks_used s)\<rparr>
          in (True, if current_index s = Some slot then task_return_to_kernel_main s else s))"

text \<open>
  \<open>next_ready s c\<close> is the \<open>n\<close> at which the scan of \<^verbatim>\<open>scheduler_on_timer_tick\<close> stops: the
  first of \<open>1, \<dots>, MAX_TASKS - 1\<close> such that slot \<open>(c + n) mod MAX_TASKS\<close> is ready.
\<close>

definition next_ready :: "sched_state \<Rightarrow> nat \<Rightarrow> nat option" where
  "next_ready s c =
     map_option Suc (find_index (\<lambda>n. tk_state (tasks s ! ((c + n) mod MAX_TASKS)) = TASK_READY)
       [1..<MAX_TASKS])"

definition sched_switch :: "nat \<Rightarrow> nat \<Rightarrow> sched_state \<Rightarrow> sched_state" where
  "sched_switch cur nxt s =
     (let old_pid = tk_pid (tasks s ! cur); new_pid = tk_pid (tasks s ! nxt);
          s = put_state cur TASK_READY s;
          s = put_state nxt TASK_RUNNING s;
          s = s\<lparr>current_index := Some nxt\<rparr>;
          s = upd_procs (proc_set_state old_pid PROC_READY) s;
          s = upd_procs (proc_set_state new_pid PROC_RUNNING) s
      in s\<lparr>slice_ticks := 0, switches := switches s + 1\<rparr>)"

definition scheduler_on_timer_tick :: "sched_state \<Rightarrow> sched_state" where
  "scheduler_on_timer_tick s =
     (case current_index s of
        None \<Rightarrow> s
      | Some cur \<Rightarrow>
          let t = tasks s ! cur;
              s = (if tk_state t = TASK_RUNNING
                   then (put_task cur (t\<lparr>tk_runtime_ticks := tk_runtime_ticks t + 1\<rparr>) s)
                          \<lparr>slice_ticks := slice_ticks s + 1\<rparr>
                   else s)
          in if tasks_used s \<le> 1 then s
             else if slice_ticks s < SCHED_TIMESLICE_TICKS then s
             else case next_ready s cur of
                 None \<Rightarrow> s
               | Some n \<Rightarrow> sched_switch cur ((cur + n) mod MAX_TASKS) s)"

definition task_current_pid :: "sched_state \<Rightarrow> int" where
  "task_current_pid s =
     (case current_index s of None \<Rightarrow> - 1 | Some c \<Rightarrow> tk_pid (tasks s ! c))"

definition task_count :: "sched_state \<Rightarrow> u32" where
  "task_count s = tasks_used s"

definition scheduler_switch_count :: "sched_state \<Rightarrow> u32" where
  "scheduler_switch_count s = switches s"

section \<open>Invariant\<close>

abbreviation used_task :: "task_info \<Rightarrow> bool" where "used_task t \<equiv> tk_state t \<noteq> TASK_UNUSED"

interpretation ttab: slot_table used_task tk_pid empty_task
  by unfold_locales (simp add: empty_task_def)

text \<open>
  The kernel's own task is in slot 0 for ever, pids are distinct and were handed out by the
  process table, the current slot is in use, and only the current task can be running.
\<close>

definition tasks_wf :: "task_info list \<Rightarrow> int \<Rightarrow> bool" where
  "tasks_wf ts np \<longleftrightarrow>
     length ts = MAX_TASKS \<and> unique_keys used_task tk_pid ts \<and>
     (\<forall>t \<in> set ts. used_task t \<longrightarrow> 0 \<le> tk_pid t \<and> tk_pid t < np) \<and>
     tk_pid (ts ! 0) = 0 \<and> used_task (ts ! 0) \<and> tk_state (ts ! 0) \<noteq> TASK_ZOMBIE"

definition current_wf :: "task_info list \<Rightarrow> nat option \<Rightarrow> bool" where
  "current_wf ts cur \<longleftrightarrow>
     (\<exists>c < MAX_TASKS. cur = Some c \<and> used_task (ts ! c) \<and>
        (\<forall>i < MAX_TASKS. i \<noteq> c \<longrightarrow> tk_state (ts ! i) \<noteq> TASK_RUNNING))"

definition sched_inv :: "sched_state \<Rightarrow> bool" where
  "sched_inv s \<longleftrightarrow> proc_inv (sc_procs s) \<and> tasks_wf (tasks s) (next_pid (sc_procs s)) \<and>
     current_wf (tasks s) (current_index s)"

lemma put_task_sel [simp]:
  "sc_procs (put_task i t s) = sc_procs s" "tasks (put_task i t s) = (tasks s)[i := t]"
  "tasks_used (put_task i t s) = tasks_used s" "current_index (put_task i t s) = current_index s"
  "switches (put_task i t s) = switches s" "slice_ticks (put_task i t s) = slice_ticks s"
  by (simp_all add: put_task_def)

lemma tasks_wf_len: "tasks_wf ts np \<Longrightarrow> length ts = MAX_TASKS"
  by (simp add: tasks_wf_def)

lemma tasks_wf_put:
  assumes "tasks_wf ts np"
    and "used_task e \<Longrightarrow> 0 \<le> tk_pid e \<and> tk_pid e < np \<and>
      (ttab.tmap ts (tk_pid e) = None \<or> ttab.slot ts (tk_pid e) = Some i)"
    and "i = 0 \<Longrightarrow> tk_pid e = 0 \<and> used_task e \<and> tk_state e \<noteq> TASK_ZOMBIE"
  shows "tasks_wf (ts[i := e]) np"
proof -
  have "ttab.uniq (ts[i := e])"
    by (rule ttab.uniq_update) (use assms in \<open>auto simp: tasks_wf_def\<close>)
  moreover have "ts[i := e] ! 0 = (if i = 0 then e else ts ! 0)"
    using assms(1) by (auto simp: tasks_wf_def MAX_TASKS_def nth_list_update)
  ultimately show ?thesis
    using assms by (auto simp: tasks_wf_def dest!: set_update_subset_insert [THEN subsetD])
qed

lemma tasks_wf_slot:
  "tasks_wf ts np \<Longrightarrow> i < MAX_TASKS \<Longrightarrow> used_task (ts ! i) \<Longrightarrow> ttab.slot ts (tk_pid (ts ! i)) = Some i"
  by (rule ttab.slot_eq) (simp_all add: tasks_wf_def)

lemma tasks_wf_put_same:
  assumes "tasks_wf ts np" and "i < MAX_TASKS" and "used_task (ts ! i)" and "tk_pid e = tk_pid (ts ! i)"
    and "i = 0 \<Longrightarrow> used_task e \<and> tk_state e \<noteq> TASK_ZOMBIE"
  shows "tasks_wf (ts[i := e]) np"
proof (rule tasks_wf_put [OF assms(1)])
  show "0 \<le> tk_pid e \<and> tk_pid e < np \<and>
      (ttab.tmap ts (tk_pid e) = None \<or> ttab.slot ts (tk_pid e) = Some i)"
    using assms tasks_wf_slot [OF assms(1-3)] by (auto simp: tasks_wf_def)
  show "tk_pid e = 0 \<and> used_task e \<and> tk_state e \<noteq> TASK_ZOMBIE" if "i = 0"
    using that assms by (simp add: tasks_wf_def)
qed

lemma task_find_eq: "task_find_slot_by_pid s pid = ttab.slot (tasks s) pid"
  by (simp add: task_find_slot_by_pid_def slot_of_def)

lemma task_find_D:
  assumes "sched_inv s" and "task_find_slot_by_pid s pid = Some i"
  shows "i < MAX_TASKS" "used_task (tasks s ! i)" "tk_pid (tasks s ! i) = pid"
  using assms ttab.slot_SomeD [of "tasks s" pid i]
  by (auto simp: task_find_eq sched_inv_def tasks_wf_def)

lemma task_find_kernel: "sched_inv s \<Longrightarrow> task_find_slot_by_pid s 0 = Some 0"
  using tasks_wf_slot [of "tasks s" _ 0]
  by (auto simp: task_find_eq sched_inv_def tasks_wf_def MAX_TASKS_def)

text \<open>Writing the state of one used slot and the state of its process.\<close>

definition only_running :: "nat \<Rightarrow> sched_state \<Rightarrow> bool" where
  "only_running c s \<longleftrightarrow> (\<forall>i < MAX_TASKS. i \<noteq> c \<longrightarrow> tk_state (tasks s ! i) \<noteq> TASK_RUNNING)"

lemma sched_inv_len: "sched_inv s \<Longrightarrow> length (tasks s) = MAX_TASKS"
  by (simp add: sched_inv_def tasks_wf_def)

lemma sched_inv_current:
  assumes "sched_inv s"
  obtains c where "current_index s = Some c" "c < MAX_TASKS" "used_task (tasks s ! c)" "only_running c s"
  using assms by (auto simp: sched_inv_def current_wf_def only_running_def)

lemma sched_inv_procs: "sched_inv s \<Longrightarrow> proc_inv (sc_procs s)"
  by (simp add: sched_inv_def)

lemma sched_inv_set_proc:
  "sched_inv s \<Longrightarrow> st \<noteq> PROC_UNUSED \<Longrightarrow> pt = sc_procs s \<Longrightarrow>
   sched_inv (s\<lparr>sc_procs := proc_set_state pid st pt\<rparr>)"
  by (simp add: sched_inv_def proc_set_state_ok)

lemma sched_inv_put:
  assumes inv: "sched_inv s" and i: "i < MAX_TASKS" "used_task (tasks s ! i)"
    and e: "tk_pid e = tk_pid (tasks s ! i)" "used_task e" "i = 0 \<Longrightarrow> tk_state e \<noteq> TASK_ZOMBIE"
    and run: "tk_state e = TASK_RUNNING \<Longrightarrow> current_index s = Some i"
  shows "sched_inv (put_task i e s)"
proof -
  have "tasks_wf ((tasks s)[i := e]) (next_pid (sc_procs s))"
    by (rule tasks_wf_put_same) (use inv i e in \<open>auto simp: sched_inv_def\<close>)
  moreover have "current_wf ((tasks s)[i := e]) (current_index s)"
  proof -
    obtain c where c: "current_index s = Some c" "c < MAX_TASKS" "used_task (tasks s ! c)" "only_running c s"
      using sched_inv_current [OF inv] .
    have nth: "(tasks s)[i := e] ! j = (if j = i then e else tasks s ! j)" for j
      using sched_inv_len [OF inv] i(1) by (simp add: nth_list_update)
    show ?thesis unfolding current_wf_def nth using c run e(2) by (auto simp: only_running_def)
  qed
  ultimately show ?thesis using inv by (simp add: sched_inv_def)
qed

lemma demote_current_ok:
  assumes inv: "sched_inv s"
  shows "sched_inv (demote_current slot s)" and "only_running slot (demote_current slot s)"
    and "tk_pid (tasks (demote_current slot s) ! i) = tk_pid (tasks s ! i)"
    and "used_task (tasks (demote_current slot s) ! i) = used_task (tasks s ! i)"
proof -
  obtain c where c: "current_index s = Some c" "c < MAX_TASKS" "used_task (tasks s ! c)" "only_running c s"
    using sched_inv_current [OF inv] .
  note len = sched_inv_len [OF inv]
  let ?s = "upd_procs (proc_set_state (tk_pid (tasks s ! c)) PROC_READY) s"
  have "sched_inv (put_state c TASK_READY ?s)"
    by (rule sched_inv_put) (use inv c in \<open>auto intro!: sched_inv_set_proc\<close>)
  then show "sched_inv (demote_current slot s)" using inv c(1) by (simp add: demote_current_def)
  have nth: "tasks (demote_current slot s) ! i =
      (if i = c \<and> c \<noteq> slot \<and> tk_state (tasks s ! c) = TASK_RUNNING
       then (tasks s ! i)\<lparr>tk_state := TASK_READY\<rparr> else tasks s ! i)" for i
  proof (cases "c \<noteq> slot \<and> tk_state (tasks s ! c) = TASK_RUNNING")
    case True
    then have "tasks (demote_current slot s) = (tasks s)[c := (tasks s ! c)\<lparr>tk_state := TASK_READY\<rparr>]"
      using c(1) by (simp add: demote_current_def)
    then show ?thesis using True c(2) len by (cases "i = c") simp_all
  next
    case False
    then show ?thesis using c(1) by (auto simp: demote_current_def)
  qed
  show "only_running slot (demote_current slot s)"
    using c(4) unfolding only_running_def nth by auto
  show "tk_pid (tasks (demote_current slot s) ! i) = tk_pid (tasks s ! i)"
    "used_task (tasks (demote_current slot s) ! i) = used_task (tasks s ! i)"
    unfolding nth by simp_all
qed

text \<open>Making the task of a slot the running one.\<close>

lemma set_running_ok:
  assumes inv: "sched_inv s" and i: "i < MAX_TASKS" "used_task (tasks s ! i)" and run: "only_running i s"
  shows "sched_inv (put_state i TASK_RUNNING (s\<lparr>current_index := Some i\<rparr>))"
proof (rule sched_inv_put)
  show "sched_inv (s\<lparr>current_index := Some i\<rparr>)"
    using inv i run by (simp add: sched_inv_def current_wf_def only_running_def)
qed (use i in simp_all)

lemma sched_inv_counters [simp]:
  "sched_inv (s\<lparr>slice_ticks := x\<rparr>) = sched_inv s" "sched_inv (s\<lparr>switches := x\<rparr>) = sched_inv s"
  "sched_inv (s\<lparr>tasks_used := x\<rparr>) = sched_inv s"
  by (simp_all add: sched_inv_def)

lemma put_task_current: "(put_task i t s)\<lparr>current_index := c\<rparr> = put_task i t (s\<lparr>current_index := c\<rparr>)"
  by (simp add: put_task_def)

lemma task_return_to_kernel_main_ok [inv_intros]:
  assumes inv: "sched_inv s"
  shows "sched_inv (task_return_to_kernel_main s)"
    and "current_index (task_return_to_kernel_main s) = Some 0"
    and "tk_state (tasks (task_return_to_kernel_main s) ! 0) = TASK_RUNNING"
proof -
  note d = demote_current_ok [OF inv, of 0]
  have k: "0 < MAX_TASKS" "used_task (tasks s ! 0)"
    using inv by (simp_all add: sched_inv_def tasks_wf_def MAX_TASKS_def)
  let ?s = "demote_current 0 s"
  have "sched_inv (put_state 0 TASK_RUNNING (?s\<lparr>current_index := Some 0\<rparr>))"
    by (rule set_running_ok [OF d(1) k(1) _ d(2)]) (simp add: d(4) k)
  then show "sched_inv (task_return_to_kernel_main s)"
    unfolding task_return_to_kernel_main_def task_find_kernel [OF inv] Let_def
    by (simp only: option.case sched_inv_counters) (rule sched_inv_set_proc; simp)
  show "current_index (task_return_to_kernel_main s) = Some 0"
    "tk_state (tasks (task_return_to_kernel_main s) ! 0) = TASK_RUNNING"
    using k(1) sched_inv_len [OF d(1)]
    by (simp_all add: task_return_to_kernel_main_def task_find_kernel [OF inv] Let_def)
qed

lemma task_set_state_ok [inv_intros]:
  assumes inv: "sched_inv s" and st: "st \<noteq> TASK_UNUSED" "pid = 0 \<Longrightarrow> st \<noteq> TASK_ZOMBIE"
  shows "sched_inv (task_set_state pid st s)"
proof (cases "task_find_slot_by_pid s pid")
  case (Some i)
  note f = task_find_D [OF inv Some]
  note d = demote_current_ok [OF inv, of i]
  show ?thesis
  proof (cases "st = TASK_RUNNING")
    case True
    let ?s = "demote_current i s"
    have "sched_inv (put_state i TASK_RUNNING (?s\<lparr>current_index := Some i\<rparr>))"
      by (rule set_running_ok [OF d(1) f(1) _ d(2)]) (simp add: d(4) f(2))
    then show ?thesis using True
      by (simp only: task_set_state_def Some Let_def put_task_current option.case if_True simp_thms)
        (rule sched_inv_set_proc; simp)
  next
    case False
    have "tk_pid (tasks s ! 0) = 0" using inv by (simp add: sched_inv_def tasks_wf_def)
    then have "i = 0 \<Longrightarrow> pid = 0" using f(3) by simp
    then show ?thesis using False Some f inv st
      by (auto simp: task_set_state_def intro!: sched_inv_put)
  qed
qed (simp add: task_set_state_def inv)

lemma tasks_wf_mono: "tasks_wf ts np \<Longrightarrow> np \<le> np' \<Longrightarrow> tasks_wf ts np'"
  by (fastforce simp: tasks_wf_def)

lemma sched_inv_proc_step:
  "sched_inv s \<Longrightarrow> proc_step (sc_procs s) pt \<Longrightarrow> sched_inv (s\<lparr>sc_procs := pt\<rparr>)"
  using proc_step_next_pid [of "sc_procs s" pt]
  by (auto simp: sched_inv_def intro: proc_step_inv tasks_wf_mono)

text \<open>The kernel task takes over from a current task that is not running.\<close>

lemma return_from_stopped:
  assumes "task_find_slot_by_pid s 0 = Some 0" "current_index s = Some c" "tk_state (tasks s ! c) \<noteq> TASK_RUNNING"
  shows "task_return_to_kernel_main s = task_return_to_kernel_main (s\<lparr>current_index := Some 0\<rparr>)"
proof -
  have "task_find_slot_by_pid (s\<lparr>current_index := Some 0\<rparr>) 0 = Some 0"
    using assms(1) by (simp add: task_find_slot_by_pid_def)
  moreover have "demote_current 0 s = s" "demote_current 0 (s\<lparr>current_index := Some 0\<rparr>) = s\<lparr>current_index := Some 0\<rparr>"
    using assms(2,3) by (simp_all add: demote_current_def)
  ultimately show ?thesis using assms(1)
    by (simp add: task_return_to_kernel_main_def Let_def)
qed

lemma clear_task_inv:
  assumes inv: "sched_inv s" and i: "task_find_slot_by_pid s pid = Some i" and pid: "pid \<noteq> 0"
    and c: "current_index s = Some c"
  shows "sched_inv ((put_task i empty_task s)\<lparr>current_index := Some (if c = i then 0 else c)\<rparr>)"
proof -
  note wf = inv [unfolded sched_inv_def] and f = task_find_D [OF inv i]
  have k: "tk_pid (tasks s ! 0) = 0" "used_task (tasks s ! 0)" using wf by (auto simp: tasks_wf_def)
  then have i0: "i \<noteq> 0" using f pid by (intro notI) simp
  have nth: "(tasks s)[i := empty_task] ! j = (if j = i then empty_task else tasks s ! j)" for j
    using f(1) sched_inv_len [OF inv] by (simp add: nth_list_update)
  have "tasks_wf ((tasks s)[i := empty_task]) (next_pid (sc_procs s))"
    by (rule tasks_wf_put) (use wf i0 in \<open>auto simp: empty_task_def\<close>)
  moreover have "current_wf ((tasks s)[i := empty_task]) (Some (if c = i then 0 else c))"
    using wf c k(2) i0 unfolding current_wf_def nth by (auto simp: MAX_TASKS_def empty_task_def)
  ultimately show ?thesis using wf by (simp add: sched_inv_def)
qed

lemma return_tasks_used:
  "task_return_to_kernel_main (s\<lparr>tasks_used := n\<rparr>) = (task_return_to_kernel_main s)\<lparr>tasks_used := n\<rparr>"
  by (simp add: task_return_to_kernel_main_def task_find_slot_by_pid_def demote_current_def put_task_def Let_def
      split: option.split)

lemma task_reap_pid_ok [inv_intros]:
  assumes inv: "sched_inv s" and pid: "pid \<noteq> 0"
  shows "sched_inv (snd (task_reap_pid pid s))"
proof (cases "task_find_slot_by_pid s pid")
  case (Some i)
  obtain c where c: "current_index s = Some c" using sched_inv_current [OF inv] .
  note cl = clear_task_inv [OF inv Some pid c]
  let ?t = "put_task i empty_task s"
  show ?thesis
  proof (cases "c = i")
    case True
    note k = task_find_kernel [OF cl]
    have st: "tk_state (tasks ?t ! i) \<noteq> TASK_RUNNING"
      using task_find_D(1) [OF inv Some] sched_inv_len [OF inv] by (simp add: empty_task_def)
    have "task_return_to_kernel_main ?t = task_return_to_kernel_main (?t\<lparr>current_index := Some 0\<rparr>)"
      by (rule return_from_stopped [of _ i]) (use k c True st in \<open>simp_all add: task_find_slot_by_pid_def\<close>)
    then have "sched_inv (task_return_to_kernel_main ?t)"
      using task_return_to_kernel_main_ok(1) [OF cl] True by simp
    then show ?thesis using Some c True by (simp add: task_reap_pid_def Let_def return_tasks_used)
  next
    case False
    have "sched_inv ?t" using cl False c by (simp add: put_task_def sched_inv_def)
    then show ?thesis using Some c False by (simp add: task_reap_pid_def Let_def)
  qed
qed (simp add: task_reap_pid_def inv)

lemma task_alloc_D:
  "task_alloc_slot s = Some i \<Longrightarrow> i < length (tasks s) \<and>
   (tk_state (tasks s ! i) = TASK_UNUSED \<or> tk_state (tasks s ! i) = TASK_ZOMBIE)"
  by (auto simp: task_alloc_slot_def dest: find_index_SomeD)

lemma task_spawn_ok [inv_intros]:
  assumes inv: "sched_inv s"
  shows "sched_inv (snd (task_spawn d name ppid s))"
proof (cases "task_alloc_slot s = None \<or> alloc_slot (sc_procs s) = None")
  case True
  then show ?thesis
    using inv by (auto simp: task_spawn_def proc_spawn_full split: option.split)
next
  case False
  then obtain i j where i: "task_alloc_slot s = Some i" and j: "alloc_slot (sc_procs s) = Some j" by auto
  note wf = inv [unfolded sched_inv_def] and a = task_alloc_D [OF i]
  let ?pt = "snd (proc_spawn_kernel name ppid (sc_procs s))"
  let ?np = "next_pid (sc_procs s)"
  note sp = proc_spawn_ok [OF sched_inv_procs [OF inv] j, of name ppid]
  define e where "e = \<lparr>tk_pid = ?np, tk_ppid = ppid, tk_state = TASK_READY, tk_runtime_ticks = 0,
    tk_name = str_copy (tk_name (tasks s ! i)) (case name of Some n \<Rightarrow> n | None \<Rightarrow> d) 16\<rparr>"
  have np: "0 < ?np" using wf by (simp add: proc_inv_def)
  have eq: "snd (task_spawn d name ppid s) =
      (put_task i e s)\<lparr>sc_procs := ?pt, tasks_used := tasks_used s + 1\<rparr>"
    using i np sp(1) by (simp add: task_spawn_def e_def split_def Let_def)
  have i0: "i \<noteq> 0" using a wf by (intro notI) (simp add: tasks_wf_def)
  have fresh: "ttab.tmap (tasks s) ?np = None"
    using wf by (auto simp: tasks_wf_def ttab.tmap_None_iff)
  have "tasks_wf ((tasks s)[i := e]) (?np + 1)"
    by (rule tasks_wf_put) (use wf np fresh i0 in \<open>auto simp: e_def intro: tasks_wf_mono\<close>)
  moreover have "current_wf ((tasks s)[i := e]) (current_index s)"
  proof -
    have nth: "(tasks s)[i := e] ! k = (if k = i then e else tasks s ! k)" for k
      using a by (simp add: nth_list_update)
    show ?thesis using wf unfolding current_wf_def nth by (auto simp: e_def)
  qed
  ultimately show ?thesis using sp(2,3) by (simp add: eq sched_inv_def)
qed

section \<open>The timer tick\<close>

abbreviation ready_at :: "sched_state \<Rightarrow> nat \<Rightarrow> bool" where
  "ready_at s i \<equiv> tk_state (tasks s ! (i mod MAX_TASKS)) = TASK_READY"

lemma next_ready_Some_iff:
  "next_ready s c = Some n \<longleftrightarrow>
   0 < n \<and> n < MAX_TASKS \<and> ready_at s (c + n) \<and> (\<forall>m. 0 < m \<and> m < n \<longrightarrow> \<not> ready_at s (c + m))"
proof (cases n)
  case (Suc k)
  have nth: "[1..<MAX_TASKS] ! j = Suc j" if "j < MAX_TASKS - 1" for j
    using that by (simp add: MAX_TASKS_def)
  have "next_ready s c = Some n \<longleftrightarrow>
      k < MAX_TASKS - 1 \<and> ready_at s (c + Suc k) \<and> (\<forall>j < k. \<not> ready_at s (c + Suc j))"
    using nth by (auto simp: next_ready_def Suc find_index_Some_iff)
  also have "(\<forall>j < k. \<not> ready_at s (c + Suc j)) \<longleftrightarrow> (\<forall>m. 0 < m \<and> m < Suc k \<longrightarrow> \<not> ready_at s (c + m))"
    by (metis Suc_less_eq Suc_pred zero_less_Suc)
  finally show ?thesis by (auto simp: Suc MAX_TASKS_def)
qed (auto simp: next_ready_def)

lemma next_ready_None_iff:
  "next_ready s c = None \<longleftrightarrow> (\<forall>n. 0 < n \<and> n < MAX_TASKS \<longrightarrow> \<not> ready_at s (c + n))"
  by (auto simp: next_ready_def find_index_None_iff Suc_le_eq)

lemma cyclic_neq: "0 < n \<Longrightarrow> n < MAX_TASKS \<Longrightarrow> c < MAX_TASKS \<Longrightarrow> (c + n) mod MAX_TASKS \<noteq> c"
  by (cases "c + n < MAX_TASKS") (auto simp: mod_if)

lemma sched_switch_sel [simp]:
  "current_index (sched_switch c n s) = Some n" "slice_ticks (sched_switch c n s) = 0"
  "switches (sched_switch c n s) = switches s + 1" "tasks_used (sched_switch c n s) = tasks_used s"
  by (simp_all add: sched_switch_def Let_def)

lemma sched_switch_nth:
  assumes "length (tasks s) = MAX_TASKS" "c < MAX_TASKS" "n < MAX_TASKS" "n \<noteq> c"
  shows "tasks (sched_switch c n s) ! i =
    (if i = c then (tasks s ! c)\<lparr>tk_state := TASK_READY\<rparr>
     else if i = n then (tasks s ! n)\<lparr>tk_state := TASK_RUNNING\<rparr> else tasks s ! i)"
  using assms by (simp add: sched_switch_def Let_def nth_list_update)

lemma sched_switch_ok:
  assumes inv: "sched_inv s" and c: "current_index s = Some c" and n: "n < MAX_TASKS" "n \<noteq> c"
    "tk_state (tasks s ! n) = TASK_READY"
  shows "sched_inv (sched_switch c n s)"
proof -
  obtain c: "c < MAX_TASKS" "used_task (tasks s ! c)" "only_running c s"
    using sched_inv_current [OF inv] c by auto
  note len = sched_inv_len [OF inv]
  let ?s = "put_state c TASK_READY s"
  have s1: "sched_inv ?s" by (rule sched_inv_put [OF inv c(1,2)]) simp_all
  have run: "only_running n ?s"
    using c(1,3) len by (auto simp: only_running_def nth_list_update)
  have "used_task (tasks ?s ! n)" using n by simp
  from set_running_ok [OF s1 n(1) this run]
  have s2: "sched_inv ((put_state n TASK_RUNNING ?s)\<lparr>current_index := Some n\<rparr>)"
    by (simp add: put_task_current)
  show ?thesis
    unfolding sched_switch_def Let_def sched_inv_counters
    by (rule sched_inv_set_proc, rule sched_inv_set_proc, rule s2) simp_all
qed

text \<open>The accounting that every tick does before the scan.\<close>

definition account :: "nat \<Rightarrow> sched_state \<Rightarrow> sched_state" where
  "account cur s =
     (if tk_state (tasks s ! cur) = TASK_RUNNING
      then (put_task cur ((tasks s ! cur)\<lparr>tk_runtime_ticks := tk_runtime_ticks (tasks s ! cur) + 1\<rparr>) s)
             \<lparr>slice_ticks := slice_ticks s + 1\<rparr>
      else s)"

lemma account_nth:
  "tk_state (tasks (account c s) ! i) = tk_state (tasks s ! i)"
  "tk_pid (tasks (account c s) ! i) = tk_pid (tasks s ! i)"
  by (simp_all add: account_def nth_update_proj [where f = tk_state] nth_update_proj [where f = tk_pid])

lemma account_sel [simp]:
  "sc_procs (account c s) = sc_procs s" "current_index (account c s) = current_index s"
  "tasks_used (account c s) = tasks_used s" "switches (account c s) = switches s"
  "length (tasks (account c s)) = length (tasks s)"
  by (simp_all add: account_def)

lemma tick_eq:
  "current_index s = Some c \<Longrightarrow> scheduler_on_timer_tick s =
   (if tasks_used s \<le> 1 \<or> slice_ticks (account c s) < SCHED_TIMESLICE_TICKS then account c s
    else case next_ready s c of
        None \<Rightarrow> account c s
      | Some n \<Rightarrow> sched_switch c ((c + n) mod MAX_TASKS) (account c s))"
proof -
  assume c: "current_index s = Some c"
  have "next_ready (account c s) c = next_ready s c" by (simp add: next_ready_def account_nth)
  moreover have "scheduler_on_timer_tick s =
     (let s = account c s
      in if tasks_used s \<le> 1 then s
         else if slice_ticks s < SCHED_TIMESLICE_TICKS then s
         else case next_ready s c of
             None \<Rightarrow> s
           | Some n \<Rightarrow> sched_switch c ((c + n) mod MAX_TASKS) s)"
    unfolding scheduler_on_timer_tick_def c account_def Let_def by simp
  ultimately show ?thesis by (simp add: Let_def)
qed

lemma account_ok:
  assumes inv: "sched_inv s" and c: "current_index s = Some c"
  shows "sched_inv (account c s)"
proof -
  obtain u: "c < MAX_TASKS" "used_task (tasks s ! c)" using sched_inv_current [OF inv] c by auto
  have "tk_state (tasks s ! 0) \<noteq> TASK_ZOMBIE" using inv by (simp add: sched_inv_def tasks_wf_def)
  then have "sched_inv (put_task c ((tasks s ! c)\<lparr>tk_runtime_ticks := x\<rparr>) s)" for x
    using u c by (intro sched_inv_put [OF inv u]) auto
  then show ?thesis using inv by (simp add: account_def)
qed

lemma tick_inv [inv_intros]: "sched_inv s \<Longrightarrow> sched_inv (scheduler_on_timer_tick s)"
proof -
  assume inv: "sched_inv s"
  obtain c where c: "current_index s = Some c" "c < MAX_TASKS" using sched_inv_current [OF inv] .
  note a = account_ok [OF inv c(1)]
  have "sched_inv (sched_switch c ((c + n) mod MAX_TASKS) (account c s))" if "next_ready s c = Some n" for n
  proof (rule sched_switch_ok [OF a])
    show "(c + n) mod MAX_TASKS \<noteq> c" using cyclic_neq c(2) that by (simp add: next_ready_Some_iff)
  qed (use c that in \<open>auto simp: account_nth next_ready_Some_iff MAX_TASKS_def\<close>)
  then show ?thesis using a by (auto simp: tick_eq [OF c(1)] split: option.split)
qed

section \<open>Fairness\<close>

text \<open>The number of ticks until a running task with slice counter \<open>w\<close> can be preempted.\<close>

definition ticks_left :: "u32 \<Rightarrow> nat" where
  "ticks_left w = (if w = - 1 then 5 else if w \<ge> 3 then 1 else 4 - unat w)"

lemma ticks_left_bounds: "0 < ticks_left w" "ticks_left w \<le> 5"
  by (auto simp: ticks_left_def word_le_nat_alt)

lemma ticks_left_Suc:
  "ticks_left w = 1 \<Longrightarrow> \<not> w + 1 < SCHED_TIMESLICE_TICKS"
  "1 < ticks_left w \<Longrightarrow> w + 1 < SCHED_TIMESLICE_TICKS"
  "1 < ticks_left w \<Longrightarrow> ticks_left (w + 1) = ticks_left w - 1"
proof -
  have "(ticks_left w = 1 \<longrightarrow> \<not> w + 1 < SCHED_TIMESLICE_TICKS) \<and>
    (1 < ticks_left w \<longrightarrow> w + 1 < SCHED_TIMESLICE_TICKS \<and> ticks_left (w + 1) = ticks_left w - 1)"
  proof (cases "w = - 1")
    case True
    then show ?thesis by (simp add: ticks_left_def SCHED_TIMESLICE_TICKS_def)
  next
    case False
    have m: "w + 1 = - 1 \<longleftrightarrow> unat w = 4294967294"
      using unat_inc [OF False] unat_max_u32 by (auto simp: word_unat_eq_iff)
    show ?thesis
      using False unat_inc [OF False]
      by (auto simp: ticks_left_def SCHED_TIMESLICE_TICKS_def word_le_nat_alt word_less_nat_alt m)
  qed
  then show "ticks_left w = 1 \<Longrightarrow> \<not> w + 1 < SCHED_TIMESLICE_TICKS"
    "1 < ticks_left w \<Longrightarrow> w + 1 < SCHED_TIMESLICE_TICKS"
    "1 < ticks_left w \<Longrightarrow> ticks_left (w + 1) = ticks_left w - 1" by blast+
qed

text \<open>
  \<open>running s c\<close>: the scheduler can preempt; task \<open>c\<close> runs.  \<open>same_states s s'\<close>: no task
  has changed its state.
\<close>

definition running :: "sched_state \<Rightarrow> nat \<Rightarrow> bool" where
  "running s c \<longleftrightarrow> sched_inv s \<and> current_index s = Some c \<and> c < MAX_TASKS \<and>
     tk_state (tasks s ! c) = TASK_RUNNING \<and> 1 < tasks_used s"

definition same_states :: "sched_state \<Rightarrow> sched_state \<Rightarrow> bool" where
  "same_states s s' \<longleftrightarrow> (\<forall>i. tk_state (tasks s' ! i) = tk_state (tasks s ! i))"

lemma running_account: "running s c \<Longrightarrow> running (account c s) c \<and> same_states s (account c s)"
  by (simp add: running_def same_states_def account_nth account_ok)

lemma next_ready_same: "same_states s s' \<Longrightarrow> next_ready s' c = next_ready s c"
  by (simp add: next_ready_def same_states_def)

lemma tick_running:
  assumes "running s c" and "next_ready s c = Some n"
  shows "ticks_left (slice_ticks s) = 1 \<Longrightarrow>
      scheduler_on_timer_tick s = sched_switch c ((c + n) mod MAX_TASKS) (account c s)"
    and "1 < ticks_left (slice_ticks s) \<Longrightarrow> scheduler_on_timer_tick s = account c s"
  using assms ticks_left_Suc(1,2) [of "slice_ticks s"]
  by (auto simp: running_def tick_eq [of s c] account_def not_le)

lemma switch_within:
  assumes "running s c" and "next_ready s c = Some n"
  shows "\<exists>k s'. k \<le> ticks_left (slice_ticks s) \<and> running s' c \<and> same_states s s' \<and>
    (scheduler_on_timer_tick ^^ k) s = sched_switch c ((c + n) mod MAX_TASKS) s'"
  using assms
proof (induction "ticks_left (slice_ticks s)" arbitrary: s rule: less_induct)
  case less
  note ac = running_account [OF less.prems(1)]
  consider "ticks_left (slice_ticks s) = 1" | "1 < ticks_left (slice_ticks s)"
    using ticks_left_bounds(1) [of "slice_ticks s"] by linarith
  then show ?case
  proof cases
    case 1
    then show ?thesis
      using tick_running(1) [OF less.prems 1] ac by (intro exI [of _ 1] exI [of _ "account c s"]) simp
  next
    case 2
    have sl: "slice_ticks (account c s) = slice_ticks s + 1"
      using less.prems(1) by (simp add: running_def account_def)
    then have lt: "ticks_left (slice_ticks (account c s)) = ticks_left (slice_ticks s) - 1"
      using ticks_left_Suc(3) [OF 2] by simp
    obtain k s' where k: "k \<le> ticks_left (slice_ticks (account c s))" "running s' c"
        "same_states (account c s) s'"
        "(scheduler_on_timer_tick ^^ k) (account c s) = sched_switch c ((c + n) mod MAX_TASKS) s'"
      using less.hyps [of "account c s"] lt 2 ac less.prems(2) next_ready_same by auto
    have "(scheduler_on_timer_tick ^^ Suc k) s = sched_switch c ((c + n) mod MAX_TASKS) s'"
      using k(4) tick_running(2) [OF less.prems 2] by (simp add: funpow_Suc_right del: funpow.simps)
    moreover have "same_states s s'" using k(3) ac by (simp add: same_states_def)
    ultimately show ?thesis using k(1,2) lt 2 by (intro exI [of _ "Suc k"] exI [of _ s']) simp
  qed
qed

lemma running_switch:
  assumes "running s c" and "next_ready s c = Some n"
  shows "running (sched_switch c ((c + n) mod MAX_TASKS) s) ((c + n) mod MAX_TASKS)"
proof -
  have n: "(c + n) mod MAX_TASKS \<noteq> c" "(c + n) mod MAX_TASKS < MAX_TASKS" "ready_at s (c + n)"
    using assms cyclic_neq by (auto simp: running_def next_ready_Some_iff MAX_TASKS_def)
  then show ?thesis
    using assms(1) sched_switch_ok [of s c "(c + n) mod MAX_TASKS"] sched_inv_len [of s]
    by (simp add: running_def sched_switch_nth)
qed

lemma ready_runs:
  assumes "running s c" and "0 < d" "d < MAX_TASKS" and "ready_at s (c + d)"
  shows "\<exists>k \<le> 5 * d. running ((scheduler_on_timer_tick ^^ k) s) ((c + d) mod MAX_TASKS)"
  using assms
proof (induction d arbitrary: s c rule: less_induct)
  case (less d)
  obtain n where n: "next_ready s c = Some n" "n \<le> d"
  proof (cases "next_ready s c")
    case None
    then show ?thesis using less.prems by (simp add: next_ready_None_iff)
  next
    case (Some n)
    then show ?thesis using less.prems that [of n] by (force simp: next_ready_Some_iff not_less)
  qed
  obtain k s' where k: "k \<le> 5" "running s' c" "same_states s s'"
      "(scheduler_on_timer_tick ^^ k) s = sched_switch c ((c + n) mod MAX_TASKS) s'"
    using switch_within [OF less.prems(1) n(1)] ticks_left_bounds(2) le_trans by blast
  let ?c = "(c + n) mod MAX_TASKS"
  let ?t = "sched_switch c ?c s'"
  have r: "running ?t ?c" using running_switch [OF k(2)] n(1) next_ready_same [OF k(3)] by simp
  have n0: "0 < n" "n < MAX_TASKS" "c < MAX_TASKS" using n less.prems by (auto simp: next_ready_Some_iff running_def)
  show ?case
  proof (cases "n = d")
    case True
    then show ?thesis using r k less.prems(2) by (intro exI [of _ k]) auto
  next
    case False
    let ?d = "d - n"
    have d: "0 < ?d" "?d < d" "?d < MAX_TASKS" using False n n0 less.prems by auto
    have tgt: "(?c + ?d) mod MAX_TASKS = (c + d) mod MAX_TASKS" 
      using n(2) mod_add_left_eq [of "c + n" MAX_TASKS "d - n"] by simp
    have "(c + d) mod MAX_TASKS \<noteq> c" "(c + d) mod MAX_TASKS \<noteq> ?c"
      using cyclic_neq [of d c] cyclic_neq [of ?d ?c] less.prems d n0 tgt by (auto simp: MAX_TASKS_def)
    moreover have "ready_at s' (c + d)" using less.prems(4) k(3) by (simp add: same_states_def)
    ultimately have "ready_at ?t (?c + ?d)"
      unfolding tgt using k(2) sched_inv_len [of s'] cyclic_neq [of n c] n0
      by (simp add: running_def sched_switch_nth MAX_TASKS_def)
    from less.IH [OF d(2) r d(1,3) this] obtain k' where
      k': "k' \<le> 5 * ?d" "running ((scheduler_on_timer_tick ^^ k') ?t) ((c + d) mod MAX_TASKS)"
      unfolding tgt by blast
    then have "running ((scheduler_on_timer_tick ^^ (k' + k)) s) ((c + d) mod MAX_TASKS)"
      using k(4) by (simp add: funpow_add)
    moreover have "k' + k \<le> 5 * d" using k' k d n0 n(2) by (simp add: diff_mult_distrib2)
    ultimately show ?thesis by blast
  qed
qed

section \<open>Properties\<close>

text \<open>
  The steps of the scheduler: the operations of \<^verbatim>\<open>task.c\<close> as the rest of the kernel calls
  them (the kernel's own task, pid 0, is never reaped or made a zombie) and those of
  \<^verbatim>\<open>proc.c\<close> on the process table.
\<close>

inductive sched_step :: "sched_state \<Rightarrow> sched_state \<Rightarrow> bool" where
  spawn_kernel: "sched_step s (snd (task_spawn_kernel name ppid s))"
| spawn_user: "sched_step s (snd (task_spawn_user name ppid s))"
| set_state: "st \<noteq> TASK_UNUSED \<Longrightarrow> (pid = 0 \<longrightarrow> st \<noteq> TASK_ZOMBIE) \<Longrightarrow> sched_step s (task_set_state pid st s)"
| reap: "pid \<noteq> 0 \<Longrightarrow> sched_step s (snd (task_reap_pid pid s))"
| return_main: "sched_step s (task_return_to_kernel_main s)"
| tick: "sched_step s (scheduler_on_timer_tick s)"
| procs: "proc_step (sc_procs s) pt \<Longrightarrow> sched_step s (s\<lparr>sc_procs := pt\<rparr>)"

inductive sched_reachable :: "sched_state \<Rightarrow> bool" where
  init: "sched_reachable (tasking_init proc_init)"
| step: "sched_reachable s \<Longrightarrow> sched_step s s' \<Longrightarrow> sched_reachable s'"

lemma tasking_init_eq:
  "tasking_init pt = \<lparr>sc_procs = pt,
     tasks = (replicate MAX_TASKS empty_task)[0 := \<lparr>tk_pid = 0, tk_ppid = - 1, tk_state = TASK_RUNNING,
       tk_runtime_ticks = 0, tk_name = ''kmain''\<rparr>],
     tasks_used = 1, current_index = Some 0, switches = 0, slice_ticks = 0\<rparr>"
proof -
  have "find_index (\<lambda>t. tk_state t = TASK_UNUSED \<or> tk_state t = TASK_ZOMBIE) (replicate MAX_TASKS empty_task) = Some 0"
    by (simp add: MAX_TASKS_def empty_task_def numeral_eq_Suc)
  then show ?thesis by (simp add: tasking_init_def task_alloc_slot_def put_task_def str_copy_eq)
qed

lemma tasking_init_inv: "proc_inv pt \<Longrightarrow> sched_inv (tasking_init pt)"
proof -
  assume "proc_inv pt"
  moreover from this have "0 < next_pid pt" by (simp add: proc_inv_def)
  moreover have "ttab.uniq ((replicate MAX_TASKS empty_task)[0 := e])" for e
    by (rule ttab.uniq_insert) (simp_all add: ttab.uniq_blank ttab.tmap_blank)
  ultimately show ?thesis
    by (auto simp: sched_inv_def tasking_init_eq tasks_wf_def current_wf_def MAX_TASKS_def nth_list_update
        empty_task_def dest!: set_update_subset_insert [THEN subsetD])
qed

lemma sched_step_inv: "sched_step s s' \<Longrightarrow> sched_inv s \<Longrightarrow> sched_inv s'"
  by (induction rule: sched_step.induct)
    (auto simp: task_spawn_kernel_def task_spawn_user_def intro: inv_intros sched_inv_proc_step)

lemma sched_reachable_inv: "sched_reachable s \<Longrightarrow> sched_inv s"
  by (induction rule: sched_reachable.induct) (auto intro: tasking_init_inv proc_init_inv sched_step_inv)

text \<open>
  C12: in every reachable scheduler state there is a current task, no task but the current
  one is running, tasks have distinct pids, none of which the process table will hand out
  again, and the kernel's own task (pid 0) is still in slot 0.
\<close>

theorem sched_reachable_wf:
  assumes "sched_reachable s"
  shows "\<exists>c < MAX_TASKS. current_index s = Some c \<and> tk_state (tasks s ! c) \<noteq> TASK_UNUSED \<and>
    (\<forall>i < MAX_TASKS. i \<noteq> c \<longrightarrow> tk_state (tasks s ! i) \<noteq> TASK_RUNNING) \<and>
    (\<forall>i < MAX_TASKS. \<forall>j < MAX_TASKS. tk_state (tasks s ! i) \<noteq> TASK_UNUSED \<and> tk_state (tasks s ! j) \<noteq> TASK_UNUSED \<and>
       tk_pid (tasks s ! i) = tk_pid (tasks s ! j) \<longrightarrow> i = j) \<and>
    (\<forall>i < MAX_TASKS. tk_state (tasks s ! i) \<noteq> TASK_UNUSED \<longrightarrow> tk_pid (tasks s ! i) < next_pid (sc_procs s)) \<and>
    task_find_slot_by_pid s 0 = Some 0"
  using sched_reachable_inv [OF assms] task_find_kernel [of s]
  by (auto simp: sched_inv_def current_wf_def tasks_wf_def unique_keys_def)

text \<open>A user task spawned next to the kernel's, one tick before its first time slice.\<close>

definition demo_sched :: sched_state where
  "demo_sched = (scheduler_on_timer_tick ^^ 3) (snd (task_spawn_user (Some ''sh'') 0 (tasking_init proc_init)))"

lemma demo_sched_reachable: "sched_reachable demo_sched"
proof -
  have "sched_reachable ((scheduler_on_timer_tick ^^ n) s)" if "sched_reachable s" for n s
    using that by (induction n) (auto intro: sched_reachable.step sched_step.tick)
  then show ?thesis
    unfolding demo_sched_def by (meson sched_reachable.intros sched_step.spawn_user)
qed

theorem sched_reachable_wf_witness: "task_find_slot_by_pid demo_sched 0 = Some 0"
  using sched_reachable_wf [OF demo_sched_reachable] by blast

text \<open>
  C30: the round-robin step.  When the time slice of the running task is used up, the first
  ready task behind it in cyclic slot order becomes the running and current one, the old one
  becomes ready, their processes change state with them, the slice counter restarts, the
  switch is counted, and no other task is touched.
\<close>

theorem tick_preempts:
  assumes "sched_inv s" and "current_index s = Some c" and "tk_state (tasks s ! c) = TASK_RUNNING"
    and "1 < tasks_used s" and "3 \<le> slice_ticks s" and "slice_ticks s \<noteq> - 1"
    and "0 < n" and "n < MAX_TASKS" and "tk_state (tasks s ! ((c + n) mod MAX_TASKS)) = TASK_READY"
    and "\<forall>m. 0 < m \<and> m < n \<longrightarrow> tk_state (tasks s ! ((c + m) mod MAX_TASKS)) \<noteq> TASK_READY"
  shows "let nxt = (c + n) mod MAX_TASKS; s' = scheduler_on_timer_tick s in
    current_index s' = Some nxt \<and> tk_state (tasks s' ! nxt) = TASK_RUNNING \<and>
    tk_state (tasks s' ! c) = TASK_READY \<and>
    (\<forall>i. i \<noteq> c \<and> i \<noteq> nxt \<longrightarrow> tasks s' ! i = tasks s ! i) \<and>
    sc_procs s' = proc_set_state (tk_pid (tasks s ! nxt)) PROC_RUNNING
      (proc_set_state (tk_pid (tasks s ! c)) PROC_READY (sc_procs s)) \<and>
    slice_ticks s' = 0 \<and> scheduler_switch_count s' = scheduler_switch_count s + 1"
proof -
  let ?n = "(c + n) mod MAX_TASKS"
  have r: "running s c" using assms sched_inv_current by (fastforce simp: running_def)
  have nr: "next_ready s c = Some n" using assms(7-10) by (simp add: next_ready_Some_iff)
  have "ticks_left (slice_ticks s) = 1" using assms(5,6) by (simp add: ticks_left_def)
  then have t: "scheduler_on_timer_tick s = sched_switch c ?n (account c s)"
    by (rule tick_running(1) [OF r nr])
  have c: "c < MAX_TASKS" "?n < MAX_TASKS" "?n \<noteq> c" and len: "length (tasks (account c s)) = MAX_TASKS"
    using r assms(7,8) cyclic_neq sched_inv_len [OF assms(1)] by (simp_all add: running_def MAX_TASKS_def)
  note nth = sched_switch_nth [OF len c(1-3)]
  have other: "tasks (account c s) ! i = tasks s ! i" if "i \<noteq> c" for i
    using that by (simp add: account_def)
  have "sc_procs (sched_switch c ?n (account c s)) = proc_set_state (tk_pid (tasks s ! ?n)) PROC_RUNNING
      (proc_set_state (tk_pid (tasks s ! c)) PROC_READY (sc_procs s))"
    by (simp add: sched_switch_def Let_def account_nth)
  then show ?thesis
    using c(3) unfolding Let_def t
    by (auto simp: nth other scheduler_switch_count_def)
qed

theorem tick_preempts_witness: "current_index (scheduler_on_timer_tick demo_sched) = Some 1"
proof -
  have "current_index demo_sched = Some 0" "tk_state (tasks demo_sched ! 0) = TASK_RUNNING"
    "1 < tasks_used demo_sched" "slice_ticks demo_sched = 3"
    "tk_state (tasks demo_sched ! ((0 + 1) mod MAX_TASKS)) = TASK_READY"
    by code_simp+
  from tick_preempts [OF sched_reachable_inv [OF demo_sched_reachable] this(1-3) _ _ _ _ this(5)] this(4)
  show ?thesis by (auto simp: Let_def MAX_TASKS_def)
qed

text \<open>
  C9: no ready task starves.  If the current task runs and more than one task is counted,
  then every ready task is the running, current task after at most \<open>155\<close> timer ticks, that
  is five for each of the other slots (the slice counter may have to wrap around once).
\<close>

theorem ready_task_runs:
  assumes "sched_inv s" and "current_index s = Some c" and "tk_state (tasks s ! c) = TASK_RUNNING"
    and "1 < tasks_used s" and "j < MAX_TASKS" and "tk_state (tasks s ! j) = TASK_READY"
  shows "\<exists>k \<le> 155. current_index ((scheduler_on_timer_tick ^^ k) s) = Some j \<and>
    tk_state (tasks ((scheduler_on_timer_tick ^^ k) s) ! j) = TASK_RUNNING"
proof -
  have r: "running s c" using assms sched_inv_current by (fastforce simp: running_def)
  then have c: "c < MAX_TASKS" by (simp add: running_def)
  let ?d = "(j + MAX_TASKS - c) mod MAX_TASKS"
  have jc: "j \<noteq> c" using assms(3,6) by auto
  have "(c + ?d) mod MAX_TASKS = (j + MAX_TASKS) mod MAX_TASKS"
    using mod_add_right_eq [of c "j + MAX_TASKS - c" MAX_TASKS] c by simp
  then have tgt: "(c + ?d) mod MAX_TASKS = j" using assms(5) by simp
  have "?d \<noteq> 0" using tgt jc c by (auto intro: ccontr)
  then have d: "0 < ?d" "?d < MAX_TASKS" by (simp_all add: MAX_TASKS_def)
  have "ready_at s (c + ?d)" using assms(6) unfolding tgt .
  from ready_runs [OF r d this] obtain k where
    k: "k \<le> 5 * ?d" "running ((scheduler_on_timer_tick ^^ k) s) j" unfolding tgt by blast
  have "k \<le> 155" using k(1) d(2) by (simp add: MAX_TASKS_def)
  then show ?thesis using k(2) by (auto simp: running_def)
qed

theorem ready_task_runs_witness:
  "\<exists>k \<le> 155. current_index ((scheduler_on_timer_tick ^^ k) demo_sched) = Some 1"
proof -
  have "current_index demo_sched = Some 0" "tk_state (tasks demo_sched ! 0) = TASK_RUNNING"
    "1 < tasks_used demo_sched" "1 < MAX_TASKS" "tk_state (tasks demo_sched ! 1) = TASK_READY"
    by code_simp+
  from ready_task_runs [OF sched_reachable_inv [OF demo_sched_reachable] this] show ?thesis by blast
qed

text \<open>
  C32: spawning a user task fails with -1, changing nothing, exactly when no task slot is
  free or the process table is full.  Otherwise the new task and its process share a pid
  that no task had, both are ready, and no other task slot changes.
\<close>

theorem task_spawn_user_correct:
  assumes "sched_inv s" and "task_spawn_user name ppid s = (pid, s')"
  shows "(pid = - 1 \<longleftrightarrow> task_alloc_slot s = None \<or> alloc_slot (sc_procs s) = None) \<and>
    (pid = - 1 \<longrightarrow> s' = s) \<and>
    (pid \<noteq> - 1 \<longrightarrow> task_find_slot_by_pid s pid = None \<and> proc_state_of (sc_procs s') pid = PROC_READY \<and>
       (\<exists>i. task_find_slot_by_pid s' pid = Some i \<and> tk_state (tasks s' ! i) = TASK_READY \<and>
          tk_ppid (tasks s' ! i) = ppid \<and> (\<forall>j. j \<noteq> i \<longrightarrow> tasks s' ! j = tasks s ! j)))"
proof (cases "task_alloc_slot s = None \<or> alloc_slot (sc_procs s) = None")
  case True
  then show ?thesis
    using assms by (auto simp: task_spawn_user_def task_spawn_def proc_spawn_full split: option.splits)
next
  case False
  then obtain i j where i: "task_alloc_slot s = Some i" and j: "alloc_slot (sc_procs s) = Some j" by auto
  let ?np = "next_pid (sc_procs s)"
  let ?pt = "snd (proc_spawn_kernel name ppid (sc_procs s))"
  note pinv = sched_inv_procs [OF assms(1)]
  note sp = proc_spawn_ok [OF pinv j, of name ppid]
  have np: "0 < ?np" using pinv by (simp add: proc_inv_def)
  have inv': "sched_inv s'"
    using task_spawn_ok [OF assms(1), of "''uproc''" name ppid] assms(2) by (simp add: task_spawn_user_def)
  have pid: "pid = ?np" and s': "sc_procs s' = ?pt"
    and nth: "\<And>k. k \<noteq> i \<Longrightarrow> tasks s' ! k = tasks s ! k"
    and new: "tk_pid (tasks s' ! i) = ?np" "tk_state (tasks s' ! i) = TASK_READY" "tk_ppid (tasks s' ! i) = ppid"
    using assms(2) i sp(1) np task_alloc_D [OF i]
    by (auto simp: task_spawn_user_def task_spawn_def split_def Let_def)
  have lt: "i < MAX_TASKS" using task_alloc_D [OF i] sched_inv_len [OF assms(1)] by simp
  have "ttab.slot (tasks s') (tk_pid (tasks s' ! i)) = Some i"
    using inv' lt new(2) by (intro tasks_wf_slot) (auto simp: sched_inv_def)
  then have found: "task_find_slot_by_pid s' ?np = Some i" by (simp add: task_find_eq new(1))
  have old: "task_find_slot_by_pid s ?np = None"
    using assms(1) task_find_D [OF assms(1), of ?np]
    by (cases "task_find_slot_by_pid s ?np") (auto simp: sched_inv_def tasks_wf_def)
  have st: "proc_state_of ?pt ?np = PROC_READY"
    by (simp add: proc_state_of_map [OF sp(2)] sp(4) spawned_def)
  show ?thesis using np i j pid s' nth new found old st by auto
qed

theorem task_spawn_user_correct_witness:
  "proc_state_of (sc_procs (snd (task_spawn_user (Some ''cat'') 1 demo_sched))) 2 = PROC_READY"
proof -
  have "fst (task_spawn_user (Some ''cat'') 1 demo_sched) = 2" by code_simp
  with task_spawn_user_correct [OF sched_reachable_inv [OF demo_sched_reachable] surjective_pairing,
      of "Some ''cat''" 1]
  show ?thesis by simp
qed

text \<open>
  Reusing the slot of a zombie counts the new task but never uncounts the zombie: the
  counter that \<^verbatim>\<open>task_count\<close> returns then exceeds the number of tasks.
\<close>

lemma task_count_drifts:
  "let s = snd (task_spawn_user (Some ''b'') 0
             (task_set_state 1 TASK_ZOMBIE (snd (task_spawn_user (Some ''a'') 0 (tasking_init proc_init)))))
   in task_count s = 3 \<and> count_if (\<lambda>t. tk_state t \<noteq> TASK_UNUSED) (tasks s) = 2"
  by code_simp

end
