(* ===== verification/Elf.thy ===== *)
theory Elf
  imports Proc
begin

text \<open>
  \<^verbatim>\<open>kernel/elf.c\<close>: checking an ELF file, loading it into the one user region that all
  programs are linked for, building the argument block on the user stack, and saving and
  restoring the region of a stopped program.

  The file is read where the file system left it, at an address of the same memory
  (\<open>memory\<close>) the loader writes, so that an offset that runs out of the file reads whatever is
  there.  Each \<^verbatim>\<open>console_print\<close> of an error and \<^verbatim>\<open>return 0\<close> is a constructor of
  \<open>elf_error\<close>.  \<^verbatim>\<open>user_images\<close> is a function of the slot and the offset in it;
  \<open>user_stacks_at\<close> is the link-time address of \<^verbatim>\<open>user_stacks\<close>.  Entering user mode is in
  \<open>Exec\<close>; the definitions here stop right before it.
\<close>

section \<open>Data\<close>

definition ELF_USER_IMAGE_MAX :: u32 where "ELF_USER_IMAGE_MAX = 0x20000"
definition ELF_USER_IMAGE_BASE :: u32 where "ELF_USER_IMAGE_BASE = 0x300000"
definition ELF_PROC_SLOTS :: nat where "ELF_PROC_SLOTS = 8"
definition ELF_STACK_SIZE :: u32 where "ELF_STACK_SIZE = 4096"
definition ELF_ARG_MAX :: nat where "ELF_ARG_MAX = 16"
definition EXEC_MAX_SEGMENTS :: nat where "EXEC_MAX_SEGMENTS = 8"

datatype elf_error =
    ELF_too_small | ELF_bad_magic | ELF_bad_class | ELF_bad_type | ELF_bad_phdrs
  | ELF_headers_out_of_range | ELF_bad_segment | ELF_too_many_segments | ELF_no_segments
  | ELF_outside_range | ELF_too_large | ELF_bad_plan | ELF_no_slot | ELF_segment_range
  | ELF_no_image | ELF_bad_entry | ELF_bad_stack | ELF_arg_too_long | ELF_args_exceed_stack
  | ELF_table_exceeds_stack | ELF_header_exceeds_stack | ELF_not_resumable | ELF_no_image_slot

text \<open>The fields of the two packed structures that the loader reads.\<close>

record elf32_ehdr =
  e_ident :: "u8 list"
  e_type :: u16
  e_machine :: u16
  e_version :: u32
  e_entry :: u32
  e_phoff :: u32
  e_phentsize :: u16
  e_phnum :: u16

record elf32_phdr =
  p_type :: u32
  p_offset :: u32
  p_vaddr :: u32
  p_filesz :: u32
  p_memsz :: u32
  p_flags :: u32

definition rd_ehdr :: "memory \<Rightarrow> u32 \<Rightarrow> elf32_ehdr" where
  "rd_ehdr m a = \<lparr>e_ident = mem_read m a 16, e_type = rd16 m (a + 16), e_machine = rd16 m (a + 18),
     e_version = rd32 m (a + 20), e_entry = rd32 m (a + 24), e_phoff = rd32 m (a + 28),
     e_phentsize = rd16 m (a + 42), e_phnum = rd16 m (a + 44)\<rparr>"

definition rd_phdr :: "memory \<Rightarrow> u32 \<Rightarrow> elf32_phdr" where
  "rd_phdr m a = \<lparr>p_type = rd32 m a, p_offset = rd32 m (a + 4), p_vaddr = rd32 m (a + 8),
     p_filesz = rd32 m (a + 16), p_memsz = rd32 m (a + 20), p_flags = rd32 m (a + 24)\<rparr>"

record exec_segment =
  sg_file_offset :: u32
  sg_file_size :: u32
  sg_mem_size :: u32
  sg_vaddr :: u32
  sg_flags :: u32

text \<open>\<^verbatim>\<open>segment_count\<close> is the length of the list.\<close>

record exec_load_plan =
  pl_valid :: bool
  pl_entry :: u32
  pl_image_base :: u32
  pl_image_size :: u32
  pl_segments :: "exec_segment list"

record elf_state =
  slot_owner_pid :: "int list"
  slots_initialized :: bool
  user_images :: "nat \<Rightarrow> u32 \<Rightarrow> u8"
  user_stacks_at :: u32

section \<open>Image slots\<close>

definition elf_slots_init_once :: "elf_state \<Rightarrow> elf_state" where
  "elf_slots_init_once e =
     (if slots_initialized e then e
      else e\<lparr>slot_owner_pid := replicate ELF_PROC_SLOTS (- 1), slots_initialized := True\<rparr>)"

definition elf_slot_for_pid :: "proc_table \<Rightarrow> int \<Rightarrow> elf_state \<Rightarrow> nat option \<times> elf_state" where
  "elf_slot_for_pid pt pid e =
     (let e = elf_slots_init_once e in
      case find_index (\<lambda>w. w = pid) (slot_owner_pid e) of
        Some i \<Rightarrow> (Some i, e)
      | None \<Rightarrow>
          (case find_index (\<lambda>w. w < 0 \<or> proc_state_of pt w = PROC_UNUSED) (slot_owner_pid e) of
             Some i \<Rightarrow> (Some i, e\<lparr>slot_owner_pid := (slot_owner_pid e)[i := pid]\<rparr>)
           | None \<Rightarrow> (None, e)))"

section \<open>Checking a file\<close>

definition elf_validate_header :: "elf32_ehdr \<Rightarrow> u32 \<Rightarrow> elf_error option" where
  "elf_validate_header eh sz =
     (if sz < 52 then Some ELF_too_small
      else if e_ident eh ! 0 \<noteq> 0x7F \<or> e_ident eh ! 1 \<noteq> byte_of CHR ''E'' \<or>
        e_ident eh ! 2 \<noteq> byte_of CHR ''L'' \<or> e_ident eh ! 3 \<noteq> byte_of CHR ''F'' then Some ELF_bad_magic
      else if e_ident eh ! 4 \<noteq> 1 \<or> e_ident eh ! 5 \<noteq> 1 \<or> e_ident eh ! 6 \<noteq> 1 then Some ELF_bad_class
      else if e_type eh \<noteq> 2 \<or> e_machine eh \<noteq> 3 \<or> e_version eh \<noteq> 1 then Some ELF_bad_type
      else if e_phentsize eh \<noteq> 32 \<or> e_phnum eh = 0 then Some ELF_bad_phdrs
      else if e_phoff eh + ucast (e_phnum eh) * ucast (e_phentsize eh) > sz
      then Some ELF_headers_out_of_range
      else None)"

text \<open>
  The loop over the program headers: \<open>min_vaddr\<close>, \<open>max_end\<close> and the segments so far are
  threaded through.
\<close>

fun plan_loop ::
  "u32 \<Rightarrow> elf32_phdr list \<Rightarrow> u32 \<Rightarrow> u32 \<Rightarrow> exec_segment list \<Rightarrow>
   elf_error + (u32 \<times> u32 \<times> exec_segment list)" where
  "plan_loop sz [] min_vaddr max_end segs = Inr (min_vaddr, max_end, segs)"
| "plan_loop sz (p # ps) min_vaddr max_end segs =
     (if p_type p \<noteq> 1 then plan_loop sz ps min_vaddr max_end segs
      else if p_memsz p < p_filesz p \<or> p_offset p + p_filesz p > sz then Inl ELF_bad_segment
      else if length segs \<ge> EXEC_MAX_SEGMENTS then Inl ELF_too_many_segments
      else plan_loop sz ps
             (if p_vaddr p < min_vaddr then p_vaddr p else min_vaddr)
             (if p_vaddr p + p_memsz p > max_end then p_vaddr p + p_memsz p else max_end)
             (segs @ [\<lparr>sg_file_offset = p_offset p, sg_file_size = p_filesz p,
                sg_mem_size = p_memsz p, sg_vaddr = p_vaddr p, sg_flags = p_flags p\<rparr>]))"

definition rd_phdrs :: "memory \<Rightarrow> u32 \<Rightarrow> elf32_phdr list" where
  "rd_phdrs m data =
     (let eh = rd_ehdr m data in
      map (\<lambda>i. rd_phdr m (data + e_phoff eh + 32 * of_nat i)) [0..<unat (e_phnum eh)])"

text \<open>\<^verbatim>\<open>elf_prepare_load_plan_from_vfs\<close> behind \<^verbatim>\<open>vfs_read_file\<close>: the file is at \<open>data\<close>.\<close>

definition elf_prepare_load_plan :: "memory \<Rightarrow> u32 \<Rightarrow> u32 \<Rightarrow> elf_error + exec_load_plan" where
  "elf_prepare_load_plan m data sz =
     (let eh = rd_ehdr m data in
      case elf_validate_header eh sz of
        Some err \<Rightarrow> Inl err
      | None \<Rightarrow>
          (case plan_loop sz (rd_phdrs m data) 0xFFFFFFFF 0 [] of
             Inl err \<Rightarrow> Inl err
           | Inr (min_vaddr, max_end, segs) \<Rightarrow>
               if segs = [] \<or> min_vaddr \<ge> max_end then Inl ELF_no_segments
               else if min_vaddr < ELF_USER_IMAGE_BASE \<or> max_end > ELF_USER_IMAGE_BASE + ELF_USER_IMAGE_MAX
               then Inl ELF_outside_range
               else if max_end - min_vaddr > ELF_USER_IMAGE_MAX then Inl ELF_too_large
               else Inr \<lparr>pl_valid = True, pl_entry = e_entry eh, pl_image_base = min_vaddr,
                      pl_image_size = max_end - min_vaddr, pl_segments = segs\<rparr>))"

section \<open>Loading\<close>

definition image_in_range :: "u32 \<Rightarrow> u32 \<Rightarrow> bool" where
  "image_in_range base sz \<longleftrightarrow>
     \<not> (base < ELF_USER_IMAGE_BASE \<or> base + sz > ELF_USER_IMAGE_BASE + ELF_USER_IMAGE_MAX)"

text \<open>The copying loop; the segments before a bad one have been written when it is met.\<close>

fun load_segments :: "exec_segment list \<Rightarrow> u32 \<Rightarrow> u32 \<Rightarrow> memory \<Rightarrow> bool \<times> memory" where
  "load_segments [] file_data file_size m = (True, m)"
| "load_segments (sg # sgs) file_data file_size m =
     (if sg_file_offset sg + sg_file_size sg > file_size then (False, m)
      else load_segments sgs file_data file_size
             (mem_copy (sg_vaddr sg) (file_data + sg_file_offset sg) (unat (sg_file_size sg)) m))"

definition elf_load_from_plan ::
  "proc_table \<Rightarrow> int \<Rightarrow> exec_load_plan \<Rightarrow> u32 \<Rightarrow> u32 \<Rightarrow> elf_state \<Rightarrow> memory \<Rightarrow>
   (elf_error + proc_image) \<times> elf_state \<times> memory" where
  "elf_load_from_plan pt pid plan file_data file_size e m =
     (if \<not> pl_valid plan \<or> file_data = NULL \<or> pid < 0 then (Inl ELF_bad_plan, e, m)
      else if \<not> image_in_range (pl_image_base plan) (pl_image_size plan) then (Inl ELF_outside_range, e, m)
      else
        case elf_slot_for_pid pt pid e of
          (None, e) \<Rightarrow> (Inl ELF_no_slot, e, m)
        | (Some slot, e) \<Rightarrow>
            (case load_segments (pl_segments plan) file_data file_size
                    (mem_zero ELF_USER_IMAGE_BASE ELF_USER_IMAGE_MAX m) of
               (False, m) \<Rightarrow> (Inl ELF_segment_range, e, m)
             | (True, m) \<Rightarrow>
                 (Inr \<lparr>im_loaded = True, im_entry = pl_entry plan, im_image_base = pl_image_base plan,
                     im_image_size = pl_image_size plan,
                     im_stack_base = user_stacks_at e + of_nat slot * ELF_STACK_SIZE,
                     im_stack_size = ELF_STACK_SIZE, im_cwd = NULL, im_output = CONSOLE_VGA,
                     im_context_valid = False, im_context = zero_context\<rparr>, e, m)))"

section \<open>The argument block\<close>

definition arg_at :: "string option list \<Rightarrow> nat \<Rightarrow> string" where
  "arg_at argv i = (if i < length argv then (case argv ! i of Some s \<Rightarrow> s | None \<Rightarrow> '''') else '''')"

text \<open>
  The loop \<^verbatim>\<open>for (i = argc - 1; i >= 0; --i)\<close>; \<open>push_args n\<close> pushes the arguments below
  \<open>n\<close> and returns their addresses in order (\<^verbatim>\<open>argv_user\<close>).
\<close>

fun push_args ::
  "proc_image \<Rightarrow> string option list \<Rightarrow> nat \<Rightarrow> u32 \<Rightarrow> memory \<Rightarrow> u32 list \<Rightarrow>
   (elf_error + u32 \<times> u32 list) \<times> memory" where
  "push_args img argv 0 sp m addrs = (Inr (sp, addrs), m)"
| "push_args img argv (Suc i) sp m addrs =
     (let src = arg_at argv i; len = str_len src + 1 in
      if len > im_stack_size img - 64 then (Inl ELF_arg_too_long, m)
      else if sp < im_stack_base img + len + 16 then (Inl ELF_args_exceed_stack, m)
      else push_args img argv i (sp - len)
             (mem_write (sp - len) (map byte_of (cstr src @ [NUL])) m) ((sp - len) # addrs))"

fun write_words :: "u32 \<Rightarrow> u32 list \<Rightarrow> memory \<Rightarrow> memory" where
  "write_words a [] m = m"
| "write_words a (w # ws) m = write_words (a + 4) ws (mem_write a (le32 w) m)"

text \<open>
  \<^verbatim>\<open>elf_execute_image\<close> up to \<^verbatim>\<open>enter_user_mode\<close>: the stack pointer it passes and the memory
  it leaves.
\<close>

definition elf_build_stack ::
  "proc_image \<Rightarrow> int \<Rightarrow> int \<Rightarrow> string option list \<Rightarrow> memory \<Rightarrow> (elf_error + u32) \<times> memory" where
  "elf_build_stack img pid argc argv m =
     (if \<not> im_loaded img \<or> pid < 0 then (Inl ELF_no_image, m)
      else if im_entry img < im_image_base img \<or> im_entry img \<ge> im_image_base img + im_image_size img
      then (Inl ELF_bad_entry, m)
      else if im_stack_size img < 64 then (Inl ELF_bad_stack, m)
      else
        let argc = min (nat argc) ELF_ARG_MAX in
        case push_args img argv argc (im_stack_base img + im_stack_size img) m [] of
          (Inl err, m) \<Rightarrow> (Inl err, m)
        | (Inr (sp, argv_user), m) \<Rightarrow>
            let sp = sp AND NOT 3; table = (of_nat argc + 1) * 4 in
            if sp < im_stack_base img + table + 8 then (Inl ELF_table_exceeds_stack, m)
            else
              let sp = sp - table; m = write_words sp (argv_user @ [0]) m in
              if sp < im_stack_base img + 8 then (Inl ELF_header_exceeds_stack, m)
              else (Inr (sp - 8), write_words (sp - 8) [of_nat argc, sp] m))"

section \<open>Saving and restoring\<close>

text \<open>\<^verbatim>\<open>for (i = 0; i < n; ++i) user_images[slot][off + i] = bytes[i];\<close>\<close>

definition store_image :: "nat \<Rightarrow> u32 \<Rightarrow> u8 list \<Rightarrow> elf_state \<Rightarrow> elf_state" where
  "store_image slot off bs e =
     e\<lparr>user_images := (user_images e)(slot := mem_write off bs (user_images e slot))\<rparr>"

definition elf_snapshot_image ::
  "proc_table \<Rightarrow> int \<Rightarrow> proc_image \<Rightarrow> memory \<Rightarrow> elf_state \<Rightarrow> bool \<times> elf_state" where
  "elf_snapshot_image pt pid img m e =
     (if pid < 0 \<or> \<not> im_loaded img then (False, e)
      else if \<not> image_in_range (im_image_base img) (im_image_size img) then (False, e)
      else case elf_slot_for_pid pt pid e of
          (None, e) \<Rightarrow> (False, e)
        | (Some slot, e) \<Rightarrow>
            (True, store_image slot 0 (mem_read m (im_image_base img) (unat (im_image_size img))) e))"

text \<open>\<^verbatim>\<open>elf_resume_image\<close> up to \<^verbatim>\<open>resume_user_mode\<close>: the memory it leaves.\<close>

definition elf_restore_image ::
  "proc_table \<Rightarrow> int \<Rightarrow> proc_image \<Rightarrow> memory \<Rightarrow> elf_state \<Rightarrow> (elf_error + memory) \<times> elf_state" where
  "elf_restore_image pt pid img m e =
     (if \<not> im_loaded img \<or> \<not> im_context_valid img \<or> pid < 0 then (Inl ELF_not_resumable, e)
      else if \<not> image_in_range (im_image_base img) (im_image_size img) then (Inl ELF_outside_range, e)
      else case elf_slot_for_pid pt pid e of
          (None, e) \<Rightarrow> (Inl ELF_no_image_slot, e)
        | (Some slot, e) \<Rightarrow>
            (Inr (mem_write (im_image_base img)
                    (mem_read (user_images e slot) 0 (unat (im_image_size img)))
                    (mem_zero ELF_USER_IMAGE_BASE ELF_USER_IMAGE_MAX m)), e))"

definition elf_write_to_task_memory ::
  "proc_table \<Rightarrow> int \<Rightarrow> u32 \<Rightarrow> u8 list \<Rightarrow> memory \<Rightarrow> elf_state \<Rightarrow> bool \<times> memory \<times> elf_state" where
  "elf_write_to_task_memory pt pid dst bs m e =
     (let len = of_nat (length bs) :: u32 in
      case proc_get_image pt pid of
        None \<Rightarrow> (False, m, e)
      | Some img \<Rightarrow>
          if pid < 0 \<or> len = 0 \<or> \<not> im_loaded img then (False, m, e)
          else case elf_slot_for_pid pt pid e of
              (None, e) \<Rightarrow> (False, m, e)
            | (Some slot, e) \<Rightarrow>
                if dst \<ge> im_image_base img \<and> dst + len \<ge> dst \<and>
                   dst + len \<le> im_image_base img + im_image_size img
                then (True, m, store_image slot (dst - im_image_base img) bs e)
                else if dst \<ge> im_stack_base img \<and> dst + len \<ge> dst \<and>
                   dst + len \<le> im_stack_base img + im_stack_size img
                then (True, mem_write dst bs m, e)
                else (False, m, e))"

section \<open>Image slots belong to one process\<close>

definition elf_inv :: "elf_state \<Rightarrow> bool" where
  "elf_inv e \<longleftrightarrow> (slots_initialized e \<longrightarrow> length (slot_owner_pid e) = ELF_PROC_SLOTS \<and>
     unique_keys (\<lambda>w. (0 :: int) \<le> w) (\<lambda>w. w) (slot_owner_pid e))"

interpretation etab: slot_table "\<lambda>w :: int. 0 \<le> w" "\<lambda>w. w" "- 1"
  by unfold_locales simp

text \<open>The slot a process owns.\<close>

definition slot_owned :: "elf_state \<Rightarrow> int \<Rightarrow> nat option" where
  "slot_owned e pid = (if slots_initialized e then find_index (\<lambda>w. w = pid) (slot_owner_pid e) else None)"

lemma slot_owned_eq:
  "slots_initialized e \<Longrightarrow> 0 \<le> pid \<Longrightarrow> slot_owned e pid = etab.slot (slot_owner_pid e) pid"
proof -
  assume "slots_initialized e" "0 \<le> pid"
  moreover from this have "(\<lambda>w. w = pid) = (\<lambda>w. 0 \<le> w \<and> w = pid)" by auto
  ultimately show ?thesis by (simp add: slot_owned_def slot_of_def)
qed

lemma slot_ownedD:
  "slot_owned e pid = Some i \<Longrightarrow> slots_initialized e \<and> i < length (slot_owner_pid e) \<and> slot_owner_pid e ! i = pid"
  by (auto simp: slot_owned_def split: if_splits dest: find_index_SomeD)

lemma elf_init_inv: "elf_inv e \<Longrightarrow> elf_inv (elf_slots_init_once e)"
  using etab.uniq_blank by (auto simp: elf_inv_def elf_slots_init_once_def)

lemma elf_init_sel [simp]:
  "slots_initialized (elf_slots_init_once e)" "user_images (elf_slots_init_once e) = user_images e"
  "user_stacks_at (elf_slots_init_once e) = user_stacks_at e"
  by (simp_all add: elf_slots_init_once_def)

lemma slot_owned_init:
  "0 \<le> pid \<Longrightarrow> slot_owned (elf_slots_init_once e) pid = slot_owned e pid"
  by (auto simp: slot_owned_def elf_slots_init_once_def find_index_None_iff)

lemma elf_slot_for_pid_ok:
  assumes inv: "elf_inv e" and pid: "0 \<le> pid" and r: "elf_slot_for_pid pt pid e = (r, e')"
  shows "elf_inv e'" and "user_images e' = user_images e" and "user_stacks_at e' = user_stacks_at e"
    and "slot_owned e' pid = r" and "r = Some i \<Longrightarrow> i < ELF_PROC_SLOTS"
    and "slot_owned e pid = Some i \<Longrightarrow> r = Some i"
    and "0 \<le> q \<Longrightarrow> proc_state_of pt q \<noteq> PROC_UNUSED \<Longrightarrow> slot_owned e q = Some j \<Longrightarrow> slot_owned e' q = Some j"
proof -
  let ?e = "elf_slots_init_once e"
  let ?os = "slot_owner_pid ?e"
  let ?free = "\<lambda>w. w < 0 \<or> proc_state_of pt w = PROC_UNUSED"
  have i1: "elf_inv ?e" by (rule elf_init_inv [OF inv])
  then have u: "etab.uniq ?os" and len: "length ?os = ELF_PROC_SLOTS" by (simp_all add: elf_inv_def)
  have own: "slot_owned ?e p = find_index (\<lambda>w. w = p) ?os" for p by (simp add: slot_owned_def)
  have cases: "(\<exists>i. slot_owned e pid = Some i \<and> r = Some i \<and> e' = ?e) \<or>
      (slot_owned e pid = None \<and> r = None \<and> e' = ?e) \<or>
      (\<exists>i. slot_owned e pid = None \<and> r = Some i \<and> find_index ?free ?os = Some i \<and>
        e' = ?e\<lparr>slot_owner_pid := ?os[i := pid]\<rparr>)"
  proof -
    have "find_index (\<lambda>w. w = pid) ?os = slot_owned e pid" by (metis own slot_owned_init [OF pid])
    then have eq: "(r, e') = (case slot_owned e pid of Some i \<Rightarrow> (Some i, ?e) | None \<Rightarrow>
        (case find_index ?free ?os of
           Some i \<Rightarrow> (Some i, ?e\<lparr>slot_owner_pid := ?os[i := pid]\<rparr>) | None \<Rightarrow> (None, ?e)))"
      unfolding r [symmetric] elf_slot_for_pid_def Let_def by (rule arg_cong)
    show ?thesis
    proof (cases "slot_owned e pid")
      case None
      then show ?thesis using eq by (cases "find_index ?free ?os") simp_all
    qed (use eq in simp)
  qed
  have new: "elf_inv (?e\<lparr>slot_owner_pid := ?os[i := pid]\<rparr>) \<and>
      slot_owned (?e\<lparr>slot_owner_pid := ?os[i := pid]\<rparr>) pid = Some i \<and> i < ELF_PROC_SLOTS \<and>
      (\<forall>q j. 0 \<le> q \<longrightarrow> proc_state_of pt q \<noteq> PROC_UNUSED \<longrightarrow> slot_owned e q = Some j \<longrightarrow>
         slot_owned (?e\<lparr>slot_owner_pid := ?os[i := pid]\<rparr>) q = Some j)"
    if n: "slot_owned e pid = None" and i: "find_index ?free ?os = Some i" for i
  proof -
    note f = find_index_SomeD(1,2) [OF i]
    have "etab.tmap ?os pid = None"
      using n slot_owned_eq [of ?e pid] slot_owned_init [OF pid, of e] pid
      by (simp add: table_map_def)
    then have u': "etab.uniq (?os[i := pid])" by (rule etab.uniq_insert [OF u])
    have e': "slots_initialized (?e\<lparr>slot_owner_pid := x\<rparr>)" for x by simp
    have mine: "slot_owned (?e\<lparr>slot_owner_pid := ?os[i := pid]\<rparr>) pid = Some i"
      using etab.slot_eq [OF u', of i] f pid slot_owned_eq [OF e' pid] by simp
    have keep: "slot_owned (?e\<lparr>slot_owner_pid := ?os[i := pid]\<rparr>) q = Some j"
      if q: "0 \<le> q" "proc_state_of pt q \<noteq> PROC_UNUSED" "slot_owned e q = Some j" for q j
    proof -
      have j: "j < length ?os" "?os ! j = q"
        using slot_ownedD [of ?e q j] q by (simp_all add: slot_owned_init)
      then have "j \<noteq> i" using f q by auto
      then have "?os[i := pid] ! j = q" using j by simp
      then show ?thesis
        using etab.slot_eq [OF u', of j] j q slot_owned_eq [OF e' q(1)] by simp
    qed
    show ?thesis using u' mine keep f len by (simp add: elf_inv_def)
  qed
  show "elf_inv e'" using cases i1 new by auto
  show "user_images e' = user_images e" "user_stacks_at e' = user_stacks_at e" using cases by auto
  show "slot_owned e' pid = r" using cases new slot_owned_init [OF pid] by auto
  show "r = Some i \<Longrightarrow> i < ELF_PROC_SLOTS"
    using cases new slot_ownedD [of ?e pid i] slot_owned_init [OF pid] len by auto
  show "slot_owned e pid = Some i \<Longrightarrow> r = Some i" using cases by auto
  show "0 \<le> q \<Longrightarrow> proc_state_of pt q \<noteq> PROC_UNUSED \<Longrightarrow> slot_owned e q = Some j \<Longrightarrow> slot_owned e' q = Some j"
    using cases new slot_owned_init [of q] by auto
qed

lemma slot_owned_inj:
  assumes "elf_inv e" and "0 \<le> p" "slot_owned e p = Some i" "slot_owned e q = Some i"
  shows "p = q"
  using slot_ownedD [OF assms(3)] slot_ownedD [OF assms(4)] by simp

section \<open>What an accepted plan guarantees\<close>

text \<open>
  The checks of the source add 32-bit values.  \<open>no_wrap_segment\<close> says that the two sums it
  forms for a segment do not overflow; without it the checks can be passed by a segment
  far outside the region.
\<close>

definition no_wrap_segment :: "exec_segment \<Rightarrow> bool" where
  "no_wrap_segment sg \<longleftrightarrow> unat (sg_vaddr sg) + unat (sg_mem_size sg) < 2 ^ 32 \<and>
     unat (sg_file_offset sg) + unat (sg_file_size sg) < 2 ^ 32"

definition segment_ok :: "u32 \<Rightarrow> u32 \<Rightarrow> u32 \<Rightarrow> exec_segment \<Rightarrow> bool" where
  "segment_ok sz mn mx sg \<longleftrightarrow> mn \<le> sg_vaddr sg \<and> sg_vaddr sg + sg_mem_size sg \<le> mx \<and>
     sg_file_size sg \<le> sg_mem_size sg \<and> sg_file_offset sg + sg_file_size sg \<le> sz"

lemma segment_ok_mono:
  "segment_ok sz mn mx sg \<Longrightarrow> mn' \<le> mn \<Longrightarrow> mx \<le> mx' \<Longrightarrow> segment_ok sz mn' mx' sg"
  by (auto simp: segment_ok_def)

lemma plan_loop_ok:
  assumes "plan_loop sz ps mn mx segs = Inr (mn', mx', segs')"
    and "\<forall>sg \<in> set segs. segment_ok sz mn mx sg" and "length segs \<le> EXEC_MAX_SEGMENTS"
  shows "(\<forall>sg \<in> set segs'. segment_ok sz mn' mx' sg) \<and> length segs' \<le> EXEC_MAX_SEGMENTS"
  using assms
proof (induction ps arbitrary: mn mx segs)
  case (Cons p ps)
  show ?case
  proof (cases "p_type p = 1")
    case True
    let ?mn = "if p_vaddr p < mn then p_vaddr p else mn"
    let ?mx = "if p_vaddr p + p_memsz p > mx then p_vaddr p + p_memsz p else mx"
    let ?sg = "\<lparr>sg_file_offset = p_offset p, sg_file_size = p_filesz p, sg_mem_size = p_memsz p,
      sg_vaddr = p_vaddr p, sg_flags = p_flags p\<rparr>"
    have step: "plan_loop sz ps ?mn ?mx (segs @ [?sg]) = Inr (mn', mx', segs')"
      and ok: "\<not> p_memsz p < p_filesz p" "\<not> sz < p_offset p + p_filesz p" "length segs < EXEC_MAX_SEGMENTS"
      using Cons.prems(1) True by (auto split: if_splits)
    have "segment_ok sz ?mn ?mx ?sg" using ok by (auto simp: segment_ok_def not_less)
    moreover have "segment_ok sz ?mn ?mx sg" if "sg \<in> set segs" for sg
      by (rule segment_ok_mono [of _ mn mx]) (use Cons.prems(2) that in auto)
    ultimately show ?thesis using ok by (intro Cons.IH [OF step]) auto
  next
    case False
    then show ?thesis using Cons.IH Cons.prems by simp
  qed
qed simp

lemma elf_prepare_ok:
  assumes "elf_prepare_load_plan m data sz = Inr plan"
  shows "pl_valid plan" "image_in_range (pl_image_base plan) (pl_image_size plan)"
    and "0 < length (pl_segments plan)" "length (pl_segments plan) \<le> EXEC_MAX_SEGMENTS"
    and "unat (pl_image_base plan) + unat (pl_image_size plan) \<le> 0x320000"
    and "0x300000 \<le> unat (pl_image_base plan)"
    and "sg \<in> set (pl_segments plan) \<Longrightarrow>
      segment_ok sz (pl_image_base plan) (pl_image_base plan + pl_image_size plan) sg"
proof -
  obtain mn mx segs where l: "plan_loop sz (rd_phdrs m data) 0xFFFFFFFF 0 [] = Inr (mn, mx, segs)"
    and c: "segs \<noteq> []" "mn < mx" "ELF_USER_IMAGE_BASE \<le> mn" "mx \<le> ELF_USER_IMAGE_BASE + ELF_USER_IMAGE_MAX"
    and p: "pl_valid plan" "pl_image_base plan = mn" "pl_image_size plan = mx - mn" "pl_segments plan = segs"
    using assms by (auto simp: elf_prepare_load_plan_def Let_def not_le not_less
        split: option.splits sum.splits prod.splits if_splits)
  have ok: "(\<forall>sg \<in> set segs. segment_ok sz mn mx sg) \<and> length segs \<le> EXEC_MAX_SEGMENTS"
    by (rule plan_loop_ok [OF l]) simp_all
  show "pl_valid plan" "image_in_range (pl_image_base plan) (pl_image_size plan)"
    using p c by (auto simp: image_in_range_def)
  show "0 < length (pl_segments plan)" "length (pl_segments plan) \<le> EXEC_MAX_SEGMENTS"
    using p c ok by auto
  have "unat (mx - mn) = unat mx - unat mn" using c by (intro unat_sub_exact) simp
  then show "unat (pl_image_base plan) + unat (pl_image_size plan) \<le> 0x320000"
    "0x300000 \<le> unat (pl_image_base plan)"
    using p c by (simp_all add: ELF_USER_IMAGE_BASE_def ELF_USER_IMAGE_MAX_def word_le_nat_alt word_less_nat_alt)
  show "sg \<in> set (pl_segments plan) \<Longrightarrow>
      segment_ok sz (pl_image_base plan) (pl_image_base plan + pl_image_size plan) sg"
    using ok p by simp
qed

section \<open>What loading writes\<close>

abbreviation in_region :: "u32 \<Rightarrow> bool" where
  "in_region x \<equiv> in_block ELF_USER_IMAGE_BASE (unat ELF_USER_IMAGE_MAX) x"

lemma in_region_iff: "in_region x \<longleftrightarrow> 0x300000 \<le> unat x \<and> unat x < 0x320000"
  by (subst in_block_iff) (simp_all add: ELF_USER_IMAGE_BASE_def ELF_USER_IMAGE_MAX_def)

text \<open>The bytes of the file part of a segment.\<close>

abbreviation seg_block :: "exec_segment \<Rightarrow> u32 \<Rightarrow> bool" where
  "seg_block sg x \<equiv> in_block (sg_vaddr sg) (unat (sg_file_size sg)) x"

lemma segment_in_region:
  assumes "segment_ok sz base (base + sz') sg" and "no_wrap_segment sg"
    and "unat base + unat sz' \<le> 0x320000" "0x300000 \<le> unat base" and "seg_block sg x"
  shows "in_region x"
proof -
  have "unat (base + sz') = unat base + unat sz'" using assms(3) by (intro unat_add_exact) simp
  moreover have "unat (sg_vaddr sg + sg_mem_size sg) = unat (sg_vaddr sg) + unat (sg_mem_size sg)"
    using assms(2) by (intro unat_add_exact) (simp add: no_wrap_segment_def)
  ultimately have b: "unat base \<le> unat (sg_vaddr sg)" "unat (sg_vaddr sg) + unat (sg_mem_size sg) \<le> unat base + unat sz'"
    "unat (sg_file_size sg) \<le> unat (sg_mem_size sg)"
    using assms(1) by (simp_all add: segment_ok_def word_le_nat_alt)
  then have "unat (sg_vaddr sg) + unat (sg_file_size sg) \<le> 2 ^ 32" using assms(3) by simp
  then show ?thesis using assms(3-5) b by (simp add: in_block_iff in_region_iff)
qed

lemma load_segments_other:
  "\<forall>sg \<in> set sgs. \<not> seg_block sg x \<Longrightarrow> snd (load_segments sgs fd fs m) x = m x"
  by (induction sgs arbitrary: m) (auto simp: mem_copy_other)

lemma elf_load_other:
  assumes "elf_load_from_plan pt pid plan fd fs e m = (r, e', m')"
    and "\<not> in_region x" and "\<forall>sg \<in> set (pl_segments plan). \<not> seg_block sg x"
  shows "m' x = m x"
proof -
  have "snd (load_segments (pl_segments plan) fd fs (mem_zero ELF_USER_IMAGE_BASE ELF_USER_IMAGE_MAX m)) x = m x"
    using load_segments_other [OF assms(3)] assms(2) by (simp add: mem_zero_eq)
  then show ?thesis using assms(1)
    by (auto simp: elf_load_from_plan_def split: if_splits prod.splits option.splits bool.splits)
qed

abbreviation file_block :: "u32 \<Rightarrow> exec_segment \<Rightarrow> u32 \<Rightarrow> bool" where
  "file_block fd sg x \<equiv> in_block (fd + sg_file_offset sg) (unat (sg_file_size sg)) x"

definition segs_disjoint :: "exec_segment list \<Rightarrow> bool" where
  "segs_disjoint sgs \<longleftrightarrow> sorted_wrt (\<lambda>a b. \<forall>x. \<not> (seg_block a x \<and> seg_block b x)) sgs"

lemma load_segments_ok:
  "\<forall>sg \<in> set sgs. sg_file_offset sg + sg_file_size sg \<le> fs \<Longrightarrow> fst (load_segments sgs fd fs m)"
  by (induction sgs arbitrary: m) auto

lemma load_segments_read:
  assumes "segs_disjoint sgs" and "sg \<in> set sgs" and "fst (load_segments sgs fd fs m)"
    and "\<And>a b x. a \<in> set sgs \<Longrightarrow> b \<in> set sgs \<Longrightarrow> file_block fd a x \<Longrightarrow> \<not> seg_block b x"
  shows "mem_read (snd (load_segments sgs fd fs m)) (sg_vaddr sg) (unat (sg_file_size sg)) =
    mem_read m (fd + sg_file_offset sg) (unat (sg_file_size sg))"
  using assms
proof (induction sgs arbitrary: m)
  case (Cons a sgs)
  let ?m = "mem_copy (sg_vaddr a) (fd + sg_file_offset a) (unat (sg_file_size a)) m"
  have eq: "load_segments (a # sgs) fd fs m = load_segments sgs fd fs ?m"
    using Cons.prems(3) by (auto split: if_splits)
  show ?case
  proof (cases "sg = a")
    case True
    have "\<forall>b \<in> set sgs. \<not> seg_block b x" if "seg_block a x" for x
      using Cons.prems(1) that by (auto simp: segs_disjoint_def)
    then have "mem_read (snd (load_segments sgs fd fs ?m)) (sg_vaddr a) (unat (sg_file_size a)) =
        mem_read ?m (sg_vaddr a) (unat (sg_file_size a))"
      by (intro mem_read_cong load_segments_other) blast
    also have "\<dots> = mem_read m (fd + sg_file_offset a) (unat (sg_file_size a))"
    proof -
      have "?m = mem_write (sg_vaddr a) (mem_read m (fd + sg_file_offset a) (unat (sg_file_size a))) m"
        using Cons.prems(4) [of a a] unat_u32_bound [of "sg_file_size a"]
        by (intro mem_copy_eq_write) auto
      then show ?thesis
        using mem_write_read [of "mem_read m (fd + sg_file_offset a) (unat (sg_file_size a))" "sg_vaddr a" m]
          unat_u32_bound [of "sg_file_size a"] by simp
    qed
    finally show ?thesis using True eq by simp
  next
    case False
    then have sg: "sg \<in> set sgs" using Cons.prems(2) by simp
    have "mem_read (snd (load_segments sgs fd fs ?m)) (sg_vaddr sg) (unat (sg_file_size sg)) =
        mem_read ?m (fd + sg_file_offset sg) (unat (sg_file_size sg))"
      using Cons.prems sg eq by (intro Cons.IH) (auto simp: segs_disjoint_def)
    also have "\<dots> = mem_read m (fd + sg_file_offset sg) (unat (sg_file_size sg))"
      using Cons.prems(4) [of sg a] sg by (intro mem_read_cong mem_copy_other) auto
    finally show ?thesis using eq by simp
  qed
qed simp

section \<open>Properties of the loader\<close>

text \<open>
  C10: confinement.  If the loader accepts a file whose segment bounds do not overflow 32
  bits, there are between one and eight segments, each lies inside the announced image and
  its file part inside the file, the image lies inside the user region
  \<open>[0x300000, 0x320000)\<close>, and loading it, successful or not, changes no byte outside that
  region.
\<close>

theorem elf_load_confined:
  assumes "elf_prepare_load_plan m data sz = Inr plan" and "\<forall>sg \<in> set (pl_segments plan). no_wrap_segment sg"
    and "elf_load_from_plan pt pid plan fd fs e m1 = (r, e', m2)"
  shows "0 < length (pl_segments plan) \<and> length (pl_segments plan) \<le> 8 \<and>
    0x300000 \<le> unat (pl_image_base plan) \<and> unat (pl_image_base plan) + unat (pl_image_size plan) \<le> 0x320000 \<and>
    (\<forall>sg \<in> set (pl_segments plan).
       unat (pl_image_base plan) \<le> unat (sg_vaddr sg) \<and>
       unat (sg_vaddr sg) + unat (sg_mem_size sg) \<le> unat (pl_image_base plan) + unat (pl_image_size plan) \<and>
       unat (sg_file_size sg) \<le> unat (sg_mem_size sg) \<and>
       unat (sg_file_offset sg) + unat (sg_file_size sg) \<le> unat sz) \<and>
    (\<forall>x. \<not> (0x300000 \<le> unat x \<and> unat x < 0x320000) \<longrightarrow> m2 x = m1 x)"
proof -
  note p = elf_prepare_ok [OF assms(1)]
  have out: "m2 x = m1 x" if x: "\<not> in_region x" for x
  proof (rule elf_load_other [OF assms(3) x])
    show "\<forall>sg \<in> set (pl_segments plan). \<not> seg_block sg x"
      using segment_in_region [OF p(7) _ p(5,6)] assms(2) x by blast
  qed
  have seg: "unat (pl_image_base plan) \<le> unat (sg_vaddr sg) \<and>
       unat (sg_vaddr sg) + unat (sg_mem_size sg) \<le> unat (pl_image_base plan) + unat (pl_image_size plan) \<and>
       unat (sg_file_size sg) \<le> unat (sg_mem_size sg) \<and>
       unat (sg_file_offset sg) + unat (sg_file_size sg) \<le> unat sz" if "sg \<in> set (pl_segments plan)" for sg
  proof -
    have nw: "unat (sg_vaddr sg) + unat (sg_mem_size sg) < 2 ^ 32"
      "unat (sg_file_offset sg) + unat (sg_file_size sg) < 2 ^ 32"
      using assms(2) that by (simp_all add: no_wrap_segment_def)
    have "unat (pl_image_base plan) + unat (pl_image_size plan) < 2 ^ 32" using p(5) by simp
    then show ?thesis
      using p(7) [OF that] nw by (simp add: segment_ok_def word_le_nat_alt unat_add_exact)
  qed
  have "EXEC_MAX_SEGMENTS = 8" by (simp add: EXEC_MAX_SEGMENTS_def)
  then show ?thesis using p(3-6) seg out by (simp add: in_region_iff)
qed

text \<open>A program of four bytes and its file, at address \<open>0x1000\<close>.\<close>

definition demo_elf_file :: "u8 list" where
  "demo_elf_file = [0x7F, 0x45, 0x4C, 0x46, 1, 1, 1, 0, 0, 0, 0, 0, 0, 0, 0, 0,
     2, 0, 3, 0, 1, 0, 0, 0, 0, 0, 0x30, 0, 52, 0, 0, 0, 0, 0, 0, 0, 0, 0, 0, 0,
     52, 0, 32, 0, 1, 0, 0, 0, 0, 0, 0, 0,
     1, 0, 0, 0, 84, 0, 0, 0, 0, 0, 0x30, 0, 0, 0, 0, 0, 4, 0, 0, 0, 16, 0, 0, 0, 5, 0, 0, 0, 0, 0, 0, 0,
     0xDE, 0xAD, 0xBE, 0xEF]"

definition file_at :: "u32 \<Rightarrow> u8 list \<Rightarrow> memory" where
  "file_at a bs x = (if unat (x - a) < length bs then bs ! unat (x - a) else 0)"

definition demo_plan :: exec_load_plan where
  "demo_plan = \<lparr>pl_valid = True, pl_entry = 0x300000, pl_image_base = 0x300000, pl_image_size = 16,
     pl_segments = [\<lparr>sg_file_offset = 84, sg_file_size = 4, sg_mem_size = 16, sg_vaddr = 0x300000, sg_flags = 5\<rparr>]\<rparr>"

lemma demo_prepare: "elf_prepare_load_plan (file_at 0x1000 demo_elf_file) 0x1000 88 = Inr demo_plan"
  by code_simp

lemma demo_no_wrap: "\<forall>sg \<in> set (pl_segments demo_plan). no_wrap_segment sg"
  by (simp add: demo_plan_def no_wrap_segment_def)

theorem elf_load_confined_witness:
  "snd (snd (elf_load_from_plan proc_init 1 demo_plan 0x1000 88
     \<lparr>slot_owner_pid = [], slots_initialized = False, user_images = (\<lambda>_ _. 0), user_stacks_at = 0x200000\<rparr>
     (file_at 0x1000 demo_elf_file))) 0x320000 = file_at 0x1000 demo_elf_file 0x320000"
proof -
  let ?r = "elf_load_from_plan proc_init 1 demo_plan 0x1000 88
     \<lparr>slot_owner_pid = [], slots_initialized = False, user_images = (\<lambda>_ _. 0), user_stacks_at = 0x200000\<rparr>
     (file_at 0x1000 demo_elf_file)"
  have "?r = (fst ?r, fst (snd ?r), snd (snd ?r))" by simp
  from elf_load_confined [OF demo_prepare demo_no_wrap this] show ?thesis by simp
qed

text \<open>
  C18: loading.  An accepted file without overflowing bounds, whose segments do not overlap
  and which itself lies outside the user region, is loaded unless all image slots are
  taken: then every segment holds its bytes of the file, every other byte of the region is
  zero, and the image descriptor has the entry point and bounds of the plan and a stack of
  its own slot.
\<close>

theorem elf_load_correct:
  assumes "elf_prepare_load_plan m data sz = Inr plan" and "\<forall>sg \<in> set (pl_segments plan). no_wrap_segment sg"
    and "segs_disjoint (pl_segments plan)"
    and "data \<noteq> NULL" and "unat data + unat sz \<le> 0x300000" and "0 \<le> pid" and "elf_inv e"
    and "elf_load_from_plan pt pid plan data sz e m = (r, e', m')"
  shows "((\<exists>img. r = Inr img) \<longleftrightarrow> fst (elf_slot_for_pid pt pid e) \<noteq> None) \<and>
    (\<forall>img. r = Inr img \<longrightarrow>
       (\<forall>sg \<in> set (pl_segments plan). mem_read m' (sg_vaddr sg) (unat (sg_file_size sg)) =
          mem_read m (data + sg_file_offset sg) (unat (sg_file_size sg))) \<and>
       (\<forall>x. in_region x \<and> (\<forall>sg \<in> set (pl_segments plan). \<not> seg_block sg x) \<longrightarrow> m' x = 0) \<and>
       im_loaded img \<and> im_entry img = pl_entry plan \<and> im_image_base img = pl_image_base plan \<and>
       im_image_size img = pl_image_size plan \<and> \<not> im_context_valid img \<and>
       (\<exists>slot < ELF_PROC_SLOTS. slot_owned e' pid = Some slot \<and>
          im_stack_base img = user_stacks_at e + of_nat slot * ELF_STACK_SIZE))"
proof -
  note p = elf_prepare_ok [OF assms(1)]
  let ?m0 = "mem_zero ELF_USER_IMAGE_BASE ELF_USER_IMAGE_MAX m"
  let ?l = "load_segments (pl_segments plan) data sz ?m0"
  obtain s e1 where sl: "elf_slot_for_pid pt pid e = (s, e1)" by (cases "elf_slot_for_pid pt pid e")
  note so = elf_slot_for_pid_ok [OF assms(7,6) sl]
  have fblk: "file_block data sg x \<Longrightarrow> \<not> in_region x" if "sg \<in> set (pl_segments plan)" for sg x
  proof -
    have "unat (sg_file_offset sg + sg_file_size sg) = unat (sg_file_offset sg) + unat (sg_file_size sg)"
      using assms(2) that by (intro unat_add_exact) (simp add: no_wrap_segment_def)
    then have "unat (sg_file_offset sg) + unat (sg_file_size sg) \<le> unat sz"
      using p(7) [OF that] by (simp add: segment_ok_def word_le_nat_alt)
    moreover from this have "unat (data + sg_file_offset sg) = unat data + unat (sg_file_offset sg)"
      using assms(5) by (intro unat_add_exact) simp
    ultimately show "file_block data sg x \<Longrightarrow> \<not> in_region x"
      using assms(5) by (simp add: in_block_iff in_region_iff)
  qed
  have seg: "seg_block sg x \<Longrightarrow> in_region x" if "sg \<in> set (pl_segments plan)" for sg x
    using segment_in_region [OF p(7) _ p(5,6)] assms(2) that by blast
  have fst_l: "fst ?l" by (rule load_segments_ok) (use p(7) in \<open>auto simp: segment_ok_def\<close>)
  have rd: "mem_read (snd ?l) (sg_vaddr sg) (unat (sg_file_size sg)) =
      mem_read m (data + sg_file_offset sg) (unat (sg_file_size sg))" if "sg \<in> set (pl_segments plan)" for sg
  proof -
    have "mem_read (snd ?l) (sg_vaddr sg) (unat (sg_file_size sg)) =
        mem_read ?m0 (data + sg_file_offset sg) (unat (sg_file_size sg))"
      by (rule load_segments_read [OF assms(3) that fst_l]) (use fblk seg in blast)
    also have "\<dots> = mem_read m (data + sg_file_offset sg) (unat (sg_file_size sg))"
      using fblk [OF that] by (intro mem_read_cong) (simp add: mem_zero_eq)
    finally show ?thesis .
  qed
  have zero: "snd ?l x = 0" if "in_region x" "\<forall>sg \<in> set (pl_segments plan). \<not> seg_block sg x" for x
    using load_segments_other [OF that(2)] that(1) by (simp add: mem_zero_eq)
  have l: "?l = (True, snd ?l)" using fst_l by (metis prod.collapse)
  show ?thesis
  proof (cases s)
    case None
    then show ?thesis using assms(4,6,8) p(1,2) sl by (auto simp: elf_load_from_plan_def)
  next
    case (Some slot)
    then have r: "m' = snd ?l" "e' = e1" "r = Inr \<lparr>im_loaded = True, im_entry = pl_entry plan, im_image_base = pl_image_base plan,
        im_image_size = pl_image_size plan, im_stack_base = user_stacks_at e + of_nat slot * ELF_STACK_SIZE,
        im_stack_size = ELF_STACK_SIZE, im_cwd = NULL, im_output = CONSOLE_VGA,
        im_context_valid = False, im_context = zero_context\<rparr>"
      using assms(4,6,8) p(1,2) sl so(3) l by (auto simp: elf_load_from_plan_def split: prod.splits)
    show ?thesis unfolding r(1,2) using r(3) rd zero so(4,5) Some sl by auto
  qed
qed

definition demo_elf_state :: elf_state where
  "demo_elf_state = \<lparr>slot_owner_pid = [], slots_initialized = False, user_images = (\<lambda>_ _. 0),
     user_stacks_at = 0x200000\<rparr>"

lemma demo_elf_inv: "elf_inv demo_elf_state"
  by (simp add: elf_inv_def demo_elf_state_def)

theorem elf_load_correct_witness:
  "mem_read (snd (snd (elf_load_from_plan proc_init 1 demo_plan 0x1000 88 demo_elf_state
      (file_at 0x1000 demo_elf_file)))) 0x300000 4 = [0xDE, 0xAD, 0xBE, 0xEF]"
proof -
  let ?m = "file_at 0x1000 demo_elf_file"
  let ?r = "elf_load_from_plan proc_init 1 demo_plan 0x1000 88 demo_elf_state ?m"
  have h: "segs_disjoint (pl_segments demo_plan)" "(0x1000 :: u32) \<noteq> NULL"
    "unat (0x1000 :: u32) + unat (88 :: u32) \<le> 0x300000" "(0 :: int) \<le> 1"
    by (simp_all add: segs_disjoint_def demo_plan_def)
  have slot: "fst (elf_slot_for_pid proc_init 1 demo_elf_state) \<noteq> None" by code_simp
  have "?r = (fst ?r, fst (snd ?r), snd (snd ?r))" by simp
  from elf_load_correct [OF demo_prepare demo_no_wrap h demo_elf_inv this] slot
  have "\<forall>sg \<in> set (pl_segments demo_plan). mem_read (snd (snd ?r)) (sg_vaddr sg) (unat (sg_file_size sg)) =
      mem_read ?m (0x1000 + sg_file_offset sg) (unat (sg_file_size sg))" by blast
  then have "mem_read (snd (snd ?r)) 0x300000 4 = mem_read ?m (0x1000 + 84) 4"
    by (simp add: demo_plan_def)
  also have "\<dots> = [0xDE, 0xAD, 0xBE, 0xEF]" by code_simp
  finally show ?thesis .
qed

text \<open>
  Without that hypothesis confinement fails: the sums of the range check wrap around, so a
  second segment at \<open>0x80000000\<close> whose size brings its end back below the limit is accepted,
  and the plan loads file bytes to that address.
\<close>

definition wrapping_elf_file :: "u8 list" where
  "wrapping_elf_file = [0x7F, 0x45, 0x4C, 0x46, 1, 1, 1, 0, 0, 0, 0, 0, 0, 0, 0, 0,
     2, 0, 3, 0, 1, 0, 0, 0, 0, 0, 0x30, 0, 52, 0, 0, 0, 0, 0, 0, 0, 0, 0, 0, 0,
     52, 0, 32, 0, 2, 0, 0, 0, 0, 0, 0, 0,
     1, 0, 0, 0, 116, 0, 0, 0, 0, 0, 0x30, 0, 0, 0, 0, 0, 4, 0, 0, 0, 16, 0, 0, 0, 5, 0, 0, 0, 0, 0, 0, 0,
     1, 0, 0, 0, 116, 0, 0, 0, 0, 0, 0, 0x80, 0, 0, 0, 0, 4, 0, 0, 0, 16, 0, 0, 0x80, 5, 0, 0, 0, 0, 0, 0, 0,
     0xDE, 0xAD, 0xBE, 0xEF]"

lemma elf_wrapping_segment_accepted:
  "\<exists>plan. elf_prepare_load_plan (file_at 0x1000 wrapping_elf_file) 0x1000 120 = Inr plan \<and>
     snd (load_segments (pl_segments plan) 0x1000 120 (file_at 0x1000 wrapping_elf_file)) 0x80000000 = 0xDE"
proof -
  have "case elf_prepare_load_plan (file_at 0x1000 wrapping_elf_file) 0x1000 120 of
      Inl _ \<Rightarrow> False
    | Inr plan \<Rightarrow> snd (load_segments (pl_segments plan) 0x1000 120 (file_at 0x1000 wrapping_elf_file)) 0x80000000 = 0xDE"
    by code_simp
  then show ?thesis by (simp split: sum.splits)
qed

section \<open>Saved images\<close>

lemma store_image_sel [simp]:
  "slot_owner_pid (store_image i off bs e) = slot_owner_pid e"
  "slots_initialized (store_image i off bs e) = slots_initialized e"
  "user_images (store_image i off bs e) j = (if j = i then mem_write off bs (user_images e i) else user_images e j)"
  "slot_owned (store_image i off bs e) q = slot_owned e q" "elf_inv (store_image i off bs e) = elf_inv e"
  by (simp_all add: store_image_def slot_owned_def elf_inv_def)

text \<open>
  What an operation for process \<open>pid\<close> keeps of the others: the saved image of every other
  live process that owns a slot.
\<close>

definition others_kept :: "proc_table \<Rightarrow> int \<Rightarrow> elf_state \<Rightarrow> elf_state \<Rightarrow> bool" where
  "others_kept pt pid e e' \<longleftrightarrow> elf_inv e' \<and>
     (\<forall>q i. 0 \<le> q \<and> q \<noteq> pid \<and> proc_state_of pt q \<noteq> PROC_UNUSED \<and> slot_owned e q = Some i \<longrightarrow>
        slot_owned e' q = Some i \<and> user_images e' i = user_images e i)"

lemma elf_slot_others:
  assumes "elf_inv e" "0 \<le> pid" "elf_slot_for_pid pt pid e = (r, e')"
  shows "others_kept pt pid e e'"
  using elf_slot_for_pid_ok(1,2,7) [OF assms] by (simp add: others_kept_def)

lemma store_others:
  assumes "elf_inv e" "0 \<le> pid" "elf_slot_for_pid pt pid e = (Some i, e')"
  shows "others_kept pt pid e (store_image i off bs e')"
proof -
  note s = elf_slot_for_pid_ok [OF assms]
  have "j \<noteq> i" if "slot_owned e' q = Some j" "q \<noteq> pid" for q j
    using slot_ownedD [OF s(4)] slot_ownedD [OF that(1)] that(2) by auto
  then show ?thesis using elf_slot_others [OF assms] by (auto simp: others_kept_def)
qed

lemma elf_snapshot_ok:
  assumes inv: "elf_inv e" and r: "elf_snapshot_image pt pid img m e = (ok, e')"
  shows "elf_inv e'" and "0 \<le> pid \<Longrightarrow> others_kept pt pid e e'"
    and "ok \<Longrightarrow> 0 \<le> pid \<and> (\<exists>i. slot_owned e' pid = Some i \<and>
      mem_read (user_images e' i) 0 (unat (im_image_size img)) = mem_read m (im_image_base img) (unat (im_image_size img)))"
proof -
  obtain s e1 where sl: "elf_slot_for_pid pt pid e = (s, e1)" by (cases "elf_slot_for_pid pt pid e")
  have kept: "0 \<le> pid \<Longrightarrow> others_kept pt pid e e'"
    using r sl elf_slot_others [OF inv _ sl] store_others [OF inv, of pid pt _ e1] inv
    by (auto simp: elf_snapshot_image_def others_kept_def split: if_splits option.splits)
  then show "0 \<le> pid \<Longrightarrow> others_kept pt pid e e'" .
  show "elf_inv e'"
  proof (cases "0 \<le> pid")
    case True
    then show ?thesis using kept by (simp add: others_kept_def)
  qed (use r inv in \<open>simp add: elf_snapshot_image_def\<close>)
  show "0 \<le> pid \<and> (\<exists>i. slot_owned e' pid = Some i \<and>
      mem_read (user_images e' i) 0 (unat (im_image_size img)) = mem_read m (im_image_base img) (unat (im_image_size img)))"
    if yes: ok
  proof -
    let ?bs = "mem_read m (im_image_base img) (unat (im_image_size img))"
    obtain i where i: "0 \<le> pid" "s = Some i" "e' = store_image i 0 ?bs e1"
      using r sl yes by (auto simp: elf_snapshot_image_def split: if_splits option.splits)
    have "mem_read (mem_write 0 ?bs (user_images e1 i)) 0 (length ?bs) = ?bs"
      using unat_u32_bound [of "im_image_size img"] by (intro mem_write_read) simp
    then show ?thesis using i elf_slot_for_pid_ok(4) [OF inv i(1) sl] by auto
  qed
qed


definition demo_image :: proc_image where
  "demo_image = empty_image\<lparr>im_loaded := True, im_entry := 0x300000, im_image_base := 0x300000,
     im_image_size := 16, im_stack_base := 0x200000, im_stack_size := 4096, im_context_valid := True\<rparr>"


section \<open>The argument block\<close>

lemma write_words_other:
  assumes "unat a + 4 * length ws \<le> 2 ^ 32" and "\<not> (unat a \<le> unat x \<and> unat x < unat a + 4 * length ws)"
  shows "write_words a ws m x = m x"
  using assms
proof (induction ws arbitrary: a m)
  case (Cons w ws)
  have m1: "mem_write a (le32 w) m x = m x"
    using Cons.prems by (intro mem_write_other) (auto simp: in_block_iff)
  show ?case
  proof (cases ws)
    case (Cons v vs)
    then have "unat (a + 4) = unat a + 4" using Cons.prems(1) by (intro unat_add_exact [of a 4, simplified]) simp
    then show ?thesis using Cons.IH [of "a + 4"] Cons.prems m1 by auto
  qed (simp add: m1)
qed simp

lemma write_words_read:
  assumes "unat a + 4 * length ws \<le> 2 ^ 32" and "i < length ws"
  shows "rd32 (write_words a ws m) (a + 4 * of_nat i) = ws ! i"
  using assms
proof (induction ws arbitrary: a m i)
  case (Cons w ws)
  have a4: "unat (a + 4) = unat a + 4" if "ws \<noteq> []"
    using Cons.prems(1) that by (intro unat_add_exact [of a 4, simplified]) (cases ws; simp)
  show ?case
  proof (cases i)
    case 0
    have "write_words (a + 4) ws m' x = m' x" if x: "in_block a 4 x" for x m'
    proof (cases "ws = []")
      case False
      then show ?thesis using Cons.prems(1) x a4
        by (intro write_words_other) (auto simp: in_block_iff)
    qed simp
    then have "rd32 (write_words a (w # ws) m) a = rd32 (mem_write a (le32 w) m) a"
      by (intro rd32_cong) simp
    then show ?thesis using 0 by (simp add: rd32_le32)
  next
    case (Suc k)
    then have ne: "ws \<noteq> []" using Cons.prems(2) by auto
    have "a + 4 * of_nat i = (a + 4) + 4 * of_nat k" using Suc by (simp add: algebra_simps)
    then show ?thesis using Suc Cons.IH [of "a + 4" k "mem_write a (le32 w) m"] Cons.prems a4 [OF ne]
      by (simp add: add.assoc)
  qed
qed simp

text \<open>What is assumed of the image and the arguments: the loader's stack, no address wrap.\<close>

definition stack_ok :: "proc_image \<Rightarrow> string option list \<Rightarrow> bool" where
  "stack_ok img argv \<longleftrightarrow> im_stack_size img = ELF_STACK_SIZE \<and> unat (im_stack_base img) + 4096 < 2 ^ 32 \<and>
     (\<forall>s. Some s \<in> set argv \<longrightarrow> length s < 2 ^ 31)"

lemma arg_at_length: "stack_ok img argv \<Longrightarrow> length (arg_at argv i) < 2 ^ 31"
  by (auto simp: stack_ok_def arg_at_def split: option.splits) (metis nth_mem)

abbreviation arg_bytes :: "string option list \<Rightarrow> nat \<Rightarrow> u8 list" where
  "arg_bytes argv i \<equiv> map byte_of (cstr (arg_at argv i) @ [NUL])"

lemma push_args_ok:
  assumes ok: "stack_ok img argv"
    and "push_args img argv n sp m addrs = (Inr (sp', addrs'), m')"
    and "unat (im_stack_base img) \<le> unat sp" "unat sp \<le> unat (im_stack_base img) + 4096"
  shows "\<exists>new. addrs' = new @ addrs \<and> length new = n \<and>
    unat (im_stack_base img) \<le> unat sp' \<and> unat sp' \<le> unat sp \<and>
    (\<forall>x. \<not> (unat sp' \<le> unat x \<and> unat x < unat sp) \<longrightarrow> m' x = m x) \<and>
    (\<forall>i < n. unat sp' \<le> unat (new ! i) \<and> unat (new ! i) + length (arg_bytes argv i) \<le> unat sp \<and>
       mem_read m' (new ! i) (length (arg_bytes argv i)) = arg_bytes argv i)"
  using assms(2-)
proof (induction n arbitrary: sp m addrs)
  case (Suc i)
  let ?B = "unat (im_stack_base img)" and ?bs = "arg_bytes argv i"
  let ?len = "str_len (arg_at argv i) + 1"
  let ?sp = "sp - ?len"
  let ?m = "mem_write ?sp ?bs m"
  have B: "?B + 4096 < 2 ^ 32" and sz: "im_stack_size img = 4096"
    using ok by (simp_all add: stack_ok_def ELF_STACK_SIZE_def)
  have al: "length (cstr (arg_at argv i)) < 2 ^ 31"
    using arg_at_length [OF ok] length_cstr_le le_less_trans by blast
  have "unat (str_len (arg_at argv i)) = length (cstr (arg_at argv i))"
    using al by (simp add: str_len_eq unat_of_nat_exact)
  then have len: "unat ?len = length ?bs" using al by (subst unat_add_exact) simp_all
  have step: "push_args img argv i ?sp ?m (?sp # addrs) = (Inr (sp', addrs'), m')"
    and c: "\<not> ?len > im_stack_size img - 64" "\<not> sp < im_stack_base img + ?len + 16"
    using Suc.prems(1) by (auto simp: Let_def split: if_splits)
  have l4: "length ?bs \<le> 4032" using c(1) len by (simp add: sz word_le_nat_alt not_less)
  have "unat (im_stack_base img + ?len) = ?B + length ?bs"
    using B l4 len by (subst unat_add_exact) simp_all
  then have "unat (im_stack_base img + ?len + 16) = ?B + length ?bs + 16"
    using B l4 by (subst unat_add_exact) simp_all
  then have lo: "?B + length ?bs + 16 \<le> unat sp" using c(2) by (simp add: word_less_nat_alt not_less)
  have usp: "unat ?sp = unat sp - length ?bs"
    using lo len by (subst unat_sub_exact) (simp_all add: word_le_nat_alt)
  obtain new where n: "addrs' = new @ ?sp # addrs" "length new = i" "?B \<le> unat sp'" "unat sp' \<le> unat ?sp"
      "\<forall>x. \<not> (unat sp' \<le> unat x \<and> unat x < unat ?sp) \<longrightarrow> m' x = ?m x"
      "\<forall>k < i. unat sp' \<le> unat (new ! k) \<and> unat (new ! k) + length (arg_bytes argv k) \<le> unat ?sp \<and>
         mem_read m' (new ! k) (length (arg_bytes argv k)) = arg_bytes argv k"
  proof -
    have "?B \<le> unat ?sp" "unat ?sp \<le> ?B + 4096" using usp lo Suc.prems(2,3) by auto
    from Suc.IH [OF step this] show thesis using that by blast
  qed
  have blk: "in_block ?sp (length ?bs) x \<longleftrightarrow> unat ?sp \<le> unat x \<and> unat x < unat sp" for x
    using usp lo Suc.prems(3) B by (subst in_block_iff) auto
  have "mem_read m' ?sp (length ?bs) = mem_read ?m ?sp (length ?bs)"
    using n(5) by (intro mem_read_cong) (metis blk not_less)
  also have "\<dots> = ?bs" using l4 by (intro mem_write_read) simp
  finally have this_arg: "mem_read m' ?sp (length ?bs) = ?bs" .
  have frame: "m' x = m x" if "\<not> (unat sp' \<le> unat x \<and> unat x < unat sp)" for x
  proof -
    have "\<not> in_block ?sp (length ?bs) x" using that n(4) blk by auto
    then have "?m x = m x" by (intro mem_write_other)
    moreover have "\<not> (unat sp' \<le> unat x \<and> unat x < unat ?sp)" using that usp by linarith
    then have "m' x = ?m x" using n(5) by blast
    ultimately show ?thesis by simp
  qed
  have args: "unat sp' \<le> unat ((new @ [?sp]) ! k) \<and> unat ((new @ [?sp]) ! k) + length (arg_bytes argv k) \<le> unat sp \<and>
      mem_read m' ((new @ [?sp]) ! k) (length (arg_bytes argv k)) = arg_bytes argv k" if "k < Suc i" for k
  proof (cases "k = i")
    case True
    then have "(new @ [?sp]) ! k = ?sp" using n(2) by (simp add: nth_append)
    then show ?thesis using True n(4) usp lo this_arg by simp
  next
    case False
    then have "k < i" "(new @ [?sp]) ! k = new ! k" using that n(2) by (auto simp: nth_append)
    then show ?thesis using n(6) usp by force
  qed
  show ?case using n(1-4) usp frame args by (intro exI [of _ "new @ [?sp]"]) auto
qed auto

text \<open>The two words of the header followed by a table of words.\<close>

lemma arg_table_layout:
  assumes fit: "unat sp + 8 + 4 * length ws \<le> 2 ^ 32"
    and m': "m' = write_words sp [c, sp + 8] (write_words (sp + 8) ws m)" and ws: "ws \<noteq> []"
  shows "\<not> (unat sp \<le> unat x \<and> unat x < unat sp + 8 + 4 * length ws) \<Longrightarrow> m' x = m x"
    and "rd32 m' sp = c" "rd32 m' (sp + 4) = sp + 8"
    and "i < length ws \<Longrightarrow> rd32 m' (sp + 8 + 4 * of_nat i) = ws ! i"
proof -
  have t: "unat (sp + 8) = unat sp + 8" using fit ws by (subst unat_add_exact) (cases ws; simp)+
  show "rd32 m' sp = c" "rd32 m' (sp + 4) = sp + 8"
    using write_words_read [of sp "[c, sp + 8]" 0] write_words_read [of sp "[c, sp + 8]" 1] fit
    by (simp_all add: m')
  show "\<not> (unat sp \<le> unat x \<and> unat x < unat sp + 8 + 4 * length ws) \<Longrightarrow> m' x = m x"
    unfolding m' using fit t by (subst write_words_other) (auto intro!: write_words_other)
  show "rd32 m' (sp + 8 + 4 * of_nat i) = ws ! i" if i: "i < length ws"
  proof -
    have "unat (4 * of_nat i :: u32) = 4 * i" using i fit unat_of_nat_exact [of "4 * i"] by simp
    then have u: "unat (sp + 8 + 4 * of_nat i) = unat sp + 8 + 4 * i"
      using i fit t by (subst unat_add_exact) simp_all
    have "m' x = write_words (sp + 8) ws m x" if "in_block (sp + 8 + 4 * of_nat i) 4 x" for x
      unfolding m' using that u i fit by (intro write_words_other) (auto simp: in_block_iff)
    then have "rd32 m' (sp + 8 + 4 * of_nat i) = rd32 (write_words (sp + 8) ws m) (sp + 8 + 4 * of_nat i)"
      by (rule rd32_cong)
    also have "\<dots> = ws ! i" using i t fit by (intro write_words_read) auto
    finally show ?thesis .
  qed
qed

text \<open>The stack pointer that \<open>elf_build_stack\<close> computes, and the checks it has passed.\<close>

lemma elf_build_stackD:
  assumes ok: "stack_ok img argv" and r: "elf_build_stack img pid argc argv m = (Inr sp, m')"
    and n: "n = min (nat argc) ELF_ARG_MAX"
  obtains sp0 addrs m1 where
    "push_args img argv n (im_stack_base img + im_stack_size img) m [] = (Inr (sp0, addrs), m1)"
    "unat sp + 8 + 4 * (n + 1) = unat sp0 div 4 * 4" "unat (im_stack_base img) \<le> unat sp"
    "m' = write_words sp [of_nat n, sp + 8] (write_words (sp + 8) (addrs @ [0]) m1)"
proof -
  let ?table = "(of_nat n + 1) * 4 :: u32"
  have B: "unat (im_stack_base img) + 4096 < 2 ^ 32" using ok by (simp add: stack_ok_def)
  have n16: "n \<le> 16" by (simp add: n ELF_ARG_MAX_def)
  have tab: "unat ?table = 4 * n + 4"
    using unat_of_nat_exact [of "4 * n + 4"] n16 by (simp add: algebra_simps)
  obtain sp0 addrs m1 where pa: "push_args img argv n (im_stack_base img + im_stack_size img) m [] = (Inr (sp0, addrs), m1)"
    and c: "\<not> sp0 AND NOT 3 < im_stack_base img + ?table + 8"
    and sp: "sp = (sp0 AND NOT 3) - ?table - 8"
    and m': "m' = write_words sp [of_nat n, (sp0 AND NOT 3) - ?table] (write_words ((sp0 AND NOT 3) - ?table) (addrs @ [0]) m1)"
    using r unfolding elf_build_stack_def Let_def n [symmetric]
    by (auto split: if_splits sum.splits prod.splits)
  let ?al = "sp0 AND NOT 3 :: u32"
  have "(3 :: u32) = mask 2" by (simp add: mask_eq_exp_minus_1)
  then have al: "unat ?al = unat sp0 div 4 * 4" using unat_and_not_mask [of sp0 2] by simp
  have "unat (im_stack_base img + ?table) = unat (im_stack_base img) + (4 * n + 4)"
    using B n16 tab by (subst unat_add_exact) simp_all
  then have "unat (im_stack_base img + ?table + 8) = unat (im_stack_base img) + 4 * n + 12"
    using B n16 by (subst unat_add_exact) simp_all
  then have lo: "unat (im_stack_base img) + 4 * n + 12 \<le> unat ?al"
    using c by (simp add: word_less_nat_alt not_less)
  then have "unat (?al - ?table) = unat ?al - (4 * n + 4)"
    using tab by (subst unat_sub_exact) (simp_all add: word_le_nat_alt)
  then have usp: "unat sp = unat ?al - (4 * n + 12)"
    unfolding sp using lo by (subst unat_sub_exact) (simp_all add: word_le_nat_alt)
  have eq: "?al - ?table = sp + 8" by (simp add: sp)
  show thesis
  proof (rule that [OF pa])
    show "unat sp + 8 + 4 * (n + 1) = unat sp0 div 4 * 4" "unat (im_stack_base img) \<le> unat sp"
      using usp lo al by simp_all
    show "m' = write_words sp [of_nat n, sp + 8] (write_words (sp + 8) (addrs @ [0]) m1)"
      using m' unfolding eq .
  qed
qed

text \<open>
  C29: the argument block.  If building it succeeds, the program starts with a word-aligned
  stack pointer inside its stack, below which and outside of which no byte has changed; the
  stack holds \<^verbatim>\<open>argc\<close> (at most 16), the address of \<^verbatim>\<open>argv\<close> right behind, and the table:
  entry \<open>i\<close> is the address of a NUL-terminated copy of argument \<open>i\<close> and the last entry is
  null.
\<close>

theorem elf_build_stack_correct:
  assumes "stack_ok img argv" and "elf_build_stack img pid argc argv m = (Inr sp, m')"
    and "n = min (nat argc) ELF_ARG_MAX"
  shows "4 dvd unat sp \<and> unat (im_stack_base img) \<le> unat sp \<and> unat sp < unat (im_stack_base img) + 4096 \<and>
    (\<forall>x. \<not> (unat sp \<le> unat x \<and> unat x < unat (im_stack_base img) + 4096) \<longrightarrow> m' x = m x) \<and>
    rd32 m' sp = of_nat n \<and> rd32 m' (sp + 4) = sp + 8 \<and>
    (\<forall>i < n. let a = rd32 m' (sp + 8 + 4 * of_nat i) in
       unat sp < unat a \<and> mem_read m' a (length (arg_bytes argv i)) = arg_bytes argv i) \<and>
    rd32 m' (sp + 8 + 4 * of_nat n) = 0"
proof -
  let ?B = "unat (im_stack_base img)"
  have B: "?B + 4096 < 2 ^ 32" and sz: "im_stack_size img = 4096"
    using assms(1) by (simp_all add: stack_ok_def ELF_STACK_SIZE_def)
  have top: "unat (im_stack_base img + im_stack_size img) = ?B + 4096"
    using B by (subst unat_add_exact) (simp_all add: sz)
  obtain sp0 addrs m1 where pa: "push_args img argv n (im_stack_base img + im_stack_size img) m [] = (Inr (sp0, addrs), m1)"
    and usp: "unat sp + 8 + 4 * (n + 1) = unat sp0 div 4 * 4" and lo: "?B \<le> unat sp"
    and m': "m' = write_words sp [of_nat n, sp + 8] (write_words (sp + 8) (addrs @ [0]) m1)"
    using elf_build_stackD [OF assms] .
  have a: "length addrs = n" "unat sp0 \<le> ?B + 4096"
      "\<forall>x. \<not> (unat sp0 \<le> unat x \<and> unat x < ?B + 4096) \<longrightarrow> m1 x = m x"
    and arg1: "\<forall>i < n. unat sp0 \<le> unat (addrs ! i) \<and> unat (addrs ! i) + length (arg_bytes argv i) \<le> ?B + 4096 \<and>
         mem_read m1 (addrs ! i) (length (arg_bytes argv i)) = arg_bytes argv i"
    using push_args_ok [OF assms(1) pa] unfolding top by auto
  have le: "unat sp + 8 + 4 * (n + 1) \<le> unat sp0" unfolding usp by simp
  have fit: "unat sp + 8 + 4 * length (addrs @ [0]) \<le> 2 ^ 32" using le a B by simp
  note lay = arg_table_layout [OF fit m']
  have same: "m' x = m1 x" if "\<not> (unat sp \<le> unat x \<and> unat x < unat sp0)" for x
    using that le a(1) by (intro lay(1)) auto
  have frame: "m' x = m x" if "\<not> (unat sp \<le> unat x \<and> unat x < ?B + 4096)" for x
    using that same a(2,3) le by auto
  have entry: "rd32 m' (sp + 8 + 4 * of_nat i) = (addrs @ [0]) ! i" if "i \<le> n" for i
    using lay(4) [of i] that a(1) by simp
  have arg: "unat sp < unat (addrs ! i) \<and> mem_read m' (addrs ! i) (length (arg_bytes argv i)) = arg_bytes argv i"
    if "i < n" for i
  proof -
    note ai = arg1 [rule_format, OF that]
    have "m' x = m1 x" if "in_block (addrs ! i) (length (arg_bytes argv i)) x" for x
      using that ai B by (intro same) (auto simp: in_block_iff)
    then have "mem_read m' (addrs ! i) (length (arg_bytes argv i)) = mem_read m1 (addrs ! i) (length (arg_bytes argv i))"
      by (rule mem_read_cong)
    then show ?thesis using ai le by simp
  qed
  have "4 dvd unat sp + 4 * (n + 3)" using usp by (simp add: algebra_simps)
  then have "4 dvd unat sp" by (simp add: dvd_add_left_iff)
  then show ?thesis
    using lo le a(1,2) frame lay(2,3) entry arg by (auto simp: Let_def nth_append)
qed

theorem elf_build_stack_correct_witness:
  "\<exists>sp m'. elf_build_stack demo_image 1 2 [Some ''cat'', Some ''f''] (\<lambda>_. 0) = (Inr sp, m') \<and>
     rd32 m' sp = 2 \<and> mem_read m' (rd32 m' (sp + 12)) 2 = [0x66, 0]"
proof -
  let ?argv = "[Some ''cat'', Some ''f'']"
  have "\<not> isl (fst (elf_build_stack demo_image 1 2 ?argv (\<lambda>_. 0)))" by code_simp
  then obtain sp m' where r: "elf_build_stack demo_image 1 2 ?argv (\<lambda>_. 0) = (Inr sp, m')"
    by (metis isl_def old.sum.exhaust prod.collapse)
  have ok: "stack_ok demo_image ?argv"
    by (auto simp: stack_ok_def demo_image_def ELF_STACK_SIZE_def)
  have n: "2 = min (nat 2) ELF_ARG_MAX" by (simp add: ELF_ARG_MAX_def)
  have b: "arg_bytes ?argv 1 = [0x66, 0]" by (simp add: arg_at_def byte_of_def)
  note e = elf_build_stack_correct [OF ok r n]
  then have "rd32 m' sp = 2" by simp
  moreover from e have "let a = rd32 m' (sp + 8 + 4 * of_nat 1) in
      unat sp < unat a \<and> mem_read m' a (length (arg_bytes ?argv 1)) = arg_bytes ?argv 1"
    by (metis one_less_numeral_iff semiring_norm(76))
  then have "mem_read m' (rd32 m' (sp + 12)) 2 = [0x66, 0]"
    unfolding b by (simp add: Let_def add.assoc numeral_2_eq_2)
  ultimately show ?thesis using r by blast
qed

end
