(* ===== verification/Ipc.thy ===== *)
theory Ipc
  imports Kheap Task Elf
begin

text \<open>
  \<^verbatim>\<open>kernel/ipc.c\<close>: one-message mailboxes and blocked receivers.  The state \<open>kcore\<close> adds to
  the memory (\<open>kmem\<close>) what a delivery touches: the scheduler with the process table, the
  saved images of \<^verbatim>\<open>elf.c\<close>, and the two arrays of this file.  \<open>pending\<close> reads the
  mailboxes as a map from pids to waiting messages; sending and receiving are shown to be
  updates of that map, and a delivery to a blocked receiver to write the message into the
  receiver's memory and to make it ready.
\<close>

section \<open>Data\<close>

definition IPC_MAILBOX_MAX :: nat where "IPC_MAILBOX_MAX = 32"

record ipc_message =
  ms_src_pid :: int
  ms_dst_pid :: int
  ms_type :: u32
  ms_arg1 :: u32
  ms_arg2 :: u32
  ms_arg3 :: u32
  ms_arg4 :: u32

definition zero_message :: ipc_message where
  "zero_message = \<lparr>ms_src_pid = 0, ms_dst_pid = 0, ms_type = 0, ms_arg1 = 0, ms_arg2 = 0,
     ms_arg3 = 0, ms_arg4 = 0\<rparr>"

text \<open>The structure as it lies in memory.\<close>

definition message_bytes :: "ipc_message \<Rightarrow> u8 list" where
  "message_bytes msg = concat (map le32 [word_of_int (ms_src_pid msg), word_of_int (ms_dst_pid msg),
     ms_type msg, ms_arg1 msg, ms_arg2 msg, ms_arg3 msg, ms_arg4 msg])"

record ipc_mailbox =
  bx_used :: bool
  bx_pid :: int
  bx_has_message :: bool
  bx_message :: ipc_message

record ipc_waiter =
  wt_active :: bool
  wt_pid :: int
  wt_user_msg_ptr :: u32

record ipc_state =
  mailboxes :: "ipc_mailbox list"
  waiters :: "ipc_waiter list"

record kcore = kmem +
  k_sched :: sched_state
  k_elf :: elf_state
  k_ipc :: ipc_state

abbreviation k_procs :: "'a kcore_scheme \<Rightarrow> proc_table" where
  "k_procs k \<equiv> sc_procs (k_sched k)"

definition empty_mailbox :: ipc_mailbox where
  "empty_mailbox = \<lparr>bx_used = False, bx_pid = - 1, bx_has_message = False, bx_message = zero_message\<rparr>"

definition no_waiter :: ipc_waiter where
  "no_waiter = \<lparr>wt_active = False, wt_pid = - 1, wt_user_msg_ptr = 0\<rparr>"

section \<open>Operations\<close>

definition ipc_init :: ipc_state where
  "ipc_init = \<lparr>mailboxes = replicate IPC_MAILBOX_MAX empty_mailbox,
     waiters = replicate IPC_MAILBOX_MAX no_waiter\<rparr>"

definition ipc_find_slot :: "ipc_state \<Rightarrow> int \<Rightarrow> nat option" where
  "ipc_find_slot s pid = find_index (\<lambda>b. bx_used b \<and> bx_pid b = pid) (mailboxes s)"

definition ipc_alloc_slot :: "int \<Rightarrow> ipc_state \<Rightarrow> nat option \<times> ipc_state" where
  "ipc_alloc_slot pid s =
     (case find_index (\<lambda>b. \<not> bx_used b) (mailboxes s) of
        None \<Rightarrow> (None, s)
      | Some i \<Rightarrow> (Some i, s\<lparr>mailboxes := (mailboxes s)[i := (mailboxes s ! i)
          \<lparr>bx_used := True, bx_pid := pid, bx_has_message := False\<rparr>]\<rparr>))"

definition ipc_find_waiter :: "ipc_state \<Rightarrow> int \<Rightarrow> nat option" where
  "ipc_find_waiter s pid = find_index (\<lambda>w. wt_active w \<and> wt_pid w = pid) (waiters s)"

definition ipc_alloc_waiter :: "int \<Rightarrow> ipc_state \<Rightarrow> nat option \<times> ipc_state" where
  "ipc_alloc_waiter pid s =
     (case find_index (\<lambda>w. \<not> wt_active w) (waiters s) of
        None \<Rightarrow> (None, s)
      | Some i \<Rightarrow> (Some i, s\<lparr>waiters := (waiters s)[i :=
          \<lparr>wt_active = True, wt_pid = pid, wt_user_msg_ptr = 0\<rparr>]\<rparr>))"

definition clear_waiter :: "nat \<Rightarrow> ipc_state \<Rightarrow> ipc_state" where
  "clear_waiter i s = s\<lparr>waiters := (waiters s)[i := no_waiter]\<rparr>"

definition ipc_block_recv :: "proc_table \<Rightarrow> int \<Rightarrow> u32 \<Rightarrow> ipc_state \<Rightarrow> bool \<times> ipc_state" where
  "ipc_block_recv pt dst_pid user_msg_ptr s =
     (if dst_pid < 0 \<or> proc_state_of pt dst_pid = PROC_UNUSED then (False, s)
      else
        let (slot, s) = (case ipc_find_waiter s dst_pid of
                           Some i \<Rightarrow> (Some i, s) | None \<Rightarrow> ipc_alloc_waiter dst_pid s)
        in case slot of
             None \<Rightarrow> (False, s)
           | Some i \<Rightarrow> (True, s\<lparr>waiters := (waiters s)[i :=
               (waiters s ! i)\<lparr>wt_user_msg_ptr := user_msg_ptr\<rparr>]\<rparr>))"

definition ipc_unblock_deliver ::
  "int \<Rightarrow> ipc_message option \<Rightarrow> 'a kcore_scheme \<Rightarrow> bool \<times> 'a kcore_scheme" where
  "ipc_unblock_deliver dst_pid msg k =
     (case msg of
        None \<Rightarrow> (False, k)
      | Some ms \<Rightarrow>
          if dst_pid < 0 then (False, k)
          else case ipc_find_waiter (k_ipc k) dst_pid of
            None \<Rightarrow> (False, k)
          | Some slot \<Rightarrow>
              if proc_state_of (k_procs k) dst_pid = PROC_UNUSED
              then (False, k\<lparr>k_ipc := clear_waiter slot (k_ipc k)\<rparr>)
              else
                let (ok, m, e) = elf_write_to_task_memory (k_procs k) dst_pid
                      (wt_user_msg_ptr (waiters (k_ipc k) ! slot)) (message_bytes ms) (mem k) (k_elf k);
                    k = k\<lparr>mem := m, k_elf := e\<rparr>
                in if \<not> ok then (False, k)
                   else case proc_get_image (k_procs k) dst_pid of
                     None \<Rightarrow> (False, k)
                   | Some img \<Rightarrow>
                       if \<not> im_loaded img \<or> \<not> im_context_valid img then (False, k)
                       else
                         let img = img\<lparr>im_context := (im_context img)\<lparr>uc_eax := 0\<rparr>\<rparr>;
                             sc = upd_procs (\<lambda>pt. snd (proc_bind_image dst_pid (Some img) pt)) (k_sched k);
                             sc = task_set_state dst_pid TASK_READY sc;
                             sc = upd_procs (proc_set_state dst_pid PROC_READY) sc
                         in (True, k\<lparr>k_sched := sc, k_ipc := clear_waiter slot (k_ipc k)\<rparr>))"

text \<open>The mailbox part of \<^verbatim>\<open>ipc_send\<close>, reached when no blocked receiver took the message.\<close>

definition ipc_post :: "int \<Rightarrow> ipc_message \<Rightarrow> ipc_state \<Rightarrow> bool \<times> ipc_state" where
  "ipc_post dst_pid delivered s =
     (let (slot, s) = (case ipc_find_slot s dst_pid of
                         Some i \<Rightarrow> (Some i, s) | None \<Rightarrow> ipc_alloc_slot dst_pid s)
      in case slot of
           None \<Rightarrow> (False, s)
         | Some i \<Rightarrow>
             if bx_has_message (mailboxes s ! i) then (False, s)
             else (True, s\<lparr>mailboxes := (mailboxes s)[i := (mailboxes s ! i)
                    \<lparr>bx_message := delivered, bx_has_message := True\<rparr>]\<rparr>))"

definition ipc_send ::
  "int \<Rightarrow> int \<Rightarrow> ipc_message option \<Rightarrow> 'a kcore_scheme \<Rightarrow> bool \<times> 'a kcore_scheme" where
  "ipc_send src_pid dst_pid msg k =
     (case msg of
        None \<Rightarrow> (False, k)
      | Some ms \<Rightarrow>
          if dst_pid < 0 \<or> proc_state_of (k_procs k) dst_pid = PROC_UNUSED then (False, k)
          else
            let delivered = ms\<lparr>ms_src_pid := src_pid, ms_dst_pid := dst_pid\<rparr>;
                (ok, k) = ipc_unblock_deliver dst_pid (Some delivered) k
            in if ok then (True, k)
               else let (ok, s) = ipc_post dst_pid delivered (k_ipc k) in (ok, k\<lparr>k_ipc := s\<rparr>))"

text \<open>\<^verbatim>\<open>*out_msg\<close> is returned with the success flag as an option.\<close>

definition ipc_recv :: "int \<Rightarrow> ipc_state \<Rightarrow> ipc_message option \<times> ipc_state" where
  "ipc_recv dst_pid s =
     (if dst_pid < 0 then (None, s)
      else case ipc_find_slot s dst_pid of
          None \<Rightarrow> (None, s)
        | Some i \<Rightarrow>
            if \<not> bx_has_message (mailboxes s ! i) then (None, s)
            else (Some (bx_message (mailboxes s ! i)),
                  s\<lparr>mailboxes := (mailboxes s)[i := (mailboxes s ! i)
                    \<lparr>bx_has_message := False, bx_message := zero_message\<rparr>]\<rparr>))"

definition ipc_reply ::
  "int \<Rightarrow> int \<Rightarrow> ipc_message option \<Rightarrow> 'a kcore_scheme \<Rightarrow> bool \<times> 'a kcore_scheme" where
  "ipc_reply src_pid dst_pid msg k = ipc_send src_pid dst_pid msg k"

section \<open>Mailboxes as a map\<close>

interpretation mtab: slot_table bx_used bx_pid empty_mailbox
  by unfold_locales (simp add: empty_mailbox_def)

interpretation wtab: slot_table wt_active wt_pid no_waiter
  by unfold_locales (simp add: no_waiter_def)

definition pending :: "ipc_state \<Rightarrow> int \<Rightarrow> ipc_message option" where
  "pending s pid =
     (case table_map bx_used bx_pid (mailboxes s) pid of
        Some b \<Rightarrow> if bx_has_message b then Some (bx_message b) else None
      | None \<Rightarrow> None)"

text \<open>Where the blocked receiver of a pid wants its message.\<close>

definition waiting :: "ipc_state \<Rightarrow> int \<Rightarrow> u32 option" where
  "waiting s pid = map_option wt_user_msg_ptr (table_map wt_active wt_pid (waiters s) pid)"

definition ipc_inv :: "ipc_state \<Rightarrow> bool" where
  "ipc_inv s \<longleftrightarrow> length (mailboxes s) = IPC_MAILBOX_MAX \<and> length (waiters s) = IPC_MAILBOX_MAX \<and>
     unique_keys bx_used bx_pid (mailboxes s) \<and> unique_keys wt_active wt_pid (waiters s)"

text \<open>A pid can be sent to if it has a mailbox or one is free.\<close>

definition reachable_pid :: "ipc_state \<Rightarrow> int \<Rightarrow> bool" where
  "reachable_pid s pid \<longleftrightarrow> ipc_find_slot s pid \<noteq> None \<or> (\<exists>b \<in> set (mailboxes s). \<not> bx_used b)"

lemma ipc_init_inv: "ipc_inv ipc_init"
  by (simp add: ipc_inv_def ipc_init_def mtab.uniq_blank wtab.uniq_blank)

lemma ipc_find_eq:
  "ipc_find_slot s pid = mtab.slot (mailboxes s) pid" "ipc_find_waiter s pid = wtab.slot (waiters s) pid"
  by (simp_all add: ipc_find_slot_def ipc_find_waiter_def slot_of_def)

lemma pending_waiters [simp]: "pending (s\<lparr>waiters := ws\<rparr>) = pending s"
  by (rule ext) (simp add: pending_def)

lemma put_mailbox:
  assumes inv: "ipc_inv s" and i: "i < length (mailboxes s)" and e: "bx_used b"
    and k: "mtab.tmap (mailboxes s) (bx_pid b) = None \<and> \<not> bx_used (mailboxes s ! i) \<or>
      mtab.slot (mailboxes s) (bx_pid b) = Some i"
  shows "ipc_inv (s\<lparr>mailboxes := (mailboxes s)[i := b]\<rparr>)"
    and "pending (s\<lparr>mailboxes := (mailboxes s)[i := b]\<rparr>) =
      (pending s)(bx_pid b := if bx_has_message b then Some (bx_message b) else None)"
proof -
  have u: "mtab.uniq (mailboxes s)" using inv by (simp add: ipc_inv_def)
  have "mtab.uniq ((mailboxes s)[i := b])" by (rule mtab.uniq_update [OF u]) (use k in blast)
  then show "ipc_inv (s\<lparr>mailboxes := (mailboxes s)[i := b]\<rparr>)" using inv by (simp add: ipc_inv_def)
  have "mtab.tmap ((mailboxes s)[i := b]) = (mtab.tmap (mailboxes s))(bx_pid b \<mapsto> b)"
    using k mtab.tmap_insert [OF u i _ e] mtab.tmap_modify [OF u _ e] by blast
  then show "pending (s\<lparr>mailboxes := (mailboxes s)[i := b]\<rparr>) =
      (pending s)(bx_pid b := if bx_has_message b then Some (bx_message b) else None)"
    by (auto simp: pending_def)
qed

lemma ipc_post_ok:
  assumes inv: "ipc_inv s" and r: "ipc_post pid msg s = (ok, s')"
  shows "ipc_inv s'" and "ok \<longleftrightarrow> pending s pid = None \<and> reachable_pid s pid"
    and "pending s' = (if ok then (pending s)(pid \<mapsto> msg) else pending s)" and "waiters s' = waiters s"
    and "\<not> ok \<Longrightarrow> s' = s"
proof -
  note u = inv [unfolded ipc_inv_def]
  have goals: "ipc_inv s' \<and> (ok \<longleftrightarrow> pending s pid = None \<and> reachable_pid s pid) \<and>
      pending s' = (if ok then (pending s)(pid \<mapsto> msg) else pending s) \<and> waiters s' = waiters s \<and>
      (\<not> ok \<longrightarrow> s' = s)"
  proof (cases "ipc_find_slot s pid")
    case (Some i)
    then have sl: "mtab.slot (mailboxes s) pid = Some i" by (simp add: ipc_find_eq)
    note f = mtab.slot_SomeD [OF sl]
    let ?b = "(mailboxes s ! i)\<lparr>bx_message := msg, bx_has_message := True\<rparr>"
    have "pending s pid = (if bx_has_message (mailboxes s ! i) then Some (bx_message (mailboxes s ! i)) else None)"
      using mtab.tmap_slot [OF sl] by (simp add: pending_def)
    then show ?thesis
      using r Some f sl inv put_mailbox [OF inv, of i ?b]
      by (auto simp: ipc_post_def reachable_pid_def split: if_splits)
  next
    case None
    then have none: "mtab.tmap (mailboxes s) pid = None" by (simp add: ipc_find_eq table_map_def)
    then have pn: "pending s pid = None" by (simp add: pending_def)
    show ?thesis
    proof (cases "find_index (\<lambda>b. \<not> bx_used b) (mailboxes s)")
      case None
      then have "\<not> reachable_pid s pid"
        using \<open>ipc_find_slot s pid = None\<close> by (simp add: reachable_pid_def find_index_None_iff)
      then show ?thesis
        using r \<open>ipc_find_slot s pid = None\<close> inv None by (simp add: ipc_post_def ipc_alloc_slot_def)
    next
      case (Some i)
      note f = find_index_SomeD(1,2) [OF Some]
      let ?b = "(mailboxes s ! i)\<lparr>bx_used := True, bx_pid := pid, bx_message := msg, bx_has_message := True\<rparr>"
      have eq: "s' = s\<lparr>mailboxes := (mailboxes s)[i := ?b]\<rparr> \<and> ok"
        using r \<open>ipc_find_slot s pid = None\<close> Some f by (simp add: ipc_post_def ipc_alloc_slot_def)
      have "reachable_pid s pid" using find_index_in_set [OF Some] by (simp add: reachable_pid_def)
      then show ?thesis
        using eq pn none f put_mailbox [OF inv f(1), of ?b] by simp
    qed
  qed
  then show "ipc_inv s'" "ok \<longleftrightarrow> pending s pid = None \<and> reachable_pid s pid"
    "pending s' = (if ok then (pending s)(pid \<mapsto> msg) else pending s)" "waiters s' = waiters s"
    "\<not> ok \<Longrightarrow> s' = s" by auto
qed

lemma ipc_recv_ok:
  assumes inv: "ipc_inv s" and r: "ipc_recv pid s = (res, s')"
  shows "ipc_inv s'" and "res = (if pid < 0 then None else pending s pid)"
    and "0 \<le> pid \<Longrightarrow> pending s' = (pending s)(pid := None)" and "waiters s' = waiters s"
    and "pid < 0 \<Longrightarrow> s' = s"
proof -
  have goals: "ipc_inv s' \<and> res = (if pid < 0 then None else pending s pid) \<and>
      (0 \<le> pid \<longrightarrow> pending s' = (pending s)(pid := None)) \<and> waiters s' = waiters s \<and> (pid < 0 \<longrightarrow> s' = s)"
  proof (cases "ipc_find_slot s pid")
    case (Some i)
    then have sl: "mtab.slot (mailboxes s) pid = Some i" by (simp add: ipc_find_eq)
    note f = mtab.slot_SomeD [OF sl]
    let ?b = "(mailboxes s ! i)\<lparr>bx_has_message := False, bx_message := zero_message\<rparr>"
    have "pending s pid = (if bx_has_message (mailboxes s ! i) then Some (bx_message (mailboxes s ! i)) else None)"
      using mtab.tmap_slot [OF sl] by (simp add: pending_def)
    then show ?thesis
      using r Some f sl inv put_mailbox [OF inv, of i ?b]
      by (auto simp: ipc_recv_def split: if_splits)
  next
    case None
    then have "mtab.tmap (mailboxes s) pid = None" by (simp add: ipc_find_eq table_map_def)
    then have "pending s pid = None" by (simp add: pending_def)
    then show ?thesis using r None inv by (auto simp: ipc_recv_def split: if_splits)
  qed
  then show "ipc_inv s'" "res = (if pid < 0 then None else pending s pid)"
    "0 \<le> pid \<Longrightarrow> pending s' = (pending s)(pid := None)" "waiters s' = waiters s" "pid < 0 \<Longrightarrow> s' = s" by auto
qed

section \<open>Blocked receivers\<close>

lemma put_waiter:
  assumes inv: "ipc_inv s" and i: "i < length (waiters s)" and e: "wt_active w"
    and k: "wtab.tmap (waiters s) (wt_pid w) = None \<and> \<not> wt_active (waiters s ! i) \<or>
      wtab.slot (waiters s) (wt_pid w) = Some i"
  shows "ipc_inv (s\<lparr>waiters := (waiters s)[i := w]\<rparr>)"
    and "waiting (s\<lparr>waiters := (waiters s)[i := w]\<rparr>) = (waiting s)(wt_pid w \<mapsto> wt_user_msg_ptr w)"
proof -
  have u: "wtab.uniq (waiters s)" using inv by (simp add: ipc_inv_def)
  have "wtab.uniq ((waiters s)[i := w])" by (rule wtab.uniq_update [OF u]) (use k in blast)
  then show "ipc_inv (s\<lparr>waiters := (waiters s)[i := w]\<rparr>)" using inv by (simp add: ipc_inv_def)
  have "wtab.tmap ((waiters s)[i := w]) = (wtab.tmap (waiters s))(wt_pid w \<mapsto> w)"
    using k wtab.tmap_insert [OF u i _ e] wtab.tmap_modify [OF u _ e] by blast
  then show "waiting (s\<lparr>waiters := (waiters s)[i := w]\<rparr>) = (waiting s)(wt_pid w \<mapsto> wt_user_msg_ptr w)"
    by (auto simp: waiting_def)
qed

lemma ipc_block_recv_ok:
  assumes inv: "ipc_inv s" and r: "ipc_block_recv pt pid ptr s = (ok, s')"
  shows "ipc_inv s'" and "pending s' = pending s"
    and "waiting s' = (if ok then (waiting s)(pid \<mapsto> ptr) else waiting s)"
    and "ok \<longleftrightarrow> 0 \<le> pid \<and> proc_state_of pt pid \<noteq> PROC_UNUSED \<and>
      (waiting s pid \<noteq> None \<or> (\<exists>w \<in> set (waiters s). \<not> wt_active w))"
proof -
  have goals: "ipc_inv s' \<and> pending s' = pending s \<and> waiting s' = (if ok then (waiting s)(pid \<mapsto> ptr) else waiting s) \<and>
      (ok \<longleftrightarrow> 0 \<le> pid \<and> proc_state_of pt pid \<noteq> PROC_UNUSED \<and>
        (waiting s pid \<noteq> None \<or> (\<exists>w \<in> set (waiters s). \<not> wt_active w)))"
  proof (cases "pid < 0 \<or> proc_state_of pt pid = PROC_UNUSED")
    case True
    then show ?thesis using r inv by (auto simp: ipc_block_recv_def)
  next
    case live: False
    show ?thesis
    proof (cases "ipc_find_waiter s pid")
      case (Some i)
      then have sl: "wtab.slot (waiters s) pid = Some i" by (simp add: ipc_find_eq)
      note f = wtab.slot_SomeD [OF sl]
      have "waiting s pid \<noteq> None" using wtab.tmap_slot [OF sl] by (simp add: waiting_def)
      moreover have "ok" "s' = s\<lparr>waiters := (waiters s)[i := (waiters s ! i)\<lparr>wt_user_msg_ptr := ptr\<rparr>]\<rparr>"
        using r live Some by (simp_all add: ipc_block_recv_def)
      ultimately show ?thesis
        using live f sl put_waiter [OF inv, of i "(waiters s ! i)\<lparr>wt_user_msg_ptr := ptr\<rparr>"]
        by simp
    next
      case none: None
      then have tn: "wtab.tmap (waiters s) pid = None" by (simp add: ipc_find_eq table_map_def)
      then have wn: "waiting s pid = None" by (simp add: waiting_def)
      show ?thesis
      proof (cases "find_index (\<lambda>w. \<not> wt_active w) (waiters s)")
        case None
        then have "\<not> (\<exists>w \<in> set (waiters s). \<not> wt_active w)" by (simp add: find_index_None_iff)
        then show ?thesis using r live none wn inv None
          by (simp add: ipc_block_recv_def ipc_alloc_waiter_def)
      next
        case (Some i)
        note f = find_index_SomeD(1,2) [OF Some]
        let ?w = "\<lparr>wt_active = True, wt_pid = pid, wt_user_msg_ptr = ptr\<rparr>"
        have "ok" "s' = s\<lparr>waiters := (waiters s)[i := ?w]\<rparr>"
          using r live none Some f by (simp_all add: ipc_block_recv_def ipc_alloc_waiter_def)
        then show ?thesis
          using live f tn find_index_in_set [OF Some] put_waiter [OF inv f(1), of ?w] by simp
      qed
    qed
  qed
  then show "ipc_inv s'" "pending s' = pending s"
    "waiting s' = (if ok then (waiting s)(pid \<mapsto> ptr) else waiting s)"
    "ok \<longleftrightarrow> 0 \<le> pid \<and> proc_state_of pt pid \<noteq> PROC_UNUSED \<and>
      (waiting s pid \<noteq> None \<or> (\<exists>w \<in> set (waiters s). \<not> wt_active w))" by auto
qed

lemma clear_waiter_ok:
  assumes inv: "ipc_inv s" and sl: "ipc_find_waiter s pid = Some i"
  shows "ipc_inv (clear_waiter i s)" and "pending (clear_waiter i s) = pending s"
    and "waiting (clear_waiter i s) = (waiting s)(pid := None)"
proof -
  have u: "wtab.uniq (waiters s)" using inv by (simp add: ipc_inv_def)
  have nw: "\<not> wt_active no_waiter" by (simp add: no_waiter_def)
  have sl': "wtab.slot (waiters s) pid = Some i" using sl by (simp add: ipc_find_eq)
  show "ipc_inv (clear_waiter i s)"
    using inv wtab.uniq_delete [OF u nw] by (simp add: ipc_inv_def clear_waiter_def)
  show "pending (clear_waiter i s) = pending s" by (simp add: clear_waiter_def)
  show "waiting (clear_waiter i s) = (waiting s)(pid := None)"
    using wtab.tmap_delete [OF u sl' nw] by (auto simp: waiting_def clear_waiter_def)
qed

section \<open>Deliveries\<close>

lemma length_message_bytes [simp]: "length (message_bytes msg) = 28"
  by (simp add: message_bytes_def)

lemma find_waiter_waiting: "ipc_find_waiter s pid = None \<longleftrightarrow> waiting s pid = None"
  by (simp add: ipc_find_eq waiting_def table_map_def)

lemma find_waiter_ptr:
  "ipc_find_waiter s pid = Some i \<Longrightarrow> waiting s pid = Some (wt_user_msg_ptr (waiters s ! i))"
  by (simp add: ipc_find_eq waiting_def table_map_def)

text \<open>Writing to a stopped task's image; \<open>ptr\<close> and the 28 bytes behind it are inside it.\<close>

definition ptr_in_image :: "proc_image \<Rightarrow> u32 \<Rightarrow> nat \<Rightarrow> bool" where
  "ptr_in_image img ptr n \<longleftrightarrow> unat (im_image_base img) \<le> unat ptr \<and>
     unat ptr + n \<le> unat (im_image_base img) + unat (im_image_size img) \<and>
     unat (im_image_base img) + unat (im_image_size img) < 2 ^ 32"

lemma elf_write_image:
  assumes inv: "elf_inv e" and pid: "0 \<le> pid" and img: "proc_get_image pt pid = Some img" "im_loaded img"
    and own: "slot_owned e pid = Some slot" and ptr: "ptr_in_image img ptr (length bs)" and bs: "bs \<noteq> []"
  shows "\<exists>e'. elf_write_to_task_memory pt pid ptr bs m e = (True, m, e') \<and> elf_inv e' \<and> slot_owned e' pid = Some slot \<and>
    mem_read (user_images e' slot) (ptr - im_image_base img) (length bs) = bs \<and> others_kept pt pid e e'"
proof -
  obtain r e1 where sl: "elf_slot_for_pid pt pid e = (r, e1)" by (cases "elf_slot_for_pid pt pid e")
  note so = elf_slot_for_pid_ok [OF inv pid sl]
  have r: "r = Some slot" using so(6) own by simp
  have lt: "length bs < 2 ^ 32" using ptr by (simp add: ptr_in_image_def)
  then have len: "unat (of_nat (length bs) :: u32) = length bs" by (rule unat_of_nat_exact)
  have ne: "(of_nat (length bs) :: u32) \<noteq> 0"
  proof
    assume "(of_nat (length bs) :: u32) = 0"
    then have "unat (of_nat (length bs) :: u32) = 0" by (simp only: unsigned_0)
    then show False using len bs by simp
  qed
  have u: "unat (ptr + of_nat (length bs)) = unat ptr + length bs"
      "unat (im_image_base img + im_image_size img) = unat (im_image_base img) + unat (im_image_size img)"
    using ptr len by (simp_all add: ptr_in_image_def unat_add_exact)
  have c: "ptr \<ge> im_image_base img" "ptr + of_nat (length bs) \<ge> ptr"
      "ptr + of_nat (length bs) \<le> im_image_base img + im_image_size img"
    using ptr u by (simp_all add: ptr_in_image_def word_le_nat_alt)
  let ?e = "store_image slot (ptr - im_image_base img) bs e1"
  have "elf_write_to_task_memory pt pid ptr bs m e = (True, m, ?e)"
    using img pid sl r c ne by (simp add: elf_write_to_task_memory_def Let_def)
  moreover have "mem_read (user_images ?e slot) (ptr - im_image_base img) (length bs) = bs"
    using lt by (simp add: mem_write_read)
  moreover have "others_kept pt pid e ?e" by (rule store_others [OF inv pid sl [unfolded r]])
  ultimately show ?thesis using so(1,4) r by simp
qed

text \<open>The scheduler side of a delivery.\<close>

definition wake :: "int \<Rightarrow> proc_image \<Rightarrow> sched_state \<Rightarrow> sched_state" where
  "wake pid img sc =
     (let sc = upd_procs (\<lambda>pt. snd (proc_bind_image pid (Some img) pt)) sc;
          sc = task_set_state pid TASK_READY sc
      in upd_procs (proc_set_state pid PROC_READY) sc)"

lemma task_set_state_ready_procs: "sc_procs (task_set_state pid TASK_READY s) = sc_procs s"
  by (simp add: task_set_state_def Let_def split: option.split)

lemma wake_ok:
  assumes inv: "sched_inv sc" and m: "proc_map (sc_procs sc) pid = Some (p, im)"
  shows "sched_inv (wake pid img sc)"
    and "proc_map (sc_procs (wake pid img sc)) = (proc_map (sc_procs sc))(pid \<mapsto> (p\<lparr>pr_state := PROC_READY\<rparr>, img))"
proof -
  let ?s1 = "upd_procs (\<lambda>pt. snd (proc_bind_image pid (Some img) pt)) sc"
  note pinv = sched_inv_procs [OF inv]
  have s1: "sched_inv ?s1" by (rule sched_inv_proc_step [OF inv proc_step.bind])
  have s2: "sched_inv (task_set_state pid TASK_READY ?s1)" by (rule task_set_state_ok [OF s1]) simp_all
  show "sched_inv (wake pid img sc)"
    unfolding wake_def Let_def by (rule sched_inv_set_proc [OF s2]) simp_all
  have m1: "proc_map (sc_procs ?s1) = (proc_map (sc_procs sc))(pid \<mapsto> (p, img))"
    using proc_bind_image_ok(3) [OF pinv, of pid img] m by simp
  show "proc_map (sc_procs (wake pid img sc)) = (proc_map (sc_procs sc))(pid \<mapsto> (p\<lparr>pr_state := PROC_READY\<rparr>, img))"
    unfolding wake_def Let_def
    using proc_set_state_ok(2) [OF sched_inv_procs [OF s1], of PROC_READY pid] m1
    by (simp add: task_set_state_ready_procs)
qed

lemma deliver_ok:
  assumes "ipc_inv (k_ipc k)" and "elf_inv (k_elf k)" and "sched_inv (k_sched k)"
    and "0 \<le> pid" and "proc_map (k_procs k) pid = Some (p, img)" and "im_loaded img" "im_context_valid img"
    and "slot_owned (k_elf k) pid = Some slot" and "waiting (k_ipc k) pid = Some ptr" and "ptr_in_image img ptr 28"
  shows "\<exists>e i. elf_inv e \<and> ipc_find_waiter (k_ipc k) pid = Some i \<and>
    mem_read (user_images e slot) (ptr - im_image_base img) 28 = message_bytes ms \<and>
    others_kept (k_procs k) pid (k_elf k) e \<and>
    ipc_unblock_deliver pid (Some ms) k =
      (True, k\<lparr>k_elf := e, k_sched := wake pid (img\<lparr>im_context := (im_context img)\<lparr>uc_eax := 0\<rparr>\<rparr>) (k_sched k),
        k_ipc := clear_waiter i (k_ipc k)\<rparr>)"
proof -
  obtain i where i: "ipc_find_waiter (k_ipc k) pid = Some i"
    using assms(9) find_waiter_waiting by (metis not_None_eq)
  have ptr: "wt_user_msg_ptr (waiters (k_ipc k) ! i) = ptr" using find_waiter_ptr [OF i] assms(9) by simp
  note pinv = sched_inv_procs [OF assms(3)]
  have get: "proc_get_image (k_procs k) pid = Some img"
    using assms(5) by (simp add: proc_get_image_map [OF pinv])
  have live: "proc_state_of (k_procs k) pid \<noteq> PROC_UNUSED"
    using assms(5) proc_map_live_iff [OF pinv, of pid] by simp
  have len: "length (message_bytes ms) = 28" "message_bytes ms \<noteq> []"
    using length_message_bytes [of ms] by (auto simp del: length_message_bytes)
  obtain e where e: "elf_write_to_task_memory (k_procs k) pid ptr (message_bytes ms) (mem k) (k_elf k) = (True, mem k, e)"
      "elf_inv e" "mem_read (user_images e slot) (ptr - im_image_base img) 28 = message_bytes ms"
      "others_kept (k_procs k) pid (k_elf k) e"
    using elf_write_image [OF assms(2,4) get assms(6,8) assms(10) [folded len(1)] len(2), of "mem k"] by auto
  have "ipc_unblock_deliver pid (Some ms) k =
      (True, k\<lparr>k_elf := e, k_sched := wake pid (img\<lparr>im_context := (im_context img)\<lparr>uc_eax := 0\<rparr>\<rparr>) (k_sched k),
        k_ipc := clear_waiter i (k_ipc k)\<rparr>)"
    using assms(4,6,7) i live e(1) get by (simp add: ipc_unblock_deliver_def ptr wake_def Let_def)
  then show ?thesis using e i by blast
qed

section \<open>Properties\<close>

text \<open>
  C11: the mailbox.  Sending to a live process that is not blocked in a receive succeeds
  exactly when no message is pending for it and it has, or can be given, a mailbox; the
  next receive returns the message stamped with sender and receiver and empties the box,
  and a receive after that finds nothing.  No other process's pending message, no blocked
  receiver and nothing else in the kernel changes, and a failed send changes nothing at all.
\<close>

theorem ipc_send_recv:
  assumes "ipc_inv (k_ipc k)" and "0 \<le> dst" and "proc_state_of (k_procs k) dst \<noteq> PROC_UNUSED"
    and "waiting (k_ipc k) dst = None" and "ipc_send src dst (Some ms) k = (ok, k')"
  shows "(ok \<longleftrightarrow> pending (k_ipc k) dst = None \<and> reachable_pid (k_ipc k) dst) \<and>
    (ok \<longrightarrow> fst (ipc_recv dst (k_ipc k')) = Some (ms\<lparr>ms_src_pid := src, ms_dst_pid := dst\<rparr>) \<and>
       fst (ipc_recv dst (snd (ipc_recv dst (k_ipc k')))) = None \<and>
       pending (snd (ipc_recv dst (k_ipc k'))) = pending (k_ipc k) \<and>
       (\<forall>q. q \<noteq> dst \<longrightarrow> pending (k_ipc k') q = pending (k_ipc k) q)) \<and>
    waiters (k_ipc k') = waiters (k_ipc k) \<and> k' = k\<lparr>k_ipc := k_ipc k'\<rparr> \<and> (\<not> ok \<longrightarrow> k' = k)"
proof -
  let ?ms = "ms\<lparr>ms_src_pid := src, ms_dst_pid := dst\<rparr>"
  have "ipc_unblock_deliver dst (Some ?ms) k = (False, k)"
    using assms(2,4) by (simp add: ipc_unblock_deliver_def find_waiter_waiting [symmetric])
  then obtain s where p: "ipc_post dst ?ms (k_ipc k) = (ok, s)" and k': "k' = k\<lparr>k_ipc := s\<rparr>"
    using assms(2,3,5) by (auto simp: ipc_send_def split: prod.splits)
  note po = ipc_post_ok [OF assms(1) p]
  obtain r1 s1 where r1: "ipc_recv dst s = (r1, s1)" by (cases "ipc_recv dst s")
  note ro = ipc_recv_ok [OF po(1) r1]
  obtain r2 s2 where r2: "ipc_recv dst s1 = (r2, s2)" by (cases "ipc_recv dst s1")
  note ro2 = ipc_recv_ok(2) [OF ro(1) r2]
  show ?thesis using po ro ro2 assms(2) by (auto simp: k' r1 r2)
qed

definition demo_core :: kcore where
  "demo_core = \<lparr>heap = demo_heap, mem = (\<lambda>_. 0), k_sched = demo_sched, k_elf = demo_elf_state, k_ipc = ipc_init\<rparr>"

definition demo_message :: ipc_message where
  "demo_message = zero_message\<lparr>ms_type := 5, ms_arg1 := 42\<rparr>"

theorem ipc_send_recv_witness:
  "map_option ms_arg1 (fst (ipc_recv 1 (k_ipc (snd (ipc_send 0 1 (Some demo_message) demo_core))))) = Some 42"
proof -
  have h: "ipc_inv (k_ipc demo_core)" "waiting (k_ipc demo_core) 1 = None"
    "pending (k_ipc demo_core) 1 = None" "reachable_pid (k_ipc demo_core) 1"
    by (simp add: demo_core_def ipc_init_inv) code_simp+
  have l: "proc_state_of (k_procs demo_core) 1 \<noteq> PROC_UNUSED" by code_simp
  from ipc_send_recv [OF h(1) _ l h(2) surjective_pairing] h(3,4) show ?thesis
    by (simp add: demo_message_def)
qed


text \<open>Task 1 of the demonstration, stopped in a receive at \<open>0x300004\<close> after a snapshot.\<close>

definition demo_blocked :: kcore where
  "demo_blocked = demo_core
     \<lparr>k_sched := upd_procs (\<lambda>pt. snd (proc_bind_image 1 (Some (demo_image\<lparr>im_image_size := 64\<rparr>)) pt)) demo_sched,
      k_elf := demo_elf_state\<lparr>slot_owner_pid := (replicate 8 (- 1))[0 := 1], slots_initialized := True\<rparr>,
      k_ipc := snd (ipc_block_recv (sc_procs demo_sched) 1 0x300004 ipc_init)\<rparr>"


text \<open>
  A blocked receive is recorded for a live process if it is waiting already or one of
  the 32 waiter entries is free; its buffer address is then the one of the last call, and
  neither the other waiters nor any pending message changes.
\<close>

theorem ipc_block_recv_correct:
  assumes "ipc_inv s" and "ipc_block_recv pt pid ptr s = (ok, s')"
  shows "(ok \<longleftrightarrow> 0 \<le> pid \<and> proc_state_of pt pid \<noteq> PROC_UNUSED \<and>
      (waiting s pid \<noteq> None \<or> (\<exists>w \<in> set (waiters s). \<not> wt_active w))) \<and>
    waiting s' = (if ok then (waiting s)(pid \<mapsto> ptr) else waiting s) \<and> pending s' = pending s \<and> ipc_inv s'"
  using ipc_block_recv_ok [OF assms] by blast

theorem ipc_block_recv_correct_witness:
  "waiting (snd (ipc_block_recv (sc_procs demo_sched) 1 0x300008
     (snd (ipc_block_recv (sc_procs demo_sched) 1 0x300004 ipc_init)))) 1 = Some 0x300008"
proof -
  let ?s = "snd (ipc_block_recv (sc_procs demo_sched) 1 0x300004 ipc_init)"
  have inv: "ipc_inv ?s" by (rule ipc_block_recv_ok(1) [OF ipc_init_inv surjective_pairing])
  have "proc_state_of (sc_procs demo_sched) 1 \<noteq> PROC_UNUSED" by code_simp
  moreover have "waiting ?s 1 \<noteq> None" by code_simp
  ultimately show ?thesis
    using ipc_block_recv_correct [OF inv surjective_pairing, where pt = "sc_procs demo_sched"
        and pid = 1 and ptr = "0x300008"] by simp
qed

text \<open>
  No operation frees a mailbox.  Once 32 processes have been sent to, a send to any other
  process fails whatever happens in between, even if all of them have exited.
\<close>

definition boxes_full :: "ipc_state \<Rightarrow> bool" where
  "boxes_full s \<longleftrightarrow> (\<forall>b \<in> set (mailboxes s). bx_used b)"

lemma boxes_stay_full:
  assumes "boxes_full s"
  shows "boxes_full (snd (ipc_post pid msg s))" and "boxes_full (snd (ipc_recv pid s))"
    and "boxes_full (snd (ipc_block_recv pt pid ptr s))" and "boxes_full (clear_waiter i s)"
    and "ipc_find_slot s pid = None \<Longrightarrow> \<not> fst (ipc_post pid msg s)"
proof -
  have put: "boxes_full (s\<lparr>mailboxes := (mailboxes s)[i := b]\<rparr>)" if "bx_used b" for i b
    using assms that by (auto simp: boxes_full_def dest!: set_update_subset_insert [THEN subsetD])
  have none: "find_index (\<lambda>b. \<not> bx_used b) (mailboxes s) = None"
    using assms by (simp add: boxes_full_def find_index_None_iff)
  have used: "bx_used (mailboxes s ! i)" if "ipc_find_slot s pid = Some i" for i
    using that by (auto simp: ipc_find_slot_def dest: find_index_SomeD)
  show "boxes_full (snd (ipc_post pid msg s))" "boxes_full (snd (ipc_recv pid s))"
    "ipc_find_slot s pid = None \<Longrightarrow> \<not> fst (ipc_post pid msg s)"
    using assms none used put
    by (auto simp: ipc_post_def ipc_alloc_slot_def ipc_recv_def split: option.split)
  show "boxes_full (snd (ipc_block_recv pt pid ptr s))" "boxes_full (clear_waiter i s)"
    using assms
    by (auto simp: ipc_block_recv_def ipc_alloc_waiter_def clear_waiter_def boxes_full_def split: option.split)
qed

end
