(* ===== verification/Service.thy ===== *)
theory Service
  imports Proc
begin

text \<open>
  \<^verbatim>\<open>kernel/service.c\<close>: the name service, a table of \<open>MAX_SERVICES\<close> entries that binds
  service names to pids.  \<open>service_map\<close> is the table as a map and \<open>live_services\<close>
  the bindings whose process still exists, which is all a client can observe: a lookup
  answers from it and, although it drops dead entries on its way, does not change it.
\<close>

section \<open>Data and operations\<close>

definition MAX_SERVICES :: nat where "MAX_SERVICES = 16"
definition SERVICE_NAME_MAX :: nat where "SERVICE_NAME_MAX = 15"

record service_entry =
  se_used :: bool
  se_pid :: int
  se_name :: string

definition empty_service :: service_entry where
  "empty_service = \<lparr>se_used = False, se_pid = - 1, se_name = ''''\<rparr>"

definition service_init :: "service_entry list" where
  "service_init = replicate MAX_SERVICES empty_service"

definition service_name_char :: "char \<Rightarrow> bool" where
  "service_name_char c \<longleftrightarrow>
     char_between CHR ''a'' CHR ''z'' c \<or> char_between CHR ''A'' CHR ''Z'' c \<or>
     char_between CHR ''0'' CHR ''9'' c \<or> c = CHR ''-'' \<or> c = CHR ''_''"

text \<open>The checking loop of \<^verbatim>\<open>service_register\<close>, at index \<open>i\<close> of the name.\<close>

fun service_name_ok :: "nat \<Rightarrow> string \<Rightarrow> bool" where
  "service_name_ok i [] = True"
| "service_name_ok i (c # cs) =
     (if c = NUL then True
      else if i \<ge> SERVICE_NAME_MAX then False
      else if \<not> service_name_char c then False
      else service_name_ok (Suc i) cs)"

definition service_register ::
  "proc_table \<Rightarrow> string option \<Rightarrow> int \<Rightarrow> service_entry list \<Rightarrow> bool \<times> service_entry list" where
  "service_register pt name pid services =
     (case name of
        None \<Rightarrow> (False, services)
      | Some n \<Rightarrow>
          if deref n = NUL \<or> pid < 0 \<or> proc_state_of pt pid = PROC_UNUSED then (False, services)
          else if \<not> service_name_ok 0 n then (False, services)
          else case find_index (\<lambda>e. se_used e \<and> str_eq (se_name e) n) services of
              Some i \<Rightarrow> (True, services[i := (services ! i)\<lparr>se_pid := pid\<rparr>])
            | None \<Rightarrow>
                (case find_index (\<lambda>e. \<not> se_used e) services of
                   None \<Rightarrow> (False, services)
                 | Some free_slot \<Rightarrow>
                     (True, services[free_slot := \<lparr>se_used = True, se_pid = pid,
                        se_name = str_copy (se_name (services ! free_slot)) n 16\<rparr>])))"

text \<open>The scan of \<^verbatim>\<open>service_lookup\<close>, which clears entries of dead processes as it meets them.\<close>

fun service_scan :: "proc_table \<Rightarrow> string \<Rightarrow> service_entry list \<Rightarrow> int \<times> service_entry list" where
  "service_scan pt name [] = (- 1, [])"
| "service_scan pt name (e # es) =
     (if \<not> se_used e then map_prod id ((#) e) (service_scan pt name es)
      else if proc_state_of pt (se_pid e) = PROC_UNUSED
      then map_prod id ((#) empty_service) (service_scan pt name es)
      else if str_eq (se_name e) name then (se_pid e, e # es)
      else map_prod id ((#) e) (service_scan pt name es))"

definition service_lookup ::
  "proc_table \<Rightarrow> string option \<Rightarrow> service_entry list \<Rightarrow> int \<times> service_entry list" where
  "service_lookup pt name services =
     (case name of
        None \<Rightarrow> (- 1, services)
      | Some n \<Rightarrow> if deref n = NUL then (- 1, services) else service_scan pt n services)"

section \<open>The table as a map\<close>

interpretation stab: slot_table se_used se_name empty_service
  by unfold_locales (simp add: empty_service_def)

definition service_map :: "service_entry list \<Rightarrow> string \<Rightarrow> int option" where
  "service_map ss n = map_option se_pid (table_map se_used se_name ss n)"

definition live_services :: "proc_table \<Rightarrow> service_entry list \<Rightarrow> string \<Rightarrow> int option" where
  "live_services pt ss n =
     (case service_map ss n of
        Some pid \<Rightarrow> if proc_state_of pt pid = PROC_UNUSED then None else Some pid
      | None \<Rightarrow> None)"

text \<open>A name the service accepts.\<close>

definition valid_service_name :: "string \<Rightarrow> bool" where
  "valid_service_name n \<longleftrightarrow> n \<noteq> '''' \<and> length n \<le> SERVICE_NAME_MAX \<and> list_all service_name_char n"

definition service_inv :: "service_entry list \<Rightarrow> bool" where
  "service_inv ss \<longleftrightarrow>
     length ss = MAX_SERVICES \<and> unique_keys se_used se_name ss \<and>
     (\<forall>e \<in> set ss. se_used e \<longrightarrow> valid_service_name (se_name e) \<and> 0 \<le> se_pid e)"

lemma service_name_ok_iff:
  "i \<le> SERVICE_NAME_MAX \<Longrightarrow>
   service_name_ok i n \<longleftrightarrow> i + length (cstr n) \<le> SERVICE_NAME_MAX \<and> list_all service_name_char (cstr n)"
  by (induction n arbitrary: i) auto

lemma service_name_char_NUL [simp]: "\<not> service_name_char NUL"
  by code_simp

lemma valid_service_name_NUL: "valid_service_name n \<Longrightarrow> NUL \<notin> set n"
  by (auto simp: valid_service_name_def list_all_iff)

lemma service_check_iff:
  "deref n \<noteq> NUL \<and> service_name_ok 0 n \<longleftrightarrow> valid_service_name (cstr n)"
  by (auto simp: valid_service_name_def service_name_ok_iff cstr_Nil_iff)

lemma service_inv_cstr:
  "service_inv ss \<Longrightarrow> e \<in> set ss \<Longrightarrow> se_used e \<Longrightarrow> cstr (se_name e) = se_name e"
  using valid_service_name_NUL by (auto simp: service_inv_def)

lemma service_slot:
  assumes "service_inv ss"
  shows "find_index (\<lambda>e. se_used e \<and> str_eq (se_name e) n) ss = stab.slot ss (cstr n)"
proof -
  have "(se_used e \<and> str_eq (se_name e) n) = (se_used e \<and> se_name e = cstr n)" if "e \<in> set ss" for e
    using service_inv_cstr [OF assms that] by (auto simp: str_eq_iff)
  then show ?thesis
    unfolding slot_of_def by (induction ss) auto
qed

lemma service_init_inv: "service_inv service_init"
  by (simp add: service_inv_def service_init_def stab.uniq_blank) (simp add: empty_service_def)

section \<open>Registering\<close>

lemma service_update_inv:
  assumes "service_inv ss" and "valid_service_name (se_name e)" "0 \<le> se_pid e"
    and "stab.uniq (ss[i := e])"
  shows "service_inv (ss[i := e])"
  using assms by (auto simp: service_inv_def dest!: set_update_subset_insert [THEN subsetD])

lemma service_register_ok:
  assumes inv: "service_inv ss"
  shows "service_inv (snd (service_register pt name pid ss))"
    and "fst (service_register pt name pid ss) \<longleftrightarrow>
      (\<exists>n. name = Some n \<and> valid_service_name (cstr n) \<and> 0 \<le> pid \<and> proc_state_of pt pid \<noteq> PROC_UNUSED \<and>
         (service_map ss (cstr n) \<noteq> None \<or> (\<exists>e \<in> set ss. \<not> se_used e)))"
    and "fst (service_register pt (Some n) pid ss) \<Longrightarrow>
      service_map (snd (service_register pt (Some n) pid ss)) = (service_map ss)(cstr n \<mapsto> pid)"
    and "\<not> fst (service_register pt name pid ss) \<Longrightarrow> snd (service_register pt name pid ss) = ss"
proof -
  have u: "stab.uniq ss" using inv by (simp add: service_inv_def)
  have old: "service_inv (ss[i := (ss ! i)\<lparr>se_pid := pid\<rparr>]) \<and>
      service_map (ss[i := (ss ! i)\<lparr>se_pid := pid\<rparr>]) = (service_map ss)(k \<mapsto> pid)"
    if "stab.slot ss k = Some i" "0 \<le> pid" for i k
  proof -
    note s = stab.slot_SomeD [OF that(1)]
    then have "valid_service_name (se_name (ss ! i))" using inv by (auto simp: service_inv_def)
    moreover have "stab.uniq (ss[i := (ss ! i)\<lparr>se_pid := pid\<rparr>])"
      by (rule stab.uniq_modify [OF u]) (use that(1) s in simp)
    ultimately show ?thesis
      using service_update_inv [OF inv] that s stab.tmap_modify [OF u that(1), of "(ss ! i)\<lparr>se_pid := pid\<rparr>"]
      by (auto simp: service_map_def)
  qed
  have new: "service_inv (ss[i := \<lparr>se_used = True, se_pid = pid, se_name = cstr n\<rparr>]) \<and>
      service_map (ss[i := \<lparr>se_used = True, se_pid = pid, se_name = cstr n\<rparr>]) = (service_map ss)(cstr n \<mapsto> pid)"
    if "stab.slot ss (cstr n) = None" "0 \<le> pid" "valid_service_name (cstr n)"
      "find_index (\<lambda>e. \<not> se_used e) ss = Some i" for i n
  proof -
    note free = find_index_SomeD(1,2) [OF that(4)]
    let ?e = "\<lparr>se_used = True, se_pid = pid, se_name = cstr n\<rparr>"
    have f: "stab.tmap ss (cstr n) = None" using that(1) by (simp add: stab.slot_None_iff)
    then have "stab.uniq (ss[i := ?e])" by (intro stab.uniq_insert [OF u]) simp
    then show ?thesis
      using service_update_inv [OF inv, of ?e] that f stab.tmap_insert [OF u free, of ?e]
      by (auto simp: service_map_def)
  qed
  have copy: "str_copy d n 16 = cstr n" if "valid_service_name (cstr n)" for d n
    using that by (simp add: str_copy_eq valid_service_name_def SERVICE_NAME_MAX_def)
  note defs = service_register_def service_slot [OF inv] service_check_iff [symmetric]
  show "service_inv (snd (service_register pt name pid ss))"
    using inv old new
    by (cases name) (auto simp: defs copy split: option.split)
  show "fst (service_register pt name pid ss) \<longleftrightarrow>
      (\<exists>n. name = Some n \<and> valid_service_name (cstr n) \<and> 0 \<le> pid \<and> proc_state_of pt pid \<noteq> PROC_UNUSED \<and>
         (service_map ss (cstr n) \<noteq> None \<or> (\<exists>e \<in> set ss. \<not> se_used e)))"
    by (cases name)
      (auto simp: defs service_map_def table_map_def find_index_None_iff split: option.split
        dest: find_index_in_set)
  show "fst (service_register pt (Some n) pid ss) \<Longrightarrow>
      service_map (snd (service_register pt (Some n) pid ss)) = (service_map ss)(cstr n \<mapsto> pid)"
    using old new
    by (auto simp: defs copy split: option.splits if_splits)
  show "\<not> fst (service_register pt name pid ss) \<Longrightarrow> snd (service_register pt name pid ss) = ss"
    by (auto simp: service_register_def split: option.splits if_splits)
qed

section \<open>Looking up\<close>

abbreviation (input) dead_in :: "proc_table \<Rightarrow> service_entry \<Rightarrow> bool" where
  "dead_in pt e \<equiv> proc_state_of pt (se_pid e) = PROC_UNUSED"

definition purged :: "proc_table \<Rightarrow> service_entry list \<Rightarrow> service_entry list \<Rightarrow> bool" where
  "purged pt = list_all2 (\<lambda>e e'. e' = e \<or> se_used e \<and> dead_in pt e \<and> e' = empty_service)"

lemma service_scan_purged: "purged pt ss (snd (service_scan pt n ss))"
  unfolding purged_def by (induction ss) (auto simp: list_all2_same)

lemma service_scan_result:
  "fst (service_scan pt n ss) =
   (case find_index (\<lambda>e. se_used e \<and> \<not> dead_in pt e \<and> str_eq (se_name e) n) ss of
      Some i \<Rightarrow> se_pid (ss ! i) | None \<Rightarrow> - 1)"
  by (induction ss) (auto split: option.splits)

lemma purged_nth:
  "purged pt ss ss' \<Longrightarrow> length ss' = length ss \<and>
   (\<forall>i < length ss. ss' ! i = ss ! i \<or> se_used (ss ! i) \<and> dead_in pt (ss ! i) \<and> ss' ! i = empty_service)"
  by (auto simp: purged_def list_all2_conv_all_nth)

lemma empty_service_unused [simp]: "\<not> se_used empty_service"
  by (simp add: empty_service_def)

lemma purged_inv:
  assumes "service_inv ss" and "purged pt ss ss'"
  shows "service_inv ss'"
proof -
  note p = purged_nth [OF assms(2)]
  have same: "ss' ! i = ss ! i" if "i < length ss'" "se_used (ss' ! i)" for i
    using p that by auto
  then have "stab.uniq ss'"
    using assms(1) p unfolding unique_keys_def service_inv_def by metis
  moreover have "valid_service_name (se_name e) \<and> 0 \<le> se_pid e" if "e \<in> set ss'" "se_used e" for e
  proof -
    obtain i where i: "i < length ss'" "ss' ! i = e" using \<open>e \<in> set ss'\<close> by (auto simp: in_set_conv_nth)
    then have "e \<in> set ss" using same [of i] that(2) p nth_mem [of i ss] by simp
    then show ?thesis using assms(1) that(2) by (simp add: service_inv_def)
  qed
  ultimately show ?thesis using assms(1) p by (simp add: service_inv_def)
qed

lemma live_services_iff:
  "service_inv ss \<Longrightarrow> live_services pt ss n = Some pid \<longleftrightarrow>
   (\<exists>i < length ss. se_used (ss ! i) \<and> se_name (ss ! i) = n \<and> se_pid (ss ! i) = pid \<and> \<not> dead_in pt (ss ! i))"
proof -
  assume inv: "service_inv ss"
  have "live_services pt ss n = Some pid \<longleftrightarrow>
      (\<exists>e. stab.tmap ss n = Some e \<and> se_pid e = pid \<and> \<not> dead_in pt e)"
    by (auto simp: live_services_def service_map_def split: option.splits)
  moreover have "stab.uniq ss" using inv by (simp add: service_inv_def)
  ultimately show ?thesis by (auto simp: stab.tmap_Some_iff)
qed

lemma purged_live:
  assumes "service_inv ss" and "purged pt ss ss'"
  shows "live_services pt ss' = live_services pt ss"
proof
  fix n
  note p = purged_nth [OF assms(2)]
  have "live_services pt ss' n = Some pid \<longleftrightarrow> live_services pt ss n = Some pid" for pid
    unfolding live_services_iff [OF assms(1)] live_services_iff [OF purged_inv [OF assms]]
    using p by (metis empty_service_unused)
  then show "live_services pt ss' n = live_services pt ss n" by (metis not_None_eq)
qed

lemma service_lookup_ok:
  assumes inv: "service_inv ss"
  shows "service_inv (snd (service_lookup pt name ss))"
    and "live_services pt (snd (service_lookup pt name ss)) = live_services pt ss"
    and "fst (service_lookup pt (Some n) ss) =
      (case live_services pt ss (cstr n) of Some pid \<Rightarrow> pid | None \<Rightarrow> - 1)"
proof -
  have p: "purged pt ss (snd (service_lookup pt name ss))" for name
    by (auto simp: service_lookup_def service_scan_purged split: option.split)
      (simp_all add: purged_def list_all2_same)
  show "service_inv (snd (service_lookup pt name ss))"
    "live_services pt (snd (service_lookup pt name ss)) = live_services pt ss"
    using purged_inv [OF inv p] purged_live [OF inv p] by auto
  have key: "se_used e \<and> \<not> dead_in pt e \<and> str_eq (se_name e) n \<longleftrightarrow>
      se_used e \<and> \<not> dead_in pt e \<and> se_name e = cstr n" if "e \<in> set ss" for e
    using service_inv_cstr [OF inv that] by (auto simp: str_eq_iff)
  have scan: "fst (service_scan pt n ss) = (case live_services pt ss (cstr n) of Some pid \<Rightarrow> pid | None \<Rightarrow> - 1)"
  proof (cases "find_index (\<lambda>e. se_used e \<and> \<not> dead_in pt e \<and> str_eq (se_name e) n) ss")
    case None
    then have "live_services pt ss (cstr n) \<noteq> Some pid" for pid
      using key by (auto simp: live_services_iff [OF inv] find_index_None_iff)
    then have "live_services pt ss (cstr n) = None" by (metis not_None_eq)
    then show ?thesis using None by (simp add: service_scan_result)
  next
    case (Some i)
    have i: "i < length ss" "se_used (ss ! i)" "\<not> dead_in pt (ss ! i)" "str_eq (se_name (ss ! i)) n"
      using find_index_SomeD [OF Some] by blast+
    then have "live_services pt ss (cstr n) = Some (se_pid (ss ! i))"
      unfolding live_services_iff [OF inv] using key [of "ss ! i"] by auto
    with Some show ?thesis by (simp add: service_scan_result)
  qed
  have "live_services pt ss '''' = None"
    using inv by (auto simp: live_services_def service_map_def service_inv_def valid_service_name_def
        table_map_def split: option.split dest!: stab.slot_SomeD)
  then show "fst (service_lookup pt (Some n) ss) =
      (case live_services pt ss (cstr n) of Some pid \<Rightarrow> pid | None \<Rightarrow> - 1)"
    using scan by (auto simp: service_lookup_def cstr_Nil_iff [symmetric])
qed

lemma service_register_inv [inv_intros]:
  "service_inv ss \<Longrightarrow> service_inv (snd (service_register pt name pid ss))"
  by (rule service_register_ok(1))

lemma service_lookup_inv [inv_intros]:
  "service_inv ss \<Longrightarrow> service_inv (snd (service_lookup pt name ss))"
  by (rule service_lookup_ok(1))

section \<open>Properties\<close>

text \<open>
  C33: a registration succeeds exactly for a valid name (1 to 15 letters, digits, dashes and
  underscores) of an existing process, as long as the name is already bound or a slot is
  free; a lookup of that name then returns the registered pid, every other name is still
  bound to the live process it was bound to, and a failed registration changes nothing.
\<close>

theorem service_register_correct:
  assumes "service_inv ss" and "service_register pt (Some n) pid ss = (ok, ss')"
  shows "(ok \<longleftrightarrow> valid_service_name (cstr n) \<and> 0 \<le> pid \<and> proc_state_of pt pid \<noteq> PROC_UNUSED \<and>
           (service_map ss (cstr n) \<noteq> None \<or> (\<exists>e \<in> set ss. \<not> se_used e))) \<and>
    (ok \<longrightarrow> fst (service_lookup pt (Some n) ss') = pid \<and>
       (\<forall>m. cstr m \<noteq> cstr n \<longrightarrow> fst (service_lookup pt (Some m) ss') = fst (service_lookup pt (Some m) ss))) \<and>
    (\<not> ok \<longrightarrow> ss' = ss)"
proof -
  note r = service_register_ok(1,2,4) [OF assms(1), where pt = pt and name = "Some n" and pid = pid]
  have inv': "service_inv ss'" using r(1) assms(2) by simp
  show ?thesis
    using r(2,3) service_register_ok(3) [OF assms(1), of pt n pid] assms(2)
    by (auto simp: service_lookup_ok(3) [OF assms(1)] service_lookup_ok(3) [OF inv'] live_services_def)
qed

lemma service_demo: "service_register demo_procs (Some ''sysinfo'') 0 service_init =
    (True, snd (service_register demo_procs (Some ''sysinfo'') 0 service_init))"
proof -
  have "fst (service_register demo_procs (Some ''sysinfo'') 0 service_init)" by code_simp
  then show ?thesis by (metis prod.collapse)
qed

theorem service_register_correct_witness:
  "fst (service_lookup demo_procs (Some ''sysinfo'')
     (snd (service_register demo_procs (Some ''sysinfo'') 0 service_init))) = 0"
  using service_register_correct [OF service_init_inv service_demo] by simp

text \<open>
  C34: a lookup returns the pid bound to the name if that process still exists and -1
  otherwise, and the clean-up of dead entries it does on the way is invisible: every name
  has the same live binding before and after.
\<close>

theorem service_lookup_correct:
  assumes "service_inv ss" and "service_lookup pt (Some n) ss = (r, ss')"
  shows "r = (case service_map ss (cstr n) of
                Some pid \<Rightarrow> if proc_state_of pt pid = PROC_UNUSED then - 1 else pid
              | None \<Rightarrow> - 1) \<and>
    live_services pt ss' = live_services pt ss \<and> service_inv ss'"
  using service_lookup_ok(1,2) [OF assms(1), of pt "Some n"] service_lookup_ok(3) [OF assms(1), of pt n] assms(2)
  by (auto simp: live_services_def split: option.splits)

text \<open>The service of a process that has been reaped is no longer found.\<close>

theorem service_lookup_correct_witness:
  "fst (service_lookup (snd (proc_reap_pid 1 demo_procs)) (Some ''echo'')
     (snd (service_register demo_procs (Some ''echo'') 1 service_init))) = - 1"
proof -
  let ?ss = "snd (service_register demo_procs (Some ''echo'') 1 service_init)"
  have "service_map ?ss ''echo'' = Some 1" by code_simp
  moreover have "proc_state_of (snd (proc_reap_pid 1 demo_procs)) 1 = PROC_UNUSED" by code_simp
  ultimately show ?thesis
    using service_lookup_correct [OF service_register_inv [OF service_init_inv] surjective_pairing,
        of "snd (proc_reap_pid 1 demo_procs)" "''echo''" demo_procs "Some ''echo''" 1]
    by simp
qed

end
