(* ===== verification/Iso.thy ===== *)
theory Iso
  imports Kheap Storage
begin

text \<open>
  \<^verbatim>\<open>kernel/fs.c\<close>, first half: reading an ISO 9660 volume with Rock Ridge names.  The device is
  read through \<open>storage_read\<close>.  A sector is a function from offsets to bytes: past the bytes
  the device delivered it gives \<open>beyond\<close>, whatever lies behind the static scratch buffer,
  because the name length of a record is not checked against the record length and the
  code then reads there.  The scan of a directory advances a 32-bit offset, which can wrap
  around, so \<open>iso_scan\<close> is a partial function and \<open>None\<close> is a scan that does not end; it is
  shown to end for directories of at most \<open>2 ^ 32 - 2048\<close> bytes.  Lengths that come from
  single bytes are natural numbers.
\<close>

section \<open>Data\<close>

definition ISO_SECTOR_SIZE :: u32 where "ISO_SECTOR_SIZE = 2048"
definition ISO_FILE_MAX :: u32 where "ISO_FILE_MAX = 2 * 1024 * 1024"
definition FS_DIRENT_NAME_MAX :: nat where "FS_DIRENT_NAME_MAX = 63"

record iso_dir_loc =
  lo_extent_lba :: u32
  lo_size :: u32
  lo_flags :: u8

type_synonym sector = "nat \<Rightarrow> u8"

definition sector_of :: "sector \<Rightarrow> u8 list \<Rightarrow> sector" where
  "sector_of beyond bs i = (if i < length bs then bs ! i else beyond i)"

text \<open>What the functions below need of the kernel: the devices and the bytes behind the buffer.\<close>

record iso_env =
  ie_storage :: storage_state
  ie_beyond :: sector

abbreviation read_sector :: "'e iso_env_scheme \<Rightarrow> int \<Rightarrow> u32 \<Rightarrow> sector option" where
  "read_sector env dev lba \<equiv> map_option (sector_of (ie_beyond env)) (storage_read (ie_storage env) dev lba 1)"

section \<open>Names\<close>

definition read_u32_le :: "sector \<Rightarrow> nat \<Rightarrow> u32" where
  "read_u32_le p i = ucast (p i) OR push_bit 8 (ucast (p (i + 1))) OR push_bit 16 (ucast (p (i + 2))) OR
     push_bit 24 (ucast (p (i + 3)))"

definition ascii_lower :: "char \<Rightarrow> char" where
  "ascii_lower c =
     (if char_between CHR ''A'' CHR ''Z'' c then char_of ((of_char c :: nat) - 65 + 97) else c)"

definition iso_system_use_offset :: "nat \<Rightarrow> nat" where
  "iso_system_use_offset name_len = (if even name_len then 33 + name_len + 1 else 33 + name_len)"

function names_match_casefold :: "string \<Rightarrow> string \<Rightarrow> bool" where
  "names_match_casefold a b =
     (if deref a \<noteq> NUL \<and> deref b \<noteq> NUL
      then (if ascii_lower (deref a) \<noteq> ascii_lower (deref b) then False
            else names_match_casefold (tl a) (tl b))
      else deref a = NUL \<and> deref b = NUL)"
  by pat_completeness auto
termination
  by (relation "measure (\<lambda>(a, b). length a)") (auto simp: deref_def split: list.splits)

text \<open>
  The loop of \<^verbatim>\<open>iso_try_read_rock_ridge_name\<close>: \<open>out\<close> is the text collected so far, at most
  \<open>out_size - 1\<close> characters.
\<close>

function rock_ridge_loop :: "sector \<Rightarrow> nat \<Rightarrow> nat \<Rightarrow> nat \<Rightarrow> string \<Rightarrow> string option" where
  "rock_ridge_loop entry0 rec_len out_size off out =
     (if off + 4 \<le> rec_len then
        let entry_len = unat (entry0 (off + 2)) in
        if entry_len < 4 \<or> off + entry_len > rec_len then None
        else if entry0 off = byte_of CHR ''N'' \<and> entry0 (off + 1) = byte_of CHR ''M'' \<and> entry_len \<ge> 5 then
          let flags = entry0 (off + 4) in
          if flags AND 6 \<noteq> 0 then None
          else
            let out = take (out_size - 1)
                  (out @ map (\<lambda>i. ascii_lower (char_of_byte (entry0 (off + i)))) [5..<entry_len])
            in if flags AND 1 = 0 \<and> out \<noteq> '''' then Some out
               else rock_ridge_loop entry0 rec_len out_size (off + entry_len) out
        else rock_ridge_loop entry0 rec_len out_size (off + entry_len) out
      else None)"
  by pat_completeness auto
termination
  by (relation "measure (\<lambda>(entry0, rec_len, out_size, off, out). rec_len - off)") auto

definition iso_try_read_rock_ridge_name :: "sector \<Rightarrow> nat \<Rightarrow> nat \<Rightarrow> nat \<Rightarrow> string option" where
  "iso_try_read_rock_ridge_name entry0 rec_len name_len out_size =
     (let off = iso_system_use_offset name_len in
      if off \<ge> rec_len then None else rock_ridge_loop entry0 rec_len out_size off '''')"

text \<open>The part of a record's name before the version, without a final dot.\<close>

definition effective_name :: "sector \<Rightarrow> nat \<Rightarrow> string" where
  "effective_name rec_name rec_name_len =
     (let n = takeWhile (\<lambda>c. c \<noteq> CHR '';'') (map (\<lambda>i. char_of_byte (rec_name i)) [0..<rec_name_len])
      in if n \<noteq> '''' \<and> last n = CHR ''.'' then butlast n else n)"

fun iso_match_loop :: "string \<Rightarrow> string \<Rightarrow> bool" where
  "iso_match_loop [] component = (deref component = NUL)"
| "iso_match_loop (c # cs) component =
     (let a = ascii_lower c; b = ascii_lower (deref component)
      in if b = NUL \<or> a \<noteq> b then False else iso_match_loop cs (tl component))"

definition iso_name_matches :: "sector \<Rightarrow> nat \<Rightarrow> string \<Rightarrow> bool" where
  "iso_name_matches rec_name rec_name_len component =
     iso_match_loop (effective_name rec_name rec_name_len) component"

definition iso_record_name_matches :: "sector \<Rightarrow> nat \<Rightarrow> nat \<Rightarrow> string \<Rightarrow> bool" where
  "iso_record_name_matches rc rec_len name_len component =
     (case iso_try_read_rock_ridge_name rc rec_len name_len (FS_DIRENT_NAME_MAX + 1) of
        Some rr_name \<Rightarrow> names_match_casefold rr_name component
      | None \<Rightarrow> iso_name_matches (\<lambda>i. rc (33 + i)) name_len component)"

definition iso_name_copy :: "sector \<Rightarrow> nat \<Rightarrow> nat \<Rightarrow> string" where
  "iso_name_copy rec_name rec_name_len out_size =
     take (out_size - 1) (map ascii_lower (effective_name rec_name rec_name_len))"

definition iso_record_name_copy :: "sector \<Rightarrow> nat \<Rightarrow> nat \<Rightarrow> nat \<Rightarrow> string" where
  "iso_record_name_copy rc rec_len name_len out_size =
     (case iso_try_read_rock_ridge_name rc rec_len name_len out_size of
        Some n \<Rightarrow> n
      | None \<Rightarrow> iso_name_copy (\<lambda>i. rc (33 + i)) name_len out_size)"

section \<open>Directories\<close>

definition iso_read_pvd_root :: "'e iso_env_scheme \<Rightarrow> int \<Rightarrow> (iso_dir_loc \<times> u32) option" where
  "iso_read_pvd_root env dev =
     (case read_sector env dev 16 of
        None \<Rightarrow> None
      | Some sec \<Rightarrow>
          if sec 0 \<noteq> 1 \<or> sec 6 \<noteq> 1 \<or> sec 1 \<noteq> byte_of CHR ''C'' \<or> sec 2 \<noteq> byte_of CHR ''D'' \<or>
            sec 3 \<noteq> byte_of CHR ''0'' \<or> sec 4 \<noteq> byte_of CHR ''0'' \<or> sec 5 \<noteq> byte_of CHR ''1'' then None
          else if sec 156 < 34 then None
          else Some (\<lparr>lo_extent_lba = read_u32_le sec 158, lo_size = read_u32_le sec 166, lo_flags = sec 181\<rparr>,
                 read_u32_le sec 80))"

definition iso_extent_valid :: "u32 \<Rightarrow> u32 \<Rightarrow> u32 \<Rightarrow> bool" where
  "iso_extent_valid extent_lba size_bytes volume_sectors =
     (let sectors = (size_bytes + (ISO_SECTOR_SIZE - 1)) div ISO_SECTOR_SIZE in
      if volume_sectors = 0 then False
      else if extent_lba \<ge> volume_sectors then False
      else if sectors = 0 then True
      else if extent_lba + sectors < extent_lba then False
      else extent_lba + sectors \<le> volume_sectors)"

text \<open>
  The loop that \<^verbatim>\<open>iso_find_child\<close>, \<^verbatim>\<open>iso_list_dir\<close> and \<^verbatim>\<open>iso_list_dir_entries\<close> share.
  \<open>body\<close> is run on every record but those of the directory itself and its parent; it
  returns from the function with \<open>Inl\<close> or goes on with \<open>Inr\<close>.  The scan ends with the value
  the body returned, or with \<open>Inr (False, acc)\<close> at a bad sector or record, or with
  \<open>Inr (True, acc)\<close> at the end of the directory.
\<close>

partial_function (option) iso_scan ::
  "(u32 \<Rightarrow> sector option) \<Rightarrow> iso_dir_loc \<Rightarrow> (sector \<Rightarrow> nat \<Rightarrow> 'a \<Rightarrow> 'r + 'a) \<Rightarrow> u32 \<Rightarrow> 'a \<Rightarrow>
   ('r + bool \<times> 'a) option" where
  "iso_scan rd dir body offset acc =
     (if offset < lo_size dir then
        (case rd (lo_extent_lba dir + offset div ISO_SECTOR_SIZE) of
           None \<Rightarrow> Some (Inr (False, acc))
         | Some sec \<Rightarrow>
             (let so = unat (offset mod ISO_SECTOR_SIZE); rec_len = unat (sec so) in
              if rec_len = 0 then iso_scan rd dir body ((offset div ISO_SECTOR_SIZE + 1) * ISO_SECTOR_SIZE) acc
              else if so + rec_len > unat ISO_SECTOR_SIZE \<or> rec_len < 34 then Some (Inr (False, acc))
              else
                (let rc = (\<lambda>i. sec (so + i)) in
                 if rc 32 = 1 \<and> (rc 33 = 0 \<or> rc 33 = 1)
                 then iso_scan rd dir body (offset + of_nat rec_len) acc
                 else (case body rc rec_len acc of
                         Inl r \<Rightarrow> Some (Inl r)
                       | Inr acc' \<Rightarrow> iso_scan rd dir body (offset + of_nat rec_len) acc'))))
      else Some (Inr (True, acc)))"

declare iso_scan.simps [code]

definition iso_find_child :: "'e iso_env_scheme \<Rightarrow> int \<Rightarrow> iso_dir_loc \<Rightarrow> string \<Rightarrow> iso_dir_loc option option" where
  "iso_find_child env dev dir name =
     map_option (\<lambda>r. case r of Inl loc \<Rightarrow> Some loc | Inr _ \<Rightarrow> None)
       (iso_scan (read_sector env dev) dir
          (\<lambda>rc rec_len acc. if iso_record_name_matches rc rec_len (unat (rc 32)) name
             then Inl \<lparr>lo_extent_lba = read_u32_le rc 2, lo_size = read_u32_le rc 10, lo_flags = rc 25\<rparr>
             else Inr acc) 0 ())"

section \<open>Paths\<close>

text \<open>
  The component loop of \<^verbatim>\<open>iso_read_file_alloc\<close> and \<^verbatim>\<open>iso_resolve_path\<close>: from the rest of the
  path and the current directory to the last directory and the component left over, which
  is empty when the path is all slashes (the code's \<^verbatim>\<open>have_component\<close> is false only then).
  The outer \<open>option\<close> is non-termination, the inner one \<^verbatim>\<open>return 0\<close>.
\<close>

fun iso_path_loop ::
  "'e iso_env_scheme \<Rightarrow> int \<Rightarrow> u32 \<Rightarrow> string \<Rightarrow> iso_dir_loc \<Rightarrow> string \<Rightarrow> (iso_dir_loc \<times> string) option option" where
  "iso_path_loop env dev vol [] cur cmp = Some (Some (cur, cmp))"
| "iso_path_loop env dev vol (c # p) cur cmp =
     (if c = NUL then Some (Some (cur, cmp))
      else if c = CHR ''/'' then
        if cmp = '''' then iso_path_loop env dev vol p cur cmp
        else
          (case iso_find_child env dev cur cmp of
             None \<Rightarrow> None
           | Some None \<Rightarrow> Some None
           | Some (Some child) \<Rightarrow>
               if lo_flags child AND 2 = 0 then Some None
               else if \<not> iso_extent_valid (lo_extent_lba child) (lo_size child) vol then Some None
               else iso_path_loop env dev vol p child '''')
      else if length cmp + 1 \<ge> 64 then Some None
      else iso_path_loop env dev vol p cur (cmp @ [c]))"

fun skip_slashes :: "string \<Rightarrow> string" where
  "skip_slashes [] = []"
| "skip_slashes (c # p) = (if c = CHR ''/'' then skip_slashes p else c # p)"

text \<open>The location a path denotes and whether it is a directory.\<close>

definition iso_resolve_path :: "'e iso_env_scheme \<Rightarrow> int \<Rightarrow> string \<Rightarrow> (iso_dir_loc \<times> bool) option option" where
  "iso_resolve_path env dev iso_path =
     (let p = skip_slashes iso_path in
      case iso_read_pvd_root env dev of
        None \<Rightarrow> Some None
      | Some (root, vol) \<Rightarrow>
          if \<not> iso_extent_valid (lo_extent_lba root) (lo_size root) vol then Some None
          else if deref p = NUL then Some (Some (root, True))
          else
            (case iso_path_loop env dev vol p root '''' of
               None \<Rightarrow> None
             | Some None \<Rightarrow> Some None
             | Some (Some (cur, cmp)) \<Rightarrow>
                 if cmp = '''' then Some (Some (cur, True))
                 else
                   (case iso_find_child env dev cur cmp of
                      None \<Rightarrow> None
                    | Some None \<Rightarrow> Some None
                    | Some (Some child) \<Rightarrow>
                        if \<not> iso_extent_valid (lo_extent_lba child) (lo_size child) vol then Some None
                        else Some (Some (child, lo_flags child AND 2 \<noteq> 0)))))"

section \<open>Reading a file\<close>

text \<open>The copying loop; \<open>copied\<close> stays below the file size, which is at most \<open>ISO_FILE_MAX\<close>.\<close>

function iso_copy_loop ::
  "(u32 \<Rightarrow> sector option) \<Rightarrow> u32 \<Rightarrow> u32 \<Rightarrow> nat \<Rightarrow> nat \<Rightarrow> memory \<Rightarrow> bool \<times> memory" where
  "iso_copy_loop rd lba buf fsize copied m =
     (if copied < fsize then
        let chunk = min (fsize - copied) (unat ISO_SECTOR_SIZE) in
        case rd (lba + of_nat (copied div unat ISO_SECTOR_SIZE)) of
          None \<Rightarrow> (False, m)
        | Some sec \<Rightarrow>
            iso_copy_loop rd lba buf fsize (copied + chunk)
              (mem_write (buf + of_nat copied) (map sec [0..<chunk]) m)
      else (True, m))"
  by pat_completeness auto
termination
  by (relation "measure (\<lambda>(rd, lba, buf, fsize, copied, m). fsize - copied)") (auto simp: ISO_SECTOR_SIZE_def)

text \<open>The last part of \<^verbatim>\<open>iso_read_file_alloc\<close>, once the record of the file is found.\<close>

definition iso_read_extent ::
  "'e iso_env_scheme \<Rightarrow> int \<Rightarrow> iso_dir_loc \<Rightarrow> 'a kmem_scheme \<Rightarrow> (u32 \<times> u32) option \<times> 'a kmem_scheme" where
  "iso_read_extent env dev child s =
     (let (buf, s) = kmalloc (lo_size child + 1) s in
      if buf = NULL then (None, s)
      else
        let (ok, m) = iso_copy_loop (read_sector env dev) (lo_extent_lba child) buf (unat (lo_size child)) 0 (mem s)
        in if \<not> ok then (None, s\<lparr>mem := m\<rparr>)
           else (Some (buf, lo_size child), s\<lparr>mem := m(buf + lo_size child := 0)\<rparr>))"

text \<open>
  \<^verbatim>\<open>iso_read_file_alloc\<close>: the buffer and size in \<^verbatim>\<open>*out_data\<close> and \<^verbatim>\<open>*out_size\<close>, and the heap and
  memory afterwards; a buffer whose reading fails half-way stays allocated.
\<close>

definition iso_read_file_alloc ::
  "'e iso_env_scheme \<Rightarrow> int \<Rightarrow> string \<Rightarrow> 'a kmem_scheme \<Rightarrow> ((u32 \<times> u32) option \<times> 'a kmem_scheme) option" where
  "iso_read_file_alloc env dev iso_path s =
     (let p = skip_slashes iso_path in
      if deref p = NUL then Some (None, s)
      else case iso_read_pvd_root env dev of
        None \<Rightarrow> Some (None, s)
      | Some (root, vol) \<Rightarrow>
          if \<not> iso_extent_valid (lo_extent_lba root) (lo_size root) vol then Some (None, s)
          else
            (case iso_path_loop env dev vol p root '''' of
               None \<Rightarrow> None
             | Some None \<Rightarrow> Some (None, s)
             | Some (Some (cur, cmp)) \<Rightarrow>
                 if cmp = '''' then Some (None, s)
                 else
                   (case iso_find_child env dev cur cmp of
                      None \<Rightarrow> None
                    | Some None \<Rightarrow> Some (None, s)
                    | Some (Some child) \<Rightarrow>
                        if lo_flags child AND 2 \<noteq> 0 then Some (None, s)
                        else if \<not> iso_extent_valid (lo_extent_lba child) (lo_size child) vol then Some (None, s)
                        else if lo_size child > ISO_FILE_MAX then Some (None, s)
                        else Some (iso_read_extent env dev child s))))"

section \<open>Listing\<close>

text \<open>
  A listed entry is its name and whether it is a directory.  \<^verbatim>\<open>iso_list_dir\<close> prints the
  entries as it goes, so those before a bad record have been printed.
\<close>

type_synonym fs_dir_entry = "string \<times> bool"

definition iso_list_dir :: "'e iso_env_scheme \<Rightarrow> int \<Rightarrow> iso_dir_loc \<Rightarrow> (bool \<times> fs_dir_entry list) option" where
  "iso_list_dir env dev dir =
     map_option (\<lambda>r. case r of Inl es \<Rightarrow> (False, es) | Inr res \<Rightarrow> res)
       (iso_scan (read_sector env dev) dir
          (\<lambda>rc rec_len es. Inr (es @ [(iso_record_name_copy rc rec_len (unat (rc 32)) 64, rc 25 AND 2 \<noteq> 0)]))
          0 [])"

text \<open>\<open>None\<close> inside is \<^verbatim>\<open>return 0\<close>: the caller's count is then 0.\<close>

definition iso_list_dir_entries ::
  "'e iso_env_scheme \<Rightarrow> int \<Rightarrow> iso_dir_loc \<Rightarrow> nat \<Rightarrow> fs_dir_entry list option option" where
  "iso_list_dir_entries env dev dir max_entries =
     map_option (\<lambda>r. case r of Inr (True, es) \<Rightarrow> Some es | _ \<Rightarrow> None)
       (iso_scan (read_sector env dev) dir
          (\<lambda>rc rec_len es. (Inr :: fs_dir_entry list \<Rightarrow> unit + fs_dir_entry list)
             (if length es < max_entries
              then es @ [(iso_record_name_copy rc rec_len (unat (rc 32)) 64, rc 25 AND 2 \<noteq> 0)] else es))
          0 [])"

section \<open>Scans end\<close>

text \<open>The next offset of a scan, and that it does not wrap below the bound.\<close>

lemma next_sector_offset:
  assumes "unat offset + 2048 < 2 ^ 32"
  shows "unat ((offset div ISO_SECTOR_SIZE + 1) * ISO_SECTOR_SIZE) = (unat offset div 2048 + 1) * 2048"
proof -
  have d: "unat (offset div ISO_SECTOR_SIZE) = unat offset div 2048"
    by (simp add: ISO_SECTOR_SIZE_def unat_div)
  have le: "(unat offset div 2048 + 1) * 2048 \<le> unat offset + 2048" by simp
  then have "unat (offset div ISO_SECTOR_SIZE + 1) = unat offset div 2048 + 1"
    using assms d by (subst unat_add_exact) simp_all
  then show ?thesis
    using le assms by (simp add: ISO_SECTOR_SIZE_def unat_word_ariths)
qed

lemma iso_scan_step:
  assumes "offset < lo_size dir" and "rd (lo_extent_lba dir + offset div ISO_SECTOR_SIZE) = Some sec"
    and "so = unat (offset mod ISO_SECTOR_SIZE)" and "n = unat (sec so)" and "rc = (\<lambda>i. sec (so + i))"
  shows "iso_scan rd dir body offset acc =
    (if n = 0 then iso_scan rd dir body ((offset div ISO_SECTOR_SIZE + 1) * ISO_SECTOR_SIZE) acc
     else if so + n > unat ISO_SECTOR_SIZE \<or> n < 34 then Some (Inr (False, acc))
     else if rc 32 = 1 \<and> (rc 33 = 0 \<or> rc 33 = 1) then iso_scan rd dir body (offset + of_nat n) acc
     else (case body rc n acc of
             Inl r \<Rightarrow> Some (Inl r)
           | Inr acc' \<Rightarrow> iso_scan rd dir body (offset + of_nat n) acc'))"
  unfolding assms(3-5) iso_scan.simps [of rd dir body offset acc]
  by (simp only: assms(1,2) if_True option.case Let_def)

lemma iso_scan_end:
  "\<not> offset < lo_size dir \<Longrightarrow> iso_scan rd dir body offset acc = Some (Inr (True, acc))"
  "offset < lo_size dir \<Longrightarrow> rd (lo_extent_lba dir + offset div ISO_SECTOR_SIZE) = None \<Longrightarrow>
   iso_scan rd dir body offset acc = Some (Inr (False, acc))"
  by (simp_all add: iso_scan.simps [of rd dir body offset acc])

lemma iso_scan_returns:
  assumes "unat (lo_size dir) + 2048 \<le> 2 ^ 32"
  shows "\<exists>r. iso_scan rd dir body offset acc = Some r"
proof (induction "2 ^ 32 - unat offset" arbitrary: offset acc rule: less_induct)
  case less
  show ?case
  proof (cases "offset < lo_size dir")
    case True
    then have lt: "unat offset < unat (lo_size dir)" by (simp add: word_less_nat_alt)
    let ?nxt = "(offset div ISO_SECTOR_SIZE + 1) * ISO_SECTOR_SIZE"
    have "unat ?nxt = (unat offset div 2048 + 1) * 2048"
      using lt assms by (intro next_sector_offset) simp
    then have "unat offset < unat ?nxt" by simp
    then have IH1: "\<exists>r. iso_scan rd dir body ?nxt acc' = Some r" for acc'
      using lt assms unat_u32_bound [of offset] by (intro less) simp
    have IH2: "\<exists>r. iso_scan rd dir body (offset + of_nat n) acc' = Some r" if "0 < n" "n < 256" for n acc'
    proof -
      have "unat (offset + of_nat n) = unat offset + n"
        using that lt assms by (subst unat_add_exact) (simp_all add: unat_of_nat_exact)
      then show ?thesis using that lt assms unat_u32_bound [of offset] by (intro less) simp
    qed
    show ?thesis
    proof (cases "rd (lo_extent_lba dir + offset div ISO_SECTOR_SIZE)")
      case (Some sec)
      define so n rc where "so = unat (offset mod ISO_SECTOR_SIZE)" and "n = unat (sec so)" and "rc = (\<lambda>i. sec (so + i))"
      note step = iso_scan_step [where rd = rd and dir = dir and offset = offset and sec = sec and so = so
          and n = n and rc = rc and body = body and acc = acc, OF True Some so_def n_def rc_def]
      have "n < 256" unfolding n_def using unsigned_less [of "sec so"] by simp
      then have "0 < n \<Longrightarrow> \<exists>r. iso_scan rd dir body (offset + of_nat n) acc' = Some r" for acc'
        by (rule IH2 [rotated])
      then show ?thesis unfolding step using IH1 by (cases "body rc n acc") simp_all
    qed (simp add: iso_scan_end True)
  qed (simp add: iso_scan_end)
qed

lemma iso_find_child_returns_some:
  "unat (lo_size dir) + 2048 \<le> 2 ^ 32 \<Longrightarrow> \<exists>r. iso_find_child env dev dir name = Some r"
  using iso_scan_returns [of dir "read_sector env dev" _ 0 "()"] unfolding iso_find_child_def by fastforce

text \<open>
  Without the bound a scan may go on for ever: a directory of \<open>2 ^ 32 - 1\<close> zero bytes passes
  the check of its extent, whose sector count wraps to zero, and the offset wraps around.
\<close>

lemma iso_extent_valid_wraps: "vol \<noteq> 0 \<Longrightarrow> lba < vol \<Longrightarrow> iso_extent_valid lba 0xFFFFFFFF vol"
  by (simp add: iso_extent_valid_def ISO_SECTOR_SIZE_def not_le)

lemma zero_scan_Some:
  assumes "iso_scan rd dir body offset acc = Some r"
  shows "rd = (\<lambda>_. Some (\<lambda>_. 0)) \<Longrightarrow> lo_size dir = 0xFFFFFFFF \<Longrightarrow> 2048 dvd unat offset \<Longrightarrow> False"
  using assms
proof (induction rule: iso_scan.raw_induct [rotated, consumes 1])
  case (1 scan rd dir body offset acc r)
  have lt: "offset < lo_size dir"
  proof -
    have "unat offset \<noteq> 0xFFFFFFFF"
      using 1(5) by auto
    then show ?thesis using 1(4) unat_u32_bound [of offset] by (simp add: word_less_nat_alt)
  qed
  have "2048 dvd unat ((offset div ISO_SECTOR_SIZE + 1) * ISO_SECTOR_SIZE)"
    by (simp add: ISO_SECTOR_SIZE_def unat_word_ariths dvd_mod_iff)
  with 1 lt show ?case by (auto simp: Let_def)
qed

lemma iso_scan_diverges:
  "iso_scan (\<lambda>_. Some (\<lambda>_. 0)) \<lparr>lo_extent_lba = lba, lo_size = 0xFFFFFFFF, lo_flags = 2\<rparr> body 0 acc = None"
  using zero_scan_Some [of "\<lambda>_. Some (\<lambda>_. 0)" "\<lparr>lo_extent_lba = lba, lo_size = 0xFFFFFFFF, lo_flags = 2\<rparr>" body 0 acc]
  by (cases "iso_scan (\<lambda>_. Some (\<lambda>_. 0)) \<lparr>lo_extent_lba = lba, lo_size = 0xFFFFFFFF, lo_flags = 2\<rparr> body 0 acc") auto

section \<open>Listing and lookup agree\<close>

lemma char_between_upper:
  "char_between CHR ''A'' CHR ''Z'' c \<longleftrightarrow> 65 \<le> (of_char c :: nat) \<and> (of_char c :: nat) \<le> 90"
proof -
  obtain n :: nat where n: "of_char c = n" "n < 256" using nat_of_char_less_256 by blast
  have "char_val c = (if n < 128 then int n else int n - 256)" unfolding char_val_def n(1) Let_def by simp
  then show ?thesis using n(2) unfolding char_between_def n(1) by (simp add: char_val_def)
qed

lemma ascii_lower_idem [simp]: "ascii_lower (ascii_lower c) = ascii_lower c"
proof (cases "char_between CHR ''A'' CHR ''Z'' c")
  case True
  then have "(of_char (ascii_lower c) :: nat) = of_char c + 32" and "65 \<le> (of_char c :: nat)"
    by (simp_all add: ascii_lower_def char_between_upper)
  then have "\<not> char_between CHR ''A'' CHR ''Z'' (ascii_lower c)"
    by (simp add: char_between_upper)
  then show ?thesis by (simp add: ascii_lower_def)
qed (simp add: ascii_lower_def)

lemma names_match_refl: "names_match_casefold a a"
proof (induction a)
  case Nil
  then show ?case by (subst names_match_casefold.simps) simp
next
  case (Cons c a)
  then show ?case by (subst names_match_casefold.simps) (simp del: names_match_casefold.simps)
qed

lemma iso_match_lower: "NUL \<notin> set (map ascii_lower n) \<Longrightarrow> iso_match_loop n (map ascii_lower n)"
  by (induction n) (auto simp: Let_def)

lemma record_name_found:
  assumes "m = iso_record_name_copy rc n l 64" and "NUL \<notin> set m" and "length m < 63"
  shows "iso_record_name_matches rc n l m"
proof (cases "iso_try_read_rock_ridge_name rc n l 64")
  case (Some rr)
  then show ?thesis
    using assms(1) names_match_refl
    by (simp add: iso_record_name_matches_def iso_record_name_copy_def FS_DIRENT_NAME_MAX_def
        del: names_match_casefold.simps)
next
  case None
  then have "m = take 63 (map ascii_lower (effective_name (\<lambda>i. rc (33 + i)) l))"
    using assms(1) by (simp add: iso_record_name_copy_def iso_name_copy_def)
  then have m: "m = map ascii_lower (effective_name (\<lambda>i. rc (33 + i)) l)" using assms(3) by simp
  show ?thesis
    using None iso_match_lower [OF assms(2) [unfolded m]]
    by (simp add: iso_record_name_matches_def iso_name_matches_def FS_DIRENT_NAME_MAX_def m)
qed

abbreviation list_body :: "sector \<Rightarrow> nat \<Rightarrow> fs_dir_entry list \<Rightarrow> fs_dir_entry list + fs_dir_entry list" where
  "list_body \<equiv> \<lambda>rc rec_len es. Inr (es @ [(iso_record_name_copy rc rec_len (unat (rc 32)) 64, rc 25 AND 2 \<noteq> 0)])"

abbreviation find_body :: "string \<Rightarrow> sector \<Rightarrow> nat \<Rightarrow> unit \<Rightarrow> iso_dir_loc + unit" where
  "find_body name \<equiv> \<lambda>rc rec_len acc. if iso_record_name_matches rc rec_len (unat (rc 32)) name
     then Inl \<lparr>lo_extent_lba = read_u32_le rc 2, lo_size = read_u32_le rc 10, lo_flags = rc 25\<rparr> else Inr acc"

text \<open>A scan that lists the rest of a directory, and the scan for a listed name from there.\<close>

lemma list_scan_found:
  assumes "iso_scan rd dir body offset es0 = Some r"
  shows "body = list_body \<Longrightarrow> r = Inr (True, es) \<Longrightarrow> (m, d) \<in> set es \<Longrightarrow> (m, d) \<notin> set es0 \<Longrightarrow>
    NUL \<notin> set m \<Longrightarrow> length m < 63 \<Longrightarrow> \<exists>loc. iso_scan rd dir (find_body m) offset () = Some (Inl loc)"
  using assms
proof (induction rule: iso_scan.raw_induct [rotated, consumes 1])
  case (1 scan rd dir body offset acc r)
  show ?case
  proof (cases "offset < lo_size dir \<and> rd (lo_extent_lba dir + offset div ISO_SECTOR_SIZE) \<noteq> None")
    case False
    then show ?thesis using 1(2,4-6) by (auto split: if_splits option.splits)
  next
    case True
    then obtain sec where lt: "offset < lo_size dir" and sec: "rd (lo_extent_lba dir + offset div ISO_SECTOR_SIZE) = Some sec"
      by auto
    define so n rc where "so = unat (offset mod ISO_SECTOR_SIZE)" and "n = unat (sec so)" and "rc = (\<lambda>i. sec (so + i))"
    let ?e = "(iso_record_name_copy rc n (unat (rc 32)) 64, rc 25 AND 2 \<noteq> 0)"
    note step = iso_scan_step [where rd = rd and dir = dir and offset = offset and sec = sec and so = so
        and n = n and rc = rc and body = "find_body m" and acc = "()", OF lt sec so_def n_def rc_def]
    have eq: "(if n = 0 then scan rd dir body ((offset div ISO_SECTOR_SIZE + 1) * ISO_SECTOR_SIZE) acc
       else if so + n > unat ISO_SECTOR_SIZE \<or> n < 34 then Some (Inr (False, acc))
       else if rc 32 = 1 \<and> (rc 33 = 0 \<or> rc 33 = 1) then scan rd dir body (offset + of_nat n) acc
       else scan rd dir body (offset + of_nat n) (acc @ [?e])) = Some r"
      using 1(2) unfolding so_def n_def rc_def 1(3) by (simp only: lt sec if_True option.case Let_def sum.case)
    have here: "iso_record_name_matches rc n (unat (rc 32)) m" if "(m, d) = ?e"
      using that 1(7,8) by (intro record_name_found) auto
    have IH: "\<exists>loc. iso_scan rd dir (find_body m) off' () = Some (Inl loc)"
      if "scan rd dir body off' acc' = Some r" "(m, d) \<notin> set acc'" for off' acc'
      using 1(1) [OF that(1) 1(3-5) that(2) 1(7,8)] .
    show ?thesis
    proof (cases "(m, d) = ?e")
      case True
      then show ?thesis unfolding step using eq IH here 1(4,6) by (auto split: if_splits)
    next
      case False
      then have "(m, d) \<notin> set (acc @ [?e])" using 1(6) by simp
      with eq IH 1(4,6) show ?thesis unfolding step by (simp split: if_splits)
    qed
  qed
qed

lemma scan_result:
  assumes "map_option (\<lambda>r. case r of Inl es \<Rightarrow> (False, es) | Inr res \<Rightarrow> res) z = Some (True, es)"
  shows "z = Some (Inr (True, es))"
proof (cases z)
  case (Some r)
  then show ?thesis using assms by (cases r) simp_all
qed (use assms in simp)

section \<open>A small volume\<close>

text \<open>A volume descriptor in sector 16, the root directory in sector 18, one file in sector 19.\<close>

definition demo_dir_record :: "u8 \<Rightarrow> u8 \<Rightarrow> u8 \<Rightarrow> string \<Rightarrow> u8 list" where
  "demo_dir_record lba sz flags name =
     [of_nat (33 + length name), 0, lba, 0, 0, 0, 0, 0, 0, 0, sz, 0, 0, 0, 0, 0, 0, 0, 0, 0, 0, 0, 0, 0, 0, flags,
      0, 0, 0, 0, 0, 0, of_nat (length name)] @ map byte_of name"

definition demo_pvd :: "u8 list" where
  "demo_pvd = [1] @ map byte_of ''CD001'' @ [1] @ replicate 73 0 @ [32, 0, 0, 0] @ replicate 72 0 @
     demo_dir_record 18 85 2 ''.''"

definition demo_root_dir :: "u8 list" where
  "demo_root_dir = demo_dir_record 18 85 2 [CHR 0x00] @ demo_dir_record 19 2 0 ''README.;1'' @ replicate 9 0"

definition demo_disk :: block_read_fn where
  "demo_disk lba n =
     (if lba = 16 then Some demo_pvd else if lba = 18 then Some demo_root_dir
      else if lba = 19 then Some [104, 105] else None)"

definition demo_iso :: iso_env where
  "demo_iso = \<lparr>ie_storage = snd (storage_register_device (Some ''cd0'') 2048 (Some demo_disk) storage_empty),
     ie_beyond = (\<lambda>_. 0)\<rparr>"

lemma demo_resolve: "iso_resolve_path demo_iso 0 ''/readme'' = Some (Some (\<lparr>lo_extent_lba = 19, lo_size = 2, lo_flags = 0\<rparr>, False))"
  by code_simp

abbreviation demo_root :: iso_dir_loc where
  "demo_root \<equiv> \<lparr>lo_extent_lba = 18, lo_size = 85, lo_flags = 2\<rparr>"

abbreviation demo_readme :: iso_dir_loc where
  "demo_readme \<equiv> \<lparr>lo_extent_lba = 19, lo_size = 2, lo_flags = 0\<rparr>"

lemma demo_list: "iso_list_dir demo_iso 0 demo_root = Some (True, [(''readme'', False)])"
  by code_simp

section \<open>Files are read as they are on the device\<close>

lemma iso_copy_loop_cases:
  "\<not> copied < fsize \<Longrightarrow> iso_copy_loop rd lba buf fsize copied m = (True, m)"
  "copied < fsize \<Longrightarrow> rd (lba + of_nat (copied div 2048)) = None \<Longrightarrow>
   iso_copy_loop rd lba buf fsize copied m = (False, m)"
  "copied < fsize \<Longrightarrow> rd (lba + of_nat (copied div 2048)) = Some sec \<Longrightarrow>
   iso_copy_loop rd lba buf fsize copied m = iso_copy_loop rd lba buf fsize (copied + min (fsize - copied) 2048)
     (mem_write (buf + of_nat copied) (map sec [0..<min (fsize - copied) 2048]) m)"
  by (simp_all add: iso_copy_loop.simps [of rd lba buf fsize copied m] ISO_SECTOR_SIZE_def
      Let_def del: iso_copy_loop.simps)

declare iso_copy_loop.simps [simp del]

text \<open>Blocks inside a block: the rest of the buffer behind the bytes already copied.\<close>

lemma in_block_shift:
  assumes "k \<le> n" and "n < 2 ^ 32"
  shows "in_block (a + of_nat k) (n - k) x \<longleftrightarrow> in_block a n x \<and> \<not> in_block a k x"
proof -
  have d: "x - (a + of_nat k) = (x - a) - of_nat k" by (simp add: algebra_simps)
  have k: "unat (of_nat k :: u32) = k" using assms by (intro unat_of_nat_exact) simp
  show ?thesis
  proof (cases "of_nat k \<le> x - a")
    case True
    then have "unat (x - (a + of_nat k)) = unat (x - a) - k" unfolding d by (simp add: unat_sub_exact k)
    then show ?thesis using True k by (auto simp: in_block_def word_le_nat_alt)
  next
    case False
    then have lt: "unat (x - a) < k" using k by (simp add: word_le_nat_alt)
    have "unat (x - (a + of_nat k)) = 2 ^ 32 + unat (x - a) - k"
      unfolding d using lt k by (simp add: unat_sub_if_size word_size)
    then show ?thesis using lt assms by (auto simp: in_block_def)
  qed
qed

lemma iso_copy_loop_frame:
  "iso_copy_loop rd lba buf fsize copied m = (ok, m') \<Longrightarrow> fsize < 2 ^ 32 \<Longrightarrow>
   \<not> in_block buf fsize x \<or> in_block buf (min copied fsize) x \<Longrightarrow> m' x = m x"
proof (induction rd lba buf fsize copied m arbitrary: m' rule: iso_copy_loop.induct)
  case (1 rd lba buf fsize copied m)
  let ?n = "min (fsize - copied) 2048"
  show ?case
  proof (cases "copied < fsize")
    case True
    show ?thesis
    proof (cases "rd (lba + of_nat (copied div 2048))")
      case (Some sec)
      let ?m = "mem_write (buf + of_nat copied) (map sec [0..<?n]) m"
      have step: "iso_copy_loop rd lba buf fsize (copied + ?n) ?m = (ok, m')"
        using 1(2) iso_copy_loop_cases(3) [where rd = rd, OF True Some] by simp
      have "\<not> in_block buf (copied + ?n) x \<or> in_block buf copied x"
        using 1(4) True by (auto intro: in_block_mono)
      then have out: "\<not> in_block (buf + of_nat copied) ?n x"
        using in_block_shift [of copied "copied + ?n" buf x] True 1(3) by auto
      have more: "\<not> in_block buf fsize x \<or> in_block buf (min (copied + ?n) fsize) x"
        using 1(4) True by (auto intro: in_block_mono)
      have "m' x = ?m x"
        by (rule 1(1) [OF True, of ?n]) (use Some step 1(3) more in \<open>simp_all add: ISO_SECTOR_SIZE_def\<close>)
      also have "\<dots> = m x" using out by (intro mem_write_other) simp
      finally show ?thesis .
    qed (use 1(2) True iso_copy_loop_cases(2) in auto)
  qed (use 1(2) iso_copy_loop_cases(1) in auto)
qed

lemma mem_write_nth: "i < length bs \<Longrightarrow> length bs < 2 ^ 32 \<Longrightarrow> mem_write dst bs m (dst + of_nat i) = bs ! i"
  using mem_read_nth [of i "length bs" "mem_write dst bs m" dst] by (simp add: mem_write_read)

lemma iso_copy_loop_contents:
  "iso_copy_loop rd lba buf fsize copied m = (True, m') \<Longrightarrow> fsize < 2 ^ 32 \<Longrightarrow> 2048 dvd copied \<or> fsize \<le> copied \<Longrightarrow>
   copied \<le> i \<Longrightarrow> i < fsize \<Longrightarrow>
   \<exists>sec. rd (lba + of_nat (i div 2048)) = Some sec \<and> m' (buf + of_nat i) = sec (i mod 2048)"
proof (induction rd lba buf fsize copied m arbitrary: m' rule: iso_copy_loop.induct)
  case (1 rd lba buf fsize copied m)
  let ?n = "min (fsize - copied) 2048"
  have lt: "copied < fsize" and dvd: "2048 dvd copied" using 1(4-6) by auto
  show ?case
  proof (cases "rd (lba + of_nat (copied div 2048))")
    case None
    then show ?thesis using 1(2) iso_copy_loop_cases(2) [of copied fsize rd lba] lt by simp
  next
    case (Some sec)
    let ?m = "mem_write (buf + of_nat copied) (map sec [0..<?n]) m"
    have step: "iso_copy_loop rd lba buf fsize (copied + ?n) ?m = (True, m')"
      using 1(2) iso_copy_loop_cases(3) [where rd = rd, OF lt Some] by simp
    show ?thesis
    proof (cases "i < copied + ?n")
      case True
      obtain q where q: "copied = 2048 * q" using dvd by blast
      have j: "i - copied < ?n" "i div 2048 = copied div 2048" "i mod 2048 = i - copied"
      proof -
        obtain r where r: "i = 2048 * q + r" using 1(5) q le_Suc_ex by blast
        show "i - copied < ?n" "i div 2048 = copied div 2048" "i mod 2048 = i - copied"
          using True unfolding q r by auto
      qed
      have u: "unat (of_nat i :: u32) = i" using 1(3,6) by (intro unat_of_nat_exact) simp
      have "in_block buf (min (copied + ?n) fsize) (buf + of_nat i)"
        using True 1(6) by (simp add: in_block_def u)
      then have "m' (buf + of_nat i) = ?m (buf + of_nat i)"
        using iso_copy_loop_frame [OF step 1(3)] by blast
      also have "\<dots> = ?m (buf + of_nat copied + of_nat (i - copied))" using 1(5) by simp
      also have "\<dots> = sec (i - copied)" using j(1) by (subst mem_write_nth) simp_all
      finally show ?thesis using Some j by simp
    next
      case False
      with 1(1) [OF lt, of ?n] Some step 1(3,6) dvd show ?thesis
        by (simp add: ISO_SECTOR_SIZE_def)
    qed
  qed
qed

lemma iso_read_file_cases:
  assumes "iso_read_file_alloc env dev path s = Some (Some (buf, n), s')"
  obtains root vol cur cmp loc s1 m where
    "deref (skip_slashes path) \<noteq> NUL" "iso_read_pvd_root env dev = Some (root, vol)"
    "iso_extent_valid (lo_extent_lba root) (lo_size root) vol"
    "iso_path_loop env dev vol (skip_slashes path) root '''' = Some (Some (cur, cmp))" "cmp \<noteq> ''''"
    "iso_find_child env dev cur cmp = Some (Some loc)" "lo_flags loc AND 2 = 0"
    "iso_extent_valid (lo_extent_lba loc) (lo_size loc) vol" "lo_size loc \<le> ISO_FILE_MAX"
    "kmalloc (lo_size loc + 1) s = (buf, s1)" "buf \<noteq> NULL" "n = lo_size loc"
    "iso_copy_loop (read_sector env dev) (lo_extent_lba loc) buf (unat (lo_size loc)) 0 (mem s1) = (True, m)"
    "s' = s1\<lparr>mem := m(buf + lo_size loc := 0)\<rparr>"
  using assms unfolding iso_read_file_alloc_def iso_read_extent_def Let_def
  by (auto split: if_splits option.splits prod.splits)

lemma iso_read_file_extent:
  assumes "iso_read_file_alloc env dev path s = Some (r, s')"
  shows "s' = s \<or> (\<exists>loc. lo_size loc \<le> ISO_FILE_MAX \<and> iso_read_extent env dev loc s = (r, s'))"
  using assms unfolding iso_read_file_alloc_def Let_def
  by (auto split: if_splits option.splits prod.splits simp: not_less)

lemma skip_slashes_head: "deref (skip_slashes p) \<noteq> CHR ''/''"
  by (induction p) auto

text \<open>
  C22: reading a file from a disc.  When \<^verbatim>\<open>iso_read_file_alloc\<close> succeeds, the path denotes a
  file (not a directory) of at most 2 MB, \<open>n\<close> is its size, and the fresh buffer holds the
  bytes of the file's sectors in order, followed by a NUL; the memory outside the buffer is
  unchanged, and the heap is that of one allocation of \<open>n + 1\<close> bytes.
\<close>

theorem iso_read_file_correct:
  assumes "heap_inv (heap s)" and "iso_read_file_alloc env dev path s = Some (Some (buf, n), s')"
  shows "\<exists>loc s1. iso_resolve_path env dev path = Some (Some (loc, False)) \<and> n = lo_size loc \<and> n \<le> ISO_FILE_MAX \<and>
    kmalloc (n + 1) s = (buf, s1) \<and> buf \<noteq> NULL \<and> s' = s1\<lparr>mem := mem s'\<rparr> \<and> mem s1 = mem s \<and>
    (\<forall>i < unat n. \<exists>sec. read_sector env dev (lo_extent_lba loc + of_nat (i div 2048)) = Some sec \<and>
       mem s' (buf + of_nat i) = sec (i mod 2048)) \<and>
    mem s' (buf + n) = 0 \<and>
    (\<forall>x. \<not> in_block buf (unat n + 1) x \<longrightarrow> mem s' x = mem s x)"
  using assms(2)
proof (cases rule: iso_read_file_cases)
  case (1 root vol cur cmp loc s1 m)
  have res: "iso_resolve_path env dev path = Some (Some (loc, False))"
    using 1 by (simp add: iso_resolve_path_def)
  have small: "unat n \<le> 2097152" using 1 by (simp add: ISO_FILE_MAX_def word_le_nat_alt)
  have s1: "mem s1 = mem s" by (subst kmalloc_ok(5) [OF assms(1) 1(10,11)]) simp
  have fresh: "buf + of_nat i \<noteq> buf + n" if "i < unat n" for i
  proof -
    have "unat (of_nat i :: u32) = i" using that small by (intro unat_of_nat_exact) simp
    then show ?thesis using that by auto
  qed
  have data: "\<exists>sec. read_sector env dev (lo_extent_lba loc + of_nat (i div 2048)) = Some sec \<and>
      mem s' (buf + of_nat i) = sec (i mod 2048)" if "i < unat n" for i
    using iso_copy_loop_contents [OF 1(13), of i] that small fresh [OF that] 1(12,14) by simp
  have out: "mem s' x = mem s x" if "\<not> in_block buf (unat n + 1) x" for x
  proof -
    have "\<not> in_block buf (unat n) x" using that in_block_mono [of buf "unat n" x "unat n + 1"] by auto
    moreover have "x \<noteq> buf + n" using that by (auto simp: in_block_def)
    ultimately show ?thesis
      using iso_copy_loop_frame [OF 1(13), of x] small 1(12,14) s1 by simp
  qed
  show ?thesis
    by (rule exI [of _ loc], rule exI [of _ s1], intro conjI allI impI data out res)
      (use 1 s1 in simp_all)
qed

text \<open>
  C23: a listing and a lookup agree.  Every entry that listing a directory prints, with a
  name of fewer than 63 characters and no NUL in it, is found when it is looked up under
  the name that was printed, although the two functions normalise names separately.
\<close>

theorem iso_listed_name_found:
  assumes "iso_list_dir env dev dir = Some (True, es)" and "(m, d) \<in> set es"
    and "NUL \<notin> set m" and "length m < 63"
  shows "\<exists>loc. iso_find_child env dev dir m = Some (Some loc)"
proof -
  have "iso_scan (read_sector env dev) dir list_body 0 [] = Some (Inr (True, es))"
    using assms(1) unfolding iso_list_dir_def by (rule scan_result)
  from list_scan_found [OF this refl refl assms(2) _ assms(3,4)] show ?thesis
    by (auto simp: iso_find_child_def)
qed


theorem iso_listed_name_found_witness:
  "\<exists>loc. iso_find_child demo_iso 0 demo_root ''readme'' = Some (Some loc)"
  by (rule iso_listed_name_found [OF demo_list, of _ False]) simp_all

lemma demo_read: "map_option fst (iso_read_file_alloc demo_iso 0 ''/readme'' demo_kmem) = Some (Some (0x200000, 2))"
  by code_simp

theorem iso_read_file_correct_witness:
  "\<exists>s'. iso_read_file_alloc demo_iso 0 ''/readme'' demo_kmem = Some (Some (0x200000, 2), s') \<and>
     mem s' 0x200002 = 0"
proof -
  obtain s' where s': "iso_read_file_alloc demo_iso 0 ''/readme'' demo_kmem = Some (Some (0x200000, 2), s')"
    using demo_read by auto
  moreover have "heap_inv (heap demo_kmem)" by (simp add: demo_kmem_def demo_heap_inv)
  ultimately show ?thesis using iso_read_file_correct [OF _ s'] by auto
qed

text \<open>
  C35: looking a name up in a directory of at most \<open>2 ^ 32 - 2048\<close> bytes ends, whatever the
  device delivers, bad sectors and records included.
\<close>

theorem iso_find_child_terminates:
  assumes "unat (lo_size dir) + 2048 \<le> 2 ^ 32"
  shows "iso_find_child env dev dir name \<noteq> None"
  using iso_find_child_returns_some [OF assms] by simp

theorem iso_find_child_terminates_witness: "iso_find_child demo_iso 0 demo_root ''x'' \<noteq> None"
  by (rule iso_find_child_terminates) simp

end
