(* ===== verification/Fs.thy ===== *)
theory Fs
  imports Iso Tables
begin

text \<open>
  \<^verbatim>\<open>kernel/fs.c\<close>, second half: the mount table and the calls that go through it.  A
  \<^verbatim>\<open>const struct fs_ops *\<close> is one of the constant tables of the file or null; its members are
  called through the four \<open>fs_ops_\<close> functions.  The listings of a directory and of the mounts
  are the texts that are sent to the console; the colour that is set and put back around the
  name of a directory is left out.  The outer option of a result is \<open>None\<close> when the scan of a
  directory does not end (see \<^verbatim>\<open>Iso\<close>).
\<close>

section \<open>Data\<close>

definition MAX_MOUNTS :: nat where "MAX_MOUNTS = 8"

datatype fs_ops = ISO9660_OPS

record mount_entry =
  mt_used :: bool
  mt_path :: string
  mt_fs_name :: string
  mt_device_id :: int
  mt_ops :: "fs_ops option"

text \<open>The mount table, with the devices that the mounted file systems read.\<close>

record fs_state = iso_env +
  mounts :: "mount_entry list"
  mounts_used :: u32

abbreviation blank_mount :: mount_entry where
  "blank_mount \<equiv> \<lparr>mt_used = False, mt_path = '''', mt_fs_name = '''', mt_device_id = - 1, mt_ops = None\<rparr>"

section \<open>The ISO 9660 operations\<close>

definition or_root :: "string option \<Rightarrow> string" where
  "or_root path = (case path of Some p \<Rightarrow> p | None \<Rightarrow> ''/'')"

definition iso_ops_read_file ::
  "'e iso_env_scheme \<Rightarrow> int \<Rightarrow> string \<Rightarrow> 'a kmem_scheme \<Rightarrow> ((u32 \<times> u32) option \<times> 'a kmem_scheme) option" where
  "iso_ops_read_file env device_id path s = iso_read_file_alloc env device_id path s"

definition iso_ops_list_dir :: "'e iso_env_scheme \<Rightarrow> int \<Rightarrow> string option \<Rightarrow> (bool \<times> fs_dir_entry list) option" where
  "iso_ops_list_dir env device_id path =
     (case iso_resolve_path env device_id (or_root path) of
        None \<Rightarrow> None
      | Some None \<Rightarrow> Some (False, [])
      | Some (Some (loc, is_dir)) \<Rightarrow> if \<not> is_dir then Some (False, []) else iso_list_dir env device_id loc)"

definition iso_ops_path_is_dir :: "'e iso_env_scheme \<Rightarrow> int \<Rightarrow> string option \<Rightarrow> bool option" where
  "iso_ops_path_is_dir env device_id path =
     (case iso_resolve_path env device_id (or_root path) of
        None \<Rightarrow> None
      | Some None \<Rightarrow> Some False
      | Some (Some (loc, is_dir)) \<Rightarrow> Some is_dir)"

definition iso_ops_list_dir_entries ::
  "'e iso_env_scheme \<Rightarrow> int \<Rightarrow> string option \<Rightarrow> nat \<Rightarrow> fs_dir_entry list option option" where
  "iso_ops_list_dir_entries env device_id path max_entries =
     (case iso_resolve_path env device_id (or_root path) of
        None \<Rightarrow> None
      | Some None \<Rightarrow> Some None
      | Some (Some (loc, is_dir)) \<Rightarrow>
          if \<not> is_dir then Some None else iso_list_dir_entries env device_id loc max_entries)"

fun fs_ops_read_file where "fs_ops_read_file ISO9660_OPS = iso_ops_read_file"
fun fs_ops_list_dir where "fs_ops_list_dir ISO9660_OPS = iso_ops_list_dir"
fun fs_ops_path_is_dir where "fs_ops_path_is_dir ISO9660_OPS = iso_ops_path_is_dir"
fun fs_ops_list_dir_entries where "fs_ops_list_dir_entries ISO9660_OPS = iso_ops_list_dir_entries"

section \<open>The mount table\<close>

definition fs_ops_for_name :: "string \<Rightarrow> fs_ops option" where
  "fs_ops_for_name fs_name = (if str_eq fs_name ''iso9660'' then Some ISO9660_OPS else None)"

definition is_known_fs :: "string \<Rightarrow> bool" where
  "is_known_fs fs_name \<longleftrightarrow> str_eq fs_name ''memfs'' \<or> fs_ops_for_name fs_name \<noteq> None"

definition mounts_reset :: "fs_state \<Rightarrow> fs_state" where
  "mounts_reset fs = fs\<lparr>mounts := replicate MAX_MOUNTS blank_mount, mounts_used := 0\<rparr>"

definition find_mount :: "fs_state \<Rightarrow> string option \<Rightarrow> mount_entry option" where
  "find_mount fs path =
     (case path of
        None \<Rightarrow> None
      | Some p \<Rightarrow>
          map_option (\<lambda>i. mounts fs ! i)
            (find_index (\<lambda>m. mt_used m \<and> str_eq (mt_path m) p) (take (unat (mounts_used fs)) (mounts fs))))"

text \<open>\<^verbatim>\<open>fs_name\<close> is read before the test for null, so here it is a string.\<close>

definition fs_mount :: "string option \<Rightarrow> string \<Rightarrow> int \<Rightarrow> fs_state \<Rightarrow> bool \<times> fs_state" where
  "fs_mount path fs_name device_id fs =
     (let ops = fs_ops_for_name fs_name in
      case path of
        None \<Rightarrow> (False, fs)
      | Some p \<Rightarrow>
          if unat (mounts_used fs) \<ge> MAX_MOUNTS \<or> \<not> is_known_fs fs_name then (False, fs)
          else if deref p \<noteq> CHR ''/'' then (False, fs)
          else if \<not> str_eq fs_name ''memfs'' \<and> storage_get_device (ie_storage fs) device_id = None then (False, fs)
          else
            let i = unat (mounts_used fs); e = mounts fs ! i in
            (True, fs\<lparr>mounts := (mounts fs)[i :=
                \<lparr>mt_used = True, mt_path = str_copy (mt_path e) p 16, mt_fs_name = str_copy (mt_fs_name e) fs_name 16,
                 mt_device_id = device_id, mt_ops = ops\<rparr>],
              mounts_used := mounts_used fs + 1\<rparr>))"

definition fs_mounts :: "fs_state \<Rightarrow> mount_entry list" where "fs_mounts fs = mounts fs"
definition fs_mount_count :: "fs_state \<Rightarrow> u32" where "fs_mount_count fs = mounts_used fs"

definition fs_init :: "fs_state \<Rightarrow> fs_state" where
  "fs_init fs =
     (let fs = mounts_reset fs; fs = snd (fs_mount (Some ''/'') ''memfs'' (- 1) fs) in
      case storage_find_device (ie_storage fs) ''cd0'' of
        None \<Rightarrow> fs
      | Some cd0 \<Rightarrow> snd (fs_mount (Some ''/mount/cdrom'') ''iso9660'' (bd_id cd0) fs))"

section \<open>Texts\<close>

abbreviation newline :: string where "newline \<equiv> [CHR 0x0A]"

definition fs_print_list_entry :: "fs_dir_entry \<Rightarrow> string" where
  "fs_print_list_entry e = (case e of (name, is_dir) \<Rightarrow> name @ (if is_dir then ''/'' else []) @ newline)"

definition fs_print_mounts :: "fs_state \<Rightarrow> string" where
  "fs_print_mounts fs =
     (if mounts_used fs = 0 then ''(no mounts)'' @ newline
      else concat (map (\<lambda>m. mt_fs_name m @ '' on '' @ mt_path m @
             (if mt_device_id m \<ge> 0 then '' dev='' @
                (case storage_get_device (ie_storage fs) (mt_device_id m) of
                   Some dev \<Rightarrow> bd_name dev | None \<Rightarrow> ''unknown'') else []) @ newline)
           (take (unat (mounts_used fs)) (mounts fs))))"

section \<open>Calls through a mount\<close>

definition fs_read_file_from_mount ::
  "fs_state \<Rightarrow> string option \<Rightarrow> string option \<Rightarrow> 'a kmem_scheme \<Rightarrow> ((u32 \<times> u32) option \<times> 'a kmem_scheme) option" where
  "fs_read_file_from_mount fs mount_path path s =
     (case (find_mount fs mount_path, path) of
        (Some m, Some p) \<Rightarrow>
          if mt_device_id m < 0 then Some (None, s)
          else (case mt_ops m of
                  Some ops \<Rightarrow> fs_ops_read_file ops fs (mt_device_id m) p s
                | None \<Rightarrow> Some (None, s))
      | _ \<Rightarrow> Some (None, s))"

definition fs_list_dir_from_mount ::
  "fs_state \<Rightarrow> string option \<Rightarrow> string option \<Rightarrow> (bool \<times> fs_dir_entry list) option" where
  "fs_list_dir_from_mount fs mount_path path =
     (case find_mount fs mount_path of
        None \<Rightarrow> Some (False, [])
      | Some m \<Rightarrow>
          if mt_device_id m < 0 then Some (False, [])
          else (case mt_ops m of
                  Some ops \<Rightarrow> fs_ops_list_dir ops fs (mt_device_id m) (Some (or_root path))
                | None \<Rightarrow> Some (False, [])))"

definition fs_path_is_dir_from_mount :: "fs_state \<Rightarrow> string option \<Rightarrow> string option \<Rightarrow> bool option" where
  "fs_path_is_dir_from_mount fs mount_path path =
     (case find_mount fs mount_path of
        None \<Rightarrow> Some False
      | Some m \<Rightarrow>
          if mt_device_id m < 0 then Some False
          else (case mt_ops m of
                  Some ops \<Rightarrow> fs_ops_path_is_dir ops fs (mt_device_id m) (Some (or_root path))
                | None \<Rightarrow> Some False))"

definition fs_list_dir_entries_from_mount ::
  "fs_state \<Rightarrow> string option \<Rightarrow> string option \<Rightarrow> nat \<Rightarrow> fs_dir_entry list option option" where
  "fs_list_dir_entries_from_mount fs mount_path path max_entries =
     (case find_mount fs mount_path of
        None \<Rightarrow> Some None
      | Some m \<Rightarrow>
          if mt_device_id m < 0 \<or> max_entries = 0 then Some None
          else (case mt_ops m of
                  Some ops \<Rightarrow> fs_ops_list_dir_entries ops fs (mt_device_id m) (Some (or_root path)) max_entries
                | None \<Rightarrow> Some None))"

section \<open>The interface of a file system\<close>

text \<open>
  What the callers of \<^verbatim>\<open>struct fs_ops\<close> rely on: only files are read, only directories are
  listed, and a bounded listing is the beginning of the full one.
\<close>

locale file_system =
  fixes read_file :: "string \<Rightarrow> 's \<Rightarrow> ((u32 \<times> u32) option \<times> 's) option"
    and list_dir :: "string \<Rightarrow> (bool \<times> fs_dir_entry list) option"
    and path_is_dir :: "string \<Rightarrow> bool option"
    and list_dir_entries :: "string \<Rightarrow> nat \<Rightarrow> fs_dir_entry list option option"
  assumes read_file_not_dir: "read_file p s = Some (Some r, s') \<Longrightarrow> path_is_dir p = Some False"
    and list_dir_dir: "list_dir p = Some (True, es) \<Longrightarrow> path_is_dir p = Some True"
    and entries_dir: "list_dir_entries p n = Some (Some es) \<Longrightarrow> path_is_dir p = Some True"
    and entries_of_list: "list_dir p = Some (True, es) \<Longrightarrow> 0 < n \<Longrightarrow> list_dir_entries p n = Some (Some (take n es))"
begin

lemma listed_not_read: "list_dir p = Some (True, es) \<Longrightarrow> read_file p s \<noteq> Some (Some r, s')"
  by (rule notI, drule read_file_not_dir, drule list_dir_dir) simp

lemma entries_not_read: "list_dir_entries p n = Some (Some es) \<Longrightarrow> read_file p s \<noteq> Some (Some r, s')"
  by (rule notI, drule read_file_not_dir, drule entries_dir) simp

text \<open>The buffer of a bounded listing holds at most so many entries, and growing it keeps them.\<close>

lemma entries_bounded:
  "list_dir p = Some (True, es) \<Longrightarrow> list_dir_entries p n = Some (Some es') \<Longrightarrow> 0 < n \<Longrightarrow>
   length es' \<le> n \<and> es' = take n es"
  using entries_of_list by fastforce

end

text \<open>Two scans of the same directory whose bodies compute related values.\<close>

lemma iso_scan_image:
  assumes "iso_scan rd dir body offset acc = Some r"
  shows "(\<And>rc n a. body' rc n (f a) = map_sum g f (body rc n a)) \<Longrightarrow>
    iso_scan rd dir body' offset (f acc) = Some (map_sum g (apsnd f) r)"
  using assms
proof (induction rule: iso_scan.raw_induct [rotated, consumes 1])
  case (1 scan rd dir body offset acc r)
  show ?case
  proof (cases "offset < lo_size dir \<and> rd (lo_extent_lba dir + offset div ISO_SECTOR_SIZE) \<noteq> None")
    case False
    then show ?thesis using 1(2) by (auto simp: iso_scan_end split: if_splits option.splits)
  next
    case True
    then obtain sec where lt: "offset < lo_size dir" and sec: "rd (lo_extent_lba dir + offset div ISO_SECTOR_SIZE) = Some sec"
      by auto
    define so n rc where "so = unat (offset mod ISO_SECTOR_SIZE)" and "n = unat (sec so)" and "rc = (\<lambda>i. sec (so + i))"
    note step = iso_scan_step [where rd = rd and dir = dir and offset = offset and sec = sec and so = so
        and n = n and rc = rc and body = body' and acc = "f acc", OF lt sec so_def n_def rc_def]
    have eq: "(if n = 0 then scan rd dir body ((offset div ISO_SECTOR_SIZE + 1) * ISO_SECTOR_SIZE) acc
       else if so + n > unat ISO_SECTOR_SIZE \<or> n < 34 then Some (Inr (False, acc))
       else if rc 32 = 1 \<and> (rc 33 = 0 \<or> rc 33 = 1) then scan rd dir body (offset + of_nat n) acc
       else case body rc n acc of Inl r \<Rightarrow> Some (Inl r) | Inr acc' \<Rightarrow> scan rd dir body (offset + of_nat n) acc') = Some r"
      using 1(2) unfolding so_def n_def rc_def by (simp only: lt sec if_True option.case Let_def)
    show ?thesis
      unfolding step using eq 1(1) 1(3)
      by (cases "body rc n acc") (auto split: if_splits)
  qed
qed

lemma iso_list_entries:
  assumes "iso_list_dir env dev dir = Some (True, es)"
  shows "iso_list_dir_entries env dev dir n = Some (Some (take n es))"
proof -
  have s: "iso_scan (read_sector env dev) dir list_body 0 [] = Some (Inr (True, es))"
    using assms unfolding iso_list_dir_def by (rule scan_result)
  show ?thesis
    unfolding iso_list_dir_entries_def
    by (subst iso_scan_image [OF s, of _ "take n" "\<lambda>_. ()", simplified]) (auto simp: take_Cons')
qed

interpretation iso_fs: file_system "iso_ops_read_file env dev" "\<lambda>p. iso_ops_list_dir env dev (Some p)"
  "\<lambda>p. iso_ops_path_is_dir env dev (Some p)" "\<lambda>p. iso_ops_list_dir_entries env dev (Some p)" for env dev
proof (unfold_locales, goal_cases)
  case (1 p s r s')
  then obtain buf n where "iso_read_file_alloc env dev p s = Some (Some (buf, n), s')"
    by (cases r) (simp add: iso_ops_read_file_def)
  then show ?case
    by (cases rule: iso_read_file_cases) (simp add: iso_ops_path_is_dir_def iso_resolve_path_def or_root_def)
next
  case (2 p es)
  then show ?case
    by (auto simp: iso_ops_path_is_dir_def iso_ops_list_dir_def split: option.splits if_splits)
next
  case (3 p n es)
  then show ?case
    by (auto simp: iso_ops_path_is_dir_def iso_ops_list_dir_entries_def split: option.splits if_splits)
next
  case (4 p es n)
  then show ?case
    by (auto simp: iso_ops_list_dir_def iso_ops_list_dir_entries_def iso_list_entries split: option.splits if_splits)
qed

lemma fs_ops_dispatch:
  "fs_ops_read_file ops = iso_ops_read_file" "fs_ops_list_dir ops = iso_ops_list_dir"
  "fs_ops_path_is_dir ops = iso_ops_path_is_dir" "fs_ops_list_dir_entries ops = iso_ops_list_dir_entries"
  by (cases ops; simp)+

text \<open>The calls through a mount keep the interface, whatever is mounted.\<close>

interpretation mounted_fs: file_system "\<lambda>p. fs_read_file_from_mount fs mp (Some p)"
  "\<lambda>p. fs_list_dir_from_mount fs mp (Some p)" "\<lambda>p. fs_path_is_dir_from_mount fs mp (Some p)"
  "\<lambda>p. fs_list_dir_entries_from_mount fs mp (Some p)" for fs mp
proof (unfold_locales, goal_cases)
  case (1 p s r s')
  then show ?case
    using iso_fs.read_file_not_dir [of fs _ p s r s']
    by (auto simp: fs_read_file_from_mount_def fs_path_is_dir_from_mount_def or_root_def
        fs_ops_dispatch split: option.splits if_splits)
next
  case (2 p es)
  then show ?case
    using iso_fs.list_dir_dir [of fs _ p es]
    by (auto simp: fs_list_dir_from_mount_def fs_path_is_dir_from_mount_def or_root_def
        fs_ops_dispatch split: option.splits if_splits)
next
  case (3 p n es)
  then show ?case
    using iso_fs.entries_dir [of fs _ p n es]
    by (auto simp: fs_list_dir_entries_from_mount_def fs_path_is_dir_from_mount_def or_root_def
        fs_ops_dispatch split: option.splits if_splits)
next
  case (4 p es n)
  then show ?case
    using iso_fs.entries_of_list [of fs _ p es n]
    by (auto simp: fs_list_dir_entries_from_mount_def fs_list_dir_from_mount_def or_root_def
        fs_ops_dispatch split: option.splits if_splits)
qed

section \<open>The mount table\<close>

definition fs_inv :: "'a fs_state_scheme \<Rightarrow> bool" where
  "fs_inv fs \<longleftrightarrow> length (mounts fs) = MAX_MOUNTS \<and> unat (mounts_used fs) \<le> MAX_MOUNTS \<and>
     (\<forall>i < unat (mounts_used fs). mt_used (mounts fs ! i) \<and> is_known_fs (mt_fs_name (mounts fs ! i)) \<and>
        deref (mt_path (mounts fs ! i)) = CHR ''/'' \<and> mt_ops (mounts fs ! i) = fs_ops_for_name (mt_fs_name (mounts fs ! i)))"

text \<open>Appending to the searched part of a table.\<close>

lemma find_index_append:
  "find_index P (xs @ ys) = (case find_index P xs of Some i \<Rightarrow> Some i
     | None \<Rightarrow> map_option (\<lambda>i. length xs + i) (find_index P ys))"
  by (cases "find_index P ys"; induction xs) (auto split: option.splits)

lemma known_fs_iff: "is_known_fs f \<longleftrightarrow> cstr f = ''memfs'' \<or> cstr f = ''iso9660''"
  by (auto simp: is_known_fs_def fs_ops_for_name_def str_eq_iff)

lemma known_fs_take: "is_known_fs f \<Longrightarrow> take 15 (cstr f) = cstr f"
  by (auto simp: known_fs_iff)

lemma fs_mount_spec:
  assumes "fs_inv fs" and "fs_mount path f dev fs = (ok, fs')"
  shows "(\<not> ok \<longleftrightarrow> path = None \<or> deref (the path) \<noteq> CHR ''/'' \<or> unat (mounts_used fs) = MAX_MOUNTS \<or>
      \<not> (cstr f = ''memfs'' \<or> cstr f = ''iso9660'' \<and> storage_get_device (ie_storage fs) dev \<noteq> None)) \<and>
    (\<not> ok \<longrightarrow> fs' = fs) \<and>
    (ok \<longrightarrow> fs_inv fs' \<and> ie_storage fs' = ie_storage fs \<and> fs_mount_count fs' = fs_mount_count fs + 1 \<and>
      (\<forall>q. find_mount fs' (Some q) =
        (case find_mount fs (Some q) of
           Some m \<Rightarrow> Some m
         | None \<Rightarrow> if cstr q = take 15 (cstr (the path))
             then Some \<lparr>mt_used = True, mt_path = take 15 (cstr (the path)), mt_fs_name = cstr f, mt_device_id = dev,
               mt_ops = (if cstr f = ''iso9660'' then Some ISO9660_OPS else None)\<rparr>
             else None)))"
proof (cases "path \<noteq> None \<and> deref (the path) = CHR ''/'' \<and> unat (mounts_used fs) < MAX_MOUNTS \<and>
    (cstr f = ''memfs'' \<or> cstr f = ''iso9660'' \<and> storage_get_device (ie_storage fs) dev \<noteq> None)")
  case False
  then have "\<not> ok \<and> fs' = fs"
    using assms(2) by (auto simp: fs_mount_def Let_def known_fs_iff str_eq_iff split: option.splits if_splits)
  then show ?thesis using False assms(1) by (auto simp: fs_inv_def)
next
  case True
  then obtain p where p: "path = Some p" by auto
  let ?i = "unat (mounts_used fs)"
  let ?e = "\<lparr>mt_used = True, mt_path = take 15 (cstr p), mt_fs_name = cstr f, mt_device_id = dev, mt_ops = fs_ops_for_name f\<rparr>"
  have known: "is_known_fs f" and i: "?i < 8" using True by (auto simp: known_fs_iff MAX_MOUNTS_def)
  have ok: "ok" and fs': "fs' = fs\<lparr>mounts := (mounts fs)[?i := ?e], mounts_used := mounts_used fs + 1\<rparr>"
    using assms(2) True known known_fs_take [OF known]
    by (auto simp: fs_mount_def p Let_def str_eq_iff str_copy_eq split: if_splits)
  have u: "unat (mounts_used fs + 1) = Suc ?i" using i by (subst unat_add_exact) simp_all
  have len: "length (mounts fs) = 8" using assms(1) by (simp add: fs_inv_def MAX_MOUNTS_def)
  have tk: "take (Suc ?i) ((mounts fs)[?i := ?e]) = take ?i (mounts fs) @ [?e]"
    using i len by (simp add: take_Suc_conv_app_nth)
  have "deref (take 15 (cstr p)) = CHR ''/''" using True p by (cases p) auto
  then have inv: "fs_inv fs'"
    using assms(1) i known by (auto simp: fs' fs_inv_def u MAX_MOUNTS_def nth_list_update less_Suc_eq
        known_fs_iff fs_ops_for_name_def str_eq_iff)
  have q: "cstr q = take 15 (cstr p) \<longleftrightarrow> cstr (take 15 (cstr p)) = cstr q" for q
    using in_set_takeD [of NUL 15 "cstr p"] by (subst (2) cstr_id) auto
  have find: "find_mount fs' (Some q) = (case find_mount fs (Some q) of Some m \<Rightarrow> Some m
      | None \<Rightarrow> if cstr q = take 15 (cstr p) then Some ?e else None)" for q
  proof (cases "find_index (\<lambda>m. mt_used m \<and> str_eq (mt_path m) q) (take ?i (mounts fs))")
    case None
    then show ?thesis
      using i len by (simp add: find_mount_def fs' u tk find_index_append q str_eq_iff)
  next
    case (Some k)
    then have "k < ?i" using find_index_SomeD(1) [OF Some] by simp
    with Some show ?thesis by (simp add: find_mount_def fs' u tk find_index_append)
  qed
  have ops: "(if cstr f = ''iso9660'' then Some ISO9660_OPS else None) = fs_ops_for_name f"
    by (simp add: fs_ops_for_name_def str_eq_iff)
  have "ie_storage fs' = ie_storage fs" "fs_mount_count fs' = fs_mount_count fs + 1"
    by (simp_all add: fs' fs_mount_count_def)
  then show ?thesis unfolding ops p option.sel using True ok inv find by (simp add: p)
qed


lemma fs_mount_facts:
  assumes "fs_inv fs" and "fs_mount path f dev fs = (ok, fs')"
  shows "\<not> ok \<longleftrightarrow> path = None \<or> deref (the path) \<noteq> CHR ''/'' \<or> unat (mounts_used fs) = MAX_MOUNTS \<or>
      \<not> (cstr f = ''memfs'' \<or> cstr f = ''iso9660'' \<and> storage_get_device (ie_storage fs) dev \<noteq> None)"
    and "\<not> ok \<Longrightarrow> fs' = fs" and "ok \<Longrightarrow> fs_inv fs'" and "ok \<Longrightarrow> ie_storage fs' = ie_storage fs"
    and "ok \<Longrightarrow> fs_mount_count fs' = fs_mount_count fs + 1"
    and "ok \<Longrightarrow> find_mount fs' (Some q) =
        (case find_mount fs (Some q) of
           Some m \<Rightarrow> Some m
         | None \<Rightarrow> if cstr q = take 15 (cstr (the path))
             then Some \<lparr>mt_used = True, mt_path = take 15 (cstr (the path)), mt_fs_name = cstr f, mt_device_id = dev,
               mt_ops = (if cstr f = ''iso9660'' then Some ISO9660_OPS else None)\<rparr>
             else None)"
  using fs_mount_spec [OF assms] by blast+

text \<open>
  C36: mounting.  \<^verbatim>\<open>fs_mount\<close> fails, and then changes nothing, exactly for a null or relative
  path, an unknown file system name, a full table, or an \<open>iso9660\<close> mount of a device that is
  not registered.  Otherwise the mount point is found under its path, cut to 15 characters,
  with the operations of its file system and the device, unless that path was mounted before:
  the older mount keeps priority.  Lookups of every other path are unchanged.
\<close>

theorem fs_mount_correct:
  assumes "fs_inv fs" and "fs_mount path f dev fs = (ok, fs')"
  shows "(\<not> ok \<longleftrightarrow> path = None \<or> deref (the path) \<noteq> CHR ''/'' \<or> unat (mounts_used fs) = MAX_MOUNTS \<or>
      \<not> (cstr f = ''memfs'' \<or> cstr f = ''iso9660'' \<and> storage_get_device (ie_storage fs) dev \<noteq> None)) \<and>
    (\<not> ok \<longrightarrow> fs' = fs) \<and>
    (ok \<longrightarrow> fs_inv fs' \<and> ie_storage fs' = ie_storage fs \<and> fs_mount_count fs' = fs_mount_count fs + 1 \<and>
      (\<forall>q. find_mount fs' (Some q) =
        (case find_mount fs (Some q) of
           Some m \<Rightarrow> Some m
         | None \<Rightarrow> if cstr q = take 15 (cstr (the path))
             then Some \<lparr>mt_used = True, mt_path = take 15 (cstr (the path)), mt_fs_name = cstr f, mt_device_id = dev,
               mt_ops = (if cstr f = ''iso9660'' then Some ISO9660_OPS else None)\<rparr>
             else None)))"
  by (rule fs_mount_spec [OF assms])

lemma storage_find_get:
  assumes "storage_inv st" and "storage_find_device st name = Some d"
  shows "storage_get_device st (bd_id d) = Some d"
proof -
  obtain i where i: "i < unat (device_count st)" "i < length (devices st)" "d = devices st ! i"
    using assms(2) by (auto simp: storage_find_device_def dest!: find_index_SomeD(1))
  then have id: "bd_id d = int i" using assms(1) by (simp add: storage_inv_def)
  moreover have "i < 8" using i(1) count_small [OF assms(1)] by simp
  moreover have "int i < uint (device_count st)" using i(1) nat_less_unat_iff [of "int i" "device_count st"] by simp
  ultimately show ?thesis using storage_get_device_eq [OF assms(1), of "int i"] i(3) by simp
qed

lemma fs_init_facts:
  assumes "storage_inv (ie_storage fs)"
  shows "fs_inv (fs_init fs) \<and> ie_storage (fs_init fs) = ie_storage fs \<and>
    find_mount (fs_init fs) (Some q) =
      (if cstr q = ''/'' then Some \<lparr>mt_used = True, mt_path = ''/'', mt_fs_name = ''memfs'', mt_device_id = - 1, mt_ops = None\<rparr>
       else if cstr q = ''/mount/cdrom'' then
         map_option (\<lambda>d. \<lparr>mt_used = True, mt_path = ''/mount/cdrom'', mt_fs_name = ''iso9660'', mt_device_id = bd_id d,
           mt_ops = Some ISO9660_OPS\<rparr>) (storage_find_device (ie_storage fs) ''cd0'')
       else None)"
proof -
  define fs0 where "fs0 = mounts_reset fs"
  obtain ok1 fs1 where m1: "fs_mount (Some ''/'') ''memfs'' (- 1) fs0 = (ok1, fs1)" by fastforce
  have inv0: "fs_inv fs0" and used0: "mounts_used fs0 = 0" and st0: "ie_storage fs0 = ie_storage fs"
    by (simp_all add: fs0_def mounts_reset_def fs_inv_def)
  have none: "find_mount fs0 (Some q) = None" by (simp add: find_mount_def used0)
  note c1 = fs_mount_facts [OF inv0 m1]
  have ok1: "ok1" using c1(1) used0 by (simp add: MAX_MOUNTS_def)
  have used1: "unat (mounts_used fs1) = 1" using c1(5) [OF ok1] used0 by (simp add: fs_mount_count_def)
  show ?thesis
  proof (cases "storage_find_device (ie_storage fs) ''cd0''")
    case None
    then have "fs_init fs = fs1" using m1 c1(4) [OF ok1] st0 by (simp add: fs_init_def Let_def flip: fs0_def)
    then show ?thesis using None c1(3,4,6) [OF ok1] none st0 by simp
  next
    case (Some cd0)
    obtain ok2 fs2 where m2: "fs_mount (Some ''/mount/cdrom'') ''iso9660'' (bd_id cd0) fs1 = (ok2, fs2)" by fastforce
    note c2 = fs_mount_facts [OF c1(3) [OF ok1] m2]
    have "storage_get_device (ie_storage fs) (bd_id cd0) \<noteq> None"
      using storage_find_get [OF assms Some] by simp
    then have ok2: "ok2" using c2(1) used1 c1(4) [OF ok1] st0 by (simp add: MAX_MOUNTS_def)
    have "fs_init fs = fs2" using m1 m2 c1(4) [OF ok1] st0 Some by (simp add: fs_init_def Let_def flip: fs0_def)
    then show ?thesis
      using Some c2(3,4,6) [OF ok2] c1(4,6) [OF ok1] none st0 by simp
  qed
qed

text \<open>
  Starting the file systems.  After \<^verbatim>\<open>fs_init\<close> the root is a \<open>memfs\<close> mount without
  device, and \<^verbatim>\<open>/mount/cdrom\<close> is an \<open>iso9660\<close> mount of the device registered as \<^verbatim>\<open>cd0\<close> when
  there is one; no other path is mounted.
\<close>

theorem fs_init_correct:
  assumes "storage_inv (ie_storage fs)"
  shows "fs_inv (fs_init fs) \<and> ie_storage (fs_init fs) = ie_storage fs \<and>
    find_mount (fs_init fs) (Some q) =
      (if cstr q = ''/'' then Some \<lparr>mt_used = True, mt_path = ''/'', mt_fs_name = ''memfs'', mt_device_id = - 1, mt_ops = None\<rparr>
       else if cstr q = ''/mount/cdrom'' then
         map_option (\<lambda>d. \<lparr>mt_used = True, mt_path = ''/mount/cdrom'', mt_fs_name = ''iso9660'', mt_device_id = bd_id d,
           mt_ops = Some ISO9660_OPS\<rparr>) (storage_find_device (ie_storage fs) ''cd0'')
       else None)"
  by (rule fs_init_facts [OF assms])

text \<open>
  The ways to look at a mounted directory agree.  When listing a path through a mount
  prints the entries \<open>es\<close>, the path is reported to be a directory, the bounded listing that
  system calls use returns the first \<open>n\<close> of \<open>es\<close>, and reading the path as a file fails.
\<close>

theorem fs_listing_agrees:
  assumes "fs_list_dir_from_mount fs mp (Some p) = Some (True, es)" and "0 < n"
  shows "fs_list_dir_entries_from_mount fs mp (Some p) n = Some (Some (take n es)) \<and>
    fs_path_is_dir_from_mount fs mp (Some p) = Some True \<and>
    fs_read_file_from_mount fs mp (Some p) s \<noteq> Some (Some r, s')"
  using mounted_fs.entries_of_list [OF assms] mounted_fs.list_dir_dir [OF assms(1)]
    mounted_fs.listed_not_read [OF assms(1)] by blast

section \<open>Witnesses\<close>

definition demo_fs :: fs_state where
  "demo_fs = fs_init (iso_env.extend demo_iso (fs_state.fields [] 0))"

lemma demo_storage_inv: "storage_inv (ie_storage demo_iso)"
  unfolding demo_iso_def iso_env.select_convs
  by (rule storage_register_inv [OF storage_empty_inv surjective_pairing])

lemma demo_fs_list: "fs_list_dir_from_mount demo_fs (Some ''/mount/cdrom'') (Some ''/'') = Some (True, [(''readme'', False)])"
  by code_simp

theorem fs_listing_agrees_witness:
  "fs_list_dir_entries_from_mount demo_fs (Some ''/mount/cdrom'') (Some ''/'') 4 = Some (Some [(''readme'', False)])"
  using fs_listing_agrees [OF demo_fs_list, of 4 demo_kmem] by simp

theorem fs_init_correct_witness:
  "find_mount demo_fs (Some ''/mount/cdrom'') =
     Some \<lparr>mt_used = True, mt_path = ''/mount/cdrom'', mt_fs_name = ''iso9660'', mt_device_id = 0, mt_ops = Some ISO9660_OPS\<rparr>"
proof -
  have "map_option bd_id (storage_find_device (ie_storage demo_iso) ''cd0'') = Some 0" by code_simp
  then show ?thesis
    using fs_init_correct [of "iso_env.extend demo_iso (fs_state.fields [] 0)" "''/mount/cdrom''"] demo_storage_inv
    by (auto simp: demo_fs_def fs_state.defs iso_env.defs)
qed

theorem fs_mount_correct_witness:
  "find_mount (snd (fs_mount (Some ''/cd'') ''iso9660'' 0 demo_fs)) (Some ''/cd'') =
     Some \<lparr>mt_used = True, mt_path = ''/cd'', mt_fs_name = ''iso9660'', mt_device_id = 0, mt_ops = Some ISO9660_OPS\<rparr>"
proof -
  have inv: "fs_inv demo_fs"
    using fs_init_facts [of "iso_env.extend demo_iso (fs_state.fields [] 0)"] demo_storage_inv
    by (auto simp: demo_fs_def fs_state.defs iso_env.defs)
  have ok: "fst (fs_mount (Some ''/cd'') ''iso9660'' 0 demo_fs)" by code_simp
  have none: "find_mount demo_fs (Some ''/cd'') = None" by code_simp
  show ?thesis
    using fs_mount_correct [OF inv surjective_pairing, of "Some ''/cd''" "''iso9660''" 0] ok none by simp
qed

end
