(* ===== verification/Vfs.thy ===== *)
theory Vfs
  imports Fs Ktypes
begin

text \<open>
  \<^verbatim>\<open>kernel/vfs.c\<close>: the in-memory tree of files and directories, in front of the CD-ROM that is
  mounted on \<^verbatim>\<open>/mount/cdrom\<close> and seen again under \<^verbatim>\<open>/bin\<close>.  A node lives in the kernel heap;
  \<open>vfs_nodes\<close> gives the structure at an address that \<^verbatim>\<open>vfs_alloc_node\<close> returned, and the bytes
  of the files are in \<open>mem\<close>.  An operation is a state-passing function into \<open>option\<close>: \<open>None\<close>
  is the dereference of an address without a node, a chain of siblings that does not end or
  a CD-ROM directory whose scan does not end; \<^verbatim>\<open>VfsInv\<close> and \<^verbatim>\<open>VfsSpec\<close> show that the tree
  itself never causes it.  Path arguments may be null pointers and are of type
  \<open>string option\<close>.
\<close>

section \<open>Data\<close>

definition VFS_NAME_MAX :: nat where "VFS_NAME_MAX = 31"
definition VFS_PATH_MAX :: nat where "VFS_PATH_MAX = 128"
definition sizeof_vfs_node :: u32 where "sizeof_vfs_node = 56"

datatype vfs_node_type = VFS_NODE_DIR | VFS_NODE_FILE

record vfs_node =
  vn_name :: string
  vn_type :: vfs_node_type
  vn_parent :: u32
  vn_first_child :: u32
  vn_next_sibling :: u32
  vn_data :: u32
  vn_size :: u32

type_synonym node_heap = "u32 \<Rightarrow> vfs_node option"

record vfs_state = kmem +
  vfs_nodes :: node_heap
  vfs_root_node :: u32

definition CDROM_MOUNT :: string where "CDROM_MOUNT = ''/mount/cdrom''"
definition BIN_ALIAS :: string where "BIN_ALIAS = ''/bin''"

section \<open>Paths\<close>

text \<open>The result is the path below the mount, \<open>None\<close> where the code returns 0.\<close>

definition vfs_is_cdrom_mount_path :: "string option \<Rightarrow> string option" where
  "vfs_is_cdrom_mount_path path =
     (case path of
        None \<Rightarrow> None
      | Some p \<Rightarrow>
          if deref p \<noteq> CHR ''/'' then None
          else if \<not> str_startswith p CDROM_MOUNT then None
          else if deref (drop 12 p) = NUL then Some ''/''
          else if deref (drop 12 p) \<noteq> CHR ''/'' then None
          else Some (drop 12 p))"

definition vfs_is_bin_alias_path :: "string option \<Rightarrow> string option" where
  "vfs_is_bin_alias_path path =
     (case path of
        None \<Rightarrow> None
      | Some p \<Rightarrow>
          if deref p \<noteq> CHR ''/'' then None
          else if \<not> str_startswith p BIN_ALIAS then None
          else if deref (drop 4 p) = NUL then Some ''/bin''
          else if deref (drop 4 p) \<noteq> CHR ''/'' then None
          else Some p)"

text \<open>
  \<^verbatim>\<open>while (s[i] != '\0' && o + 1 < size) out[o++] = s[i++];\<close>  The result is the text in \<^verbatim>\<open>out\<close>
  and the rest of \<open>s\<close>.
\<close>

fun copy_bounded :: "string \<Rightarrow> nat \<Rightarrow> string \<Rightarrow> string \<times> string" where
  "copy_bounded [] sz out = (out, [])"
| "copy_bounded (c # s) sz out =
     (if c \<noteq> NUL \<and> length out + 1 < sz then copy_bounded s sz (out @ [c]) else (out, c # s))"

definition vfs_path_join :: "nat \<Rightarrow> string \<Rightarrow> string \<Rightarrow> string option" where
  "vfs_path_join out_size base rel =
     (if out_size = 0 then None
      else
        let (out, rest) = copy_bounded base out_size [] in
        if deref rest \<noteq> NUL then None
        else if out \<noteq> [] \<and> last out \<noteq> CHR ''/'' \<and> length out + 1 \<ge> out_size then None
        else
          let out = (if out \<noteq> [] \<and> last out \<noteq> CHR ''/'' then out @ ''/'' else out);
            (out, rest) = copy_bounded rel out_size out
          in if deref rest \<noteq> NUL then None else Some out)"

text \<open>
  \<^verbatim>\<open>vfs_next_component\<close>: status, component and remaining path.  The loop gives \<open>None\<close> where the
  component does not fit, and the code returns -1.
\<close>

fun component_loop :: "string \<Rightarrow> nat \<Rightarrow> string \<Rightarrow> (string \<times> string) option" where
  "component_loop [] sz name = Some (name, [])"
| "component_loop (c # p) sz name =
     (if c \<noteq> NUL \<and> c \<noteq> CHR ''/'' then
        if length name + 1 \<ge> sz then None else component_loop p sz (name @ [c])
      else Some (name, c # p))"

definition vfs_next_component :: "string \<Rightarrow> nat \<Rightarrow> int \<times> string \<times> string" where
  "vfs_next_component path sz =
     (let p = skip_slashes path in
      if deref p = NUL then (0, [], p)
      else
        (case component_loop p sz [] of
           None \<Rightarrow> (- 1, [], path)
         | Some (name, p) \<Rightarrow> (1, name, p)))"

text \<open>The index of the last slash, or 0: \<^verbatim>\<open>last - path\<close> after the loop.\<close>

fun scan_last :: "string \<Rightarrow> nat \<Rightarrow> nat \<Rightarrow> nat" where
  "scan_last [] i lst = lst"
| "scan_last (c # s) i lst = (if c = NUL then lst else scan_last s (i + 1) (if c = CHR ''/'' then i else lst))"

definition vfs_split_parent :: "string option \<Rightarrow> nat \<Rightarrow> nat \<Rightarrow> (string \<times> string) option" where
  "vfs_split_parent path parent_size name_size =
     (case path of
        None \<Rightarrow> None
      | Some p \<Rightarrow>
          if deref p = NUL then None
          else
            let lst = scan_last p 0 0 in
            if lst = 0 \<and> deref p \<noteq> CHR ''/'' then
              let name = str_copy [] p (of_nat name_size) in
              if deref name \<noteq> NUL then Some ([], name) else None
            else if lst \<noteq> 0 \<and> lst + 1 > parent_size then None
            else
              let parent_path = (if lst = 0 then ''/'' else take lst p); l = drop (lst + 1) p in
              if unat (str_len l) + 1 > name_size then None
              else
                let name = str_copy [] l (of_nat name_size) in
                if deref name = NUL \<or> str_eq name ''.'' \<or> str_eq name ''..'' then None
                else Some (parent_path, name))"

section \<open>Walking the tree\<close>

partial_function (option) find_child_loop :: "node_heap \<Rightarrow> u32 \<Rightarrow> string \<Rightarrow> u32 option" where
  "find_child_loop nodes child name =
     (if child = NULL then Some NULL
      else (case nodes child of
              None \<Rightarrow> None
            | Some c \<Rightarrow> if str_eq (vn_name c) name then Some child
                else find_child_loop nodes (vn_next_sibling c) name))"

declare find_child_loop.simps [code]

definition vfs_find_child :: "node_heap \<Rightarrow> u32 \<Rightarrow> string \<Rightarrow> u32 option" where
  "vfs_find_child nodes dir name =
     (if dir = NULL then Some NULL
      else case nodes dir of None \<Rightarrow> None | Some d \<Rightarrow> find_child_loop nodes (vn_first_child d) name)"

definition vfs_dir_has_child_named :: "node_heap \<Rightarrow> u32 \<Rightarrow> string \<Rightarrow> bool option" where
  "vfs_dir_has_child_named nodes dir name = map_option (\<lambda>c. c \<noteq> NULL) (vfs_find_child nodes dir name)"

lemma skip_slashes_length: "length (skip_slashes p) \<le> length p"
  by (induction p) auto

lemma component_loop_length: "component_loop p n name = Some (name', p') \<Longrightarrow> length p' \<le> length p"
  by (induction p n name rule: component_loop.induct) (auto split: if_splits)

lemma next_component_length:
  assumes "vfs_next_component p n = (1, name, p')" shows "length p' < length p"
proof -
  have c: "component_loop (skip_slashes p) n [] = Some (name, p')" and nz: "deref (skip_slashes p) \<noteq> NUL"
    using assms by (auto simp: vfs_next_component_def Let_def split: if_splits option.splits)
  obtain c q where q: "skip_slashes p = c # q" "c \<noteq> NUL" using nz by (cases "skip_slashes p") auto
  then have "c \<noteq> CHR ''/''" using skip_slashes_head [of p] by simp
  then have "length p' \<le> length q" using c q component_loop_length [of q n "[c]"] by (auto split: if_splits)
  moreover have "length q < length (skip_slashes p)" by (simp add: q)
  ultimately show ?thesis using skip_slashes_length [of p] by simp
qed

function resolve_loop :: "node_heap \<Rightarrow> u32 \<Rightarrow> string \<Rightarrow> u32 option" where
  "resolve_loop nodes node path =
     (let (status, component, path') = vfs_next_component path (VFS_NAME_MAX + 1) in
      if status = 0 then Some node
      else if status \<noteq> 1 then Some NULL
      else if str_eq component ''.'' then resolve_loop nodes node path'
      else if str_eq component ''..'' then
        (case nodes node of
           None \<Rightarrow> None
         | Some n \<Rightarrow> resolve_loop nodes (if vn_parent n \<noteq> NULL then vn_parent n else node) path')
      else
        (case vfs_find_child nodes node component of
           None \<Rightarrow> None
         | Some child \<Rightarrow> if child = NULL then Some NULL else resolve_loop nodes child path'))"
  by pat_completeness auto
termination
  by (relation "measure (\<lambda>(nodes, node, path). length path)") (auto dest: next_component_length [OF sym])

declare resolve_loop.simps [simp del]

definition vfs_resolve_from :: "node_heap \<Rightarrow> u32 \<Rightarrow> u32 \<Rightarrow> string option \<Rightarrow> u32 option" where
  "vfs_resolve_from nodes root cwd path =
     (case path of
        None \<Rightarrow> Some cwd
      | Some p \<Rightarrow>
          if deref p = NUL then Some cwd
          else
            let node = (if deref p = CHR ''/'' then root else cwd); p = skip_slashes p in
            if deref p = NUL then Some node else resolve_loop nodes node p)"

definition vfs_resolve :: "node_heap \<Rightarrow> u32 \<Rightarrow> string \<Rightarrow> u32 option" where
  "vfs_resolve nodes root path = vfs_resolve_from nodes root root (Some path)"

text \<open>The names from a node up to below the root, at most \<open>k\<close> of them.\<close>

fun cwd_parts :: "node_heap \<Rightarrow> u32 \<Rightarrow> u32 \<Rightarrow> nat \<Rightarrow> string list option" where
  "cwd_parts nodes root node 0 = Some []"
| "cwd_parts nodes root node (Suc k) =
     (if node \<noteq> NULL \<and> node \<noteq> root then
        (case nodes node of
           None \<Rightarrow> None
         | Some n \<Rightarrow> map_option (\<lambda>ps. vn_name n # ps) (cwd_parts nodes root (vn_parent n) k))
      else Some [])"

text \<open>
  The output loop, outermost name first; \<open>remaining\<close> never wraps, as a name is only written
  when it fits with one byte to spare.
\<close>

fun cwd_out :: "string list \<Rightarrow> nat \<Rightarrow> string \<Rightarrow> string" where
  "cwd_out [] remaining out = out"
| "cwd_out (p # ps) remaining out =
     (let len = unat (str_len p) in
      if len + 1 > remaining then out
      else if ps \<noteq> [] then cwd_out ps (remaining - len - 1) (out @ take len p @ ''/'')
      else out @ take len p)"

text \<open>
  The text left in \<^verbatim>\<open>buf\<close>; its terminator is at index \<open>length\<close> of the result.  \<open>sz = 0\<close>
  leaves the buffer alone.
\<close>

definition vfs_get_cwd_path :: "node_heap \<Rightarrow> u32 \<Rightarrow> u32 \<Rightarrow> nat \<Rightarrow> string option" where
  "vfs_get_cwd_path nodes root cwd sz =
     (if cwd = root then Some (str_copy [] ''/'' (of_nat sz))
      else
        (case cwd_parts nodes root cwd 16 of
           None \<Rightarrow> None
         | Some parts \<Rightarrow>
             Some (if sz > 1 then cwd_out (rev parts) (sz - 1) ''/'' else cwd_out (rev parts) sz [])))"

text \<open>
  How every operation turns a relative path into the one it compares with the mount points;
  when the joined path is too long the relative path itself is compared.
\<close>

definition vfs_check_path :: "'a vfs_state_scheme \<Rightarrow> u32 \<Rightarrow> string option \<Rightarrow> string option option" where
  "vfs_check_path s cwd path =
     (case path of
        None \<Rightarrow> Some None
      | Some p \<Rightarrow>
          if deref p \<noteq> CHR ''/'' then
            do { cwd_path \<leftarrow> vfs_get_cwd_path (vfs_nodes s) (vfs_root_node s) cwd VFS_PATH_MAX;
                 Some (case vfs_path_join VFS_PATH_MAX cwd_path p of Some abs_path \<Rightarrow> Some abs_path | None \<Rightarrow> path) }
          else Some path)"

section \<open>Creating nodes\<close>

definition vfs_alloc_node ::
  "string \<Rightarrow> vfs_node_type \<Rightarrow> u32 \<Rightarrow> 'a vfs_state_scheme \<Rightarrow> (u32 \<times> 'a vfs_state_scheme) option" where
  "vfs_alloc_node name type parent s =
     (let (node, s) = kcalloc sizeof_vfs_node s in
      if node = NULL then Some (NULL, s)
      else
        let n = \<lparr>vn_name = str_copy [] name 32, vn_type = type, vn_parent = parent, vn_first_child = NULL,
              vn_next_sibling = NULL, vn_data = NULL, vn_size = 0\<rparr>
        in if parent = NULL then Some (node, s\<lparr>vfs_nodes := (vfs_nodes s)(node \<mapsto> n)\<rparr>)
           else
             (case vfs_nodes s parent of
                None \<Rightarrow> None
              | Some p \<Rightarrow> Some (node, s\<lparr>vfs_nodes := (vfs_nodes s)(node \<mapsto> n\<lparr>vn_next_sibling := vn_first_child p\<rparr>,
                    parent \<mapsto> p\<lparr>vn_first_child := node\<rparr>)\<rparr>)))"

text \<open>
  The component loop of \<^verbatim>\<open>vfs_ensure_dir_abs\<close>.  The component is never empty, because the
  slashes before it have been skipped.
\<close>

function ensure_loop :: "u32 \<Rightarrow> string \<Rightarrow> 'a vfs_state_scheme \<Rightarrow> (bool \<times> 'a vfs_state_scheme) option" where
  "ensure_loop node p s =
     (if deref p = NUL then Some (True, s)
      else
        (case component_loop p (VFS_NAME_MAX + 1) [] of
           None \<Rightarrow> Some (False, s)
         | Some (cmp, rest) \<Rightarrow>
             if cmp = [] then None
             else
               do { found \<leftarrow> vfs_find_child (vfs_nodes s) node cmp;
                    (child, s) \<leftarrow> (if found = NULL then vfs_alloc_node cmp VFS_NODE_DIR node s else Some (found, s));
                    if child = NULL then Some (False, s)
                    else
                      (case vfs_nodes s child of
                         None \<Rightarrow> None
                       | Some c \<Rightarrow> if vn_type c \<noteq> VFS_NODE_DIR then Some (False, s)
                           else ensure_loop child (skip_slashes rest) s) }))"
  by pat_completeness auto

lemma component_loop_extends:
  "component_loop p n name = Some (name', p') \<Longrightarrow> \<exists>t. name' = name @ t \<and> p = t @ p'"
proof (induction p n name rule: component_loop.induct)
  case (2 c p n name)
  show ?case
  proof (cases "c \<noteq> NUL \<and> c \<noteq> CHR ''/''")
    case True
    then have "component_loop p n (name @ [c]) = Some (name', p')" "\<not> n \<le> length name + 1"
      using 2(2) by (auto split: if_splits)
    then obtain t where "name' = (name @ [c]) @ t" "p = t @ p'" using 2(1) True by auto
    then show ?thesis by (intro exI [of _ "c # t"]) simp
  qed (use 2(2) in auto)
qed simp

lemma component_rest_shorter:
  assumes "component_loop p n [] = Some (cmp, rest)" and "cmp \<noteq> []"
  shows "length (skip_slashes rest) < length p"
proof -
  obtain t where "cmp = t" "p = t @ rest" using component_loop_extends [OF assms(1)] by auto
  then have "length rest < length p" using assms(2) by simp
  then show ?thesis using skip_slashes_length [of rest] by simp
qed

termination ensure_loop
  by (relation "measure (\<lambda>(node, p, s). length p)") (auto dest: component_rest_shorter)

declare ensure_loop.simps [simp del]

text \<open>\<^verbatim>\<open>vfs_make_dir\<close>, \<^verbatim>\<open>vfs_touch\<close> and \<^verbatim>\<open>vfs_write_file\<close> refuse the paths of the CD-ROM.\<close>

definition vfs_ensure_dir_abs :: "string option \<Rightarrow> 'a vfs_state_scheme \<Rightarrow> (bool \<times> 'a vfs_state_scheme) option" where
  "vfs_ensure_dir_abs abs_path s =
     (case abs_path of
        None \<Rightarrow> Some (False, s)
      | Some p \<Rightarrow> if deref p \<noteq> CHR ''/'' then Some (False, s)
          else ensure_loop (vfs_root_node s) (skip_slashes p) s)"

text \<open>
  \<^verbatim>\<open>vfs_make_dir\<close> and \<^verbatim>\<open>vfs_touch\<close> begin with the same statements: the comparison with the
  mount points, the split of the path, and the search for the directory.  \<open>k\<close> is the rest of
  the function, applied to the directory and the name.
\<close>

definition in_parent ::
  "u32 \<Rightarrow> string option \<Rightarrow> 'a vfs_state_scheme \<Rightarrow> (u32 \<Rightarrow> string \<Rightarrow> (bool \<times> 'a vfs_state_scheme) option) \<Rightarrow>
   (bool \<times> 'a vfs_state_scheme) option" where
  "in_parent cwd path s k =
     do { check \<leftarrow> vfs_check_path s cwd path;
          if vfs_is_bin_alias_path check \<noteq> None \<or> vfs_is_cdrom_mount_path check \<noteq> None then Some (False, s)
          else
            (case vfs_split_parent path VFS_PATH_MAX (VFS_NAME_MAX + 1) of
               None \<Rightarrow> Some (False, s)
             | Some (parent_path, name) \<Rightarrow>
                 do { parent \<leftarrow> (if deref parent_path = NUL then Some cwd
                        else vfs_resolve_from (vfs_nodes s) (vfs_root_node s) cwd (Some parent_path));
                      if parent = NULL then Some (False, s)
                      else
                        (case vfs_nodes s parent of
                           None \<Rightarrow> None
                         | Some d \<Rightarrow> if vn_type d \<noteq> VFS_NODE_DIR then Some (False, s) else k parent name) }) }"

definition vfs_make_dir :: "u32 \<Rightarrow> string option \<Rightarrow> 'a vfs_state_scheme \<Rightarrow> (bool \<times> 'a vfs_state_scheme) option" where
  "vfs_make_dir cwd path s =
     in_parent cwd path s (\<lambda>parent name.
       do { old \<leftarrow> vfs_find_child (vfs_nodes s) parent name;
            if old \<noteq> NULL then Some (False, s)
            else
              do { (node, s) \<leftarrow> vfs_alloc_node name VFS_NODE_DIR parent s;
                   Some (node \<noteq> NULL, s) } })"

definition vfs_touch :: "u32 \<Rightarrow> string option \<Rightarrow> 'a vfs_state_scheme \<Rightarrow> (bool \<times> 'a vfs_state_scheme) option" where
  "vfs_touch cwd path s =
     in_parent cwd path s (\<lambda>parent name.
       do { node \<leftarrow> vfs_find_child (vfs_nodes s) parent name;
            if node \<noteq> NULL then
              (case vfs_nodes s node of
                 None \<Rightarrow> None
               | Some n \<Rightarrow> Some (vn_type n = VFS_NODE_FILE, s))
            else
              do { (node, s) \<leftarrow> vfs_alloc_node name VFS_NODE_FILE parent s;
                   Some (node \<noteq> NULL, s) } })"

section \<open>Contents of files\<close>

definition set_file_data :: "u32 \<Rightarrow> u32 \<Rightarrow> u32 \<Rightarrow> 'a vfs_state_scheme \<Rightarrow> (bool \<times> 'a vfs_state_scheme) option" where
  "set_file_data node data sz s =
     (case vfs_nodes s node of
        None \<Rightarrow> None
      | Some n \<Rightarrow> Some (True, s\<lparr>vfs_nodes := (vfs_nodes s)(node \<mapsto> n\<lparr>vn_data := data, vn_size := sz\<rparr>)\<rparr>))"

text \<open>\<open>data\<close> is the address of the \<open>sz\<close> bytes to be written.\<close>

definition vfs_write_file ::
  "u32 \<Rightarrow> string option \<Rightarrow> u32 \<Rightarrow> u32 \<Rightarrow> 'a vfs_state_scheme \<Rightarrow> (bool \<times> 'a vfs_state_scheme) option" where
  "vfs_write_file cwd path data sz s =
     do { check \<leftarrow> vfs_check_path s cwd path;
          if vfs_is_bin_alias_path check \<noteq> None \<or> vfs_is_cdrom_mount_path check \<noteq> None then Some (False, s)
          else
            do { (ok, s) \<leftarrow> vfs_touch cwd path s;
                 if \<not> ok then Some (False, s)
                 else
                   do { node \<leftarrow> vfs_resolve_from (vfs_nodes s) (vfs_root_node s) cwd path;
                        if node = NULL then Some (False, s)
                        else
                          let (copy, s) = kmalloc (sz + 1) s in
                          if copy = NULL then Some (False, s)
                          else set_file_data node copy sz
                            (s\<lparr>mem := (mem_copy copy data (unat sz) (mem s))(copy + sz := 0)\<rparr>) } } }"

definition vfs_write_seed_file :: "string \<Rightarrow> string \<Rightarrow> 'a vfs_state_scheme \<Rightarrow> (bool \<times> 'a vfs_state_scheme) option" where
  "vfs_write_seed_file path data s =
     (let sz = str_len data in
      do { (ok, s) \<leftarrow> vfs_touch (vfs_root_node s) (Some path) s;
           if \<not> ok then Some (False, s)
           else
             do { node \<leftarrow> vfs_resolve (vfs_nodes s) (vfs_root_node s) path;
                  if node = NULL then Some (False, s)
                  else
                    let (copy, s) = kmalloc (sz + 1) s in
                    if copy = NULL then Some (False, s)
                    else set_file_data node copy sz
                      (s\<lparr>mem := mem_write copy (map byte_of (str_copy [] data (sz + 1)) @ [0]) (mem s)\<rparr>) } })"

text \<open>The buffer and size of a file: fresh memory for a file of the CD-ROM.\<close>

definition read_mounted ::
  "fs_state \<Rightarrow> string \<Rightarrow> 'a vfs_state_scheme \<Rightarrow> ((u32 \<times> u32) option \<times> 'a vfs_state_scheme) option" where
  "read_mounted fs subpath s = fs_read_file_from_mount fs (Some CDROM_MOUNT) (Some subpath) s"

definition vfs_read_file ::
  "fs_state \<Rightarrow> u32 \<Rightarrow> string option \<Rightarrow> 'a vfs_state_scheme \<Rightarrow> ((u32 \<times> u32) option \<times> 'a vfs_state_scheme) option" where
  "vfs_read_file fs cwd path s =
     do { check \<leftarrow> vfs_check_path s cwd path;
          (case vfs_is_cdrom_mount_path check of
             Some subpath \<Rightarrow> read_mounted fs subpath s
           | None \<Rightarrow>
               (case vfs_is_bin_alias_path check of
                  Some subpath \<Rightarrow> read_mounted fs subpath s
                | None \<Rightarrow>
                    do { node \<leftarrow> vfs_resolve_from (vfs_nodes s) (vfs_root_node s) cwd path;
                         if node = NULL then Some (None, s)
                         else
                           (case vfs_nodes s node of
                              None \<Rightarrow> None
                            | Some n \<Rightarrow> Some (if vn_type n \<noteq> VFS_NODE_FILE then None else Some (vn_data n, vn_size n), s)) })) }"

text \<open>Octal \<^verbatim>\<open>0040000\<close> and \<^verbatim>\<open>0100000\<close>.\<close>

definition S_IFDIR :: u32 where "S_IFDIR = 0x4000"
definition S_IFREG :: u32 where "S_IFREG = 0x8000"

definition vfs_stat ::
  "fs_state \<Rightarrow> u32 \<Rightarrow> string option \<Rightarrow> 'a vfs_state_scheme \<Rightarrow> (user_stat option \<times> 'a vfs_state_scheme) option" where
  "vfs_stat fs cwd path s =
     (case path of
        None \<Rightarrow> Some (if cwd = NULL \<and> vfs_root_node s = NULL then None else Some \<lparr>st_mode = S_IFDIR, st_size = 0\<rparr>, s)
      | Some p \<Rightarrow>
          if deref p = NUL then
            Some (if cwd = NULL \<and> vfs_root_node s = NULL then None else Some \<lparr>st_mode = S_IFDIR, st_size = 0\<rparr>, s)
          else
            do { check \<leftarrow> vfs_check_path s cwd path;
                 (case (case vfs_is_cdrom_mount_path check of Some sp \<Rightarrow> Some sp | None \<Rightarrow> vfs_is_bin_alias_path check) of
                    Some subpath \<Rightarrow>
                      do { is_dir \<leftarrow> fs_path_is_dir_from_mount fs (Some CDROM_MOUNT) (Some subpath);
                           if is_dir then Some (Some \<lparr>st_mode = S_IFDIR, st_size = 0\<rparr>, s)
                           else
                             do { (r, s) \<leftarrow> read_mounted fs subpath s;
                                  Some (map_option (\<lambda>(data, sz). \<lparr>st_mode = S_IFREG, st_size = sz\<rparr>) r, s) } }
                  | None \<Rightarrow>
                      do { node \<leftarrow> vfs_resolve_from (vfs_nodes s) (vfs_root_node s) cwd path;
                           if node = NULL then Some (None, s)
                           else
                             (case vfs_nodes s node of
                                None \<Rightarrow> None
                              | Some n \<Rightarrow> Some (Some
                                  (case vn_type n of
                                     VFS_NODE_DIR \<Rightarrow> \<lparr>st_mode = S_IFDIR, st_size = 0\<rparr>
                                   | VFS_NODE_FILE \<Rightarrow> \<lparr>st_mode = S_IFREG, st_size = vn_size n\<rparr>), s)) }) })"

section \<open>Directories\<close>

text \<open>\<^verbatim>\<open>vfs_print_list_entry\<close> prints like \<^verbatim>\<open>fs_print_list_entry\<close>.\<close>

definition vfs_print_list_entry :: "fs_dir_entry \<Rightarrow> string" where
  "vfs_print_list_entry e = (case e of (name, is_dir) \<Rightarrow> name @ (if is_dir then ''/'' else []) @ newline)"

partial_function (option) list_loop :: "node_heap \<Rightarrow> u32 \<Rightarrow> fs_dir_entry list option" where
  "list_loop nodes child =
     (if child = NULL then Some []
      else (case nodes child of
              None \<Rightarrow> None
            | Some c \<Rightarrow> do { es \<leftarrow> list_loop nodes (vn_next_sibling c); Some ((vn_name c, vn_type c = VFS_NODE_DIR) # es) }))"

declare list_loop.simps [code]

definition no_such_directory :: string where "no_such_directory = ''ls: no such directory'' @ newline"

text \<open>\<^verbatim>\<open>vfs_list\<close>: what is printed.  With an empty path the path of the current directory is compared.\<close>

definition list_mounted :: "fs_state \<Rightarrow> string \<Rightarrow> string option" where
  "list_mounted fs subpath =
     do { (ok, es) \<leftarrow> fs_list_dir_from_mount fs (Some CDROM_MOUNT) (Some subpath);
          Some (concat (map fs_print_list_entry es) @ (if ok then [] else no_such_directory)) }"

definition vfs_list :: "fs_state \<Rightarrow> u32 \<Rightarrow> string option \<Rightarrow> 'a vfs_state_scheme \<Rightarrow> string option" where
  "vfs_list fs cwd path s =
     do { check \<leftarrow> (if path = None \<or> deref (the path) = NUL
            then map_option Some (vfs_get_cwd_path (vfs_nodes s) (vfs_root_node s) cwd VFS_PATH_MAX)
            else vfs_check_path s cwd path);
          (case (case vfs_is_cdrom_mount_path check of Some sp \<Rightarrow> Some sp | None \<Rightarrow> vfs_is_bin_alias_path check) of
             Some subpath \<Rightarrow> list_mounted fs subpath
           | None \<Rightarrow>
               do { node \<leftarrow> vfs_resolve_from (vfs_nodes s) (vfs_root_node s) cwd path;
                    if node = NULL then Some no_such_directory
                    else
                      (case vfs_nodes s node of
                         None \<Rightarrow> None
                       | Some n \<Rightarrow>
                           if vn_type n \<noteq> VFS_NODE_DIR then Some no_such_directory
                           else
                             do { es \<leftarrow> list_loop (vfs_nodes s) (vn_first_child n);
                                  bin \<leftarrow> (if node = vfs_root_node s
                                    then do { is_dir \<leftarrow> fs_path_is_dir_from_mount fs (Some CDROM_MOUNT) (Some ''/bin'');
                                              if is_dir then map_option Not (vfs_dir_has_child_named (vfs_nodes s) node ''bin'')
                                              else Some False }
                                    else Some False);
                                  Some (concat (map vfs_print_list_entry es) @
                                    (if bin then vfs_print_list_entry (''bin'', True) else [])) }) }) }"

text \<open>
  The body that the two branches of \<^verbatim>\<open>vfs_change_dir\<close> for the CD-ROM share: result, new
  current directory and state.
\<close>

definition enter_mounted ::
  "u32 \<Rightarrow> string option \<Rightarrow> 'a vfs_state_scheme \<Rightarrow> (bool \<times> u32 \<times> 'a vfs_state_scheme) option" where
  "enter_mounted cwd check s =
     do { (ok, s) \<leftarrow> vfs_ensure_dir_abs check s;
          if \<not> ok then Some (False, cwd, s)
          else
            do { node \<leftarrow> vfs_resolve_from (vfs_nodes s) (vfs_root_node s) (vfs_root_node s) check;
                 if node = NULL then Some (False, cwd, s)
                 else
                   (case vfs_nodes s node of
                      None \<Rightarrow> None
                    | Some n \<Rightarrow> if vn_type n \<noteq> VFS_NODE_DIR then Some (False, cwd, s) else Some (True, node, s)) } }"

definition mounted_dir :: "fs_state \<Rightarrow> string option \<Rightarrow> bool option" where
  "mounted_dir fs subpath =
     (case subpath of
        None \<Rightarrow> Some False
      | Some sp \<Rightarrow> fs_path_is_dir_from_mount fs (Some CDROM_MOUNT) (Some sp))"

definition vfs_change_dir ::
  "fs_state \<Rightarrow> u32 \<Rightarrow> string option \<Rightarrow> 'a vfs_state_scheme \<Rightarrow> (bool \<times> u32 \<times> 'a vfs_state_scheme) option" where
  "vfs_change_dir fs cwd path s =
     do { check \<leftarrow> (if path = None \<or> deref (the path) = NUL then Some None else vfs_check_path s cwd path);
          on_cd \<leftarrow> mounted_dir fs (vfs_is_cdrom_mount_path check);
          if on_cd then enter_mounted cwd check s
          else
            do { in_bin \<leftarrow> mounted_dir fs (vfs_is_bin_alias_path check);
                 if in_bin then enter_mounted cwd check s
                 else
                   do { node \<leftarrow> vfs_resolve_from (vfs_nodes s) (vfs_root_node s) cwd path;
                        if node = NULL then Some (False, cwd, s)
                        else
                          (case vfs_nodes s node of
                             None \<Rightarrow> None
                           | Some n \<Rightarrow> if vn_type n \<noteq> VFS_NODE_DIR then Some (False, cwd, s) else Some (True, node, s)) } } }"

section \<open>Start-up\<close>

definition vfs_root :: "'a vfs_state_scheme \<Rightarrow> u32" where "vfs_root s = vfs_root_node s"

definition readme_text :: string where
  "readme_text = ''SLOP in-memory VFS'' @ newline @ ''This is not a disk-backed filesystem yet.'' @ newline"

definition roadmap_text :: string where
  "roadmap_text = ''Next: more memory management, a better VFS, and real userland.'' @ newline"

definition vfs_init :: "'a vfs_state_scheme \<Rightarrow> 'a vfs_state_scheme option" where
  "vfs_init s =
     (if vfs_root_node s \<noteq> NULL then Some s
      else
        do { (root, s) \<leftarrow> vfs_alloc_node [] VFS_NODE_DIR NULL s;
             s \<leftarrow> Some (s\<lparr>vfs_root_node := root\<rparr>);
             (_, s) \<leftarrow> vfs_make_dir root (Some ''/bin'') s;
             (_, s) \<leftarrow> vfs_make_dir root (Some ''/docs'') s;
             (_, s) \<leftarrow> vfs_make_dir root (Some ''/mount'') s;
             (_, s) \<leftarrow> vfs_make_dir root (Some ''/mount/cdrom'') s;
             (_, s) \<leftarrow> vfs_make_dir root (Some ''/tmp'') s;
             (_, s) \<leftarrow> vfs_write_seed_file ''/docs/readme.txt'' readme_text s;
             (_, s) \<leftarrow> vfs_write_seed_file ''/docs/roadmap.txt'' roadmap_text s;
             Some s })"

end
