(* ===== verification/VfsInv.thy ===== *)
theory VfsInv
  imports Vfs
begin

text \<open>
  The shape of the node heap of \<^verbatim>\<open>kernel/vfs.c\<close>: chains of siblings, the tree invariant, the
  node a list of names leads to, and what adding a node does to all of them.  The bump
  allocator hands out growing addresses, so parents lie below their children; that is what
  makes every walk towards the root end.
\<close>

section \<open>Chains of siblings\<close>

fun chain :: "node_heap \<Rightarrow> u32 \<Rightarrow> u32 list \<Rightarrow> bool" where
  "chain nodes a [] \<longleftrightarrow> a = NULL"
| "chain nodes a (x # xs) \<longleftrightarrow> a = x \<and> x \<noteq> NULL \<and> (\<exists>n. nodes x = Some n \<and> chain nodes (vn_next_sibling n) xs)"

lemma chain_cong:
  assumes "chain nodes a xs"
    and "\<And>x n. x \<in> set xs \<Longrightarrow> nodes x = Some n \<Longrightarrow> \<exists>n'. nodes' x = Some n' \<and> vn_next_sibling n' = vn_next_sibling n"
  shows "chain nodes' a xs"
  using assms
proof (induction xs arbitrary: a)
  case (Cons x xs)
  obtain n where n: "a = x" "x \<noteq> NULL" "nodes x = Some n" "chain nodes (vn_next_sibling n) xs"
    using Cons.prems(1) by auto
  obtain n' where n': "nodes' x = Some n'" "vn_next_sibling n' = vn_next_sibling n"
    using Cons.prems(2) [of x n] n(3) by auto
  have "chain nodes' (vn_next_sibling n) xs"
    using n(4) Cons.prems(2) by (intro Cons.IH) auto
  with n n' show ?case by simp
qed simp

lemma find_child_loop_chain:
  "chain nodes a xs \<Longrightarrow> find_child_loop nodes a name =
     Some (case find (\<lambda>x. str_eq (vn_name (the (nodes x))) name) xs of None \<Rightarrow> NULL | Some x \<Rightarrow> x)"
proof (induction xs arbitrary: a)
  case Nil
  then show ?case by (simp add: find_child_loop.simps [of nodes NULL name])
next
  case (Cons x xs)
  then show ?case by (auto simp: find_child_loop.simps [of nodes x name])
qed

lemma list_loop_chain:
  "chain nodes a xs \<Longrightarrow>
   list_loop nodes a = Some (map (\<lambda>x. (vn_name (the (nodes x)), vn_type (the (nodes x)) = VFS_NODE_DIR)) xs)"
proof (induction xs arbitrary: a)
  case Nil
  then show ?case by (simp add: list_loop.simps [of nodes NULL])
next
  case (Cons x xs)
  then show ?case by (auto simp: list_loop.simps [of nodes x])
qed

section \<open>The tree\<close>

definition kids :: "node_heap \<Rightarrow> u32 \<Rightarrow> u32 set" where
  "kids nodes d = {c. \<exists>m. nodes c = Some m \<and> vn_parent m = d}"

definition name_ok :: "string \<Rightarrow> bool" where
  "name_ok nm \<longleftrightarrow> nm \<noteq> [] \<and> NUL \<notin> set nm \<and> CHR ''/'' \<notin> set nm \<and> length nm \<le> VFS_NAME_MAX"

definition node_inv :: "node_heap \<Rightarrow> u32 \<Rightarrow> u32 \<Rightarrow> vfs_node \<Rightarrow> bool" where
  "node_inv nodes root a n \<longleftrightarrow> a \<noteq> NULL \<and>
     (if a = root then vn_parent n = NULL \<and> vn_type n = VFS_NODE_DIR \<and> vn_name n = []
      else vn_parent n < a \<and> name_ok (vn_name n) \<and> (\<exists>p. nodes (vn_parent n) = Some p \<and> vn_type p = VFS_NODE_DIR)) \<and>
     (\<exists>xs. chain nodes (vn_first_child n) xs \<and> set xs = kids nodes a)"

definition tree_inv :: "node_heap \<Rightarrow> u32 \<Rightarrow> bool" where
  "tree_inv nodes root \<longleftrightarrow>
     (\<forall>a n. nodes a = Some n \<longrightarrow> node_inv nodes root a n) \<and>
     (\<forall>a b n m. nodes a = Some n \<longrightarrow> nodes b = Some m \<longrightarrow> vn_parent n = vn_parent m \<longrightarrow> vn_name n = vn_name m \<longrightarrow> a = b) \<and>
     (if root = NULL then nodes = Map.empty else nodes root \<noteq> None)"

lemma tree_node_inv: "tree_inv nodes root \<Longrightarrow> nodes a = Some n \<Longrightarrow> node_inv nodes root a n"
  by (simp add: tree_inv_def)

lemma tree_unique:
  "tree_inv nodes root \<Longrightarrow> nodes a = Some n \<Longrightarrow> nodes b = Some m \<Longrightarrow> vn_parent n = vn_parent m \<Longrightarrow>
   vn_name n = vn_name m \<Longrightarrow> a = b"
  unfolding tree_inv_def by blast

lemma tree_NULL: "tree_inv nodes root \<Longrightarrow> nodes NULL = None"
proof (cases "nodes NULL")
  case (Some n)
  assume "tree_inv nodes root"
  from tree_node_inv [OF this Some] show ?thesis by (simp add: node_inv_def)
qed

lemma tree_root: "tree_inv nodes root \<Longrightarrow> root \<noteq> NULL \<Longrightarrow> \<exists>r. nodes root = Some r \<and> vn_type r = VFS_NODE_DIR"
proof -
  assume inv: "tree_inv nodes root" and nz: "root \<noteq> NULL"
  have "nodes root \<noteq> None" using inv nz unfolding tree_inv_def by presburger
  then obtain r where r: "nodes root = Some r" by blast
  from tree_node_inv [OF inv r] r show ?thesis by (simp add: node_inv_def)
qed

lemma tree_nonempty:
  assumes "tree_inv nodes root" and "nodes a = Some n"
  shows "root \<noteq> NULL \<and> nodes root \<noteq> None"
proof -
  have c: "if root = NULL then nodes = Map.empty else nodes root \<noteq> None"
    using assms(1) unfolding tree_inv_def by blast
  have "root \<noteq> NULL"
  proof
    assume "root = NULL"
    with c have "nodes = Map.empty" by simp
    then show False using assms(2) by simp
  qed
  with c show ?thesis by simp
qed

lemma node_name_NUL: "node_inv nodes root a n \<Longrightarrow> NUL \<notin> set (vn_name n)"
  by (auto simp: node_inv_def name_ok_def split: if_splits)

text \<open>The child of a node with a name.\<close>

definition child :: "node_heap \<Rightarrow> u32 \<Rightarrow> string \<Rightarrow> u32 option" where
  "child nodes d name = (case vfs_find_child nodes d name of
     None \<Rightarrow> None | Some c \<Rightarrow> if c = NULL then None else Some c)"

lemma child_iff:
  assumes "tree_inv nodes root" and "nodes d = Some n" and "NUL \<notin> set name"
  shows "child nodes d name = Some c \<longleftrightarrow> (\<exists>m. nodes c = Some m \<and> vn_parent m = d \<and> vn_name m = name)" (is ?iff)
    and "vfs_find_child nodes d name = Some (case child nodes d name of None \<Rightarrow> NULL | Some c \<Rightarrow> c)" (is ?find)
proof -
  have dn: "d \<noteq> NULL" using assms(1,2) by (auto simp: tree_NULL)
  obtain xs where xs: "chain nodes (vn_first_child n) xs" "set xs = kids nodes d"
    using tree_node_inv [OF assms(1,2)] by (auto simp: node_inv_def)
  let ?P = "\<lambda>x. str_eq (vn_name (the (nodes x))) name"
  have P: "?P x \<longleftrightarrow> vn_name m = name" if "nodes x = Some m" for x m
    using that node_name_NUL [OF tree_node_inv [OF assms(1) that]] assms(3) by (simp add: str_eq_NUL_free)
  have fc: "vfs_find_child nodes d name = Some (case find ?P xs of None \<Rightarrow> NULL | Some x \<Rightarrow> x)"
    using dn by (simp add: vfs_find_child_def assms(2) find_child_loop_chain [OF xs(1)])
  have nz: "x \<noteq> NULL" if "x \<in> set xs" for x using that xs(2) assms(1) by (auto simp: kids_def tree_NULL)
  have ch: "child nodes d name = find ?P xs"
  proof (cases "find ?P xs")
    case (Some x)
    then have "x \<in> set xs" by (auto simp: find_Some_iff)
    then show ?thesis using nz Some by (simp add: child_def fc)
  qed (simp add: child_def fc)
  show ?find unfolding fc ch ..
  show ?iff
  proof
    assume "child nodes d name = Some c"
    then have "c \<in> kids nodes d" "?P c" unfolding ch xs(2) [symmetric] by (auto simp: find_Some_iff)
    then show "\<exists>m. nodes c = Some m \<and> vn_parent m = d \<and> vn_name m = name" using P by (auto simp: kids_def)
  next
    assume "\<exists>m. nodes c = Some m \<and> vn_parent m = d \<and> vn_name m = name"
    then obtain m where m: "nodes c = Some m" "vn_parent m = d" "vn_name m = name" by blast
    then have "c \<in> set xs" "?P c" using xs(2) P [OF m(1)] by (auto simp: kids_def)
    then obtain c' where c': "find ?P xs = Some c'" by (cases "find ?P xs") (auto simp: find_None_iff)
    then have "c' \<in> kids nodes d" "?P c'" unfolding xs(2) [symmetric] by (auto simp: find_Some_iff)
    then obtain m' where "nodes c' = Some m'" "vn_parent m' = d" "vn_name m' = name" using P by (auto simp: kids_def)
    then have "c' = c" using tree_unique [OF assms(1)] m by blast
    then show "child nodes d name = Some c" using c' ch by simp
  qed
qed

lemma vfs_find_child_returns:
  assumes "tree_inv nodes root" and "d = NULL \<or> nodes d \<noteq> None" and "NUL \<notin> set name"
  shows "vfs_find_child nodes d name = Some (case child nodes d name of None \<Rightarrow> NULL | Some c \<Rightarrow> c)"
proof (cases "d = NULL")
  case True
  then show ?thesis by (simp add: child_def vfs_find_child_def)
next
  case False
  then show ?thesis using assms child_iff(2) by blast
qed

section \<open>Walks\<close>

fun walk :: "node_heap \<Rightarrow> u32 \<Rightarrow> string list \<Rightarrow> u32 option" where
  "walk nodes a [] = Some a"
| "walk nodes a (c # cs) = Option.bind (child nodes a c) (\<lambda>b. walk nodes b cs)"

lemma walk_append: "walk nodes a (ps @ qs) = Option.bind (walk nodes a ps) (\<lambda>b. walk nodes b qs)"
  by (induction ps arbitrary: a) (auto simp: bind_assoc split: bind_splits)

lemma walk_snoc: "walk nodes a (ps @ [c]) = Option.bind (walk nodes a ps) (\<lambda>b. child nodes b c)"
  by (cases "walk nodes a ps") (simp_all add: walk_append)

text \<open>Names that contain a NUL lead nowhere the code can go; the paths of the tree have none.\<close>

definition names_ok :: "string list \<Rightarrow> bool" where
  "names_ok ps \<longleftrightarrow> list_all (\<lambda>c. NUL \<notin> set c) ps"

lemma names_ok_simps [simp]: "names_ok []" "names_ok (c # ps) \<longleftrightarrow> NUL \<notin> set c \<and> names_ok ps"
  "names_ok (ps @ qs) \<longleftrightarrow> names_ok ps \<and> names_ok qs"
  by (auto simp: names_ok_def)

lemma names_ok_butlast: "names_ok ps \<Longrightarrow> names_ok (butlast ps)"
  by (auto simp: names_ok_def list_all_iff dest: in_set_butlastD)

lemma walk_node:
  "tree_inv nodes root \<Longrightarrow> nodes a \<noteq> None \<Longrightarrow> names_ok ps \<Longrightarrow> walk nodes a ps = Some b \<Longrightarrow> nodes b \<noteq> None"
proof (induction ps arbitrary: a)
  case (Cons c ps)
  then obtain n d where "nodes a = Some n" "child nodes a c = Some d" "walk nodes d ps = Some b"
    by (auto split: bind_splits)
  then show ?case using Cons child_iff(1) [of nodes root a n c d] by auto
qed simp

lemma walk_snoc_parent:
  assumes "tree_inv nodes root" and "root \<noteq> NULL" and "names_ok (ps @ [c])" and "walk nodes root (ps @ [c]) = Some b"
  obtains m where "nodes b = Some m" "walk nodes root ps = Some (vn_parent m)" "vn_name m = c" "b \<noteq> root"
proof -
  obtain a where a: "walk nodes root ps = Some a" "child nodes a c = Some b"
    using assms(4) by (auto simp: walk_snoc split: bind_splits)
  obtain r where "nodes root = Some r" using tree_root [OF assms(1,2)] by blast
  then obtain n where n: "nodes a = Some n" using walk_node [OF assms(1) _ _ a(1)] assms(3) by auto
  then obtain m where m: "nodes b = Some m" "vn_parent m = a" "vn_name m = c"
    using child_iff(1) [OF assms(1) n, of c b] a(2) assms(3) by auto
  moreover have "b \<noteq> root"
    using tree_node_inv [OF assms(1) m(1)] m(2) n tree_NULL [OF assms(1)] by (auto simp: node_inv_def)
  ultimately show ?thesis using that a(1) by blast
qed

lemma walk_inj:
  "tree_inv nodes root \<Longrightarrow> root \<noteq> NULL \<Longrightarrow> names_ok ps \<Longrightarrow> names_ok qs \<Longrightarrow>
   walk nodes root ps = Some a \<Longrightarrow> walk nodes root qs = Some a \<Longrightarrow> ps = qs"
proof (induction ps arbitrary: qs a rule: rev_induct)
  case Nil
  show ?case
  proof (cases qs rule: rev_cases)
    case (snoc qs' c)
    then show ?thesis using walk_snoc_parent [of nodes root qs' c a] Nil by auto
  qed simp
next
  case (snoc c ps)
  obtain m where m: "nodes a = Some m" "walk nodes root ps = Some (vn_parent m)" "vn_name m = c" "a \<noteq> root"
    using walk_snoc_parent [OF snoc.prems(1,2,3,5)] .
  show ?case
  proof (cases qs rule: rev_cases)
    case Nil
    then show ?thesis using snoc.prems m by simp
  next
    case (snoc qs' c')
    then obtain m' where "nodes a = Some m'" "walk nodes root qs' = Some (vn_parent m')" "vn_name m' = c'"
      using walk_snoc_parent [of nodes root qs' c' a] snoc.prems by auto
    then show ?thesis using snoc.IH [of qs' "vn_parent m"] snoc.prems snoc m by auto
  qed
qed

lemma node_has_path:
  assumes "tree_inv nodes root" and "root \<noteq> NULL"
  shows "nodes a = Some n \<Longrightarrow> \<exists>ps. names_ok ps \<and> walk nodes root ps = Some a"
proof (induction "unat a" arbitrary: a n rule: less_induct)
  case less
  show ?case
  proof (cases "a = root")
    case True
    then show ?thesis by (intro exI [of _ "[]"]) simp
  next
    case False
    note ni = tree_node_inv [OF assms(1) less.prems]
    then obtain p where p: "vn_parent n < a" "nodes (vn_parent n) = Some p" "name_ok (vn_name n)"
      using False by (auto simp: node_inv_def)
    obtain ps where ps: "names_ok ps" "walk nodes root ps = Some (vn_parent n)"
      using less.hyps [of "vn_parent n" p] p by (auto simp: word_less_nat_alt)
    have "child nodes (vn_parent n) (vn_name n) = Some a"
      using child_iff(1) [OF assms(1) p(2) node_name_NUL [OF ni]] less.prems by blast
    then show ?thesis
      using ps node_name_NUL [OF ni] by (intro exI [of _ "ps @ [vn_name n]"]) (simp add: walk_snoc)
  qed
qed

lemma walk_butlast_parent:
  assumes "tree_inv nodes root" and "root \<noteq> NULL" and "names_ok ps" and "walk nodes root ps = Some a" and "nodes a = Some n"
  shows "walk nodes root (butlast ps) = Some (if vn_parent n \<noteq> NULL then vn_parent n else a)"
proof (cases ps rule: rev_cases)
  case Nil
  then show ?thesis using assms tree_node_inv [OF assms(1,5)] by (simp add: node_inv_def split: if_splits)
next
  case (snoc qs c)
  then obtain m where m: "nodes a = Some m" "walk nodes root qs = Some (vn_parent m)"
    using walk_snoc_parent [of nodes root qs c a] assms by auto
  then have "nodes (vn_parent m) \<noteq> None"
    using walk_node [OF assms(1) _ _ m(2)] assms(1-3) snoc tree_root by fastforce
  then have "vn_parent m \<noteq> NULL" using tree_NULL [OF assms(1)] by auto
  with m snoc assms(5) show ?thesis by simp
qed

section \<open>Adding a node\<close>

definition insert_node :: "node_heap \<Rightarrow> u32 \<Rightarrow> vfs_node \<Rightarrow> u32 \<Rightarrow> vfs_node \<Rightarrow> node_heap" where
  "insert_node nodes node n parent p =
     nodes(node \<mapsto> n\<lparr>vn_next_sibling := vn_first_child p\<rparr>, parent \<mapsto> p\<lparr>vn_first_child := node\<rparr>)"

lemma kids_in_dom: "tree_inv nodes root \<Longrightarrow> c \<in> kids nodes d \<Longrightarrow> d \<noteq> NULL \<Longrightarrow> nodes d \<noteq> None"
  by (auto simp: kids_def dest!: tree_node_inv simp: node_inv_def split: if_splits)

lemma kids_insert:
  assumes "nodes parent = Some p" and "nodes node = None" and "vn_parent n = parent"
  shows "kids (insert_node nodes node n parent p) d = (if d = parent then insert node (kids nodes d) else kids nodes d)"
  using assms by (auto simp: kids_def insert_node_def split: if_splits)

text \<open>Every structure keeps its name, type and parent; only the parent's first child is new.\<close>

lemma insert_node_at:
  assumes "nodes parent = Some p" and "nodes node = None"
  shows "insert_node nodes node n parent p a =
    (if a = parent then Some (p\<lparr>vn_first_child := node\<rparr>)
     else if a = node then Some (n\<lparr>vn_next_sibling := vn_first_child p\<rparr>) else nodes a)"
  using assms by (auto simp: insert_node_def)

lemma chain_insert:
  assumes "chain nodes a xs" and "nodes parent = Some p" and "nodes node = None"
  shows "chain (insert_node nodes node n parent p) a xs"
proof (rule chain_cong [OF assms(1)])
  fix x m
  assume "nodes x = Some m"
  then show "\<exists>n'. insert_node nodes node n parent p x = Some n' \<and> vn_next_sibling n' = vn_next_sibling m"
    using assms(2,3) by (auto simp: insert_node_def)
qed

lemma tree_inv_insert:
  assumes inv: "tree_inv nodes root" and p: "nodes parent = Some p" "vn_type p = VFS_NODE_DIR"
    and new: "nodes node = None" "node \<noteq> NULL" "parent < node"
    and n: "name_ok (vn_name n)" "vn_parent n = parent" "vn_first_child n = NULL"
    and free: "child nodes parent (vn_name n) = None"
  shows "tree_inv (insert_node nodes node n parent p) root"
proof -
  let ?N = "insert_node nodes node n parent p"
  note at = insert_node_at [of nodes parent p node n, OF p(1) new(1)]
  have nul: "NUL \<notin> set (vn_name n)" using n(1) by (simp add: name_ok_def)
  have pn: "parent \<noteq> node" "parent \<noteq> NULL" using p(1) new(1) tree_NULL [OF inv] by auto
  have rn: "root \<noteq> NULL" "root \<noteq> node" using inv p(1) new(1) by (auto simp: tree_inv_def split: if_splits)
  have fresh: "\<not> (\<exists>c m. nodes c = Some m \<and> vn_parent m = parent \<and> vn_name m = vn_name n)"
    using child_iff(1) [OF inv p(1) nul] free by (metis option.distinct(1))
  have dirs: "\<exists>q. ?N (vn_parent m) = Some q \<and> vn_type q = VFS_NODE_DIR"
    if "nodes (vn_parent m) = Some q" "vn_type q = VFS_NODE_DIR" for m q
    using that p new(1) by (auto simp: at)
  have ni: "node_inv ?N root a m" if m: "?N a = Some m" for a m
  proof -
    consider "a = parent" | "a = node" "a \<noteq> parent" | "a \<noteq> parent" "a \<noteq> node" by blast
    then show ?thesis
    proof cases
      case 1
      note pi = tree_node_inv [OF inv p(1)]
      obtain xs where xs: "chain nodes (vn_first_child p) xs" "set xs = kids nodes parent"
        using pi by (auto simp: node_inv_def)
      have "chain ?N node (node # xs)"
        using chain_insert [OF xs(1) p(1) new(1), of n] new(2) pn(1) by (simp add: at)
      moreover have "set (node # xs) = kids ?N parent" using xs(2) kids_insert [OF p(1) new(1) n(2)] by simp
      moreover have m': "m = p\<lparr>vn_first_child := node\<rparr>" using m 1 by (simp add: at)
      ultimately have "\<exists>ys. chain ?N (vn_first_child m) ys \<and> set ys = kids ?N a" using 1 by (intro exI [of _ "node # xs"]) simp
      then show ?thesis using pi dirs m' 1 unfolding node_inv_def by (auto split: if_splits)
    next
      case 2
      have "kids nodes node = {}" using kids_in_dom [OF inv _ new(2)] new(1) by auto
      then have "set [] = kids ?N node" using kids_insert [OF p(1) new(1) n(2), of node] pn(1) by simp
      then have "\<exists>ys. chain ?N NULL ys \<and> set ys = kids ?N a" using 2(1) by (intro exI [of _ "[]"]) simp
      moreover have "m = n\<lparr>vn_next_sibling := vn_first_child p\<rparr>" using m 2 pn(1) by (simp add: at)
      ultimately show ?thesis
        using 2 rn n new(2,3) p(2) unfolding node_inv_def by (simp add: at)
    next
      case 3
      then have m': "nodes a = Some m" using m by (simp add: at)
      note mi = tree_node_inv [OF inv m']
      obtain xs where xs: "chain nodes (vn_first_child m) xs" "set xs = kids nodes a"
        using mi by (auto simp: node_inv_def)
      have "chain ?N (vn_first_child m) xs" by (rule chain_insert [OF xs(1) p(1) new(1)])
      moreover have "set xs = kids ?N a" using xs(2) kids_insert [OF p(1) new(1) n(2)] 3 by simp
      ultimately show ?thesis using mi dirs unfolding node_inv_def by (auto split: if_splits)
    qed
  qed
  have name_of: "\<exists>m'. nodes a = Some m' \<and> vn_parent m' = vn_parent m \<and> vn_name m' = vn_name m"
    if "?N a = Some m" "a \<noteq> node" for a m using that p(1) pn by (auto simp: at split: if_splits)
  have node_is: "vn_parent m = parent \<and> vn_name m = vn_name n" if "?N node = Some m" for m
    using that pn(1) n(2) by (auto simp: at)
  have uniq: "a = b" if "?N a = Some m" "?N b = Some m'" "vn_parent m = vn_parent m'" "vn_name m = vn_name m'" for a b m m'
  proof (cases "a = node \<or> b = node")
    case True
    then show ?thesis using that name_of node_is fresh by metis
  next
    case False
    then show ?thesis using that name_of tree_unique [OF inv] by metis
  qed
  have "?N root \<noteq> None" using inv rn by (auto simp: at tree_inv_def p(1))
  then show ?thesis unfolding tree_inv_def using ni uniq rn(1) by simp
qed

lemma child_insert:
  assumes inv: "tree_inv nodes root" and inv': "tree_inv (insert_node nodes node n parent p) root"
    and p: "nodes parent = Some p" and new: "nodes node = None" and n: "vn_parent n = parent"
    and d: "nodes d \<noteq> None \<or> d = node" and c: "NUL \<notin> set c"
  shows "child (insert_node nodes node n parent p) d c =
    (if d = parent \<and> c = vn_name n then Some node else if d = node then None else child nodes d c)"
proof -
  let ?N = "insert_node nodes node n parent p"
  note at = insert_node_at [of nodes parent p node n, OF p new]
  have pn: "parent \<noteq> node" using p new by auto
  have "?N d \<noteq> None" using d by (auto simp: at)
  then obtain dn where dn: "?N d = Some dn" by blast
  have iff: "child ?N d c = Some b \<longleftrightarrow>
      (b = node \<and> d = parent \<and> c = vn_name n) \<or> (\<exists>m. nodes b = Some m \<and> vn_parent m = d \<and> vn_name m = c)" for b
    unfolding child_iff(1) [OF inv' dn c] using p new pn n by (auto simp: at)
  show ?thesis
  proof (cases "d = node")
    case True
    have "d \<noteq> NULL" using True tree_NULL [OF inv'] pn by (auto simp: at split: if_splits)
    then have "\<not> (\<exists>m. nodes b = Some m \<and> vn_parent m = d \<and> vn_name m = c)" for b
      using kids_in_dom [OF inv, of b d] True new by (auto simp: kids_def)
    then have "child ?N d c \<noteq> Some b" for b using iff pn True by auto
    then have "child ?N d c = None" by (cases "child ?N d c") auto
    then show ?thesis using True pn by simp
  next
    case False
    then obtain dn0 where d0: "nodes d = Some dn0" using d by auto
    have iff0: "child nodes d c = Some b \<longleftrightarrow> (\<exists>m. nodes b = Some m \<and> vn_parent m = d \<and> vn_name m = c)" for b
      by (rule child_iff(1) [OF inv d0 c])
    show ?thesis
    proof (cases "d = parent \<and> c = vn_name n")
      case True
      then show ?thesis using iff [of node] by simp
    next
      case False
      then have "child ?N d c = Some b \<longleftrightarrow> child nodes d c = Some b" for b using iff iff0 by blast
      then have "child ?N d c = child nodes d c" by (metis not_None_eq)
      then show ?thesis using False \<open>d \<noteq> node\<close> by auto
    qed
  qed
qed

lemma walk_insert:
  assumes inv: "tree_inv nodes root" and rn: "root \<noteq> NULL" and inv': "tree_inv (insert_node nodes node n parent p) root"
    and p: "nodes parent = Some p" and new: "nodes node = None" and n: "vn_parent n = parent" "NUL \<notin> set (vn_name n)"
    and free: "child nodes parent (vn_name n) = None"
    and pp: "names_ok pp" "walk nodes root pp = Some parent" and ps: "names_ok ps"
  shows "walk (insert_node nodes node n parent p) root ps = (if ps = pp @ [vn_name n] then Some node else walk nodes root ps)"
  using ps
proof (induction ps rule: rev_induct)
  case Nil
  then show ?case by simp
next
  case (snoc c ps)
  let ?N = "insert_node nodes node n parent p"
  have ok: "names_ok ps" "NUL \<notin> set c" using snoc.prems by simp_all
  note IH = snoc.IH [OF ok(1)]
  have nr: "nodes root \<noteq> None" using tree_root [OF inv rn] by auto
  show ?case
  proof (cases "ps = pp @ [vn_name n]")
    case True
    have "walk nodes root ps = None" using True pp(2) free by (simp add: walk_append)
    moreover have "child ?N node c = None"
      using child_insert [OF inv inv' p new n(1) _ ok(2), of node] p new by auto
    ultimately show ?thesis using IH True by (simp add: walk_snoc del: append_assoc)
  next
    case False
    show ?thesis
    proof (cases "walk nodes root ps")
      case None
      then have "ps \<noteq> pp" using pp(2) by auto
      with None show ?thesis using IH False by (simp add: walk_snoc)
    next
      case (Some b)
      have b: "nodes b \<noteq> None" using walk_node [OF inv nr ok(1) Some] .
      then have "b \<noteq> node" using new by auto
      moreover have "b = parent \<longleftrightarrow> ps = pp" using walk_inj [OF inv rn ok(1) pp(1)] Some pp(2) by auto
      ultimately show ?thesis
        using IH False Some child_insert [OF inv inv' p new n(1) _ ok(2), of b] b by (auto simp: walk_snoc)
    qed
  qed
qed

section \<open>Writing the contents of a node\<close>

definition same_shape :: "vfs_node \<Rightarrow> vfs_node \<Rightarrow> bool" where
  "same_shape n m \<longleftrightarrow> vn_name n = vn_name m \<and> vn_type n = vn_type m \<and> vn_parent n = vn_parent m \<and>
     vn_first_child n = vn_first_child m \<and> vn_next_sibling n = vn_next_sibling m"

lemma tree_inv_contents:
  assumes inv: "tree_inv nodes root" and a: "nodes a = Some n" and sh: "same_shape n' n"
  shows "tree_inv (nodes(a \<mapsto> n')) root"
proof -
  let ?N = "nodes(a \<mapsto> n')"
  have old: "\<exists>m0. nodes x = Some m0 \<and> same_shape m m0" if "?N x = Some m" for x m
    using that a sh by (auto simp: same_shape_def split: if_splits)
  have new: "\<exists>m. ?N x = Some m \<and> same_shape m m0" if "nodes x = Some m0" for x m0
    using that a sh by (auto simp: same_shape_def)
  have kids: "kids ?N x = kids nodes x" for x
  proof -
    have "(\<exists>m. ?N c = Some m \<and> vn_parent m = x) \<longleftrightarrow> (\<exists>m. nodes c = Some m \<and> vn_parent m = x)" for c
      using a sh by (auto simp: same_shape_def)
    then show ?thesis by (simp add: kids_def)
  qed
  have chain: "chain ?N x xs" if "chain nodes x xs" for x xs
  proof (rule chain_cong [OF that])
    fix y m
    assume "nodes y = Some m"
    from new [OF this] show "\<exists>n'. ?N y = Some n' \<and> vn_next_sibling n' = vn_next_sibling m"
      unfolding same_shape_def by blast
  qed
  have "node_inv ?N root x m" if m: "?N x = Some m" for x m
  proof -
    obtain m0 where m0: "nodes x = Some m0" "same_shape m m0" using old [OF m] by blast
    have "\<exists>q. ?N (vn_parent m0) = Some q \<and> vn_type q = VFS_NODE_DIR"
      if "nodes (vn_parent m0) = Some q" "vn_type q = VFS_NODE_DIR" for q
      using new [OF that(1)] that(2) by (auto simp: same_shape_def)
    then show ?thesis
      using tree_node_inv [OF inv m0(1)] m0(2) chain unfolding node_inv_def same_shape_def kids
      by (auto split: if_splits)
  qed
  moreover have "x = y" if "?N x = Some m" "?N y = Some m'" "vn_parent m = vn_parent m'" "vn_name m = vn_name m'" for x y m m'
    using old [OF that(1)] old [OF that(2)] that(3,4) tree_unique [OF inv] by (auto simp: same_shape_def)
  moreover have "if root = NULL then ?N = Map.empty else ?N root \<noteq> None"
    using tree_nonempty [OF inv a] by simp
  ultimately show ?thesis unfolding tree_inv_def by blast
qed

lemma child_contents:
  assumes inv: "tree_inv nodes root" and a: "nodes a = Some n" and sh: "same_shape n' n"
    and d: "nodes d \<noteq> None" and c: "NUL \<notin> set c"
  shows "child (nodes(a \<mapsto> n')) d c = child nodes d c"
proof -
  let ?N = "nodes(a \<mapsto> n')"
  note inv' = tree_inv_contents [OF inv a sh]
  have "?N d \<noteq> None" using d by simp
  then obtain dn dn' where dn: "nodes d = Some dn" "?N d = Some dn'" using d by blast
  have "(\<exists>m. ?N b = Some m \<and> vn_parent m = d \<and> vn_name m = c) \<longleftrightarrow>
      (\<exists>m. nodes b = Some m \<and> vn_parent m = d \<and> vn_name m = c)" for b
    using a sh by (auto simp: same_shape_def)
  then have "child ?N d c = Some b \<longleftrightarrow> child nodes d c = Some b" for b
    unfolding child_iff(1) [OF inv' dn(2) c] child_iff(1) [OF inv dn(1) c] .
  then show ?thesis by (metis not_None_eq)
qed

lemma walk_contents:
  assumes inv: "tree_inv nodes root" and a: "nodes a = Some n" and sh: "same_shape n' n"
  shows "nodes d \<noteq> None \<Longrightarrow> names_ok ps \<Longrightarrow> walk (nodes(a \<mapsto> n')) d ps = walk nodes d ps"
proof (induction ps arbitrary: d)
  case (Cons c ps)
  have "nodes b \<noteq> None" if "child nodes d c = Some b" for b
    using that Cons.prems child_iff(1) [OF inv] by fastforce
  moreover have "child (nodes(a \<mapsto> n')) d c = child nodes d c"
    using Cons.prems by (intro child_contents [OF inv a sh]) simp_all
  ultimately show ?case
    using Cons.IH Cons.prems by (cases "child nodes d c") (simp_all del: fun_upd_apply)
qed simp

end
