(* ===== verification/VfsSpec.thy ===== *)
theory VfsSpec
  imports VfsInv
begin

text \<open>
  What path resolution in \<^verbatim>\<open>kernel/vfs.c\<close> means: a path is the list of its components, a
  directory is the list of names that leads to it from the root, and following a path is a
  function on such lists.  \<open>resolve_from_spec\<close> shows that the code's walk over the node heap
  computes exactly this function and always returns.
\<close>

section \<open>Components\<close>

abbreviation name_char :: "char \<Rightarrow> bool" where
  "name_char c \<equiv> c \<noteq> NUL \<and> c \<noteq> CHR ''/''"

function comps :: "string \<Rightarrow> string list" where
  "comps [] = []"
| "comps (c # p) =
     (if c = NUL then [] else if c = CHR ''/'' then comps p
      else takeWhile name_char (c # p) # comps (dropWhile name_char (c # p)))"
  by pat_completeness auto
termination
  by (relation "measure length") (auto simp: less_Suc_eq_le length_dropWhile_le)

lemma comps_skip_slashes [simp]: "comps (skip_slashes p) = comps p"
  by (induction p) auto

lemma comps_end: "deref p = NUL \<Longrightarrow> comps p = []"
  by (cases p) auto

lemma comps_skip_end: "deref (skip_slashes p) = NUL \<Longrightarrow> comps p = []"
  using comps_end [of "skip_slashes p"] by simp

lemma component_loop_eq:
  "component_loop p n name =
    (if takeWhile name_char p \<noteq> [] \<and> n \<le> length name + length (takeWhile name_char p) then None
     else Some (name @ takeWhile name_char p, dropWhile name_char p))"
proof (induction p n name rule: component_loop.induct)
  case (2 c p n name)
  then show ?case by (cases "name_char c") auto
qed simp

lemma comps_Cons:
  assumes "deref (skip_slashes p) \<noteq> NUL"
  shows "comps p = takeWhile name_char (skip_slashes p) # comps (dropWhile name_char (skip_slashes p))"
    and "takeWhile name_char (skip_slashes p) \<noteq> []"
proof -
  obtain c q where q: "skip_slashes p = c # q" "c \<noteq> NUL" using assms by (cases "skip_slashes p") auto
  moreover have "c \<noteq> CHR ''/''" using q skip_slashes_head [of p] by simp
  moreover have "comps p = comps (c # q)" using q(1) comps_skip_slashes [of p] by simp
  ultimately show "comps p = takeWhile name_char (skip_slashes p) # comps (dropWhile name_char (skip_slashes p))"
    and "takeWhile name_char (skip_slashes p) \<noteq> []" by simp_all
qed

lemma next_component_eq:
  "vfs_next_component p n =
    (case comps p of
       [] \<Rightarrow> (0, [], skip_slashes p)
     | c # cs \<Rightarrow> if n \<le> length c then (- 1, [], p) else (1, c, dropWhile name_char (skip_slashes p)))"
proof (cases "deref (skip_slashes p) = NUL")
  case True
  then show ?thesis by (simp add: vfs_next_component_def comps_skip_end)
next
  case False
  then show ?thesis using comps_Cons [OF False] by (simp add: vfs_next_component_def component_loop_eq Let_def)
qed

lemma comps_ok: "c \<in> set (comps p) \<Longrightarrow> c \<noteq> [] \<and> NUL \<notin> set c \<and> CHR ''/'' \<notin> set c"
  by (induction p rule: comps.induct) (auto split: if_splits dest: set_takeWhileD)

lemma comps_names_ok: "names_ok (comps p)"
  unfolding names_ok_def list_all_iff using comps_ok by blast

section \<open>Following a path\<close>

text \<open>
  \<open>ex\<close> says which paths lead somewhere; a component that does not fit the name buffer of 32
  bytes ends the search.
\<close>

fun abs_resolve :: "(string list \<Rightarrow> bool) \<Rightarrow> string list \<Rightarrow> string list \<Rightarrow> string list option" where
  "abs_resolve ex ps [] = Some ps"
| "abs_resolve ex ps (c # cs) =
     (if length c > VFS_NAME_MAX then None
      else if c = ''.'' then abs_resolve ex ps cs
      else if c = ''..'' then abs_resolve ex (butlast ps) cs
      else if ex (ps @ [c]) then abs_resolve ex (ps @ [c]) cs
      else None)"

definition leads :: "node_heap \<Rightarrow> u32 \<Rightarrow> string list \<Rightarrow> bool" where
  "leads nodes root ps \<longleftrightarrow> walk nodes root ps \<noteq> None"

lemma resolve_loop_spec:
  assumes "tree_inv nodes root" and "root \<noteq> NULL"
  shows "names_ok ps \<Longrightarrow> walk nodes root ps = Some node \<Longrightarrow>
    resolve_loop nodes node path =
      Some (case abs_resolve (leads nodes root) ps (comps path) of None \<Rightarrow> NULL | Some qs \<Rightarrow> the (walk nodes root qs))"
proof (induction "length path" arbitrary: ps node path rule: less_induct)
  case less
  have nr: "nodes root \<noteq> None" using tree_root [OF assms] by auto
  obtain n where n: "nodes node = Some n"
    using walk_node [OF assms(1) nr less.prems] by auto
  show ?case
  proof (cases "comps path")
    case Nil
    then show ?thesis
      using less.prems(2) by (simp add: resolve_loop.simps [of nodes node path] next_component_eq)
  next
    case (Cons c cs)
    define rest where "rest = dropWhile name_char (skip_slashes path)"
    have nz: "deref (skip_slashes path) \<noteq> NUL"
      using Cons comps_skip_end [of path] by auto
    have cs: "comps rest = cs" using comps_Cons(1) [OF nz] Cons by (simp add: rest_def)
    have cok: "NUL \<notin> set c" using comps_ok [of c path] Cons by simp
    show ?thesis
    proof (cases "length c \<le> VFS_NAME_MAX")
      case False
      then show ?thesis
        using Cons by (simp add: resolve_loop.simps [of nodes node path] next_component_eq)
    next
      case True
      then have step: "vfs_next_component path (VFS_NAME_MAX + 1) = (1, c, rest)"
        using Cons by (simp add: next_component_eq rest_def)
      note shorter = next_component_length [OF step]
      have dots: "str_eq c ''.'' \<longleftrightarrow> c = ''.''" "str_eq c ''..'' \<longleftrightarrow> c = ''..''"
        using cok by (simp_all add: str_eq_NUL_free)
      have unfold: "resolve_loop nodes node path =
          (if c = ''.'' then resolve_loop nodes node rest
           else if c = ''..'' then resolve_loop nodes (if vn_parent n \<noteq> NULL then vn_parent n else node) rest
           else case vfs_find_child nodes node c of
               None \<Rightarrow> None
             | Some b \<Rightarrow> if b = NULL then Some NULL else resolve_loop nodes b rest)"
        by (simp add: resolve_loop.simps [of nodes node path] step [simplified] dots n)
      consider "c = ''.''" | "c = ''..''" | "c \<noteq> ''.''" "c \<noteq> ''..''" by blast
      then show ?thesis
      proof cases
        case 1
        then show ?thesis using less.hyps [OF shorter less.prems] True by (simp add: unfold Cons cs)
      next
        case 2
        note up = walk_butlast_parent [OF assms less.prems n]
        show ?thesis
          using less.hyps [OF shorter names_ok_butlast [OF less.prems(1)] up] True 2 by (simp add: unfold Cons cs)
      next
        case 3
        have fc: "vfs_find_child nodes node c = Some (case child nodes node c of None \<Rightarrow> NULL | Some b \<Rightarrow> b)"
          by (rule child_iff(2) [OF assms(1) n cok])
        have w: "walk nodes root (ps @ [c]) = child nodes node c" by (simp add: walk_snoc less.prems(2))
        show ?thesis
        proof (cases "child nodes node c")
          case None
          then show ?thesis using 3 True w by (simp add: unfold fc Cons leads_def)
        next
          case (Some b)
          have "b \<noteq> NULL" using Some child_iff(1) [OF assms(1) n cok, of b] tree_NULL [OF assms(1)] by auto
          moreover have "names_ok (ps @ [c])" using less.prems(1) cok by simp
          ultimately show ?thesis
            using 3 True w Some less.hyps [OF shorter, of "ps @ [c]" b] by (simp add: unfold fc Cons leads_def cs)
        qed
      qed
    qed
  qed
qed

lemma abs_resolve_leads:
  "abs_resolve (leads nodes root) ps cs = Some qs \<Longrightarrow> tree_inv nodes root \<Longrightarrow> root \<noteq> NULL \<Longrightarrow> names_ok ps \<Longrightarrow> names_ok cs \<Longrightarrow>
   leads nodes root ps \<Longrightarrow> leads nodes root qs \<and> names_ok qs"
proof (induction "leads nodes root" ps cs rule: abs_resolve.induct)
  case (2 ps c cs)
  have nr: "nodes root \<noteq> None" using tree_root [OF 2(5,6)] by auto
  obtain a n where a: "walk nodes root ps = Some a" "nodes a = Some n"
    using 2(9) walk_node [OF 2(5) nr 2(7)] unfolding leads_def by blast
  have up: "leads nodes root (butlast ps)" using walk_butlast_parent [OF 2(5-7) a] by (simp add: leads_def)
  show ?case
    using 2 up names_ok_butlast [OF 2(7)] by (auto split: if_splits)
qed simp

text \<open>Where a path argument leads, from the directory at \<open>ps\<close>.\<close>

definition abs_resolve_path :: "(string list \<Rightarrow> bool) \<Rightarrow> string list \<Rightarrow> string option \<Rightarrow> string list option" where
  "abs_resolve_path ex ps path =
     (case path of
        None \<Rightarrow> Some ps
      | Some p \<Rightarrow> abs_resolve ex (if deref p = CHR ''/'' then [] else ps) (comps p))"

lemma resolve_from_spec:
  assumes "tree_inv nodes root" and "root \<noteq> NULL" and "names_ok ps" and "walk nodes root ps = Some cwd"
  shows "vfs_resolve_from nodes root cwd path =
    Some (case abs_resolve_path (leads nodes root) ps path of None \<Rightarrow> NULL | Some qs \<Rightarrow> the (walk nodes root qs))"
proof (cases path)
  case (Some p)
  let ?ps = "if deref p = CHR ''/'' then [] else ps"
  let ?node = "if deref p = CHR ''/'' then root else cwd"
  have w: "names_ok ?ps" "walk nodes root ?ps = Some ?node" using assms(3,4) by simp_all
  have e: "comps (skip_slashes p) = []" if "deref (skip_slashes p) = NUL" using comps_end [OF that] .
  show ?thesis
  proof (cases "deref p = NUL \<or> deref (skip_slashes p) = NUL")
    case True
    then have "comps p = []" using comps_end [of p] comps_skip_end [of p] by blast
    then show ?thesis
      using True w Some assms(4) by (auto simp: vfs_resolve_from_def abs_resolve_path_def Let_def)
  next
    case False
    then show ?thesis
      using resolve_loop_spec [OF assms(1,2) w, of "skip_slashes p"] Some
      by (auto simp: vfs_resolve_from_def abs_resolve_path_def Let_def)
  qed
qed (use assms in \<open>simp add: vfs_resolve_from_def abs_resolve_path_def\<close>)

end
