(* ===== verification/VfsOps.thy ===== *)
theory VfsOps
  imports VfsSpec
begin

text \<open>
  The operations of \<^verbatim>\<open>kernel/vfs.c\<close> on the level of paths.  \<open>vfs_abs s\<close> is the tree as its users
  see it: a partial function from lists of names to directories and file contents.
  \<open>vfs_inv\<close> is the invariant of the node heap together with that of the allocator.  The
  lemmas of this theory say for every operation that it returns, keeps the invariant and
  changes \<open>vfs_abs\<close> at one path at most.
\<close>

section \<open>The abstract file system\<close>

datatype vfs_entry = Directory | Contents "u8 list"

definition vfs_inv :: "'a vfs_state_scheme \<Rightarrow> bool" where
  "vfs_inv s \<longleftrightarrow> heap_inv (heap s) \<and> tree_inv (vfs_nodes s) (vfs_root_node s) \<and>
     (\<forall>a n. vfs_nodes s a = Some n \<longrightarrow> a < h_current (heap s) \<and>
        unat (vn_data n) + unat (vn_size n) \<le> unat (h_current (heap s)))"

definition entry_of :: "memory \<Rightarrow> vfs_node \<Rightarrow> vfs_entry" where
  "entry_of m n = (case vn_type n of
     VFS_NODE_DIR \<Rightarrow> Directory
   | VFS_NODE_FILE \<Rightarrow> Contents (mem_read m (vn_data n) (unat (vn_size n))))"

definition vfs_abs :: "'a vfs_state_scheme \<Rightarrow> string list \<Rightarrow> vfs_entry option" where
  "vfs_abs s ps =
     (if names_ok ps \<and> vfs_root_node s \<noteq> NULL
      then Option.bind (walk (vfs_nodes s) (vfs_root_node s) ps) (\<lambda>a. map_option (entry_of (mem s)) (vfs_nodes s a))
      else None)"

text \<open>A node that is the current directory of a task, and the path to it.\<close>

definition cwd_at :: "'a vfs_state_scheme \<Rightarrow> u32 \<Rightarrow> string list \<Rightarrow> bool" where
  "cwd_at s cwd ps \<longleftrightarrow> vfs_root_node s \<noteq> NULL \<and> names_ok ps \<and> walk (vfs_nodes s) (vfs_root_node s) ps = Some cwd"

lemma vfs_inv_heap [inv_intros]: "vfs_inv s \<Longrightarrow> heap_inv (heap s)"
  and vfs_inv_tree [inv_intros]: "vfs_inv s \<Longrightarrow> tree_inv (vfs_nodes s) (vfs_root_node s)"
  by (simp_all add: vfs_inv_def)

lemma walk_root_node:
  assumes "vfs_inv s" and "vfs_root_node s \<noteq> NULL" and "names_ok ps" and "walk (vfs_nodes s) (vfs_root_node s) ps = Some a"
  obtains n where "vfs_nodes s a = Some n" "vfs_abs s ps = Some (entry_of (mem s) n)"
proof -
  have "vfs_nodes s (vfs_root_node s) \<noteq> None" using tree_root [OF vfs_inv_tree [OF assms(1)] assms(2)] by auto
  then obtain n where "vfs_nodes s a = Some n"
    using walk_node [OF vfs_inv_tree [OF assms(1)] _ assms(3,4)] by auto
  then show ?thesis using that assms by (simp add: vfs_abs_def)
qed

lemma vfs_abs_leads:
  assumes "vfs_inv s" and "vfs_root_node s \<noteq> NULL" and "names_ok ps"
  shows "vfs_abs s ps \<noteq> None \<longleftrightarrow> leads (vfs_nodes s) (vfs_root_node s) ps"
proof (cases "walk (vfs_nodes s) (vfs_root_node s) ps")
  case (Some a)
  then show ?thesis using walk_root_node [OF assms Some] by (auto simp: leads_def)
qed (simp add: leads_def vfs_abs_def)

text \<open>Resolution on the abstract tree is resolution on the node heap.\<close>

lemma abs_resolve_cong:
  "(\<And>qs. names_ok qs \<Longrightarrow> ex qs = ex' qs) \<Longrightarrow> names_ok ps \<Longrightarrow> names_ok cs \<Longrightarrow> abs_resolve ex ps cs = abs_resolve ex' ps cs"
  by (induction ex ps cs rule: abs_resolve.induct) (auto simp: names_ok_butlast)

lemma abs_resolve_mono:
  "abs_resolve ex ps cs = Some qs \<Longrightarrow> (\<And>qs. ex qs \<Longrightarrow> ex' qs) \<Longrightarrow> abs_resolve ex' ps cs = Some qs"
  by (induction ex ps cs rule: abs_resolve.induct) (auto split: if_splits)

lemma abs_resolve_append:
  "abs_resolve ex ps (cs @ ds) = Option.bind (abs_resolve ex ps cs) (\<lambda>qs. abs_resolve ex qs ds)"
  by (induction ex ps cs rule: abs_resolve.induct) auto

definition vfs_path :: "'a vfs_state_scheme \<Rightarrow> string list \<Rightarrow> string option \<Rightarrow> string list option" where
  "vfs_path s ps path = abs_resolve_path (\<lambda>qs. vfs_abs s qs \<noteq> None) ps path"

lemma vfs_path_leads:
  assumes "vfs_inv s" and "vfs_root_node s \<noteq> NULL" and "names_ok ps"
  shows "vfs_path s ps path = abs_resolve_path (leads (vfs_nodes s) (vfs_root_node s)) ps path"
proof -
  have "abs_resolve (\<lambda>qs. vfs_abs s qs \<noteq> None) bs (comps p) = abs_resolve (leads (vfs_nodes s) (vfs_root_node s)) bs (comps p)"
    if "names_ok bs" for bs p
    by (rule abs_resolve_cong) (use that comps_names_ok vfs_abs_leads [OF assms(1,2)] in auto)
  then show ?thesis using assms(3) by (simp add: vfs_path_def abs_resolve_path_def split: option.split)
qed

lemma resolve_spec:
  assumes "vfs_inv s" and "cwd_at s cwd ps"
  shows "vfs_path s ps path = None \<Longrightarrow> vfs_resolve_from (vfs_nodes s) (vfs_root_node s) cwd path = Some NULL"
    and "vfs_path s ps path = Some qs \<Longrightarrow> \<exists>a n. vfs_resolve_from (vfs_nodes s) (vfs_root_node s) cwd path = Some a \<and>
      cwd_at s a qs \<and> a \<noteq> NULL \<and> vfs_nodes s a = Some n \<and> vfs_abs s qs = Some (entry_of (mem s) n)"
proof -
  let ?N = "vfs_nodes s" and ?R = "vfs_root_node s"
  have c: "?R \<noteq> NULL" "names_ok ps" "walk ?N ?R ps = Some cwd" using assms(2) by (simp_all add: cwd_at_def)
  note t = vfs_inv_tree [OF assms(1)]
  note r = resolve_from_spec [OF t c, of path] and p = vfs_path_leads [OF assms(1) c(1,2), of path]
  show "vfs_path s ps path = None \<Longrightarrow> vfs_resolve_from ?N ?R cwd path = Some NULL" using r p by simp
  assume q: "vfs_path s ps path = Some qs"
  have "leads ?N ?R qs \<and> names_ok qs"
  proof (cases path)
    case None
    then show ?thesis using q p c by (simp add: abs_resolve_path_def leads_def)
  next
    case (Some p')
    have "leads ?N ?R (if deref p' = CHR ''/'' then [] else ps)" "names_ok (if deref p' = CHR ''/'' then [] else ps)"
      using c by (simp_all add: leads_def)
    then show ?thesis
      using abs_resolve_leads [OF _ t c(1), of _ "comps p'" qs] q p Some comps_names_ok [of p']
      by (simp add: abs_resolve_path_def)
  qed
  then obtain a where a: "walk ?N ?R qs = Some a" "names_ok qs" by (auto simp: leads_def)
  obtain n where n: "?N a = Some n" "vfs_abs s qs = Some (entry_of (mem s) n)"
    using walk_root_node [OF assms(1) c(1) a(2,1)] .
  have "a \<noteq> NULL" using n(1) tree_NULL [OF t] by auto
  moreover have "vfs_resolve_from ?N ?R cwd path = Some a" using r q a(1) by (simp flip: p)
  ultimately show "\<exists>a n. vfs_resolve_from ?N ?R cwd path = Some a \<and> cwd_at s a qs \<and> a \<noteq> NULL \<and>
      ?N a = Some n \<and> vfs_abs s qs = Some (entry_of (mem s) n)"
    using n a c(1) by (auto simp: cwd_at_def)
qed

section \<open>The path of the current directory\<close>

lemma cwd_parts_spec:
  assumes "tree_inv nodes root" and "root \<noteq> NULL"
  shows "names_ok ps \<Longrightarrow> walk nodes root ps = Some node \<Longrightarrow> cwd_parts nodes root node k = Some (take k (rev ps))"
proof (induction k arbitrary: ps node)
  case (Suc k)
  show ?case
  proof (cases ps rule: rev_cases)
    case Nil
    then show ?thesis using Suc.prems(2) by simp
  next
    case (snoc qs c)
    obtain m where m: "nodes node = Some m" "walk nodes root qs = Some (vn_parent m)" "vn_name m = c" "node \<noteq> root"
      using walk_snoc_parent [OF assms, of qs c node] Suc.prems snoc by auto
    have "node \<noteq> NULL" using m(1) tree_NULL [OF assms(1)] by auto
    then show ?thesis using Suc.IH [of qs "vn_parent m"] Suc.prems snoc m by simp
  qed
qed simp

definition cwd_text :: "string list \<Rightarrow> string" where
  "cwd_text ps = (if ps = [] then ''/'' else cwd_out (rev (take 16 (rev ps))) 127 ''/'')"

lemma get_cwd_path_spec:
  assumes "tree_inv nodes root" and "root \<noteq> NULL" and "names_ok ps" and "walk nodes root ps = Some cwd"
  shows "vfs_get_cwd_path nodes root cwd VFS_PATH_MAX = Some (cwd_text ps)"
proof -
  have "cwd = root \<longleftrightarrow> ps = []"
    using walk_inj [OF assms(1,2), of ps "[]" cwd] assms(3,4) by auto
  then show ?thesis
    using cwd_parts_spec [OF assms(1,2) assms(3,4), of 16]
    by (simp add: vfs_get_cwd_path_def cwd_text_def VFS_PATH_MAX_def str_copy_def str_copy_loop_eq)
qed

text \<open>The path that is compared with the mount points, and which paths are refused.\<close>

definition check_of :: "string list \<Rightarrow> string option \<Rightarrow> string option" where
  "check_of ps path =
     (case path of
        None \<Rightarrow> None
      | Some p \<Rightarrow> if deref p \<noteq> CHR ''/'' then
            (case vfs_path_join VFS_PATH_MAX (cwd_text ps) p of Some q \<Rightarrow> Some q | None \<Rightarrow> path)
          else path)"

definition on_cdrom :: "string list \<Rightarrow> string option \<Rightarrow> bool" where
  "on_cdrom ps path \<longleftrightarrow> vfs_is_bin_alias_path (check_of ps path) \<noteq> None \<or> vfs_is_cdrom_mount_path (check_of ps path) \<noteq> None"

lemma check_path_spec:
  assumes "vfs_inv s" and "cwd_at s cwd ps"
  shows "vfs_check_path s cwd path = Some (check_of ps path)"
  using get_cwd_path_spec [OF vfs_inv_tree [OF assms(1)], of ps cwd] assms(2)
  by (auto simp: vfs_check_path_def check_of_def cwd_at_def split: option.split)

section \<open>Adding an entry\<close>

lemma str_copy_32: "str_copy [] nm 32 = take 31 (cstr nm)"
  by (simp add: str_copy_eq)

lemma name_ok_copy: "name_ok nm \<Longrightarrow> str_copy [] nm 32 = nm"
  by (simp add: str_copy_32 name_ok_def VFS_NAME_MAX_def)

text \<open>Memory below the watermark of the heap keeps its bytes when a block is handed out.\<close>

lemma old_data_unchanged:
  assumes "unat p + n < 2 ^ 32" and "unat a + k \<le> unat p"
    and "\<And>x. \<not> in_block p n x \<Longrightarrow> m' x = m x"
  shows "mem_read m' a k = mem_read m a k"
proof (rule mem_read_cong)
  fix x
  assume "in_block a k x"
  then have "unat x < unat p" using assms(1,2) by (subst (asm) in_block_iff) simp_all
  then have "\<not> in_block p n x" using assms(1) by (subst in_block_iff) simp_all
  then show "m' x = m x" by (rule assms(3))
qed

lemma entry_of_old:
  assumes "vfs_inv s" and "vfs_nodes s a = Some n" and "p = h_current (heap s)" and "unat p + k < 2 ^ 32"
    and "\<And>x. \<not> in_block p k x \<Longrightarrow> m' x = mem s x"
  shows "entry_of m' n = entry_of (mem s) n"
proof -
  have "unat (vn_data n) + unat (vn_size n) \<le> unat p" using assms(1-3) by (auto simp: vfs_inv_def)
  then have "mem_read m' (vn_data n) (unat (vn_size n)) = mem_read (mem s) (vn_data n) (unat (vn_size n))"
    using old_data_unchanged [OF assms(4) _ assms(5)] by simp
  then show ?thesis by (cases "vn_type n") (simp_all add: entry_of_def)
qed

lemma heap_room_bound:
  assumes "heap_inv h" and "unat p + k \<le> unat (h_limit h)" and "h_ready h"
  shows "unat p + k < 2 ^ 32"
  using assms unat_u32_bound [of "h_limit h"] by simp

lemma alloc_node_spec:
  assumes inv: "vfs_inv s" and par: "cwd_at s parent pp" "vfs_nodes s parent = Some p" "vn_type p = VFS_NODE_DIR"
    and nm: "name_ok name" and free: "child (vfs_nodes s) parent name = None"
  obtains node s' where "vfs_alloc_node name type parent s = Some (node, s')"
    "node = NULL \<longleftrightarrow> fst (kmalloc sizeof_vfs_node s) = NULL" "node = NULL \<Longrightarrow> s' = s"
    "node \<noteq> NULL \<Longrightarrow> vfs_inv s'" "vfs_root_node s' = vfs_root_node s"
    "node \<noteq> NULL \<Longrightarrow> cwd_at s' node (pp @ [name])"
    "node \<noteq> NULL \<Longrightarrow> vfs_abs s' = (vfs_abs s)(pp @ [name] \<mapsto> (if type = VFS_NODE_DIR then Directory else Contents []))"
    "\<And>a qs. cwd_at s a qs \<Longrightarrow> cwd_at s' a qs" "h_limit (heap s') = h_limit (heap s)"
    "unat (h_current (heap s)) \<le> unat (h_current (heap s'))"
    "\<And>x. x < h_current (heap s) \<or> h_limit (heap s) \<le> x \<Longrightarrow> mem s' x = mem s x"
    "\<And>a n. vfs_nodes s a = Some n \<Longrightarrow> \<exists>n'. vfs_nodes s' a = Some n' \<and> vn_type n' = vn_type n"
proof -
  let ?N = "vfs_nodes s" and ?R = "vfs_root_node s"
  obtain node s1 where k: "kcalloc sizeof_vfs_node s = (node, s1)" by fastforce
  note kf = kcalloc_frame [OF vfs_inv_heap [OF inv] k]
  have rn: "?R \<noteq> NULL" and pp: "names_ok pp" "walk ?N ?R pp = Some parent" using par(1) by (simp_all add: cwd_at_def)
  note tree = vfs_inv_tree [OF inv]
  have pnz: "parent \<noteq> NULL" using par(2) tree_NULL [OF tree] by auto
  show ?thesis
  proof (cases "node = NULL")
    case True
    then show ?thesis
      using k kf(1,2) by (intro that [of NULL s]) (auto simp: vfs_alloc_node_def)
  next
    case False
    note f = kf(3) [OF False]
    let ?n = "\<lparr>vn_name = name, vn_type = type, vn_parent = parent, vn_first_child = NULL, vn_next_sibling = NULL,
      vn_data = NULL, vn_size = 0\<rparr>"
    let ?N' = "insert_node ?N node ?n parent p"
    let ?s' = "s1\<lparr>vfs_nodes := ?N'\<rparr>"
    have s1: "vfs_nodes s1 = ?N" "vfs_root_node s1 = ?R"
      by (subst f [THEN conjunct2, THEN conjunct2, THEN conjunct2, THEN conjunct2, THEN conjunct2, THEN conjunct1], simp)+
    have al: "vfs_alloc_node name type parent s = Some (node, ?s')"
      using k False pnz par(2) by (simp add: vfs_alloc_node_def s1 name_ok_copy [OF nm] insert_node_def)
    have new: "?N node = None"
    proof (rule ccontr)
      assume "?N node \<noteq> None"
      then have "node < h_current (heap s)" using inv by (auto simp: vfs_inv_def)
      then show False using f by simp
    qed
    have plt: "parent < node" using inv par(2) f by (auto simp: vfs_inv_def)
    have nul: "NUL \<notin> set name" using nm by (simp add: name_ok_def)
    have tree': "tree_inv ?N' ?R"
      by (rule tree_inv_insert [OF tree par(2,3) new False plt]) (use nm free in simp_all)
    have walk': "walk ?N' ?R ps = (if ps = pp @ [name] then Some node else walk ?N ?R ps)" if "names_ok ps" for ps
      using walk_insert [OF tree rn tree' par(2) new _ _ _ pp that] nul free by simp
    have bound: "unat node + unat sizeof_vfs_node < 2 ^ 32"
      using f unat_u32_bound [of "h_current (heap s1)"] by linarith
    have lims: "unat (h_current (heap s)) \<le> unat (h_current (heap s1))" using f by auto
    note at = insert_node_at [of ?N parent p node ?n, OF par(2) new]
    have pn: "parent \<noteq> node" using par(2) new by auto
    have inv': "vfs_inv ?s'"
    proof -
      have "a < h_current (heap s1) \<and> unat (vn_data m) + unat (vn_size m) \<le> unat (h_current (heap s1))"
        if m: "?N' a = Some m" for a m
      proof (cases "a = node")
        case True
        have "node < h_current (heap s1)" using f by (auto simp: word_less_nat_alt sizeof_vfs_node_def)
        then show ?thesis using m True pn by (auto simp: at)
      next
        case False
        then obtain m0 where "?N a = Some m0" "vn_data m = vn_data m0" "vn_size m = vn_size m0"
          using m par(2) by (auto simp: at split: if_splits)
        then show ?thesis using inv lims by (fastforce simp: vfs_inv_def word_less_nat_alt)
      qed
      then show ?thesis using f tree' by (simp add: vfs_inv_def s1)
    qed
    have ent: "entry_of (mem s1) m = entry_of (mem s) m" if "?N a = Some m" for a m
      by (rule entry_of_old [OF inv that _ bound]) (use f in simp_all)
    have abs': "vfs_abs ?s' qs = ((vfs_abs s)(pp @ [name] \<mapsto> (if type = VFS_NODE_DIR then Directory else Contents []))) qs" for qs
    proof (cases "names_ok qs")
      case False
      then show ?thesis using pp(1) nul by (auto simp: vfs_abs_def)
    next
      case ok: True
      show ?thesis
      proof (cases "qs = pp @ [name]")
        case True
        have "entry_of (mem s1) (?n\<lparr>vn_next_sibling := vn_first_child p\<rparr>) = (if type = VFS_NODE_DIR then Directory else Contents [])"
          by (cases type) (simp_all add: entry_of_def)
        then show ?thesis using True ok rn walk' [OF ok] pn by (simp add: vfs_abs_def s1 at)
      next
        case False
        show ?thesis
        proof (cases "walk ?N ?R qs")
          case None
          then show ?thesis using False ok rn walk' [OF ok] by (simp add: vfs_abs_def s1)
        next
          case (Some b)
          obtain m where m: "?N b = Some m" using walk_root_node [OF inv rn ok Some] by blast
          then have "b \<noteq> node" using new by auto
          moreover have "entry_of (mem s1) (p\<lparr>vn_first_child := node\<rparr>) = entry_of (mem s1) p"
            by (cases "vn_type p") (simp_all add: entry_of_def)
          ultimately show ?thesis
            using False ok rn walk' [OF ok] Some m ent par(2) by (auto simp: vfs_abs_def s1 at)
        qed
      qed
    qed
    have memout: "mem s1 x = mem s x" if "x < h_current (heap s) \<or> h_limit (heap s) \<le> x" for x
    proof -
      have "unat (h_current (heap s1)) \<le> unat (h_limit (heap s))"
        using f by (auto simp: heap_inv_def word_le_nat_alt)
      moreover have "unat node + unat sizeof_vfs_node \<le> unat (h_current (heap s1))" using f by blast
      ultimately have "unat node + unat sizeof_vfs_node \<le> unat (h_limit (heap s))" by linarith
      then have "\<not> in_block node (unat sizeof_vfs_node) x"
        using that f bound by (subst in_block_iff) (auto simp: word_less_nat_alt word_le_nat_alt)
      then show ?thesis using f by simp
    qed
    have keep: "cwd_at ?s' a qs" if "cwd_at s a qs" for a qs
    proof -
      have "qs \<noteq> pp @ [name]" using that pp(2) free by (auto simp: cwd_at_def walk_snoc)
      then show ?thesis using that walk' by (simp add: cwd_at_def s1)
    qed
    have cwd': "cwd_at ?s' node (pp @ [name])" using walk' pp nul rn by (simp add: cwd_at_def s1)
    have "\<exists>n'. ?N' a = Some n' \<and> vn_type n' = vn_type n0" if "?N a = Some n0" for a n0
      using that par(2) new by (auto simp: at)
    moreover have "h_limit (heap s1) = h_limit (heap s)" using f by blast
    ultimately show ?thesis
      using False inv' abs' keep memout lims cwd' by (intro that [OF al kf(2)]) (simp_all add: s1 fun_eq_iff)
  qed
qed

section \<open>Splitting a path\<close>

lemma comps_cstr: "comps (cstr p) = comps p"
proof (induction p rule: comps.induct)
  case (2 c p)
  show ?case
  proof (cases "name_char c")
    case True
    have tw: "takeWhile name_char (cstr q) = takeWhile name_char q"
      and dw: "dropWhile name_char (cstr q) = cstr (dropWhile name_char q)" for q
      by (induction q) auto
    show ?thesis using 2(2) True tw [of "c # p"] dw [of "c # p"] by simp
  qed (use 2(1) in auto)
qed simp

lemma comps_plain: "v \<noteq> [] \<Longrightarrow> NUL \<notin> set v \<Longrightarrow> CHR ''/'' \<notin> set v \<Longrightarrow> comps v = [v]"
proof (cases v)
  case (Cons c q)
  assume "NUL \<notin> set v" "CHR ''/'' \<notin> set v"
  then have "takeWhile name_char v = v" "dropWhile name_char v = []" "name_char c"
    using Cons by (auto simp: takeWhile_eq_all_conv dropWhile_eq_Nil_conv)
  then show ?thesis unfolding Cons comps.simps(2) by (simp only: if_False comps.simps(1) not_True_eq_False simp_thms)
qed simp

lemma comps_slash: "NUL \<notin> set u \<Longrightarrow> comps (u @ CHR ''/'' # v) = comps u @ comps v"
proof (induction u rule: comps.induct)
  case (2 c u)
  show ?case
  proof (cases "c = CHR ''/''")
    case False
    then have c: "name_char c" using 2(3) by auto
    show ?thesis
    proof (cases "\<forall>x \<in> set u. name_char x")
      case True
      have tw: "takeWhile name_char (u @ CHR ''/'' # v) = u" "dropWhile name_char (u @ CHR ''/'' # v) = CHR ''/'' # v"
        using True by (simp_all add: takeWhile_append2 dropWhile_append2)
      have "takeWhile name_char u = u" "dropWhile name_char u = []"
        using True by (auto simp: takeWhile_eq_all_conv dropWhile_eq_Nil_conv)
      with tw c show ?thesis by (simp del: takeWhile_eq_all_conv dropWhile_eq_Nil_conv)
    next
      case no: False
      then obtain x where x: "x \<in> set u" "\<not> name_char x" by blast
      have tw: "takeWhile name_char (u @ CHR ''/'' # v) = takeWhile name_char u"
        "dropWhile name_char (u @ CHR ''/'' # v) = dropWhile name_char u @ CHR ''/'' # v"
        using x takeWhile_append1 [of x u name_char] dropWhile_append1 [of x u name_char] by simp_all
      have "NUL \<notin> set (dropWhile name_char u)" using 2(3) by (auto dest: set_dropWhileD)
      then show ?thesis using 2(2) c tw by simp
    qed
  qed (use 2 in auto)
qed simp

lemma scan_last_spec:
  "CHR ''/'' \<notin> set (cstr p) \<Longrightarrow> scan_last p i lst = lst"
  "cstr p = u @ CHR ''/'' # v \<Longrightarrow> CHR ''/'' \<notin> set v \<Longrightarrow> scan_last p i lst = i + length u"
proof (induction p i lst arbitrary: u rule: scan_last.induct)
  case (2 c s i lst)
  note IH = 2
  {
    case 1
    then show ?case using IH(1) by (auto split: if_splits)
  next
    case 2
    note prems = this
    have c: "c \<noteq> NUL" using prems(1) by auto
    show ?case
    proof (cases u)
      case Nil
      then have "c = CHR ''/''" "cstr s = v" using prems(1) c by auto
      then show ?thesis using IH(1) [OF c] prems(2) Nil by simp
    next
      case (Cons x u')
      then have "x = c" "cstr s = u' @ CHR ''/'' # v" using prems(1) c by auto
      then show ?thesis using IH(2) [OF c _ prems(2), of u'] Cons c by simp
    qed
  }
qed auto

text \<open>
  The two outcomes: a path without slash names an entry of the current directory, with its
  name cut to 31 characters; otherwise everything before the last slash is the directory.
\<close>

lemma split_last_slash:
  assumes "CHR ''/'' \<in> set (cstr p)"
  obtains u v where "cstr p = u @ CHR ''/'' # v" "CHR ''/'' \<notin> set v"
  using split_list_last [OF assms] by blast

lemma split_parent_spec:
  assumes "vfs_split_parent path VFS_PATH_MAX (VFS_NAME_MAX + 1) = Some (pp, name)" and "\<forall>p. path = Some p \<longrightarrow> length p < 2 ^ 32"
  obtains p where "path = Some p" "name_ok name"
    "(pp = [] \<and> deref p \<noteq> CHR ''/'' \<and> comps p = [cstr p] \<and> name = take 31 (cstr p)) \<or>
     (deref pp \<noteq> NUL \<and> (deref pp = CHR ''/'' \<longleftrightarrow> deref p = CHR ''/'') \<and> comps p = comps pp @ [name] \<and>
      name \<noteq> ''.'' \<and> name \<noteq> ''..'')"
proof -
  obtain p where p: "path = Some p" "deref p \<noteq> NUL" using assms(1) by (auto simp: vfs_split_parent_def split: option.splits if_splits)
  have small: "length p < 2 ^ 32" using assms(2) p(1) by simp
  have cne: "cstr p \<noteq> []" "deref (cstr p) = deref p" using p(2) by (cases p; simp)+
  show ?thesis
  proof (cases "CHR ''/'' \<in> set (cstr p)")
    case False
    then have "scan_last p 0 0 = 0" "deref p \<noteq> CHR ''/''" using scan_last_spec(1) [of p 0 0] p(2) by (cases p; auto)+
    then have e: "pp = []" "name = take 31 (cstr p)"
      using assms(1) p by (auto simp: vfs_split_parent_def VFS_NAME_MAX_def Let_def str_copy_32 split: if_splits)
    have nm: "name_ok name"
      using e cne False NUL_notin_cstr [of p] by (auto simp: name_ok_def VFS_NAME_MAX_def dest: in_set_takeD)
    have "comps p = [cstr p]" using comps_plain [OF cne(1) _ False] comps_cstr [of p] by simp
    then show ?thesis using that [OF p(1) nm] e \<open>deref p \<noteq> CHR ''/''\<close> by simp
  next
    case True
    then obtain u v where uv: "cstr p = u @ CHR ''/'' # v" "CHR ''/'' \<notin> set v" by (rule split_last_slash)
    have lst: "scan_last p 0 0 = length u" using scan_last_spec(2) [OF uv] by simp
    obtain w where w: "p = u @ CHR ''/'' # w" "cstr w = v"
    proof -
      have nz: "NUL \<notin> set (u @ [CHR ''/''])" using NUL_notin_cstr [of p] uv(1) by auto
      have tk: "take (length (cstr p)) p = cstr p" by (simp add: cstr_def flip: takeWhile_eq_take)
      have le: "Suc (length u) \<le> length (cstr p)" by (simp add: uv(1))
      have "take (Suc (length u)) (cstr p) = take (Suc (length u)) p"
        by (subst tk [symmetric]) (simp add: le min_absorb1)
      then have "take (Suc (length u)) p = u @ [CHR ''/'']" by (simp add: uv(1))
      then have "p = (u @ [CHR ''/'']) @ drop (Suc (length u)) p" by (metis append_take_drop_id)
      moreover have "cstr ((u @ [CHR ''/'']) @ x) = (u @ [CHR ''/'']) @ cstr x" for x
        using nz by (induction u) auto
      ultimately show ?thesis using that [of "drop (Suc (length u)) p"] uv(1) by (metis append_Cons append_Nil append_assoc same_append_eq)
    qed
    have nz: "NUL \<notin> set u" "NUL \<notin> set v" using NUL_notin_cstr [of p] uv(1) by auto
    have first: "u = [] \<longleftrightarrow> deref p = CHR ''/'' \<and> length u = 0" by (auto simp: w(1))
    have l: "drop (length u + 1) p = w" by (simp add: w(1))
    have tku: "take (length u) p = u" by (simp add: w(1))
    have len: "unat (str_len w) = length v" using small w by (subst unat_str_len) auto
    have "u = [] \<Longrightarrow> deref p = CHR ''/''" by (simp add: w(1))
    then have "\<not> (scan_last p 0 0 = 0 \<and> deref p \<noteq> CHR ''/'')" using lst by auto
    then have e: "pp = (if u = [] then ''/'' else u)" "length v \<le> 31" "name = take 31 v" "deref name \<noteq> NUL"
        "\<not> str_eq name ''.''" "\<not> str_eq name ''..''"
      using assms(1) p l len tku
      by (auto simp: vfs_split_parent_def VFS_NAME_MAX_def Let_def str_copy_32 lst w(2) split: if_splits)
    then have nv: "name = v" by simp
    have "v \<noteq> []" using e(4) nv by auto
    then have nm: "name_ok name" using nv nz uv(2) e(2) by (simp add: name_ok_def VFS_NAME_MAX_def)
    have dots: "name \<noteq> ''.''" "name \<noteq> ''..''" using e(5,6) nv nz(2) by (auto simp: str_eq_NUL_free)
    have "comps p = comps u @ [v]"
      using comps_slash [OF nz(1), of v] comps_plain [OF \<open>v \<noteq> []\<close> nz(2) uv(2)] comps_cstr [of p] uv(1) by simp
    then have "comps p = comps pp @ [name]" using e(1) nv by auto
    moreover have "deref pp \<noteq> NUL" using e(1) nz(1) by (cases u) auto
    moreover have "deref pp = CHR ''/'' \<longleftrightarrow> deref p = CHR ''/''" using e(1) w(1) by (cases u) auto
    ultimately show ?thesis using that [OF p(1) nm] dots by blast
  qed
qed

section \<open>Steps that keep the tree\<close>

text \<open>
  What every operation keeps: the invariant, the root, the paths and types of all nodes, and
  the memory outside the free part of the heap.
\<close>

definition vfs_ext :: "'a vfs_state_scheme \<Rightarrow> 'a vfs_state_scheme \<Rightarrow> bool" where
  "vfs_ext s s' \<longleftrightarrow> vfs_inv s' \<and> vfs_root_node s' = vfs_root_node s \<and>
     (\<forall>a qs. cwd_at s a qs \<longrightarrow> cwd_at s' a qs) \<and>
     (\<forall>a n. vfs_nodes s a = Some n \<longrightarrow> (\<exists>n'. vfs_nodes s' a = Some n' \<and> vn_type n' = vn_type n)) \<and>
     h_limit (heap s') = h_limit (heap s) \<and>
     unat (h_current (heap s)) \<le> unat (h_current (heap s')) \<and>
     (\<forall>x. x < h_current (heap s) \<or> h_limit (heap s) \<le> x \<longrightarrow> mem s' x = mem s x)"

lemma vfs_ext_refl [simp]: "vfs_inv s \<Longrightarrow> vfs_ext s s"
  by (simp add: vfs_ext_def)

lemma vfs_ext_trans: "vfs_ext s s' \<Longrightarrow> vfs_ext s' s'' \<Longrightarrow> vfs_ext s s''"
  unfolding vfs_ext_def by (fastforce simp: word_less_nat_alt)

lemma vfs_extD:
  assumes "vfs_ext s s'"
  shows "vfs_inv s'" "vfs_root_node s' = vfs_root_node s" "cwd_at s a qs \<Longrightarrow> cwd_at s' a qs"
    "h_limit (heap s') = h_limit (heap s)" "unat (h_current (heap s)) \<le> unat (h_current (heap s'))"
    "x < h_current (heap s) \<or> h_limit (heap s) \<le> x \<Longrightarrow> mem s' x = mem s x"
    "vfs_nodes s a = Some n \<Longrightarrow> \<exists>n'. vfs_nodes s' a = Some n' \<and> vn_type n' = vn_type n"
  using assms by (auto simp: vfs_ext_def)

lemma alloc_node_ext:
  assumes "vfs_inv s" and "cwd_at s parent pp" and "vfs_nodes s parent = Some p" and "vn_type p = VFS_NODE_DIR"
    and "name_ok name" and "child (vfs_nodes s) parent name = None"
  obtains node s' where "vfs_alloc_node name type parent s = Some (node, s')"
    "node = NULL \<longleftrightarrow> fst (kmalloc sizeof_vfs_node s) = NULL" "node = NULL \<longrightarrow> s' = s" "vfs_ext s s'"
    "node \<noteq> NULL \<longrightarrow> cwd_at s' node (pp @ [name])"
    "node \<noteq> NULL \<longrightarrow> vfs_abs s' = (vfs_abs s)(pp @ [name] \<mapsto> (if type = VFS_NODE_DIR then Directory else Contents []))"
proof -
  obtain node s' where a: "vfs_alloc_node name type parent s = Some (node, s')"
    "node = NULL \<longleftrightarrow> fst (kmalloc sizeof_vfs_node s) = NULL" "node = NULL \<Longrightarrow> s' = s"
    "node \<noteq> NULL \<Longrightarrow> vfs_inv s'" "vfs_root_node s' = vfs_root_node s"
    "node \<noteq> NULL \<Longrightarrow> cwd_at s' node (pp @ [name])"
    "node \<noteq> NULL \<Longrightarrow> vfs_abs s' = (vfs_abs s)(pp @ [name] \<mapsto> (if type = VFS_NODE_DIR then Directory else Contents []))"
    "\<And>a qs. cwd_at s a qs \<Longrightarrow> cwd_at s' a qs" "h_limit (heap s') = h_limit (heap s)"
    "unat (h_current (heap s)) \<le> unat (h_current (heap s'))"
    "\<And>x. x < h_current (heap s) \<or> h_limit (heap s) \<le> x \<Longrightarrow> mem s' x = mem s x"
    "\<And>a n. vfs_nodes s a = Some n \<Longrightarrow> \<exists>n'. vfs_nodes s' a = Some n' \<and> vn_type n' = vn_type n"
    using alloc_node_spec [OF assms] by metis
  have "vfs_ext s s'" using a(3-5,8-12) assms(1) by (cases "node = NULL") (simp_all add: vfs_ext_def)
  then show ?thesis using that a by blast
qed

section \<open>Creating directories and files\<close>

text \<open>The directory and the name that a creating operation works on.\<close>

definition target :: "'a vfs_state_scheme \<Rightarrow> string list \<Rightarrow> string option \<Rightarrow> (string list \<times> string) option" where
  "target s ps path =
     (case vfs_split_parent path VFS_PATH_MAX (VFS_NAME_MAX + 1) of
        None \<Rightarrow> None
      | Some (pp, name) \<Rightarrow> map_option (\<lambda>qs. (qs, name)) (if deref pp = NUL then Some ps else vfs_path s ps (Some pp)))"

abbreviation path_ok :: "string option \<Rightarrow> bool" where
  "path_ok path \<equiv> \<forall>p. path = Some p \<longrightarrow> length p < 2 ^ 32"

lemma cwd_at_node:
  assumes "vfs_inv s" and "cwd_at s a qs"
  obtains n where "vfs_nodes s a = Some n" "vfs_abs s qs = Some (entry_of (mem s) n)" "a \<noteq> NULL"
proof -
  have c: "vfs_root_node s \<noteq> NULL" "names_ok qs" "walk (vfs_nodes s) (vfs_root_node s) qs = Some a"
    using assms(2) by (simp_all add: cwd_at_def)
  obtain n where n: "vfs_nodes s a = Some n" "vfs_abs s qs = Some (entry_of (mem s) n)"
    using walk_root_node [OF assms(1) c] .
  then show ?thesis using that tree_NULL [OF vfs_inv_tree [OF assms(1)]] by (cases "a = NULL") auto
qed

lemma target_parent:
  assumes "vfs_inv s" and "cwd_at s cwd ps" and "vfs_split_parent path VFS_PATH_MAX (VFS_NAME_MAX + 1) = Some (pp, name)"
  shows "\<exists>parent. (if deref pp = NUL then Some cwd
        else vfs_resolve_from (vfs_nodes s) (vfs_root_node s) cwd (Some pp)) = Some parent \<and>
      (case target s ps path of None \<Rightarrow> parent = NULL | Some (qs, nm) \<Rightarrow> nm = name \<and> cwd_at s parent qs)"
proof (cases "deref pp = NUL")
  case True
  then show ?thesis using assms by (simp add: target_def)
next
  case False
  show ?thesis
  proof (cases "vfs_path s ps (Some pp)")
    case None
    then show ?thesis using False assms(3) resolve_spec(1) [OF assms(1,2) None] by (simp add: target_def)
  next
    case (Some qs)
    then show ?thesis using False assms(3) resolve_spec(2) [OF assms(1,2) Some] by (auto simp: target_def)
  qed
qed

lemma cwd_at_child:
  assumes "vfs_inv s" and "cwd_at s a qs" and "NUL \<notin> set nm"
  shows "child (vfs_nodes s) a nm = None \<Longrightarrow> vfs_abs s (qs @ [nm]) = None"
    and "child (vfs_nodes s) a nm = Some c \<Longrightarrow> cwd_at s c (qs @ [nm])"
    and "vfs_find_child (vfs_nodes s) a nm = Some (case child (vfs_nodes s) a nm of None \<Rightarrow> NULL | Some c \<Rightarrow> c)"
proof -
  obtain n where n: "vfs_nodes s a = Some n" using cwd_at_node [OF assms(1,2)] .
  show "child (vfs_nodes s) a nm = None \<Longrightarrow> vfs_abs s (qs @ [nm]) = None"
    using assms(2) by (simp add: vfs_abs_def cwd_at_def walk_snoc)
  show "child (vfs_nodes s) a nm = Some c \<Longrightarrow> cwd_at s c (qs @ [nm])"
    using assms(2,3) by (simp add: cwd_at_def walk_snoc)
  show "vfs_find_child (vfs_nodes s) a nm = Some (case child (vfs_nodes s) a nm of None \<Rightarrow> NULL | Some c \<Rightarrow> c)"
    by (rule child_iff(2) [OF vfs_inv_tree [OF assms(1)] n assms(3)])
qed

lemma target_name_ok:
  assumes "target s ps path = Some (qs, nm)" and "path_ok path" shows "name_ok nm"
proof -
  obtain pp where "vfs_split_parent path VFS_PATH_MAX (VFS_NAME_MAX + 1) = Some (pp, nm)"
    using assms(1) by (auto simp: target_def split: option.splits)
  then show ?thesis using split_parent_spec [OF _ assms(2)] by metis
qed

lemma in_parent_spec:
  assumes inv: "vfs_inv s" and cwd: "cwd_at s cwd ps"
  shows "on_cdrom ps path \<or> target s ps path = None \<Longrightarrow> in_parent cwd path s k = Some (False, s)"
    and "\<not> on_cdrom ps path \<Longrightarrow> target s ps path = Some (qs, nm) \<Longrightarrow>
      \<exists>parent. cwd_at s parent qs \<and>
        in_parent cwd path s k = (if vfs_abs s qs = Some Directory then k parent nm else Some (False, s))"
proof -
  note ck = check_path_spec [OF inv cwd, of path]
  have cd: "on_cdrom ps path \<Longrightarrow> in_parent cwd path s k = Some (False, s)"
    using ck by (auto simp: in_parent_def on_cdrom_def)
  show "on_cdrom ps path \<or> target s ps path = None \<Longrightarrow> in_parent cwd path s k = Some (False, s)"
  proof (cases "on_cdrom ps path")
    case False
    assume "on_cdrom ps path \<or> target s ps path = None"
    then have t: "target s ps path = None" using False by simp
    show ?thesis
    proof (cases "vfs_split_parent path VFS_PATH_MAX (VFS_NAME_MAX + 1)")
      case None
      then show ?thesis using False ck by (simp add: in_parent_def on_cdrom_def)
    next
      case (Some x)
      then obtain pp nm where x: "vfs_split_parent path VFS_PATH_MAX (VFS_NAME_MAX + 1) = Some (pp, nm)" by (cases x) auto
      show ?thesis using target_parent [OF inv cwd x] t x False ck by (auto simp: in_parent_def on_cdrom_def)
    qed
  qed (use cd in simp)
  assume not_cd: "\<not> on_cdrom ps path" and t: "target s ps path = Some (qs, nm)"
  then obtain pp where x: "vfs_split_parent path VFS_PATH_MAX (VFS_NAME_MAX + 1) = Some (pp, nm)"
    by (auto simp: target_def split: option.splits)
  then obtain parent where par: "(if deref pp = NUL then Some cwd
      else vfs_resolve_from (vfs_nodes s) (vfs_root_node s) cwd (Some pp)) = Some parent" "cwd_at s parent qs"
    using target_parent [OF inv cwd x] t by auto
  obtain d where d: "vfs_nodes s parent = Some d" "vfs_abs s qs = Some (entry_of (mem s) d)" "parent \<noteq> NULL"
    using cwd_at_node [OF inv par(2)] .
  have "in_parent cwd path s k = (if vfs_abs s qs = Some Directory then k parent nm else Some (False, s))"
    using ck not_cd x par(1) d by (cases "vn_type d") (simp_all add: in_parent_def on_cdrom_def entry_of_def)
  then show "\<exists>parent. cwd_at s parent qs \<and>
      in_parent cwd path s k = (if vfs_abs s qs = Some Directory then k parent nm else Some (False, s))"
    using par(2) by blast
qed

lemma directory_node:
  assumes "vfs_inv s" and "cwd_at s a qs" and "vfs_abs s qs = Some Directory"
  obtains d where "vfs_nodes s a = Some d" "vn_type d = VFS_NODE_DIR"
proof -
  obtain d where d: "vfs_nodes s a = Some d" "vfs_abs s qs = Some (entry_of (mem s) d)" "a \<noteq> NULL"
    using cwd_at_node [OF assms(1,2)] .
  then show ?thesis using that assms(3) by (cases "vn_type d") (simp_all add: entry_of_def)
qed

lemma make_dir_spec:
  assumes inv: "vfs_inv s" and cwd: "cwd_at s cwd ps" and pok: "path_ok path"
  shows "\<exists>ok s'. vfs_make_dir cwd path s = Some (ok, s') \<and> vfs_ext s s' \<and> (\<not> ok \<longrightarrow> s' = s) \<and>
    (ok \<longleftrightarrow> \<not> on_cdrom ps path \<and> fst (kmalloc sizeof_vfs_node s) \<noteq> NULL \<and>
      (\<exists>qs nm. target s ps path = Some (qs, nm) \<and> vfs_abs s qs = Some Directory \<and> vfs_abs s (qs @ [nm]) = None)) \<and>
    (\<forall>qs nm. ok \<and> target s ps path = Some (qs, nm) \<longrightarrow> vfs_abs s' = (vfs_abs s)(qs @ [nm] \<mapsto> Directory))"
proof (cases "on_cdrom ps path \<or> target s ps path = None")
  case True
  have "vfs_make_dir cwd path s = Some (False, s)"
    unfolding vfs_make_dir_def by (rule in_parent_spec(1) [OF inv cwd True])
  then show ?thesis using True inv by auto
next
  case False
  then obtain qs nm where t: "target s ps path = Some (qs, nm)" by auto
  obtain parent where par: "cwd_at s parent qs" "vfs_make_dir cwd path s =
      (if vfs_abs s qs = Some Directory then
         do { old \<leftarrow> vfs_find_child (vfs_nodes s) parent nm;
              if old \<noteq> NULL then Some (False, s)
              else do { (node, s) \<leftarrow> vfs_alloc_node nm VFS_NODE_DIR parent s; Some (node \<noteq> NULL, s) } }
       else Some (False, s))"
    using in_parent_spec(2) [OF inv cwd _ t] False unfolding vfs_make_dir_def by blast
  have nm: "name_ok nm" "NUL \<notin> set nm" using target_name_ok [OF t pok] by (simp_all add: name_ok_def)
  note ch = cwd_at_child [OF inv par(1) nm(2)]
  show ?thesis
  proof (cases "vfs_abs s qs = Some Directory")
    case dir: True
    show ?thesis
    proof (cases "child (vfs_nodes s) parent nm")
      case (Some c)
      obtain n where "vfs_abs s (qs @ [nm]) = Some (entry_of (mem s) n)" "c \<noteq> NULL"
        using cwd_at_node [OF inv ch(2) [OF Some]] .
      then show ?thesis using par(2) dir ch(3) Some inv t by auto
    next
      case None
      obtain d where d: "vfs_nodes s parent = Some d" "vn_type d = VFS_NODE_DIR" using directory_node [OF inv par(1) dir] .
      obtain node s' where a: "vfs_alloc_node nm VFS_NODE_DIR parent s = Some (node, s')"
        "node = NULL \<longleftrightarrow> fst (kmalloc sizeof_vfs_node s) = NULL" "node = NULL \<longrightarrow> s' = s" "vfs_ext s s'"
        "node \<noteq> NULL \<longrightarrow> cwd_at s' node (qs @ [nm])"
        "node \<noteq> NULL \<longrightarrow> vfs_abs s' = (vfs_abs s)(qs @ [nm] \<mapsto> (if VFS_NODE_DIR = VFS_NODE_DIR then Directory else Contents []))"
        using alloc_node_ext [OF inv par(1) d nm(1) None, where type = VFS_NODE_DIR] .
      have "vfs_make_dir cwd path s = Some (node \<noteq> NULL, s')" using par(2) dir ch(3) None a(1) by simp
      then show ?thesis using a False t dir ch(1) [OF None] by auto
    qed
  qed (use par(2) inv t in auto)
qed

lemma touch_spec:
  assumes inv: "vfs_inv s" and cwd: "cwd_at s cwd ps" and pok: "path_ok path"
  shows "\<exists>ok s'. vfs_touch cwd path s = Some (ok, s') \<and> vfs_ext s s' \<and> (\<not> ok \<longrightarrow> s' = s) \<and>
    (ok \<longleftrightarrow> \<not> on_cdrom ps path \<and>
      (\<exists>qs nm. target s ps path = Some (qs, nm) \<and> vfs_abs s qs = Some Directory \<and>
        (case vfs_abs s (qs @ [nm]) of None \<Rightarrow> fst (kmalloc sizeof_vfs_node s) \<noteq> NULL
           | Some Directory \<Rightarrow> False | Some (Contents bs) \<Rightarrow> True))) \<and>
    (\<forall>qs nm. ok \<and> target s ps path = Some (qs, nm) \<longrightarrow>
      (if vfs_abs s (qs @ [nm]) = None then vfs_abs s' = (vfs_abs s)(qs @ [nm] \<mapsto> Contents []) else s' = s) \<and>
      (\<exists>a n. cwd_at s' a (qs @ [nm]) \<and> vfs_nodes s' a = Some n \<and> vn_type n = VFS_NODE_FILE))"
proof (cases "on_cdrom ps path \<or> target s ps path = None")
  case True
  have "vfs_touch cwd path s = Some (False, s)"
    unfolding vfs_touch_def by (rule in_parent_spec(1) [OF inv cwd True])
  then show ?thesis using True inv by auto
next
  case False
  then obtain qs nm where t: "target s ps path = Some (qs, nm)" by auto
  obtain parent where par: "cwd_at s parent qs" "vfs_touch cwd path s =
      (if vfs_abs s qs = Some Directory then
         do { node \<leftarrow> vfs_find_child (vfs_nodes s) parent nm;
              if node \<noteq> NULL then
                (case vfs_nodes s node of None \<Rightarrow> None | Some n \<Rightarrow> Some (vn_type n = VFS_NODE_FILE, s))
              else do { (node, s) \<leftarrow> vfs_alloc_node nm VFS_NODE_FILE parent s; Some (node \<noteq> NULL, s) } }
       else Some (False, s))"
    using in_parent_spec(2) [OF inv cwd _ t] False unfolding vfs_touch_def by blast
  have nm: "name_ok nm" "NUL \<notin> set nm" using target_name_ok [OF t pok] by (simp_all add: name_ok_def)
  note ch = cwd_at_child [OF inv par(1) nm(2)]
  show ?thesis
  proof (cases "vfs_abs s qs = Some Directory")
    case dir: True
    show ?thesis
    proof (cases "child (vfs_nodes s) parent nm")
      case (Some c)
      obtain n where n: "vfs_nodes s c = Some n" "vfs_abs s (qs @ [nm]) = Some (entry_of (mem s) n)" "c \<noteq> NULL"
        using cwd_at_node [OF inv ch(2) [OF Some]] .
      then have "vfs_touch cwd path s = Some (vn_type n = VFS_NODE_FILE, s)" using par(2) dir ch(3) Some by simp
      then show ?thesis
        using n dir inv t False ch(2) [OF Some] by (cases "vn_type n") (auto simp: entry_of_def)
    next
      case None
      obtain d where d: "vfs_nodes s parent = Some d" "vn_type d = VFS_NODE_DIR" using directory_node [OF inv par(1) dir] .
      obtain node s' where a: "vfs_alloc_node nm VFS_NODE_FILE parent s = Some (node, s')"
        "node = NULL \<longleftrightarrow> fst (kmalloc sizeof_vfs_node s) = NULL" "node = NULL \<longrightarrow> s' = s" "vfs_ext s s'"
        "node \<noteq> NULL \<longrightarrow> cwd_at s' node (qs @ [nm])"
        "node \<noteq> NULL \<longrightarrow> vfs_abs s' = (vfs_abs s)(qs @ [nm] \<mapsto> (if VFS_NODE_FILE = VFS_NODE_DIR then Directory else Contents []))"
        using alloc_node_ext [OF inv par(1) d nm(1) None, where type = VFS_NODE_FILE] .
      have isf: "\<exists>a n. cwd_at s' a (qs @ [nm]) \<and> vfs_nodes s' a = Some n \<and> vn_type n = VFS_NODE_FILE" if "node \<noteq> NULL"
      proof -
        have at: "cwd_at s' node (qs @ [nm])" using a(5) that by simp
        obtain n where n: "vfs_nodes s' node = Some n" "vfs_abs s' (qs @ [nm]) = Some (entry_of (mem s') n)" "node \<noteq> NULL"
          using cwd_at_node [OF vfs_extD(1) [OF a(4)] at] .
        then have "vn_type n = VFS_NODE_FILE" using a(6) by (cases "vn_type n") (simp_all add: entry_of_def)
        then show ?thesis using at n(1) by blast
      qed
      have "vfs_touch cwd path s = Some (node \<noteq> NULL, s')" using par(2) dir ch(3) None a(1) by simp
      then show ?thesis using a False t dir ch(1) [OF None] isf by auto
    qed
  qed (use par(2) inv t in auto)
qed

section \<open>Contents\<close>

text \<open>Taking a block from the heap and filling it leaves the tree alone.\<close>

lemma fill_block_ext:
  assumes inv: "vfs_inv s" and k: "kmalloc n s = (p, s1)" and p: "p \<noteq> NULL"
    and m: "\<And>x. \<not> in_block p (unat n) x \<Longrightarrow> m x = mem s x"
  shows "vfs_ext s (s1\<lparr>mem := m\<rparr>)" and "vfs_abs (s1\<lparr>mem := m\<rparr>) = vfs_abs s"
    and "p = h_current (heap s)" and "unat p + unat n \<le> unat (h_current (heap s1))" and "0 < unat n"
    and "vfs_nodes s1 = vfs_nodes s" and "vfs_root_node s1 = vfs_root_node s" and "mem s1 = mem s"
    and "unat p + unat n \<le> unat (h_limit (heap s))" and "heap_inv (heap s1)"
proof -
  note f = kmalloc_frame [OF vfs_inv_heap [OF inv] k p]
  show s1: "vfs_nodes s1 = vfs_nodes s" "vfs_root_node s1 = vfs_root_node s" "mem s1 = mem s"
    by (subst f(6), simp)+
  show pc: "p = h_current (heap s)" and hc: "unat p + unat n \<le> unat (h_current (heap s1))" and "0 < unat n"
    and lim: "unat p + unat n \<le> unat (h_limit (heap s))" and hi: "heap_inv (heap s1)" by (rule f)+
  have bound: "unat p + unat n < 2 ^ 32" using hc unat_u32_bound [of "h_current (heap s1)"] by linarith
  have ent: "entry_of m nd = entry_of (mem s) nd" if "vfs_nodes s a = Some nd" for a nd
    by (rule entry_of_old [OF inv that pc bound m])
  have cw: "cwd_at (s1\<lparr>mem := m\<rparr>) a qs \<longleftrightarrow> cwd_at s a qs" for a qs by (simp add: cwd_at_def s1)
  have "vfs_inv (s1\<lparr>mem := m\<rparr>)"
    using inv hi hc unfolding vfs_inv_def by (fastforce simp: s1 pc [symmetric] word_less_nat_alt)
  moreover have "m x = mem s x" if "x < h_current (heap s) \<or> h_limit (heap s) \<le> x" for x
  proof (rule m)
    show "\<not> in_block p (unat n) x"
      using that pc lim bound by (subst in_block_iff) (auto simp: word_less_nat_alt word_le_nat_alt)
  qed
  ultimately show "vfs_ext s (s1\<lparr>mem := m\<rparr>)" using hc f(4) by (simp add: vfs_ext_def cw s1 pc)
  show "vfs_abs (s1\<lparr>mem := m\<rparr>) = vfs_abs s"
  proof
    fix qs
    show "vfs_abs (s1\<lparr>mem := m\<rparr>) qs = vfs_abs s qs"
      using ent by (auto simp: vfs_abs_def s1 intro!: bind_option_cong option.map_cong)
  qed
qed

lemma set_data_spec:
  assumes inv: "vfs_inv s" and at: "cwd_at s a qs" and n: "vfs_nodes s a = Some n"
    and b: "unat d + unat sz \<le> unat (h_current (heap s))"
  shows "\<exists>s'. set_file_data a d sz s = Some (True, s') \<and> vfs_ext s s' \<and>
    vfs_abs s' = (if vn_type n = VFS_NODE_DIR then vfs_abs s else (vfs_abs s)(qs \<mapsto> Contents (mem_read (mem s) d (unat sz))))"
proof -
  let ?n = "n\<lparr>vn_data := d, vn_size := sz\<rparr>"
  let ?s = "s\<lparr>vfs_nodes := (vfs_nodes s)(a \<mapsto> ?n)\<rparr>"
  have sh: "same_shape ?n n" by (simp add: same_shape_def)
  note tree = vfs_inv_tree [OF inv]
  have c: "vfs_root_node s \<noteq> NULL" "names_ok qs" "walk (vfs_nodes s) (vfs_root_node s) qs = Some a"
    using at by (simp_all add: cwd_at_def)
  have nr: "vfs_nodes s (vfs_root_node s) \<noteq> None" using tree_root [OF tree c(1)] by auto
  have w: "walk ((vfs_nodes s)(a \<mapsto> ?n)) (vfs_root_node s) ps = walk (vfs_nodes s) (vfs_root_node s) ps" if "names_ok ps" for ps
    by (rule walk_contents [OF tree n sh nr that])
  have cw: "cwd_at ?s x ps \<longleftrightarrow> cwd_at s x ps" for x ps using w by (auto simp: cwd_at_def)
  have "vfs_inv ?s" using inv n b tree_inv_contents [OF tree n sh] unfolding vfs_inv_def by auto
  then have ext: "vfs_ext s ?s" using n by (simp add: vfs_ext_def cw)
  have "vfs_abs ?s ps = (if vn_type n = VFS_NODE_DIR then vfs_abs s
      else (vfs_abs s)(qs \<mapsto> Contents (mem_read (mem s) d (unat sz)))) ps" for ps
  proof (cases "names_ok ps")
    case ok: True
    show ?thesis
    proof (cases "walk (vfs_nodes s) (vfs_root_node s) ps")
      case None
      then show ?thesis using ok c w [OF ok] by (auto simp: vfs_abs_def)
    next
      case (Some x)
      have "x = a \<longleftrightarrow> ps = qs" using walk_inj [OF tree c(1) ok c(2)] Some c(3) by auto
      then show ?thesis
        using ok c w [OF ok] Some n by (cases "vn_type n") (auto simp: vfs_abs_def entry_of_def)
    qed
  qed (use c in \<open>auto simp: vfs_abs_def\<close>)
  then show ?thesis using ext n by (intro exI [of _ ?s]) (simp add: set_file_data_def fun_eq_iff)
qed

text \<open>
  A path whose last component can be created: not a dot name, and no longer than a name may be.
\<close>

definition plain_path :: "string option \<Rightarrow> bool" where
  "plain_path path \<longleftrightarrow> (\<forall>p. path = Some p \<longrightarrow> comps p \<noteq> [] \<longrightarrow>
     last (comps p) \<noteq> ''.'' \<and> last (comps p) \<noteq> ''..'' \<and> length (last (comps p)) \<le> VFS_NAME_MAX)"

lemma vfs_abs_node:
  "vfs_abs s qs \<noteq> None \<Longrightarrow> \<exists>a. cwd_at s a qs"
  by (auto simp: vfs_abs_def cwd_at_def split: if_splits bind_splits)

lemma vfs_ext_abs:
  assumes "vfs_ext s s'" and "vfs_abs s qs \<noteq> None" shows "vfs_abs s' qs \<noteq> None"
proof -
  obtain a where "cwd_at s a qs" using vfs_abs_node [OF assms(2)] by blast
  then have at: "cwd_at s' a qs" by (rule vfs_extD(3) [OF assms(1)])
  obtain n where "vfs_abs s' qs = Some (entry_of (mem s') n)" using cwd_at_node [OF vfs_extD(1) [OF assms(1)] at] .
  then show ?thesis by simp
qed

lemma dirs_kept:
  assumes ext: "vfs_ext s s'" and inv: "vfs_inv s" and dir: "vfs_abs s qs = Some Directory"
  shows "vfs_abs s' qs = Some Directory"
proof -
  obtain a where a: "cwd_at s a qs" using vfs_abs_node [of s qs] dir by auto
  obtain d where d: "vfs_nodes s a = Some d" "vn_type d = VFS_NODE_DIR" using directory_node [OF inv a dir] .
  obtain d' where d': "vfs_nodes s' a = Some d'" "vn_type d' = VFS_NODE_DIR" using vfs_extD(7) [OF ext d(1)] d(2) by auto
  have "cwd_at s' a qs" using vfs_extD(3) [OF ext a] .
  then obtain n where "vfs_nodes s' a = Some n" "vfs_abs s' qs = Some (entry_of (mem s') n)" "a \<noteq> NULL"
    using cwd_at_node [OF vfs_extD(1) [OF ext]] by blast
  then show ?thesis using d' by (simp add: entry_of_def)
qed

lemma vfs_path_ext:
  assumes "vfs_ext s s'" and "vfs_path s ps path = Some qs" shows "vfs_path s' ps path = Some qs"
  using assms(2) vfs_ext_abs [OF assms(1)]
  by (auto simp: vfs_path_def abs_resolve_path_def intro: abs_resolve_mono split: option.splits)

lemma target_path:
  assumes t: "target s ps path = Some (qs, nm)" and pok: "path_ok path" and pl: "plain_path path"
    and ext: "vfs_ext s s'" and e: "vfs_abs s' (qs @ [nm]) \<noteq> None"
  shows "vfs_path s' ps path = Some (qs @ [nm])"
proof -
  obtain pp where x: "vfs_split_parent path VFS_PATH_MAX (VFS_NAME_MAX + 1) = Some (pp, nm)"
    "(if deref pp = NUL then Some ps else vfs_path s ps (Some pp)) = Some qs"
    using t by (auto simp: target_def split: option.splits)
  obtain p where p: "path = Some p" "name_ok nm"
    "(pp = [] \<and> deref p \<noteq> CHR ''/'' \<and> comps p = [cstr p] \<and> nm = take 31 (cstr p)) \<or>
     (deref pp \<noteq> NUL \<and> (deref pp = CHR ''/'' \<longleftrightarrow> deref p = CHR ''/'') \<and> comps p = comps pp @ [nm] \<and>
      nm \<noteq> ''.'' \<and> nm \<noteq> ''..'')"
    using split_parent_spec [OF x(1) pok] by blast
  have len: "length nm \<le> VFS_NAME_MAX" using p(2) by (simp add: name_ok_def)
  from p(3) show ?thesis
  proof
    assume a: "pp = [] \<and> deref p \<noteq> CHR ''/'' \<and> comps p = [cstr p] \<and> nm = take 31 (cstr p)"
    then have "cstr p \<noteq> ''.''" "cstr p \<noteq> ''..''" "length (cstr p) \<le> VFS_NAME_MAX"
      using pl p(1) by (auto simp: plain_path_def)
    moreover have "qs = ps" using x(2) a by simp
    moreover have "nm = cstr p" using a \<open>length (cstr p) \<le> VFS_NAME_MAX\<close> by (simp add: VFS_NAME_MAX_def)
    ultimately show ?thesis using a p(1) e by (auto simp: vfs_path_def abs_resolve_path_def)
  next
    assume a: "deref pp \<noteq> NUL \<and> (deref pp = CHR ''/'' \<longleftrightarrow> deref p = CHR ''/'') \<and> comps p = comps pp @ [nm] \<and>
      nm \<noteq> ''.'' \<and> nm \<noteq> ''..''"
    then have "vfs_path s' ps (Some pp) = Some qs" using x(2) vfs_path_ext [OF ext] by simp
    then show ?thesis
      using a p(1) e len by (auto simp: vfs_path_def abs_resolve_path_def abs_resolve_append)
  qed
qed

text \<open>The bytes to be written do not lie in the part of the heap that is still free.\<close>

definition source_ok :: "'a vfs_state_scheme \<Rightarrow> u32 \<Rightarrow> u32 \<Rightarrow> bool" where
  "source_ok s d sz \<longleftrightarrow> (\<forall>x. in_block d (unat sz) x \<longrightarrow> x < h_current (heap s) \<or> h_limit (heap s) \<le> x)"

lemma copy_to_block:
  assumes src: "\<And>x. in_block p (unat sz) x \<Longrightarrow> \<not> in_block d (unat sz) x" and w: "unat p + (unat sz + 1) < 2 ^ 32"
  shows "mem_read ((mem_copy p d (unat sz) m)(p + sz := 0)) p (unat sz) = mem_read m d (unat sz)"
    and "\<not> in_block p (unat sz + 1) x \<Longrightarrow> ((mem_copy p d (unat sz) m)(p + sz := 0)) x = m x"
proof -
  have sz: "unat sz < 2 ^ 32" by (rule unat_u32_bound)
  have "mem_read ((mem_copy p d (unat sz) m)(p + sz := 0)) p (unat sz) = mem_read (mem_copy p d (unat sz) m) p (unat sz)"
    by (rule mem_read_cong) (auto simp: in_block_def)
  also have "\<dots> = mem_read (mem_write p (mem_read m d (unat sz)) m) p (unat sz)"
    by (subst mem_copy_eq_write [OF src sz]) simp_all
  also have "mem_read (mem_write p (mem_read m d (unat sz)) m) p (unat sz) = mem_read m d (unat sz)"
    using mem_write_read [of "mem_read m d (unat sz)" p m] sz by simp
  finally show "mem_read ((mem_copy p d (unat sz) m)(p + sz := 0)) p (unat sz) = mem_read m d (unat sz)" .
  assume "\<not> in_block p (unat sz + 1) x"
  then have "\<not> in_block p (unat sz) x" "x \<noteq> p + sz" by (auto simp: in_block_def)
  then show "((mem_copy p d (unat sz) m)(p + sz := 0)) x = m x" by (simp add: mem_copy_other)
qed

lemma touch_facts:
  assumes "vfs_inv s" and "cwd_at s cwd ps" and "path_ok path"
  obtains ok s' where "vfs_touch cwd path s = Some (ok, s')" "vfs_ext s s'" "\<not> ok \<longrightarrow> s' = s"
    "target s ps path = None \<longrightarrow> \<not> ok"
    "\<forall>qs nm. ok \<and> target s ps path = Some (qs, nm) \<longrightarrow>
      (if vfs_abs s (qs @ [nm]) = None then vfs_abs s' = (vfs_abs s)(qs @ [nm] \<mapsto> Contents []) else s' = s) \<and>
      (\<exists>a n. cwd_at s' a (qs @ [nm]) \<and> vfs_nodes s' a = Some n \<and> vn_type n = VFS_NODE_FILE)"
proof -
  obtain ok s' where t: "vfs_touch cwd path s = Some (ok, s') \<and> vfs_ext s s' \<and> (\<not> ok \<longrightarrow> s' = s) \<and>
    (ok \<longleftrightarrow> \<not> on_cdrom ps path \<and>
      (\<exists>qs nm. target s ps path = Some (qs, nm) \<and> vfs_abs s qs = Some Directory \<and>
        (case vfs_abs s (qs @ [nm]) of None \<Rightarrow> fst (kmalloc sizeof_vfs_node s) \<noteq> NULL
           | Some Directory \<Rightarrow> False | Some (Contents bs) \<Rightarrow> True))) \<and>
    (\<forall>qs nm. ok \<and> target s ps path = Some (qs, nm) \<longrightarrow>
      (if vfs_abs s (qs @ [nm]) = None then vfs_abs s' = (vfs_abs s)(qs @ [nm] \<mapsto> Contents []) else s' = s) \<and>
      (\<exists>a n. cwd_at s' a (qs @ [nm]) \<and> vfs_nodes s' a = Some n \<and> vn_type n = VFS_NODE_FILE))"
    using touch_spec [OF assms] by blast
  have "target s ps path = None \<longrightarrow> \<not> ok"
  proof
    assume "target s ps path = None"
    with t show "\<not> ok" by simp
  qed
  moreover note t [THEN conjunct1] t [THEN conjunct2, THEN conjunct1] t [THEN conjunct2, THEN conjunct2, THEN conjunct1]
    t [THEN conjunct2, THEN conjunct2, THEN conjunct2, THEN conjunct2]
  ultimately show ?thesis by (intro that [of ok s'])
qed

lemma write_file_spec:
  assumes inv: "vfs_inv s" and cwd: "cwd_at s cwd ps" and pok: "path_ok path"
  shows "\<exists>ok s'. vfs_write_file cwd path d sz s = Some (ok, s') \<and> vfs_ext s s' \<and>
    (on_cdrom ps path \<or> target s ps path = None \<longrightarrow> \<not> ok \<and> s' = s) \<and>
    (\<forall>qs nm. target s ps path = Some (qs, nm) \<and> plain_path path \<and> source_ok s d sz \<longrightarrow>
      (if ok then vfs_abs s' = (vfs_abs s)(qs @ [nm] \<mapsto> Contents (mem_read (mem s) d (unat sz)))
       else vfs_abs s' = vfs_abs s \<or> vfs_abs s (qs @ [nm]) = None \<and> vfs_abs s' = (vfs_abs s)(qs @ [nm] \<mapsto> Contents [])))"
proof (cases "on_cdrom ps path")
  case True
  then have "vfs_write_file cwd path d sz s = Some (False, s)"
    using check_path_spec [OF inv cwd, of path] by (auto simp: vfs_write_file_def on_cdrom_def)
  then show ?thesis using True inv by auto
next
  case not_cd: False
  obtain ok1 s1 where t1: "vfs_touch cwd path s = Some (ok1, s1)" "vfs_ext s s1" "\<not> ok1 \<longrightarrow> s1 = s"
    "target s ps path = None \<longrightarrow> \<not> ok1"
    "\<forall>qs nm. ok1 \<and> target s ps path = Some (qs, nm) \<longrightarrow>
      (if vfs_abs s (qs @ [nm]) = None then vfs_abs s1 = (vfs_abs s)(qs @ [nm] \<mapsto> Contents []) else s1 = s) \<and>
      (\<exists>a n. cwd_at s1 a (qs @ [nm]) \<and> vfs_nodes s1 a = Some n \<and> vn_type n = VFS_NODE_FILE)"
    using touch_facts [OF inv cwd pok] .
  have w: "vfs_write_file cwd path d sz s =
      (if \<not> ok1 then Some (False, s1)
       else do { node \<leftarrow> vfs_resolve_from (vfs_nodes s1) (vfs_root_node s1) cwd path;
                 if node = NULL then Some (False, s1)
                 else let (copy, s) = kmalloc (sz + 1) s1 in
                   if copy = NULL then Some (False, s)
                   else set_file_data node copy sz (s\<lparr>mem := (mem_copy copy d (unat sz) (mem s))(copy + sz := 0)\<rparr>) })"
    using check_path_spec [OF inv cwd, of path] not_cd t1(1) by (auto simp: vfs_write_file_def on_cdrom_def)
  show ?thesis
  proof (cases ok1)
    case False
    then show ?thesis using w t1 by auto
  next
    case True
    note inv1 = vfs_extD(1) [OF t1(2)] and cwd1 = vfs_extD(3) [OF t1(2) cwd]
    obtain qs nm where t: "target s ps path = Some (qs, nm)" using t1(4) True by (cases "target s ps path") auto
    obtain fa fn where f: "cwd_at s1 fa (qs @ [nm])" "vfs_nodes s1 fa = Some fn" "vn_type fn = VFS_NODE_FILE"
      using t1(5) True t by blast
    have abs1: "if vfs_abs s (qs @ [nm]) = None then vfs_abs s1 = (vfs_abs s)(qs @ [nm] \<mapsto> Contents []) else s1 = s"
      using t1(5) True t by blast
    have fail: ?thesis if "vfs_write_file cwd path d sz s = Some (False, s1)"
      using that t1(2) t not_cd abs1 by (intro exI [of _ False] exI [of _ s1]) (auto split: if_splits)
    show ?thesis
    proof (cases "vfs_path s1 ps path")
      case None
      show ?thesis using w True resolve_spec(1) [OF inv1 cwd1 None] by (intro fail) simp
    next
      case (Some rs)
      obtain a n where r: "vfs_resolve_from (vfs_nodes s1) (vfs_root_node s1) cwd path = Some a"
        "cwd_at s1 a rs" "a \<noteq> NULL" "vfs_nodes s1 a = Some n"
        using resolve_spec(2) [OF inv1 cwd1 Some] by blast
      obtain copy s2 where k: "kmalloc (sz + 1) s1 = (copy, s2)" by fastforce
      show ?thesis
      proof (cases "copy = NULL")
        case True
        then have "s2 = s1" using k kmalloc_NULL [OF vfs_inv_heap [OF inv1]] by simp
        then show ?thesis using w \<open>ok1\<close> r k True by (intro fail) simp
      next
        case nz: False
        let ?m = "(mem_copy copy d (unat sz) (mem s2))(copy + sz := 0)"
        have small: "0 < unat (sz + 1)" using kmalloc_frame(7) [OF vfs_inv_heap [OF inv1] k nz] .
        then have u: "unat (sz + 1) = unat sz + 1" by (intro unat_inc) auto
        have mem2: "mem s2 = mem s1" by (subst kmalloc_frame(6) [OF vfs_inv_heap [OF inv1] k nz]) simp
        have out: "?m x = mem s1 x" if "\<not> in_block copy (unat (sz + 1)) x" for x
          using that by (auto simp: u mem2 in_block_def mem_copy_other)
        note b = fill_block_ext [OF inv1 k nz, of ?m, OF out]
        have at2: "cwd_at (s2\<lparr>mem := ?m\<rparr>) a rs" using vfs_extD(3) [OF b(1)] r(2) by blast
        have n2: "vfs_nodes (s2\<lparr>mem := ?m\<rparr>) a = Some n" using r(4) b(6) by simp
        have room: "unat copy + unat sz \<le> unat (h_current (heap (s2\<lparr>mem := ?m\<rparr>)))" using b(4) u by simp
        obtain s' where s': "set_file_data a copy sz (s2\<lparr>mem := ?m\<rparr>) = Some (True, s')" "vfs_ext (s2\<lparr>mem := ?m\<rparr>) s'"
          "vfs_abs s' = (if vn_type n = VFS_NODE_DIR then vfs_abs (s2\<lparr>mem := ?m\<rparr>)
            else (vfs_abs (s2\<lparr>mem := ?m\<rparr>))(rs \<mapsto> Contents (mem_read ?m copy (unat sz))))"
          using set_data_spec [OF vfs_extD(1) [OF b(1)] at2 n2 room] by auto
        have run: "vfs_write_file cwd path d sz s = Some (True, s')" using w True r k nz s'(1) \<open>ok1\<close> by simp
        have ext: "vfs_ext s s'" using vfs_ext_trans [OF t1(2) vfs_ext_trans [OF b(1) s'(2)]] .
        have "vfs_abs s' = (vfs_abs s)(qs @ [nm] \<mapsto> Contents (mem_read (mem s) d (unat sz)))"
          if pl: "plain_path path" and src: "source_ok s d sz"
        proof -
          have e1: "vfs_abs s1 (qs @ [nm]) \<noteq> None" using f cwd_at_node [OF inv1 f(1)] by auto
          then have rs: "rs = qs @ [nm]" using target_path [OF t pok pl t1(2)] Some by simp
          then have "a = fa" using r(2) f(1) by (simp add: cwd_at_def)
          then have isf: "vn_type n = VFS_NODE_FILE" using r(4) f(2,3) by simp
          have lim: "unat copy + unat (sz + 1) \<le> unat (h_limit (heap s))" using b(9) vfs_extD(4) [OF t1(2)] by simp
          then have w32: "unat copy + (unat sz + 1) < 2 ^ 32" using u unat_u32_bound [of "h_limit (heap s)"] by simp
          have cur: "unat (h_current (heap s)) \<le> unat copy" using vfs_extD(5) [OF t1(2)] b(3) by simp
          have disj: "\<not> in_block d (unat sz) x" if "in_block copy (unat sz) x" for x
          proof
            assume "in_block d (unat sz) x"
            then have "x < h_current (heap s) \<or> h_limit (heap s) \<le> x" using src by (auto simp: source_ok_def)
            moreover have "unat copy \<le> unat x \<and> unat x < unat copy + unat sz" using that w32 by (subst (asm) in_block_iff) auto
            ultimately show False using cur lim u by (auto simp: word_less_nat_alt word_le_nat_alt)
          qed
          have "mem_read ?m copy (unat sz) = mem_read (mem s1) d (unat sz)"
            using copy_to_block(1) [OF disj w32] by (simp add: mem2)
          also have "\<dots> = mem_read (mem s) d (unat sz)"
            by (rule mem_read_cong) (use src vfs_extD(6) [OF t1(2)] in \<open>auto simp: source_ok_def\<close>)
          finally show ?thesis using s'(3) b(2) isf rs abs1 by (auto split: if_splits)
        qed
        then show ?thesis using run ext t not_cd by (intro exI [of _ True] exI [of _ s']) auto
      qed
    qed
  qed
qed

end
