(* ===== verification/VfsDirs.thy ===== *)
theory VfsDirs
  imports VfsOps
begin

text \<open>
  The operations of \<^verbatim>\<open>kernel/vfs.c\<close> that read, list and change directories, also those that go
  to the CD-ROM, and the start-up.  What reaches the disc is covered as far as it concerns
  the tree: directories may be added below a mount point, blocks may be taken from the heap,
  and nothing else changes.
\<close>

section \<open>Directories of a mount\<close>

text \<open>Only directories are added.\<close>

definition adds_dirs :: "'a vfs_state_scheme \<Rightarrow> 'a vfs_state_scheme \<Rightarrow> bool" where
  "adds_dirs s s' \<longleftrightarrow> vfs_ext s s' \<and>
     (\<forall>qs. vfs_abs s' qs = vfs_abs s qs \<or> vfs_abs s qs = None \<and> vfs_abs s' qs = Some Directory)"

lemma adds_dirs_refl: "vfs_inv s \<Longrightarrow> adds_dirs s s"
  by (simp add: adds_dirs_def)

lemma adds_dirs_trans: "adds_dirs s s' \<Longrightarrow> adds_dirs s' s'' \<Longrightarrow> adds_dirs s s''"
  unfolding adds_dirs_def using vfs_ext_trans by metis

lemma adds_dirsD: "adds_dirs s s' \<Longrightarrow> vfs_ext s s'" "adds_dirs s s' \<Longrightarrow> vfs_inv s'"
  by (auto simp: adds_dirs_def dest: vfs_extD(1))

lemma ensure_loop_spec:
  "vfs_inv s \<Longrightarrow> cwd_at s node qs \<Longrightarrow> vfs_abs s qs = Some Directory \<Longrightarrow> deref p \<noteq> CHR ''/'' \<Longrightarrow>
   \<exists>ok s'. ensure_loop node p s = Some (ok, s') \<and> adds_dirs s s' \<and>
     (ok \<longrightarrow> vfs_abs s' (qs @ comps p) = Some Directory)"
proof (induction "length p" arbitrary: node p s qs rule: less_induct)
  case less
  note inv = less.prems(1) and at = less.prems(2)
  show ?case
  proof (cases "deref p = NUL")
    case True
    then show ?thesis
      using less.prems adds_dirs_refl [OF inv] comps_end [OF True] by (auto simp: ensure_loop.simps [of node p s])
  next
    case nz: False
    define cmp rest where "cmp = takeWhile name_char p" and "rest = dropWhile name_char p"
    obtain c q where q: "p = c # q" "name_char c" using nz less.prems(4) by (cases p) auto
    have cmp: "cmp \<noteq> []" and split: "comps p = cmp # comps rest" by (simp_all add: cmp_def rest_def q)
    have ok_chars: "NUL \<notin> set cmp" "CHR ''/'' \<notin> set cmp" by (auto simp: cmp_def dest: set_takeWhileD)
    show ?thesis
    proof (cases "length cmp \<le> VFS_NAME_MAX")
      case False
      then have "component_loop p (VFS_NAME_MAX + 1) [] = None"
        using cmp by (simp add: component_loop_eq flip: cmp_def)
      then show ?thesis using nz adds_dirs_refl [OF inv] by (auto simp: ensure_loop.simps [of node p s])
    next
      case True
      have cl: "component_loop p (VFS_NAME_MAX + 1) [] = Some (cmp, rest)"
        using True by (simp add: component_loop_eq cmp_def rest_def)
      have nm: "name_ok cmp" using cmp ok_chars True by (simp add: name_ok_def)
      note ch = cwd_at_child [OF inv at ok_chars(1)]
      have shorter: "length (skip_slashes rest) < length p" using component_rest_shorter [OF cl cmp] .
      have ns: "deref (skip_slashes rest) \<noteq> CHR ''/''" by (rule skip_slashes_head)
      have step: "ensure_loop node p s =
          do { (child, s) \<leftarrow> (if child (vfs_nodes s) node cmp = None then vfs_alloc_node cmp VFS_NODE_DIR node s
                 else Some (the (child (vfs_nodes s) node cmp), s));
               if child = NULL then Some (False, s)
               else (case vfs_nodes s child of
                       None \<Rightarrow> None
                     | Some c \<Rightarrow> if vn_type c \<noteq> VFS_NODE_DIR then Some (False, s) else ensure_loop child (skip_slashes rest) s) }"
      proof (cases "child (vfs_nodes s) node cmp")
        case None
        then show ?thesis using nz cl cmp ch(3) by (simp add: ensure_loop.simps [of node p s])
      next
        case (Some b)
        then have "b \<noteq> NULL" using cwd_at_node [OF inv ch(2) [OF Some]] by blast
        then show ?thesis using nz cl cmp ch(3) Some by (simp add: ensure_loop.simps [of node p s])
      qed
      have go: ?thesis if run: "ensure_loop node p s = (case vfs_nodes s1 b of None \<Rightarrow> None
              | Some c \<Rightarrow> if vn_type c \<noteq> VFS_NODE_DIR then Some (False, s1) else ensure_loop b (skip_slashes rest) s1)"
        and b: "cwd_at s1 b (qs @ [cmp])" and s1: "adds_dirs s s1" for b s1
      proof -
        obtain n where n: "vfs_nodes s1 b = Some n" "vfs_abs s1 (qs @ [cmp]) = Some (entry_of (mem s1) n)" "b \<noteq> NULL"
          using cwd_at_node [OF adds_dirsD(2) [OF s1] b] .
        show ?thesis
        proof (cases "vn_type n")
          case VFS_NODE_FILE
          then show ?thesis using run n s1 by auto
        next
          case VFS_NODE_DIR
          then have "vfs_abs s1 (qs @ [cmp]) = Some Directory" using n by (simp add: entry_of_def)
          then obtain ok s' where "ensure_loop b (skip_slashes rest) s1 = Some (ok, s')" "adds_dirs s1 s'"
            "ok \<longrightarrow> vfs_abs s' ((qs @ [cmp]) @ comps (skip_slashes rest)) = Some Directory"
            using less.hyps [OF shorter adds_dirsD(2) [OF s1] b _ ns] by blast
          then show ?thesis using run n(1) VFS_NODE_DIR adds_dirs_trans [OF s1] by (simp add: split)
        qed
      qed
      show ?thesis
      proof (cases "child (vfs_nodes s) node cmp")
        case (Some b)
        have "b \<noteq> NULL" using cwd_at_node [OF inv ch(2) [OF Some]] by blast
        then show ?thesis
          using step Some by (intro go [OF _ ch(2) [OF Some] adds_dirs_refl [OF inv]]) simp
      next
        case None
        obtain d where d: "vfs_nodes s node = Some d" "vn_type d = VFS_NODE_DIR" using directory_node [OF inv at less.prems(3)] .
        obtain b s1 where a: "vfs_alloc_node cmp VFS_NODE_DIR node s = Some (b, s1)"
          "b = NULL \<longleftrightarrow> fst (kmalloc sizeof_vfs_node s) = NULL" "b = NULL \<longrightarrow> s1 = s" "vfs_ext s s1"
          "b \<noteq> NULL \<longrightarrow> cwd_at s1 b (qs @ [cmp])"
          "b \<noteq> NULL \<longrightarrow> vfs_abs s1 = (vfs_abs s)(qs @ [cmp] \<mapsto> (if VFS_NODE_DIR = VFS_NODE_DIR then Directory else Contents []))"
          using alloc_node_ext [OF inv at d nm None, where type = VFS_NODE_DIR] .
        show ?thesis
        proof (cases "b = NULL")
          case True
          then show ?thesis using step None a(1,3) adds_dirs_refl [OF inv] by auto
        next
          case False
          then have "adds_dirs s s1" using a(4,6) ch(1) [OF None] by (simp add: adds_dirs_def)
          then show ?thesis using step None a(1,5) False by (intro go [of s1 b]) simp_all
        qed
      qed
    qed
  qed
qed

lemma root_directory:
  assumes "vfs_inv s" and "vfs_root_node s \<noteq> NULL"
  shows "cwd_at s (vfs_root_node s) []" and "vfs_abs s [] = Some Directory"
proof -
  show at: "cwd_at s (vfs_root_node s) []" using assms(2) by (simp add: cwd_at_def)
  obtain r where "vfs_nodes s (vfs_root_node s) = Some r" "vn_type r = VFS_NODE_DIR"
    using tree_root [OF vfs_inv_tree [OF assms(1)] assms(2)] by blast
  then show "vfs_abs s [] = Some Directory" using assms(2) by (simp add: vfs_abs_def entry_of_def)
qed

lemma ensure_dir_spec:
  assumes "vfs_inv s" and "vfs_root_node s \<noteq> NULL"
  shows "\<exists>ok s'. vfs_ensure_dir_abs check s = Some (ok, s') \<and> adds_dirs s s'"
proof (cases "check = None \<or> deref (the check) \<noteq> CHR ''/''")
  case True
  then show ?thesis using adds_dirs_refl [OF assms(1)] by (auto simp: vfs_ensure_dir_abs_def split: option.split)
next
  case False
  then show ?thesis
    using ensure_loop_spec [OF assms(1) root_directory [OF assms] skip_slashes_head, of "the check"]
    by (auto simp: vfs_ensure_dir_abs_def)
qed

text \<open>What looking at a directory of the CD-ROM needs: that the look-up of the path returns.\<close>

definition cd_returns :: "fs_state \<Rightarrow> bool" where
  "cd_returns fs \<longleftrightarrow> (\<forall>p. fs_path_is_dir_from_mount fs (Some CDROM_MOUNT) (Some p) \<noteq> None)"

text \<open>The result of a step that may change the current directory.\<close>

definition good_cd :: "'a vfs_state_scheme \<Rightarrow> u32 \<Rightarrow> (bool \<times> u32 \<times> 'a vfs_state_scheme) option \<Rightarrow> bool" where
  "good_cd s cwd r \<longleftrightarrow> (\<exists>ok cwd' s'. r = Some (ok, cwd', s') \<and> adds_dirs s s' \<and> (\<not> ok \<longrightarrow> cwd' = cwd) \<and>
     (ok \<longrightarrow> (\<exists>qs. cwd_at s' cwd' qs \<and> vfs_abs s' qs = Some Directory)))"

lemma enter_node:
  assumes inv: "vfs_inv s" and at: "cwd_at s cwd0 ps" and ext: "adds_dirs s0 s"
  shows "good_cd s0 cwd
      (do { node \<leftarrow> vfs_resolve_from (vfs_nodes s) (vfs_root_node s) cwd0 path;
            if node = NULL then Some (False, cwd, s)
            else (case vfs_nodes s node of
                    None \<Rightarrow> None
                  | Some n \<Rightarrow> if vn_type n \<noteq> VFS_NODE_DIR then Some (False, cwd, s) else Some (True, node, s)) })"
proof (cases "vfs_path s ps path")
  case None
  then show ?thesis using resolve_spec(1) [OF inv at None] ext by (auto simp: good_cd_def)
next
  case (Some qs)
  obtain a n where "vfs_resolve_from (vfs_nodes s) (vfs_root_node s) cwd0 path = Some a" "cwd_at s a qs" "a \<noteq> NULL"
    "vfs_nodes s a = Some n" "vfs_abs s qs = Some (entry_of (mem s) n)"
    using resolve_spec(2) [OF inv at Some] by blast
  then show ?thesis using ext by (cases "vn_type n") (auto simp: good_cd_def entry_of_def)
qed

lemma enter_mounted_spec:
  assumes inv: "vfs_inv s" and rn: "vfs_root_node s \<noteq> NULL"
  shows "good_cd s cwd (enter_mounted cwd check s)"
proof -
  obtain ok s1 where e: "vfs_ensure_dir_abs check s = Some (ok, s1)" "adds_dirs s s1" using ensure_dir_spec [OF assms] by blast
  show ?thesis
  proof (cases ok)
    case True
    have "cwd_at s1 (vfs_root_node s1) []"
      using rn vfs_extD(2) [OF adds_dirsD(1) [OF e(2)]] by (simp add: cwd_at_def)
    then show ?thesis
      using enter_node [OF adds_dirsD(2) [OF e(2)] _ e(2), of "vfs_root_node s1" "[]" cwd check] e(1) True
      by (simp add: enter_mounted_def)
  qed (use e in \<open>auto simp: enter_mounted_def good_cd_def\<close>)
qed

lemma change_dir_spec:
  assumes inv: "vfs_inv s" and cwd: "cwd_at s cwd ps" and cd: "cd_returns fs"
  shows "good_cd s cwd (vfs_change_dir fs cwd path s)"
proof -
  have rn: "vfs_root_node s \<noteq> NULL" using cwd by (simp add: cwd_at_def)
  have md: "\<exists>b. mounted_dir fs sp = Some b" for sp
    using cd by (auto simp: mounted_dir_def cd_returns_def split: option.split)
  obtain check where ck: "(if path = None \<or> deref (the path) = NUL then Some None else vfs_check_path s cwd path) = Some check"
    using check_path_spec [OF inv cwd, of path] by (cases "path = None \<or> deref (the path) = NUL") simp_all
  obtain b1 b2 where b: "mounted_dir fs (vfs_is_cdrom_mount_path check) = Some b1"
    "mounted_dir fs (vfs_is_bin_alias_path check) = Some b2" using md by blast
  show ?thesis
    using enter_mounted_spec [OF inv rn, of cwd check] enter_node [OF inv cwd adds_dirs_refl [OF inv], of cwd path] ck b
    unfolding vfs_change_dir_def by (cases b1; cases b2) simp_all
qed

section \<open>Reading\<close>

text \<open>Reading from a disc takes at most one block from the heap and writes only inside it.\<close>

lemma iso_read_state:
  assumes "iso_read_file_alloc env dev path s = Some (r, s')"
  shows "s' = s \<or> (\<exists>n p s1. kmalloc n s = (p, s1) \<and> (p = NULL \<and> s' = s1 \<or>
      p \<noteq> NULL \<and> (\<exists>m. s' = s1\<lparr>mem := m\<rparr> \<and> (\<forall>x. \<not> in_block p (unat n) x \<longrightarrow> m x = mem s1 x))))"
proof (cases "s' = s")
  case False
  then obtain loc where loc: "lo_size loc \<le> ISO_FILE_MAX" "iso_read_extent env dev loc s = (r, s')"
    using iso_read_file_extent [OF assms] by blast
  obtain p s1 where k: "kmalloc (lo_size loc + 1) s = (p, s1)" by fastforce
  show ?thesis
  proof (cases "p = NULL")
    case True
    then have "s' = s1" using loc(2) k by (simp add: iso_read_extent_def)
    then show ?thesis using k True by blast
  next
    case nz: False
    obtain ok m where c: "iso_copy_loop (read_sector env dev) (lo_extent_lba loc) p (unat (lo_size loc)) 0 (mem s1) = (ok, m)"
      by fastforce
    have small: "unat (lo_size loc) \<le> 2097152" using loc(1) by (simp add: ISO_FILE_MAX_def word_le_nat_alt)
    then have u: "unat (lo_size loc + 1) = unat (lo_size loc) + 1" by (subst unat_add_exact) simp_all
    have out: "m x = mem s1 x" if "\<not> in_block p (unat (lo_size loc + 1)) x" for x
      using iso_copy_loop_frame [OF c, of x] that small in_block_mono [of p "unat (lo_size loc)" x "unat (lo_size loc + 1)"]
      by (auto simp: u)
    have last: "p + lo_size loc \<noteq> x" if "\<not> in_block p (unat (lo_size loc + 1)) x" for x
      using that by (auto simp: in_block_def u)
    have "s' = s1\<lparr>mem := (if ok then m(p + lo_size loc := 0) else m)\<rparr>" using loc(2) k nz c by (auto simp: iso_read_extent_def split: if_splits)
    moreover have "(if ok then m(p + lo_size loc := 0) else m) x = mem s1 x"
      if "\<not> in_block p (unat (lo_size loc + 1)) x" for x
      using out [OF that] last [OF that] by simp
    ultimately show ?thesis using k nz by blast
  qed
qed simp

definition quiet :: "'a vfs_state_scheme \<Rightarrow> 'a vfs_state_scheme \<Rightarrow> bool" where
  "quiet s s' \<longleftrightarrow> vfs_ext s s' \<and> vfs_abs s' = vfs_abs s"

lemma quiet_refl: "vfs_inv s \<Longrightarrow> quiet s s"
  by (simp add: quiet_def)

lemma read_mounted_quiet:
  assumes inv: "vfs_inv s" and r: "read_mounted fs subpath s = Some (r, s')"
  shows "quiet s s'"
proof (cases "s' = s")
  case False
  obtain dev where "iso_read_file_alloc fs dev subpath s = Some (r, s')"
    using r False by (auto simp: read_mounted_def fs_read_file_from_mount_def fs_ops_dispatch iso_ops_read_file_def
        split: option.splits if_splits)
  from iso_read_state [OF this] False obtain n p s1 where k: "kmalloc n s = (p, s1)"
    "p = NULL \<and> s' = s1 \<or> p \<noteq> NULL \<and> (\<exists>m. s' = s1\<lparr>mem := m\<rparr> \<and> (\<forall>x. \<not> in_block p (unat n) x \<longrightarrow> m x = mem s1 x))"
    by blast
  show ?thesis
  proof (cases "p = NULL")
    case True
    then have "s1 = s" using k(1) by (intro kmalloc_NULL [OF vfs_inv_heap [OF inv]]) simp
    then show ?thesis using k(2) True quiet_refl [OF inv] by simp
  next
    case nz: False
    then obtain m where m: "s' = s1\<lparr>mem := m\<rparr>" "\<And>x. \<not> in_block p (unat n) x \<Longrightarrow> m x = mem s1 x" using k(2) by blast
    have "mem s1 = mem s" by (subst kmalloc_frame(6) [OF vfs_inv_heap [OF inv] k(1) nz]) simp
    then have out: "\<And>x. \<not> in_block p (unat n) x \<Longrightarrow> m x = mem s x" using m(2) by simp
    show ?thesis unfolding quiet_def m(1) using fill_block_ext(1,2) [OF inv k(1) nz out] by blast
  qed
qed (use quiet_refl [OF inv] in simp)

text \<open>Reading a file of the tree gives a pointer to its bytes.\<close>

lemma read_file_spec:
  assumes inv: "vfs_inv s" and cwd: "cwd_at s cwd ps" and "\<not> on_cdrom ps path"
  shows "\<exists>r. vfs_read_file fs cwd path s = Some (r, s) \<and>
    (case vfs_path s ps path of
       None \<Rightarrow> r = None
     | Some qs \<Rightarrow> (case vfs_abs s qs of
           Some (Contents bs) \<Rightarrow> (\<exists>d sz. r = Some (d, sz) \<and> mem_read (mem s) d (unat sz) = bs)
         | _ \<Rightarrow> r = None))"
proof -
  have run: "vfs_read_file fs cwd path s =
      do { node \<leftarrow> vfs_resolve_from (vfs_nodes s) (vfs_root_node s) cwd path;
           if node = NULL then Some (None, s)
           else (case vfs_nodes s node of
                   None \<Rightarrow> None
                 | Some n \<Rightarrow> Some (if vn_type n \<noteq> VFS_NODE_FILE then None else Some (vn_data n, vn_size n), s)) }"
    using check_path_spec [OF inv cwd, of path] assms(3) by (simp add: vfs_read_file_def on_cdrom_def)
  show ?thesis
  proof (cases "vfs_path s ps path")
    case None
    then show ?thesis using run resolve_spec(1) [OF inv cwd None] by simp
  next
    case (Some qs)
    obtain a n where "vfs_resolve_from (vfs_nodes s) (vfs_root_node s) cwd path = Some a" "a \<noteq> NULL" "vfs_nodes s a = Some n"
      "vfs_abs s qs = Some (entry_of (mem s) n)"
      using resolve_spec(2) [OF inv cwd Some] by blast
    then show ?thesis using run Some by (cases "vn_type n") (simp_all add: entry_of_def)
  qed
qed

lemma read_file_quiet:
  assumes inv: "vfs_inv s" and cwd: "cwd_at s cwd ps" and "vfs_read_file fs cwd path s = Some (r, s')"
  shows "quiet s s'"
proof (cases "on_cdrom ps path")
  case False
  then show ?thesis using read_file_spec [OF inv cwd False, of fs] assms(3) quiet_refl [OF inv] by auto
next
  case True
  then show ?thesis
    using assms(3) check_path_spec [OF inv cwd, of path] read_mounted_quiet [OF inv]
    by (auto simp: vfs_read_file_def on_cdrom_def split: option.splits)
qed

lemma stat_quiet:
  assumes inv: "vfs_inv s" and cwd: "cwd_at s cwd ps" and r: "vfs_stat fs cwd path s = Some (r, s')"
  shows "quiet s s'"
proof (cases "path = None \<or> deref (the path) = NUL")
  case True
  then show ?thesis using r quiet_refl [OF inv] by (auto simp: vfs_stat_def split: option.splits)
next
  case False
  then obtain p where p: "path = Some p" "deref p \<noteq> NUL" by auto
  show ?thesis
  proof (cases "on_cdrom ps path")
    case True
    then show ?thesis
      using r p check_path_spec [OF inv cwd, of path] quiet_refl [OF inv] read_mounted_quiet [OF inv]
      by (auto simp: vfs_stat_def on_cdrom_def split: option.splits if_splits bind_splits)
  next
    case False
    then show ?thesis
      using r p check_path_spec [OF inv cwd, of path] quiet_refl [OF inv]
      by (auto simp: vfs_stat_def on_cdrom_def split: option.splits if_splits bind_splits)
  qed
qed

section \<open>Start-up\<close>

lemma vfs_ext_node: "vfs_ext s s' \<Longrightarrow> cwd_at s a ps \<Longrightarrow> vfs_inv s' \<and> cwd_at s' a ps"
  by (auto dest: vfs_extD)

lemma make_dir_ext:
  assumes "vfs_inv s" and "cwd_at s cwd ps" and "path_ok path"
  obtains ok s' where "vfs_make_dir cwd path s = Some (ok, s')" "vfs_ext s s'"
  using make_dir_spec [OF assms] by blast

lemma seed_file_ext:
  assumes inv: "vfs_inv s" and rn: "vfs_root_node s \<noteq> NULL" and pok: "path_ok (Some path)" and len: "length data < 2 ^ 31"
  obtains ok s' where "vfs_write_seed_file path data s = Some (ok, s')" "vfs_ext s s'"
proof -
  note result = that and at = root_directory(1) [OF inv rn]
  obtain ok1 s1 where t1: "vfs_touch (vfs_root_node s) (Some path) s = Some (ok1, s1)" "vfs_ext s s1"
    using touch_facts [OF inv at pok] by metis
  note inv1 = vfs_extD(1) [OF t1(2)] and at1 = vfs_extD(3) [OF t1(2) at] and rt = vfs_extD(2) [OF t1(2)]
  let ?sz = "str_len data"
  have w: "vfs_write_seed_file path data s =
      (if \<not> ok1 then Some (False, s1)
       else do { node \<leftarrow> vfs_resolve_from (vfs_nodes s1) (vfs_root_node s1) (vfs_root_node s) (Some path);
                 if node = NULL then Some (False, s1)
                 else let (copy, s) = kmalloc (?sz + 1) s1 in
                   if copy = NULL then Some (False, s)
                   else set_file_data node copy ?sz
                     (s\<lparr>mem := mem_write copy (map byte_of (str_copy [] data (?sz + 1)) @ [0]) (mem s)\<rparr>) })"
    using t1(1) rt by (simp add: vfs_write_seed_file_def vfs_resolve_def Let_def)
  have fail: ?thesis if f: "vfs_write_seed_file path data s = Some (False, s1)" using f t1(2) by (rule result)
  show ?thesis
  proof (cases "ok1 \<and> vfs_path s1 [] (Some path) \<noteq> None")
    case False
    then show ?thesis using w resolve_spec(1) [OF inv1 at1] by (intro fail) auto
  next
    case True
    then obtain rs where "vfs_path s1 [] (Some path) = Some rs" by auto
    then obtain a n where r: "vfs_resolve_from (vfs_nodes s1) (vfs_root_node s1) (vfs_root_node s) (Some path) = Some a"
      "cwd_at s1 a rs" "a \<noteq> NULL" "vfs_nodes s1 a = Some n"
      using resolve_spec(2) [OF inv1 at1] by blast
    obtain copy s2 where k: "kmalloc (?sz + 1) s1 = (copy, s2)" by fastforce
    show ?thesis
    proof (cases "copy = NULL")
      case nul: True
      then have "s2 = s1" using k by (intro kmalloc_NULL [OF vfs_inv_heap [OF inv1]]) simp
      then show ?thesis using w True r k nul by (intro fail) simp
    next
      case nz: False
      let ?bs = "map byte_of (str_copy [] data (?sz + 1)) @ [0]"
      have sz: "unat ?sz = length (cstr data)" "unat (?sz + 1) = length (cstr data) + 1"
        using len length_cstr_le [of data] by (simp_all add: unat_str_len unat_add_exact)
      then have "0 < ?sz + 1" by (simp add: word_less_nat_alt)
      then have bs: "length ?bs = unat (?sz + 1)" using sz by (simp add: str_copy_eq)
      have mem2: "mem s2 = mem s1" by (subst kmalloc_frame(6) [OF vfs_inv_heap [OF inv1] k nz]) simp
      have out: "mem_write copy ?bs (mem s2) x = mem s1 x" if "\<not> in_block copy (unat (?sz + 1)) x" for x
        using that bs mem2 by (simp add: mem_write_other)
      note b = fill_block_ext [OF inv1 k nz out]
      let ?s2 = "s2\<lparr>mem := mem_write copy ?bs (mem s2)\<rparr>"
      have "cwd_at ?s2 a rs" "vfs_nodes ?s2 a = Some n" using vfs_extD(3) [OF b(1)] r(2,4) b(6) by auto
      moreover have "unat copy + unat ?sz \<le> unat (h_current (heap ?s2))" using b(4) sz by simp
      ultimately obtain s' where "set_file_data a copy ?sz ?s2 = Some (True, s')" "vfs_ext ?s2 s'"
        using set_data_spec [OF vfs_extD(1) [OF b(1)]] by blast
      then show ?thesis
        using w True r k nz vfs_ext_trans [OF t1(2) vfs_ext_trans [OF b(1)]] by (intro that [of True s']) simp_all
    qed
  qed
qed

text \<open>A file system that has just been zeroed: no nodes, a heap.\<close>

definition vfs_fresh :: "'a vfs_state_scheme \<Rightarrow> bool" where
  "vfs_fresh s \<longleftrightarrow> heap_inv (heap s) \<and> vfs_nodes s = Map.empty \<and> vfs_root_node s = NULL"

lemma root_node_spec:
  assumes "vfs_fresh s" and "fst (kmalloc sizeof_vfs_node s) \<noteq> NULL"
  obtains root s1 where "vfs_alloc_node [] VFS_NODE_DIR NULL s = Some (root, s1)" "root \<noteq> NULL"
    "vfs_inv (s1\<lparr>vfs_root_node := root\<rparr>)" "cwd_at (s1\<lparr>vfs_root_node := root\<rparr>) root []"
    "vfs_abs (s1\<lparr>vfs_root_node := root\<rparr>) = [[] \<mapsto> Directory]"
proof -
  have hi: "heap_inv (heap s)" and fresh: "vfs_nodes s = Map.empty" using assms(1) by (simp_all add: vfs_fresh_def)
  obtain root s0 where k: "kcalloc sizeof_vfs_node s = (root, s0)" by fastforce
  have nz: "root \<noteq> NULL" using kcalloc_frame(2) [OF hi k] assms(2) by simp
  note f = kcalloc_frame(3) [OF hi k nz]
  let ?r = "\<lparr>vn_name = [], vn_type = VFS_NODE_DIR, vn_parent = NULL, vn_first_child = NULL, vn_next_sibling = NULL,
      vn_data = NULL, vn_size = 0\<rparr>"
  have nodes0: "vfs_nodes s0 = Map.empty"
    by (subst f [THEN conjunct2, THEN conjunct2, THEN conjunct2, THEN conjunct2, THEN conjunct2, THEN conjunct1]) (simp add: fresh)
  let ?s1 = "s0\<lparr>vfs_nodes := [root \<mapsto> ?r]\<rparr>"
  let ?s = "?s1\<lparr>vfs_root_node := root\<rparr>"
  have al: "vfs_alloc_node [] VFS_NODE_DIR NULL s = Some (root, ?s1)"
    using k nz by (simp add: vfs_alloc_node_def nodes0 str_copy_eq)
  have kids: "kids [root \<mapsto> ?r] root = {}" using nz by (auto simp: kids_def)
  then have "\<exists>xs. chain [root \<mapsto> ?r] NULL xs \<and> set xs = kids [root \<mapsto> ?r] root" by (intro exI [of _ "[]"]) simp
  then have tree: "tree_inv [root \<mapsto> ?r] root" using nz by (auto simp: tree_inv_def node_inv_def)
  have "root < h_current (heap s0)"
    using f by (auto simp: word_less_nat_alt)
  then have inv: "vfs_inv ?s" using tree f by (auto simp: vfs_inv_def)
  have at: "cwd_at ?s root []" using nz by (simp add: cwd_at_def)
  have none: "child [root \<mapsto> ?r] root c = None" if "NUL \<notin> set c" for c
    using child_iff(1) [OF tree _ that, of root ?r] kids by (cases "child [root \<mapsto> ?r] root c") (auto simp: kids_def)
  have "vfs_abs ?s qs = [[] \<mapsto> Directory] qs" for qs
  proof (cases qs)
    case Nil
    then show ?thesis using nz by (simp add: vfs_abs_def entry_of_def)
  next
    case (Cons c cs)
    then show ?thesis using none by (simp add: vfs_abs_def)
  qed
  then show ?thesis using that [OF al nz inv at] by (simp add: fun_eq_iff)
qed

lemma vfs_init_spec:
  assumes "vfs_fresh s" and "fst (kmalloc sizeof_vfs_node s) \<noteq> NULL"
  obtains s' where "vfs_init s = Some s'" "vfs_inv s'" "cwd_at s' (vfs_root s') []"
proof -
  obtain root s1 where r: "vfs_alloc_node [] VFS_NODE_DIR NULL s = Some (root, s1)" "root \<noteq> NULL"
    "vfs_inv (s1\<lparr>vfs_root_node := root\<rparr>)" "cwd_at (s1\<lparr>vfs_root_node := root\<rparr>) root []"
    "vfs_abs (s1\<lparr>vfs_root_node := root\<rparr>) = [[] \<mapsto> Directory]" using root_node_spec [OF assms] .
  let ?t0 = "s1\<lparr>vfs_root_node := root\<rparr>"
  have pok: "path_ok (Some ''/bin'')" "path_ok (Some ''/docs'')" "path_ok (Some ''/mount'')" "path_ok (Some ''/mount/cdrom'')"
    "path_ok (Some ''/tmp'')" "path_ok (Some ''/docs/readme.txt'')" "path_ok (Some ''/docs/roadmap.txt'')" by simp_all
  obtain b1 t1 where t1: "vfs_make_dir root (Some ''/bin'') ?t0 = Some (b1, t1)" "vfs_ext ?t0 t1"
    using make_dir_ext [OF r(3,4) pok(1)] .
  note i1 = vfs_ext_node [OF t1(2) r(4)]
  obtain b2 t2 where t2: "vfs_make_dir root (Some ''/docs'') t1 = Some (b2, t2)" "vfs_ext t1 t2"
    using make_dir_ext [OF conjunct1 [OF i1] conjunct2 [OF i1] pok(2)] .
  note i2 = vfs_ext_node [OF t2(2) conjunct2 [OF i1]]
  obtain b3 t3 where t3: "vfs_make_dir root (Some ''/mount'') t2 = Some (b3, t3)" "vfs_ext t2 t3"
    using make_dir_ext [OF conjunct1 [OF i2] conjunct2 [OF i2] pok(3)] .
  note i3 = vfs_ext_node [OF t3(2) conjunct2 [OF i2]]
  obtain b4 t4 where t4: "vfs_make_dir root (Some ''/mount/cdrom'') t3 = Some (b4, t4)" "vfs_ext t3 t4"
    using make_dir_ext [OF conjunct1 [OF i3] conjunct2 [OF i3] pok(4)] .
  note i4 = vfs_ext_node [OF t4(2) conjunct2 [OF i3]]
  obtain b5 t5 where t5: "vfs_make_dir root (Some ''/tmp'') t4 = Some (b5, t5)" "vfs_ext t4 t5"
    using make_dir_ext [OF conjunct1 [OF i4] conjunct2 [OF i4] pok(5)] .
  note i5 = vfs_ext_node [OF t5(2) conjunct2 [OF i4]]
  obtain b6 t6 where t6: "vfs_write_seed_file ''/docs/readme.txt'' readme_text t5 = Some (b6, t6)" "vfs_ext t5 t6"
    using seed_file_ext [of t5 "''/docs/readme.txt''" readme_text] i5 by (auto simp: cwd_at_def readme_text_def)
  note i6 = vfs_ext_node [OF t6(2) conjunct2 [OF i5]]
  obtain b7 t7 where t7: "vfs_write_seed_file ''/docs/roadmap.txt'' roadmap_text t6 = Some (b7, t7)" "vfs_ext t6 t7"
    using seed_file_ext [of t6 "''/docs/roadmap.txt''" roadmap_text] i6 by (auto simp: cwd_at_def roadmap_text_def)
  note i7 = vfs_ext_node [OF t7(2) conjunct2 [OF i6]]
  have "vfs_root_node s = NULL" using assms(1) by (simp add: vfs_fresh_def)
  then have "vfs_init s = Some t7"
    using r(1) t1(1) t2(1) t3(1) t4(1) t5(1) t6(1) t7(1) by (simp add: vfs_init_def)
  moreover have "vfs_root t7 = root" using i7 by (simp add: vfs_root_def cwd_at_def)
  ultimately show ?thesis using that i7 by simp
qed

section \<open>Listing\<close>

lemma list_spec:
  assumes inv: "vfs_inv s" and at: "cwd_at s a qs" and n: "vfs_nodes s a = Some n"
  shows "\<exists>es. list_loop (vfs_nodes s) (vn_first_child n) = Some es \<and>
    (\<forall>nm d. NUL \<notin> set nm \<longrightarrow> (nm, d) \<in> set es \<longleftrightarrow>
       (\<exists>e. vfs_abs s (qs @ [nm]) = Some e \<and> (d \<longleftrightarrow> e = Directory)))"
proof -
  note tree = vfs_inv_tree [OF inv]
  obtain xs where xs: "chain (vfs_nodes s) (vn_first_child n) xs" "set xs = kids (vfs_nodes s) a"
    using tree_node_inv [OF tree n] by (auto simp: node_inv_def)
  let ?es = "map (\<lambda>x. (vn_name (the (vfs_nodes s x)), vn_type (the (vfs_nodes s x)) = VFS_NODE_DIR)) xs"
  have mem_es: "(nm, d) \<in> set ?es \<longleftrightarrow> (\<exists>e. vfs_abs s (qs @ [nm]) = Some e \<and> (d \<longleftrightarrow> e = Directory))" if nul: "NUL \<notin> set nm" for nm d
  proof -
    note ch = cwd_at_child [OF inv at nul]
    have iff: "child (vfs_nodes s) a nm = Some c \<longleftrightarrow> (\<exists>m. vfs_nodes s c = Some m \<and> vn_parent m = a \<and> vn_name m = nm)" for c
      by (rule child_iff(1) [OF tree n nul])
    have es: "(nm, d) \<in> set ?es \<longleftrightarrow> (\<exists>c m. child (vfs_nodes s) a nm = Some c \<and> vfs_nodes s c = Some m \<and> d = (vn_type m = VFS_NODE_DIR))"
      unfolding iff using xs(2) by (force simp: kids_def)
    show ?thesis
    proof (cases "child (vfs_nodes s) a nm")
      case None
      then show ?thesis using es ch(1) by simp
    next
      case (Some c)
      obtain m where "vfs_nodes s c = Some m" "vfs_abs s (qs @ [nm]) = Some (entry_of (mem s) m)"
        using cwd_at_node [OF inv ch(2) [OF Some]] by blast
      then show ?thesis using es Some by (cases "vn_type m") (simp_all add: entry_of_def)
    qed
  qed
  then show ?thesis using list_loop_chain [OF xs(1)] by (intro exI [of _ ?es]) blast
qed

end
