(* ===== verification/VfsProps.thy ===== *)
theory VfsProps
  imports VfsDirs
begin

text \<open>
  The properties of \<^verbatim>\<open>kernel/vfs.c\<close>, stated over \<open>vfs_abs\<close> and \<open>vfs_inv\<close>, with witnesses on the
  file system that \<^verbatim>\<open>vfs_init\<close> leaves in an empty heap.
\<close>

section \<open>A running example\<close>

definition demo_vfs0 :: vfs_state where
  "demo_vfs0 = \<lparr>heap = demo_heap, mem = (\<lambda>_. 0xAA), vfs_nodes = Map.empty, vfs_root_node = 0\<rparr>"

text \<open>Its root node, the first thing that \<^verbatim>\<open>vfs_init\<close> makes.\<close>

definition demo_vfs :: vfs_state where
  "demo_vfs = (case vfs_alloc_node [] VFS_NODE_DIR NULL demo_vfs0 of Some (r, s) \<Rightarrow> s\<lparr>vfs_root_node := r\<rparr> | None \<Rightarrow> demo_vfs0)"

lemma demo_vfs0_fresh: "vfs_fresh demo_vfs0" "fst (kmalloc sizeof_vfs_node demo_vfs0) \<noteq> NULL"
  by (simp_all add: vfs_fresh_def demo_vfs0_def demo_heap_inv, code_simp)

lemma demo_vfs_inv: "vfs_inv demo_vfs" "cwd_at demo_vfs (vfs_root demo_vfs) []" "vfs_abs demo_vfs = [[] \<mapsto> Directory]"
proof -
  obtain r s where r: "vfs_alloc_node [] VFS_NODE_DIR NULL demo_vfs0 = Some (r, s)" "r \<noteq> NULL"
    "vfs_inv (s\<lparr>vfs_root_node := r\<rparr>)" "cwd_at (s\<lparr>vfs_root_node := r\<rparr>) r []"
    "vfs_abs (s\<lparr>vfs_root_node := r\<rparr>) = [[] \<mapsto> Directory]" using root_node_spec [OF demo_vfs0_fresh] .
  then have d: "demo_vfs = s\<lparr>vfs_root_node := r\<rparr>" by (simp add: demo_vfs_def)
  show "vfs_inv demo_vfs" "cwd_at demo_vfs (vfs_root demo_vfs) []" "vfs_abs demo_vfs = [[] \<mapsto> Directory]"
    unfolding d using r(3-5) by (simp_all add: vfs_root_def)
qed

text \<open>No CD-ROM is mounted in the example.\<close>

definition demo_fs0 :: fs_state where
  "demo_fs0 = fs_init (iso_env.extend \<lparr>ie_storage = storage_empty, ie_beyond = \<lambda>_. 0\<rparr> (fs_state.fields [] 0))"

lemma demo_fs0_cd: "cd_returns demo_fs0"
proof -
  have "storage_find_device storage_empty ''cd0'' = None" by code_simp
  then have "find_mount demo_fs0 (Some CDROM_MOUNT) = None"
    using fs_init_facts [of "iso_env.extend \<lparr>ie_storage = storage_empty, ie_beyond = \<lambda>_. 0\<rparr> (fs_state.fields [] 0)" CDROM_MOUNT]
    by (simp add: demo_fs0_def CDROM_MOUNT_def iso_env.defs fs_state.defs storage_empty_inv)
  then show ?thesis by (simp add: cd_returns_def fs_path_is_dir_from_mount_def)
qed

section \<open>Paths\<close>

text \<open>
  C17: path resolution.  From a directory with path \<open>ps\<close>, the walk over the node structures
  always returns, and it finds the node that the components of the path lead to, \<^verbatim>\<open>.\<close> and
  \<^verbatim>\<open>..\<close> included; it returns null exactly when a component does not exist or is longer than
  31 characters.
\<close>

theorem vfs_resolve_correct:
  assumes "vfs_inv s" and "cwd_at s cwd ps"
  shows "\<exists>a. vfs_resolve_from (vfs_nodes s) (vfs_root_node s) cwd path = Some a \<and>
    (case abs_resolve_path (\<lambda>qs. vfs_abs s qs \<noteq> None) ps path of None \<Rightarrow> a = NULL | Some qs \<Rightarrow> a \<noteq> NULL \<and> cwd_at s a qs)"
proof (cases "vfs_path s ps path")
  case None
  then show ?thesis using resolve_spec(1) [OF assms None] by (simp add: vfs_path_def)
next
  case (Some qs)
  then show ?thesis using resolve_spec(2) [OF assms Some] by (auto simp: vfs_path_def)
qed

theorem vfs_resolve_correct_witness:
  "\<exists>a. vfs_resolve_from (vfs_nodes demo_vfs) (vfs_root_node demo_vfs) (vfs_root demo_vfs) (Some ''/docs/./../tmp'') = Some a"
  using vfs_resolve_correct [OF demo_vfs_inv(1,2)] by blast

text \<open>The text of a path that is not cut.\<close>

definition path_text :: "string list \<Rightarrow> string" where
  "path_text ps = concat (map (\<lambda>c. CHR ''/'' # c) ps)"

lemma path_text_simps [simp]: "path_text [] = []" "path_text (c # ps) = CHR ''/'' # c @ path_text ps"
  by (simp_all add: path_text_def)

lemma comps_path_text: "list_all name_ok ps \<Longrightarrow> comps (path_text ps) = ps"
proof (induction ps)
  case (Cons c ps)
  have c: "c \<noteq> []" "NUL \<notin> set c" "CHR ''/'' \<notin> set c" using Cons.prems by (simp_all add: name_ok_def)
  have "comps (c @ path_text ps) = [c] @ comps (path_text ps)"
  proof (cases ps)
    case Nil
    then show ?thesis using comps_plain [OF c] by simp
  next
    case (Cons d ds)
    then show ?thesis using comps_slash [OF c(2), of "d @ path_text ds"] comps_plain [OF c] by simp
  qed
  then show ?case using Cons by simp
qed simp

lemma cwd_out_text:
  "ps \<noteq> [] \<Longrightarrow> list_all (\<lambda>c. NUL \<notin> set c) ps \<Longrightarrow> length (path_text ps) \<le> n \<Longrightarrow> length (path_text ps) < 2 ^ 32 \<Longrightarrow>
   cwd_out ps n out = out @ tl (path_text ps)"
proof (induction ps arbitrary: n out)
  case (Cons c ps)
  have len: "unat (str_len c) = length c" using Cons.prems by (subst unat_str_len) simp_all
  show ?case
  proof (cases ps)
    case Nil
    then show ?thesis using Cons.prems len by simp
  next
    case (Cons d ds)
    then have "cwd_out ps (n - length c - 1) (out @ c @ ''/'') = (out @ c @ ''/'') @ tl (path_text ps)"
      using Cons.IH Cons.prems by simp
    then show ?thesis using Cons Cons.prems len by simp
  qed
qed simp

lemma node_names:
  assumes "vfs_inv s" and "vfs_root_node s \<noteq> NULL"
  shows "names_ok ps \<Longrightarrow> walk (vfs_nodes s) (vfs_root_node s) ps = Some a \<Longrightarrow> list_all name_ok ps"
proof (induction ps arbitrary: a rule: rev_induct)
  case (snoc c ps)
  obtain m where m: "vfs_nodes s a = Some m" "walk (vfs_nodes s) (vfs_root_node s) ps = Some (vn_parent m)" "vn_name m = c"
    "a \<noteq> vfs_root_node s"
    using walk_snoc_parent [OF vfs_inv_tree [OF assms(1)] assms(2) snoc.prems] .
  then have "name_ok c" using tree_node_inv [OF vfs_inv_tree [OF assms(1)] m(1)] by (simp add: node_inv_def)
  then show ?case using snoc m(2) by simp
qed simp

lemma abs_resolve_names:
  assumes "vfs_inv s" and "vfs_root_node s \<noteq> NULL"
  shows "names_ok (ps @ qs) \<Longrightarrow> walk (vfs_nodes s) (vfs_root_node s) (ps @ qs) \<noteq> None \<Longrightarrow> ''.'' \<notin> set qs \<Longrightarrow> ''..'' \<notin> set qs \<Longrightarrow>
    abs_resolve (leads (vfs_nodes s) (vfs_root_node s)) ps qs = Some (ps @ qs)"
proof (induction qs arbitrary: ps)
  case (Cons c qs)
  obtain a where "walk (vfs_nodes s) (vfs_root_node s) (ps @ c # qs) = Some a" using Cons.prems(2) by blast
  then have "name_ok c" using node_names [OF assms Cons.prems(1)] by simp
  moreover have "walk (vfs_nodes s) (vfs_root_node s) ((ps @ [c]) @ qs) \<noteq> None" using Cons.prems(2) by simp
  then have "leads (vfs_nodes s) (vfs_root_node s) (ps @ [c])"
    by (subst (asm) walk_append) (auto simp: leads_def split: bind_splits)
  ultimately show ?case using Cons.IH [of "ps @ [c]"] Cons.prems by (auto simp: name_ok_def)
qed simp


text \<open>The target of a name in the root of the example.\<close>

lemma demo_target:
  assumes "case vfs_split_parent path VFS_PATH_MAX (VFS_NAME_MAX + 1) of None \<Rightarrow> False | Some (pp, n) \<Rightarrow> n = nm \<and> comps pp = []"
  shows "target demo_vfs [] path = Some ([], nm)"
  using assms by (auto simp: target_def vfs_path_def abs_resolve_path_def split: option.splits)


section \<open>Changing the tree\<close>

text \<open>
  C16: making directories.  \<^verbatim>\<open>vfs_make_dir\<close> always returns and keeps the invariant and the paths
  of all nodes.  It succeeds exactly when the path is not on the CD-ROM, the heap has room for
  a node, and the path splits into an existing directory and a name that is not taken; then
  the tree has one new directory there.  Otherwise the state is unchanged.
\<close>

theorem vfs_make_dir_correct:
  assumes "vfs_inv s" and "cwd_at s cwd ps" and "path_ok path"
  shows "\<exists>ok s'. vfs_make_dir cwd path s = Some (ok, s') \<and> vfs_inv s' \<and>
    (\<forall>a qs. cwd_at s a qs \<longrightarrow> cwd_at s' a qs) \<and> (\<not> ok \<longrightarrow> s' = s) \<and>
    (ok \<longleftrightarrow> \<not> on_cdrom ps path \<and> fst (kmalloc sizeof_vfs_node s) \<noteq> NULL \<and>
      (\<exists>qs nm. target s ps path = Some (qs, nm) \<and> vfs_abs s qs = Some Directory \<and> vfs_abs s (qs @ [nm]) = None)) \<and>
    (\<forall>qs nm. ok \<and> target s ps path = Some (qs, nm) \<longrightarrow> vfs_abs s' = (vfs_abs s)(qs @ [nm] \<mapsto> Directory))"
  using make_dir_spec [OF assms] by (auto simp: vfs_ext_def)

theorem vfs_make_dir_correct_witness:
  "\<exists>s'. vfs_make_dir (vfs_root demo_vfs) (Some ''/tmp'') demo_vfs = Some (True, s') \<and>
     vfs_abs s' = [[] \<mapsto> Directory, [''tmp''] \<mapsto> Directory]"
proof -
  have "\<not> on_cdrom [] (Some ''/tmp'') \<and> fst (kmalloc sizeof_vfs_node demo_vfs) \<noteq> NULL" by code_simp
  moreover have "target demo_vfs [] (Some ''/tmp'') = Some ([], ''tmp'')" by (rule demo_target) code_simp
  ultimately show ?thesis
    using vfs_make_dir_correct [OF demo_vfs_inv(1,2), of "Some ''/tmp''"] by (auto simp: demo_vfs_inv(3))
qed

text \<open>
  C25: \<^verbatim>\<open>touch\<close>.  \<^verbatim>\<open>vfs_touch\<close> always returns and keeps the invariant.  It succeeds exactly
  when the path is not on the CD-ROM and names, in an existing directory, a file or something
  that does not exist yet and for which the heap has room; a new file is empty, an existing
  one is left as it is, and on failure the state is unchanged.
\<close>

theorem vfs_touch_correct:
  assumes "vfs_inv s" and "cwd_at s cwd ps" and "path_ok path"
  shows "\<exists>ok s'. vfs_touch cwd path s = Some (ok, s') \<and> vfs_inv s' \<and> (\<not> ok \<longrightarrow> s' = s) \<and>
    (ok \<longleftrightarrow> \<not> on_cdrom ps path \<and>
      (\<exists>qs nm. target s ps path = Some (qs, nm) \<and> vfs_abs s qs = Some Directory \<and>
        (case vfs_abs s (qs @ [nm]) of None \<Rightarrow> fst (kmalloc sizeof_vfs_node s) \<noteq> NULL
           | Some Directory \<Rightarrow> False | Some (Contents bs) \<Rightarrow> True))) \<and>
    (\<forall>qs nm. ok \<and> target s ps path = Some (qs, nm) \<longrightarrow>
      (if vfs_abs s (qs @ [nm]) = None then vfs_abs s' = (vfs_abs s)(qs @ [nm] \<mapsto> Contents []) else s' = s))"
proof -
  obtain ok s' where "vfs_touch cwd path s = Some (ok, s') \<and> vfs_ext s s' \<and> (\<not> ok \<longrightarrow> s' = s) \<and>
    (ok \<longleftrightarrow> \<not> on_cdrom ps path \<and>
      (\<exists>qs nm. target s ps path = Some (qs, nm) \<and> vfs_abs s qs = Some Directory \<and>
        (case vfs_abs s (qs @ [nm]) of None \<Rightarrow> fst (kmalloc sizeof_vfs_node s) \<noteq> NULL
           | Some Directory \<Rightarrow> False | Some (Contents bs) \<Rightarrow> True))) \<and>
    (\<forall>qs nm. ok \<and> target s ps path = Some (qs, nm) \<longrightarrow>
      (if vfs_abs s (qs @ [nm]) = None then vfs_abs s' = (vfs_abs s)(qs @ [nm] \<mapsto> Contents []) else s' = s) \<and>
      (\<exists>a n. cwd_at s' a (qs @ [nm]) \<and> vfs_nodes s' a = Some n \<and> vn_type n = VFS_NODE_FILE))"
    using touch_spec [OF assms] by blast
  then show ?thesis
    by (intro exI [of _ ok] exI [of _ s']) (elim conjE, intro conjI; (assumption | rule vfs_extD(1), assumption | blast))
qed

theorem vfs_touch_correct_witness:
  "\<exists>s'. vfs_touch (vfs_root demo_vfs) (Some ''new'') demo_vfs = Some (True, s') \<and>
     vfs_abs s' = [[] \<mapsto> Directory, [''new''] \<mapsto> Contents []]"
proof -
  have "\<not> on_cdrom [] (Some ''new'') \<and> fst (kmalloc sizeof_vfs_node demo_vfs) \<noteq> NULL" by code_simp
  moreover have "target demo_vfs [] (Some ''new'') = Some ([], ''new'')" by (rule demo_target) code_simp
  ultimately show ?thesis
    using vfs_touch_correct [OF demo_vfs_inv(1,2), of "Some ''new''"] by (auto simp: demo_vfs_inv(3))
qed

text \<open>
  C7: files keep what is written to them.  \<^verbatim>\<open>vfs_write_file\<close> always returns; when it reports
  success for a path whose last component is an ordinary name, the tree is the old one with
  the given bytes as the contents of that file, every other file and directory is untouched,
  and reading the path delivers the bytes.  When it fails nothing changes but that the file
  may have been created empty.
\<close>

theorem vfs_write_then_read:
  assumes "vfs_inv s" and "cwd_at s cwd ps" and "path_ok path" and "plain_path path" and "source_ok s d sz"
    and "target s ps path = Some (qs, nm)"
  shows "\<exists>ok s'. vfs_write_file cwd path d sz s = Some (ok, s') \<and> vfs_inv s' \<and>
    (if ok then
       vfs_abs s' = (vfs_abs s)(qs @ [nm] \<mapsto> Contents (mem_read (mem s) d (unat sz))) \<and>
       (\<exists>p n. vfs_read_file fs cwd path s' = Some (Some (p, n), s') \<and> mem_read (mem s') p (unat n) = mem_read (mem s) d (unat sz))
     else vfs_abs s' = vfs_abs s \<or> vfs_abs s (qs @ [nm]) = None \<and> vfs_abs s' = (vfs_abs s)(qs @ [nm] \<mapsto> Contents []))"
proof -
  obtain ok s' where w0: "vfs_write_file cwd path d sz s = Some (ok, s') \<and> vfs_ext s s' \<and>
    (on_cdrom ps path \<or> target s ps path = None \<longrightarrow> \<not> ok \<and> s' = s) \<and>
    (\<forall>qs nm. target s ps path = Some (qs, nm) \<and> plain_path path \<and> source_ok s d sz \<longrightarrow>
      (if ok then vfs_abs s' = (vfs_abs s)(qs @ [nm] \<mapsto> Contents (mem_read (mem s) d (unat sz)))
       else vfs_abs s' = vfs_abs s \<or> vfs_abs s (qs @ [nm]) = None \<and> vfs_abs s' = (vfs_abs s)(qs @ [nm] \<mapsto> Contents [])))"
    using write_file_spec [OF assms(1-3), of d sz] by (elim exE) (rule that)
  have w: "vfs_write_file cwd path d sz s = Some (ok, s')" "vfs_ext s s'"
    "on_cdrom ps path \<or> target s ps path = None \<longrightarrow> \<not> ok \<and> s' = s"
    "if ok then vfs_abs s' = (vfs_abs s)(qs @ [nm] \<mapsto> Contents (mem_read (mem s) d (unat sz)))
       else vfs_abs s' = vfs_abs s \<or> vfs_abs s (qs @ [nm]) = None \<and> vfs_abs s' = (vfs_abs s)(qs @ [nm] \<mapsto> Contents [])"
    by (rule w0 [THEN conjunct1], rule w0 [THEN conjunct2, THEN conjunct1],
        rule w0 [THEN conjunct2, THEN conjunct2, THEN conjunct1],
        rule w0 [THEN conjunct2, THEN conjunct2, THEN conjunct2, rule_format]) (simp add: assms(4-6))
  show ?thesis
  proof (cases ok)
    case True
    then have a: "vfs_abs s' = (vfs_abs s)(qs @ [nm] \<mapsto> Contents (mem_read (mem s) d (unat sz)))" using w(4) by simp
    have "vfs_path s' ps path = Some (qs @ [nm])"
      using target_path [OF assms(6,3,4) w(2)] a by simp
    moreover have "\<not> on_cdrom ps path" using w(3) True by blast
    ultimately have "\<exists>p n. vfs_read_file fs cwd path s' = Some (Some (p, n), s') \<and> mem_read (mem s') p (unat n) = mem_read (mem s) d (unat sz)"
      using read_file_spec [OF vfs_extD(1) [OF w(2)] vfs_extD(3) [OF w(2) assms(2)], of path fs] a by auto
    then show ?thesis using w(1) vfs_extD(1) [OF w(2)] a True by auto
  next
    case False
    then show ?thesis using w vfs_extD(1) [OF w(2)] by auto
  qed
qed

theorem vfs_write_then_read_witness:
  "\<exists>s' p n. vfs_write_file (vfs_root demo_vfs) (Some ''/a'') 0x300000 3 demo_vfs = Some (True, s') \<and>
     vfs_read_file demo_fs0 (vfs_root demo_vfs) (Some ''/a'') s' = Some (Some (p, n), s') \<and>
     mem_read (mem s') p (unat n) = [0xAA, 0xAA, 0xAA]"
proof -
  have t: "target demo_vfs [] (Some ''/a'') = Some ([], ''a'')" by (rule demo_target) code_simp
  have pl: "plain_path (Some ''/a'')" by (simp add: plain_path_def VFS_NAME_MAX_def)
  have lim: "h_limit (heap demo_vfs) = 0x300000" by code_simp
  have "0x300000 \<le> x" if "in_block 0x300000 3 x" for x :: u32
    using that by (subst (asm) in_block_iff) (simp_all add: word_le_nat_alt)
  then have src: "source_ok demo_vfs 0x300000 3" by (simp add: source_ok_def lim)
  have ok: "map_option fst (vfs_write_file (vfs_root demo_vfs) (Some ''/a'') 0x300000 3 demo_vfs) = Some True" by code_simp
  have bytes: "mem_read (mem demo_vfs) 0x300000 3 = [0xAA, 0xAA, 0xAA]" by code_simp
  show ?thesis
    using vfs_write_then_read [OF demo_vfs_inv(1,2) _ pl src t, of demo_fs0] ok bytes by auto
qed



section \<open>Any sequence of operations\<close>

datatype vfs_call =
    MkDir "string option" | Touch "string option" | Write "string option" u32 u32
  | ChDir "string option" | ReadFile "string option" | Stat "string option" | UserMemory memory

text \<open>
  One call from a task whose current directory is the first component; \<open>UserMemory\<close> is the
  task writing to its own memory, which lies above the kernel heap.
\<close>

fun vfs_run1 :: "fs_state \<Rightarrow> vfs_call \<Rightarrow> u32 \<times> 'a vfs_state_scheme \<Rightarrow> (u32 \<times> 'a vfs_state_scheme) option" where
  "vfs_run1 fs (MkDir p) (cwd, s) = map_option (\<lambda>(ok, s). (cwd, s)) (vfs_make_dir cwd p s)"
| "vfs_run1 fs (Touch p) (cwd, s) = map_option (\<lambda>(ok, s). (cwd, s)) (vfs_touch cwd p s)"
| "vfs_run1 fs (Write p d sz) (cwd, s) = map_option (\<lambda>(ok, s). (cwd, s)) (vfs_write_file cwd p d sz s)"
| "vfs_run1 fs (ChDir p) (cwd, s) = map_option (\<lambda>(ok, cwd, s). (cwd, s)) (vfs_change_dir fs cwd p s)"
| "vfs_run1 fs (ReadFile p) (cwd, s) = map_option (\<lambda>(r, s). (cwd, s)) (vfs_read_file fs cwd p s)"
| "vfs_run1 fs (Stat p) (cwd, s) = map_option (\<lambda>(r, s). (cwd, s)) (vfs_stat fs cwd p s)"
| "vfs_run1 fs (UserMemory m) (cwd, s) = Some (cwd, s\<lparr>mem := \<lambda>x. if x < h_limit (heap s) then mem s x else m x\<rparr>)"

fun vfs_run :: "fs_state \<Rightarrow> vfs_call list \<Rightarrow> u32 \<times> 'a vfs_state_scheme \<Rightarrow> (u32 \<times> 'a vfs_state_scheme) option" where
  "vfs_run fs [] cs = Some cs"
| "vfs_run fs (c # calls) cs = Option.bind (vfs_run1 fs c cs) (vfs_run fs calls)"

fun call_ok :: "vfs_call \<Rightarrow> bool" where
  "call_ok (MkDir p) \<longleftrightarrow> path_ok p"
| "call_ok (Touch p) \<longleftrightarrow> path_ok p"
| "call_ok (Write p d sz) \<longleftrightarrow> path_ok p"
| "call_ok _ \<longleftrightarrow> True"

definition run_inv :: "u32 \<times> 'a vfs_state_scheme \<Rightarrow> bool" where
  "run_inv cs \<longleftrightarrow> vfs_inv (snd cs) \<and> (\<exists>ps. cwd_at (snd cs) (fst cs) ps \<and> vfs_abs (snd cs) ps = Some Directory)"

lemma cd_returns_read:
  assumes "cd_returns fs" shows "read_mounted fs sp s \<noteq> None"
proof -
  have ext: "iso_read_file_alloc env dev p s \<noteq> None" if "iso_resolve_path env dev p \<noteq> None" for env :: "fs_state" and dev p
    using that unfolding iso_read_file_alloc_def iso_resolve_path_def Let_def by (auto split: option.splits if_splits)
  have "fs_path_is_dir_from_mount fs (Some CDROM_MOUNT) (Some sp) \<noteq> None" using assms by (simp add: cd_returns_def)
  then show ?thesis
    using ext [of fs _ sp]
    by (auto simp: read_mounted_def fs_read_file_from_mount_def fs_path_is_dir_from_mount_def fs_ops_dispatch
        iso_ops_read_file_def iso_ops_path_is_dir_def or_root_def split: option.splits)
qed

lemma ext_run_inv:
  assumes "vfs_ext s s'" and "run_inv (cwd, s)" shows "run_inv (cwd, s')"
  using assms vfs_extD(1,3) [OF assms(1)] dirs_kept [OF assms(1)] by (auto simp: run_inv_def)

text \<open>What a task does to its own memory changes no file.\<close>

lemma user_memory_abs:
  fixes s :: "'a vfs_state_scheme" and m :: memory
  defines "s' \<equiv> s\<lparr>mem := \<lambda>x. if x < h_limit (heap s) then mem s x else m x\<rparr>"
  assumes inv: "vfs_inv s"
  shows "vfs_inv s'" and "vfs_abs s' = vfs_abs s" and "cwd_at s' a qs \<longleftrightarrow> cwd_at s a qs"
proof -
  let ?s = "s\<lparr>mem := \<lambda>x. if x < h_limit (heap s) then mem s x else m x\<rparr>"
  have hi: "h_current (heap s) \<le> h_limit (heap s)" using vfs_inv_heap [OF inv] by (simp add: heap_inv_def)
  have ent: "entry_of (mem ?s) n = entry_of (mem s) n" if "vfs_nodes s a = Some n" for a n
  proof -
    have top: "unat (vn_data n) + unat (vn_size n) \<le> unat (h_limit (heap s))"
      using inv that hi by (fastforce simp: vfs_inv_def word_le_nat_alt)
    have "mem_read (mem ?s) (vn_data n) (unat (vn_size n)) = mem_read (mem s) (vn_data n) (unat (vn_size n))"
    proof (rule mem_read_cong)
      fix x
      assume "in_block (vn_data n) (unat (vn_size n)) x"
      then have "unat x < unat (h_limit (heap s))"
        using top unat_u32_bound [of "h_limit (heap s)"] by (subst (asm) in_block_iff) auto
      then show "mem ?s x = mem s x" by (simp add: word_less_nat_alt)
    qed
    then show ?thesis by (cases "vn_type n") (simp_all add: entry_of_def)
  qed
  have "vfs_abs ?s qs = vfs_abs s qs" for qs
    using ent by (auto simp: vfs_abs_def intro!: bind_option_cong option.map_cong)
  then show "vfs_abs s' = vfs_abs s" by (simp add: s'_def fun_eq_iff)
  show "vfs_inv s'" using inv by (simp add: vfs_inv_def s'_def)
  show "cwd_at s' a qs \<longleftrightarrow> cwd_at s a qs" by (simp add: cwd_at_def s'_def)
qed

lemma stat_returns:
  assumes inv: "vfs_inv s" and cwd: "cwd_at s cwd ps" and cd: "cd_returns fs"
  shows "vfs_stat fs cwd path s \<noteq> None"
proof (cases "path = None \<or> deref (the path) = NUL")
  case False
  then obtain p where p: "path = Some p" "deref p \<noteq> NUL" by auto
  have dir: "\<exists>b. fs_path_is_dir_from_mount fs (Some CDROM_MOUNT) (Some sp) = Some b" for sp
    using cd by (auto simp: cd_returns_def)
  have read: "\<exists>r s'. read_mounted fs sp s = Some (r, s')" for sp
    using cd_returns_read [OF cd, of sp s] by auto
  obtain a where a: "vfs_resolve_from (vfs_nodes s) (vfs_root_node s) cwd path = Some a" "a = NULL \<or> vfs_nodes s a \<noteq> None"
  proof (cases "vfs_path s ps path")
    case None
    then show ?thesis using that resolve_spec(1) [OF inv cwd None] by blast
  next
    case (Some qs)
    then show ?thesis using that resolve_spec(2) [OF inv cwd Some] by blast
  qed
  show ?thesis
  proof (cases "case vfs_is_cdrom_mount_path (check_of ps path) of Some sp \<Rightarrow> Some sp | None \<Rightarrow> vfs_is_bin_alias_path (check_of ps path)")
    case None
    note sel = this [unfolded p(1)]
    show ?thesis
      using a p check_path_spec [OF inv cwd, of path] sel by (cases "a = NULL") (auto simp: vfs_stat_def)
  next
    case (Some sp)
    obtain b where "fs_path_is_dir_from_mount fs (Some CDROM_MOUNT) (Some sp) = Some b" using dir by blast
    moreover obtain r s' where "read_mounted fs sp s = Some (r, s')" using read by blast
    ultimately show ?thesis
      using Some [unfolded p(1)] p check_path_spec [OF inv cwd, of path] by (cases b) (simp_all add: vfs_stat_def)
  qed
qed (auto simp: vfs_stat_def split: option.split)

lemma vfs_run1_safe:
  assumes inv: "run_inv (cwd, s)" and cd: "cd_returns fs" and c: "call_ok c"
  shows "\<exists>cs. vfs_run1 fs c (cwd, s) = Some cs \<and> run_inv cs"
proof -
  obtain ps where i: "vfs_inv s" "cwd_at s cwd ps" "vfs_abs s ps = Some Directory" using inv by (auto simp: run_inv_def)
  show ?thesis
  proof (cases c)
    case (MkDir p)
    have "path_ok p" using c MkDir by simp
    then obtain ok s' where w: "vfs_make_dir cwd p s = Some (ok, s')" "vfs_ext s s'"
      using make_dir_ext [OF i(1,2)] by blast
    then show ?thesis using MkDir ext_run_inv [OF w(2) inv] by simp
  next
    case (Touch p)
    have "path_ok p" using c Touch by simp
    then obtain ok s' where w: "vfs_touch cwd p s = Some (ok, s')" "vfs_ext s s'"
      using touch_facts [OF i(1,2)] by metis
    then show ?thesis using Touch ext_run_inv [OF w(2) inv] by simp
  next
    case (ChDir p)
    obtain ok cwd' s' where g: "vfs_change_dir fs cwd p s = Some (ok, cwd', s')" "adds_dirs s s'" "\<not> ok \<longrightarrow> cwd' = cwd"
      "ok \<longrightarrow> (\<exists>qs. cwd_at s' cwd' qs \<and> vfs_abs s' qs = Some Directory)"
      using change_dir_spec [OF i(1,2) cd, of p] by (auto simp: good_cd_def)
    have "run_inv (cwd, s')" using ext_run_inv [OF adds_dirsD(1) [OF g(2)] inv] .
    then have "run_inv (cwd', s')" using g(3,4) adds_dirsD(2) [OF g(2)] by (cases ok) (auto simp: run_inv_def)
    then show ?thesis using ChDir g(1) by simp
  next
    case (ReadFile p)
    have "vfs_read_file fs cwd p s \<noteq> None"
    proof (cases "on_cdrom ps p")
      case True
      then show ?thesis using check_path_spec [OF i(1,2), of p] cd_returns_read [OF cd]
        by (auto simp: vfs_read_file_def on_cdrom_def split: option.splits)
    next
      case False
      then show ?thesis using read_file_spec [OF i(1,2) False, of fs] by auto
    qed
    then obtain r s' where r: "vfs_read_file fs cwd p s = Some (r, s')" by auto
    then show ?thesis using ReadFile read_file_quiet [OF i(1,2) r] ext_run_inv [OF _ inv] by (simp add: quiet_def)
  next
    case (Stat p)
    have "vfs_stat fs cwd p s \<noteq> None" using stat_returns [OF i(1,2) cd] .
    then obtain r s' where r: "vfs_stat fs cwd p s = Some (r, s')" by auto
    then show ?thesis using Stat stat_quiet [OF i(1,2) r] ext_run_inv [OF _ inv] by (simp add: quiet_def)
  next
    case (UserMemory m)
    then show ?thesis
      using user_memory_abs [OF i(1), of m] inv by (simp add: run_inv_def)
  next
    case (Write p d sz)
    have pok: "path_ok p" using c Write by simp
    obtain ok s' where w: "vfs_write_file cwd p d sz s = Some (ok, s')" "vfs_ext s s'"
      using write_file_spec [OF i(1,2) pok, of d sz] by (elim exE conjE) (rule that)
    then show ?thesis using Write ext_run_inv [OF w(2) inv] by simp
  qed
qed

lemma vfs_run_safe_from:
  "cd_returns fs \<Longrightarrow> list_all call_ok calls \<Longrightarrow> run_inv cs \<Longrightarrow> \<exists>cs'. vfs_run fs calls cs = Some cs' \<and> run_inv cs'"
proof (induction calls arbitrary: cs)
  case (Cons c calls)
  obtain cwd s where cs: "cs = (cwd, s)" by fastforce
  obtain cs1 where "vfs_run1 fs c (cwd, s) = Some cs1" "run_inv cs1"
    using vfs_run1_safe [of cwd s fs c] Cons.prems cs by auto
  then show ?case using Cons cs by simp
qed simp

text \<open>
  C6: no sequence of file operations breaks the tree.  Starting from the state that
  \<^verbatim>\<open>vfs_init\<close> leaves, any sequence of \<^verbatim>\<open>mkdir\<close>, \<^verbatim>\<open>touch\<close>, writes, \<^verbatim>\<open>cd\<close>, reads and \<^verbatim>\<open>stat\<close> calls,
  interleaved with arbitrary changes of user memory, returns at every step (no dangling node
  is dereferenced, no chain of siblings is circular), keeps the invariant of the tree, and
  leaves the task in a directory of the tree.  The CD-ROM enters with the assumption that
  looking up a path on it returns.
\<close>

theorem vfs_any_run_safe:
  assumes "vfs_fresh s" and "fst (kmalloc sizeof_vfs_node s) \<noteq> NULL" and "cd_returns fs" and "list_all call_ok calls"
  shows "\<exists>s0 cwd s'. vfs_init s = Some s0 \<and> vfs_run fs calls (vfs_root s0, s0) = Some (cwd, s') \<and> vfs_inv s' \<and>
    (\<exists>ps. cwd_at s' cwd ps \<and> vfs_abs s' ps = Some Directory)"
proof -
  obtain s0 where s0: "vfs_init s = Some s0" "vfs_inv s0" "cwd_at s0 (vfs_root s0) []"
    using vfs_init_spec [OF assms(1,2)] .
  have "vfs_root_node s0 \<noteq> NULL" using s0(3) by (simp add: cwd_at_def vfs_root_def)
  then have "vfs_abs s0 [] = Some Directory" by (rule root_directory(2) [OF s0(2)])
  then have "run_inv (vfs_root s0, s0)" using s0 by (auto simp: run_inv_def)
  then obtain cs' where "vfs_run fs calls (vfs_root s0, s0) = Some cs'" "run_inv cs'"
    using vfs_run_safe_from [OF assms(3,4)] by blast
  then show ?thesis using s0(1) by (cases cs') (auto simp: run_inv_def)
qed

theorem vfs_any_run_safe_witness:
  "\<exists>s0 cwd s'. vfs_init demo_vfs0 = Some s0 \<and>
     vfs_run demo_fs0 [MkDir (Some ''a/b''), ChDir (Some ''..''), Touch (Some ''.''), Write None 0 5] (vfs_root s0, s0) = Some (cwd, s') \<and>
     vfs_inv s'"
proof -
  have "list_all call_ok [MkDir (Some ''a/b''), ChDir (Some ''..''), Touch (Some ''.''), Write None 0 5]" by simp
  then show ?thesis using vfs_any_run_safe [OF demo_vfs0_fresh demo_fs0_cd] by blast
qed



section \<open>Corners\<close>

text \<open>
  A name without a slash is not compared with the dot names, so \<^verbatim>\<open>touch .\<close> makes an entry that
  no path reaches, and a write to \<^verbatim>\<open>.\<close> then stores its data in the directory node itself.
\<close>

lemma dot_is_created: "map_option fst (vfs_touch (vfs_root demo_vfs) (Some ''.'') demo_vfs) = Some True"
  by code_simp

lemma dot_write_hits_directory:
  "map_option (\<lambda>(ok, s). (ok, map_option (\<lambda>n. (vn_type n, vn_size n)) (vfs_nodes s (vfs_root s))))
     (vfs_write_file (vfs_root demo_vfs) (Some ''.'') 0x300000 3 demo_vfs) = Some (True, Some (VFS_NODE_DIR, 3))"
  by code_simp

text \<open>\<^verbatim>\<open>vfs_init\<close> asks for \<^verbatim>\<open>/bin\<close> and \<^verbatim>\<open>/mount/cdrom\<close>, which \<^verbatim>\<open>vfs_make_dir\<close> refuses.\<close>

lemma init_directories_refused:
  assumes "vfs_inv s" and "cwd_at s root []"
  shows "vfs_make_dir root (Some ''/bin'') s = Some (False, s)" "vfs_make_dir root (Some ''/mount/cdrom'') s = Some (False, s)"
proof -
  have "on_cdrom [] (Some ''/bin'')" "on_cdrom [] (Some ''/mount/cdrom'')" by code_simp+
  then show "vfs_make_dir root (Some ''/bin'') s = Some (False, s)" "vfs_make_dir root (Some ''/mount/cdrom'') s = Some (False, s)"
    using in_parent_spec(1) [OF assms disjI1] unfolding vfs_make_dir_def by blast+
qed

text \<open>The comparison is textual: a second slash evades it.\<close>

lemma double_slash_evades: "map_option fst (vfs_make_dir (vfs_root demo_vfs) (Some ''//bin'') demo_vfs) = Some True"
  by code_simp

text \<open>
  When the path fills the buffer up to a slash, the terminator is written one byte behind the
  128-byte buffer; and below 16 levels the outermost names are missing.
\<close>

lemma cwd_text_overruns:
  "length (cwd_text [replicate 31 CHR ''a'', replicate 31 CHR ''b'', replicate 31 CHR ''c'', replicate 30 CHR ''d'', ''e'']) = 128"
  by code_simp

lemma cwd_text_drops_outer: "cwd_text (''first'' # replicate 16 ''x'') = path_text (replicate 16 ''x'')"
  by code_simp

end
