(* ===== verification/Loops.thy ===== *)
theory Loops
  imports Prelude
begin

text \<open>
  The counting loop \<^verbatim>\<open>for (i = a; i < n; ++i) body\<close> whose body may be undefined (an access
  outside an array, \<open>None\<close>), and the rules its proofs use: an invariant indexed by the counter
  shows that the loop returns and what it leaves; a relation that every round keeps holds
  between the first and the last state.
\<close>

function for_loop :: "nat \<Rightarrow> nat \<Rightarrow> (nat \<Rightarrow> 's \<Rightarrow> 's option) \<Rightarrow> 's \<Rightarrow> 's option" where
  "for_loop i n body s =
     (if i < n then do { s \<leftarrow> body i s; for_loop (Suc i) n body s } else Some s)"
  by pat_completeness auto
termination by (relation "measure (\<lambda>(i, n, body, s). n - i)") auto

declare for_loop.simps [simp del]

lemma for_loop_done [simp]: "n \<le> i \<Longrightarrow> for_loop i n body s = Some s"
  by (subst for_loop.simps) simp

lemma for_loop_step: "i < n \<Longrightarrow> for_loop i n body s = body i s \<bind> for_loop (Suc i) n body"
  by (subst for_loop.simps) simp

lemma for_loop_inv:
  assumes "I a s" and "a \<le> n"
    and body: "\<And>i s. a \<le> i \<Longrightarrow> i < n \<Longrightarrow> I i s \<Longrightarrow> \<exists>s'. body i s = Some s' \<and> I (Suc i) s'"
  shows "\<exists>s'. for_loop a n body s = Some s' \<and> I n s'"
  using assms
proof (induction a n body s rule: for_loop.induct)
  case (1 i n body s)
  show ?case
  proof (cases "i < n")
    case True
    obtain s1 where s1: "body i s = Some s1" "I (Suc i) s1"
      using "1.prems"(3) [of i s] True "1.prems"(1) by auto
    have "\<exists>s'. for_loop (Suc i) n body s1 = Some s' \<and> I n s'"
      by (rule "1.IH" [OF True s1(1) s1(2)]) (use True "1.prems"(3) in auto)
    then show ?thesis using True s1(1) by (simp add: for_loop_step)
  next
    case False
    then have "i = n" using "1.prems"(2) by simp
    then show ?thesis using "1.prems"(1) by simp
  qed
qed

text \<open>The invariant that does not mention the counter.\<close>

lemma for_loop_keeps:
  assumes "I s" and "\<And>i s. a \<le> i \<Longrightarrow> i < n \<Longrightarrow> I s \<Longrightarrow> \<exists>s'. body i s = Some s' \<and> I s'"
  shows "\<exists>s'. for_loop a n body s = Some s' \<and> I s'"
proof (cases "a \<le> n")
  case True
  show ?thesis by (rule for_loop_inv [where I = "\<lambda>_. I"]) (use assms True in auto)
qed (use assms(1) in auto)

end
