(* ===== verification/Console.thy ===== *)
theory Console
  imports Loops Util Ktypes
begin

text \<open>
  \<^verbatim>\<open>kernel/console.c\<close> and the output half of \<^verbatim>\<open>kernel/arch/i386/serial.c\<close>: the text screen with its
  cursor and scrolling, shown either in the VGA text memory or drawn into a framebuffer, and
  the printing of strings and numbers on it.  \<open>console_state\<close> holds the static variables; the
  three text arrays and the VGA memory are lists, and an access outside them is \<open>None\<close>.  The
  devices are part of the state: \<open>vga\<close> the text memory, \<open>fb_mem\<close> the bytes of the
  framebuffer, \<open>crtc\<close> the registers of the cursor, \<open>serial_sent\<close> what went out of the serial
  port.
\<close>

section \<open>Data\<close>

definition VGA_COLS :: u16 where "VGA_COLS = 80"
definition VGA_ROWS :: u16 where "VGA_ROWS = 25"
definition FONT_W :: u32 where "FONT_W = 8"
definition CELL_H :: u32 where "CELL_H = 16"
definition MAX_CONSOLE_COLS :: u16 where "MAX_CONSOLE_COLS = 120"
definition MAX_CONSOLE_ROWS :: u16 where "MAX_CONSOLE_ROWS = 60"

text \<open>The lengths of the text arrays and of the VGA memory.\<close>

definition TEXT_CELLS :: nat where "TEXT_CELLS = 7200"
definition VGA_CELLS :: nat where "VGA_CELLS = 2000"

datatype display_backend = DISPLAY_VGA_TEXT | DISPLAY_FRAMEBUFFER

record framebuffer_info =
  fb_base :: u32
  fb_pitch :: u32
  fb_width :: u32
  fb_height :: u32
  fb_bpp :: u8
  fb_type :: u8
  fb_red_pos :: u8
  fb_red_mask :: u8
  fb_green_pos :: u8
  fb_green_mask :: u8
  fb_blue_pos :: u8
  fb_blue_mask :: u8

text \<open>The part of the boot information about the video mode.\<close>

record multiboot_video = multiboot_info +
  mb_fb_addr :: "64 word"
  mb_fb_pitch :: u32
  mb_fb_width :: u32
  mb_fb_height :: u32
  mb_fb_bpp :: u8
  mb_fb_type :: u8
  mb_fb_color_info :: "u8 list"

record console_state =
  backend :: display_backend
  fb :: framebuffer_info
  cursor_row :: u16
  cursor_col :: u16
  text_rows :: u16
  text_cols :: u16
  text_chars :: string
  text_fg :: "u8 list"
  text_bg :: "u8 list"
  current_fg :: u8
  current_bg :: u8
  vga :: "u16 list"
  fb_mem :: memory
  crtc :: "u8 \<Rightarrow> u8"
  serial_ready :: bool
  serial_waits :: "nat list"
  serial_sent :: string

definition palette :: "u32 list" where
  "palette =
     [0x000000, 0x0000AA, 0x00AA00, 0x00AAAA, 0xAA0000, 0xAA00AA, 0xAA5500, 0xAAAAAA,
      0x555555, 0x5555FF, 0x55FF55, 0x55FFFF, 0xFF5555, 0xFF55FF, 0xFFFF55, 0xFFFFFF]"

section \<open>Glyphs\<close>

type_synonym glyph = "u8 list"

definition glyph_unknown :: glyph where "glyph_unknown = [14, 17, 1, 2, 4, 0, 4]"

text \<open>The named glyphs, by the character the \<^verbatim>\<open>switch\<close> returns them for.\<close>

definition glyph_signs :: "(char \<times> glyph) list" where
  "glyph_signs =
     [(CHR '' '', [0, 0, 0, 0, 0, 0, 0]), (CHR ''-'', [0, 0, 0, 31, 0, 0, 0]),
      (CHR ''.'', [0, 0, 0, 0, 0, 12, 12]), (CHR ''/'', [1, 2, 4, 8, 16, 0, 0]),
      (CHR '':'', [0, 12, 12, 0, 12, 12, 0]), (CHR '';'', [0, 12, 12, 0, 12, 12, 8]),
      (CHR 0x27, [12, 12, 8, 0, 0, 0, 0]), (CHR 0x22, [10, 10, 0, 0, 0, 0, 0]),
      (CHR ''('', [2, 4, 8, 8, 8, 4, 2]), (CHR '')'', [8, 4, 2, 2, 2, 4, 8]),
      (CHR ''['', [14, 8, 8, 8, 8, 8, 14]), (CHR '']'', [14, 2, 2, 2, 2, 2, 14]),
      (CHR ''>'', [16, 8, 4, 2, 4, 8, 16]), (CHR ''<'', [1, 2, 4, 8, 4, 2, 1]),
      (CHR ''='', [0, 0, 31, 0, 31, 0, 0]), (CHR ''+'', [0, 4, 4, 31, 4, 4, 0]),
      (CHR ''_'', [0, 0, 0, 0, 0, 0, 31])]"

definition glyph_digits :: "glyph list" where
  "glyph_digits =
     [[14, 17, 19, 21, 25, 17, 14], [4, 12, 4, 4, 4, 4, 14], [14, 17, 1, 2, 4, 8, 31],
      [30, 1, 1, 14, 1, 1, 30], [2, 6, 10, 18, 31, 2, 2], [31, 16, 16, 30, 1, 1, 30],
      [6, 8, 16, 30, 17, 17, 14], [31, 1, 2, 4, 8, 8, 8], [14, 17, 17, 14, 17, 17, 14],
      [14, 17, 17, 15, 1, 2, 28]]"

definition glyph_upper :: "glyph list" where
  "glyph_upper =
     [[14, 17, 17, 31, 17, 17, 17], [30, 17, 17, 30, 17, 17, 30], [14, 17, 16, 16, 16, 17, 14],
      [30, 17, 17, 17, 17, 17, 30], [31, 16, 16, 30, 16, 16, 31], [31, 16, 16, 30, 16, 16, 16],
      [14, 17, 16, 16, 19, 17, 15], [17, 17, 17, 31, 17, 17, 17], [14, 4, 4, 4, 4, 4, 14],
      [1, 1, 1, 1, 17, 17, 14], [17, 18, 20, 24, 20, 18, 17], [16, 16, 16, 16, 16, 16, 31],
      [17, 27, 21, 21, 17, 17, 17], [17, 17, 25, 21, 19, 17, 17], [14, 17, 17, 17, 17, 17, 14],
      [30, 17, 17, 30, 16, 16, 16], [14, 17, 17, 17, 21, 18, 13], [30, 17, 17, 30, 20, 18, 17],
      [15, 16, 16, 14, 1, 1, 30], [31, 4, 4, 4, 4, 4, 4], [17, 17, 17, 17, 17, 17, 14],
      [17, 17, 17, 17, 17, 10, 4], [17, 17, 17, 21, 21, 21, 10], [17, 17, 10, 4, 10, 17, 17],
      [17, 17, 10, 4, 4, 4, 4], [31, 1, 2, 4, 8, 16, 31]]"

definition glyph_for_char :: "char \<Rightarrow> glyph" where
  "glyph_for_char c =
     (if char_between CHR ''0'' CHR ''9'' c then glyph_digits ! (of_char c - of_char CHR ''0'')
      else if char_between CHR ''A'' CHR ''Z'' c then glyph_upper ! (of_char c - of_char CHR ''A'')
      else if char_between CHR ''a'' CHR ''z'' c then glyph_upper ! (of_char c - of_char CHR ''a'')
      else case map_of glyph_signs c of Some g \<Rightarrow> g | None \<Rightarrow> glyph_unknown)"

section \<open>Drawing into the framebuffer\<close>

definition rgb_scale :: "u8 \<Rightarrow> u8 \<Rightarrow> u8" where
  "rgb_scale v bits = (if bits \<ge> 8 then v else drop_bit (unat (8 - bits)) v)"

definition fb_pack_color :: "framebuffer_info \<Rightarrow> u8 \<Rightarrow> u32" where
  "fb_pack_color f color =
     (let rgb = palette ! unat (color AND 0x0F);
          r = ucast (drop_bit 16 rgb AND 0xFF);
          g = ucast (drop_bit 8 rgb AND 0xFF);
          b = ucast (rgb AND 0xFF)
      in push_bit (unat (fb_red_pos f)) (ucast (rgb_scale r (fb_red_mask f))) OR
         push_bit (unat (fb_green_pos f)) (ucast (rgb_scale g (fb_green_mask f))) OR
         push_bit (unat (fb_blue_pos f)) (ucast (rgb_scale b (fb_blue_mask f))))"

text \<open>The bytes that are stored for a pixel: none for a colour depth other than 32 and 24.\<close>

definition pixel_bytes :: "framebuffer_info \<Rightarrow> u32 \<Rightarrow> u8 list" where
  "pixel_bytes f packed =
     (if fb_bpp f = 32
      then [ucast (packed AND 0xFF), ucast (drop_bit 8 packed AND 0xFF), ucast (drop_bit 16 packed AND 0xFF),
            ucast (drop_bit 24 packed AND 0xFF)]
      else if fb_bpp f = 24
      then [ucast (packed AND 0xFF), ucast (drop_bit 8 packed AND 0xFF), ucast (drop_bit 16 packed AND 0xFF)]
      else [])"

definition bytes_pp :: "framebuffer_info \<Rightarrow> u32" where
  "bytes_pp f = ucast (fb_bpp f) div 8"

definition put_pixel :: "framebuffer_info \<Rightarrow> u32 \<Rightarrow> u32 \<Rightarrow> u8 \<Rightarrow> memory \<Rightarrow> memory" where
  "put_pixel f x y color m =
     (if x \<ge> fb_width f \<or> y \<ge> fb_height f then m
      else mem_write (fb_base f + y * fb_pitch f + x * bytes_pp f) (pixel_bytes f (fb_pack_color f color)) m)"

text \<open>
  The two loops of \<^verbatim>\<open>fb_fill_rect\<close>, which end at the first pixel outside; the number of rounds
  left comes before the counter.
\<close>

fun fill_cols :: "framebuffer_info \<Rightarrow> u32 \<Rightarrow> u32 \<Rightarrow> u32 \<Rightarrow> nat \<Rightarrow> u32 \<Rightarrow> memory \<Rightarrow> memory" where
  "fill_cols f packed row_ptr x 0 col m = m"
| "fill_cols f packed row_ptr x (Suc k) col m =
     (if x + col \<ge> fb_width f then m
      else fill_cols f packed row_ptr x k (col + 1) (mem_write (row_ptr + col * bytes_pp f) (pixel_bytes f packed) m))"

fun fill_rows :: "framebuffer_info \<Rightarrow> u32 \<Rightarrow> u32 \<Rightarrow> u32 \<Rightarrow> u32 \<Rightarrow> nat \<Rightarrow> u32 \<Rightarrow> memory \<Rightarrow> memory" where
  "fill_rows f packed x y w 0 row m = m"
| "fill_rows f packed x y w (Suc k) row m =
     (let py = y + row in
      if py \<ge> fb_height f then m
      else fill_rows f packed x y w k (row + 1)
             (fill_cols f packed (fb_base f + py * fb_pitch f + x * bytes_pp f) x (unat w) 0 m))"

definition fb_fill_rect :: "framebuffer_info \<Rightarrow> u32 \<Rightarrow> u32 \<Rightarrow> u32 \<Rightarrow> u32 \<Rightarrow> u8 \<Rightarrow> memory \<Rightarrow> memory" where
  "fb_fill_rect f x y w h color m = fill_rows f (fb_pack_color f color) x y w (unat h) 0 m"

section \<open>The text screen\<close>

definition text_index :: "console_state \<Rightarrow> u16 \<Rightarrow> u16 \<Rightarrow> nat" where
  "text_index c row col = unat (ucast row * ucast (text_cols c) + ucast col :: u32)"

text \<open>The index \<^verbatim>\<open>row * VGA_COLS + col\<close>, computed as an \<^verbatim>\<open>int\<close>.\<close>

definition vga_index :: "u16 \<Rightarrow> u16 \<Rightarrow> nat" where
  "vga_index row col = unat row * unat VGA_COLS + unat col"

definition get_text :: "nat \<Rightarrow> console_state \<Rightarrow> (char \<times> u8 \<times> u8) option" where
  "get_text i c = (if i < TEXT_CELLS then Some (text_chars c ! i, text_fg c ! i, text_bg c ! i) else None)"

definition set_text :: "nat \<Rightarrow> char \<times> u8 \<times> u8 \<Rightarrow> console_state \<Rightarrow> console_state option" where
  "set_text i cell c =
     (if i < TEXT_CELLS
      then Some (c\<lparr>text_chars := (text_chars c)[i := fst cell], text_fg := (text_fg c)[i := fst (snd cell)],
                   text_bg := (text_bg c)[i := snd (snd cell)]\<rparr>)
      else None)"

definition set_vga :: "nat \<Rightarrow> u16 \<Rightarrow> console_state \<Rightarrow> console_state option" where
  "set_vga i v c = (if i < VGA_CELLS then Some (c\<lparr>vga := (vga c)[i := v]\<rparr>) else None)"

definition blank :: "console_state \<Rightarrow> char \<times> u8 \<times> u8" where
  "blank c = (CHR '' '', current_fg c, current_bg c)"

definition term_enable_hw_cursor :: "u8 \<Rightarrow> u8 \<Rightarrow> console_state \<Rightarrow> console_state" where
  "term_enable_hw_cursor first final c =
     c\<lparr>crtc := (crtc c)(0x0A := (crtc c 0x0A AND 0xC0) OR first, 0x0B := (crtc c 0x0B AND 0xE0) OR final)\<rparr>"

definition term_update_hw_cursor :: "console_state \<Rightarrow> console_state" where
  "term_update_hw_cursor c =
     (let pos = cursor_row c * VGA_COLS + cursor_col c
      in c\<lparr>crtc := (crtc c)(0x0F := ucast (pos AND 0xFF), 0x0E := ucast (drop_bit 8 pos AND 0xFF))\<rparr>)"

text \<open>The pixels of a glyph, row by row.\<close>

definition draw_glyph :: "framebuffer_info \<Rightarrow> glyph \<Rightarrow> u32 \<Rightarrow> u32 \<Rightarrow> u8 \<Rightarrow> memory \<Rightarrow> memory" where
  "draw_glyph f glyph x y color m =
     fold (\<lambda>(i, j) m. if (glyph ! i) AND push_bit (4 - j) 1 \<noteq> 0
             then put_pixel f (x + 1 + of_nat j) (y + 4 + of_nat i) color m else m)
       (List.product [0..<7] [0..<5]) m"

definition fb_draw_cell :: "u16 \<Rightarrow> u16 \<Rightarrow> bool \<Rightarrow> console_state \<Rightarrow> console_state option" where
  "fb_draw_cell row col cursor_visible c =
     (let x = ucast col * FONT_W; y = ucast row * CELL_H; f = fb c in
      do { (ch, fg, bg) \<leftarrow> get_text (text_index c row col) c;
           let m = draw_glyph f (glyph_for_char ch) x y fg (fb_fill_rect f x y FONT_W CELL_H bg (fb_mem c)) in
           Some (c\<lparr>fb_mem := if cursor_visible then fb_fill_rect f x (y + CELL_H - 2) FONT_W 2 fg m else m\<rparr>) })"

definition fb_redraw_all :: "console_state \<Rightarrow> console_state option" where
  "fb_redraw_all c =
     for_loop 0 (unat (text_rows c)) (\<lambda>row.
       for_loop 0 (unat (text_cols c)) (\<lambda>col c.
         fb_draw_cell (of_nat row) (of_nat col) (of_nat row = cursor_row c \<and> of_nat col = cursor_col c) c)) c"

text \<open>Drawing the cell under the cursor, with or without the cursor, when it is on the screen.\<close>

definition draw_cursor :: "bool \<Rightarrow> console_state \<Rightarrow> console_state option" where
  "draw_cursor visible c =
     (if cursor_row c < text_rows c \<and> cursor_col c < text_cols c
      then fb_draw_cell (cursor_row c) (cursor_col c) visible c else Some c)"

definition fb_set_cursor :: "u16 \<Rightarrow> u16 \<Rightarrow> console_state \<Rightarrow> console_state option" where
  "fb_set_cursor new_row new_col c =
     do { c \<leftarrow> draw_cursor False c;
          draw_cursor True (c\<lparr>cursor_row := new_row, cursor_col := new_col\<rparr>) }"

definition to_vga_attr :: "u8 \<Rightarrow> u8 \<Rightarrow> u8" where
  "to_vga_attr fg bg = push_bit 4 (bg AND 0x0F) OR (fg AND 0x0F)"

definition vga_cell :: "char \<times> u8 \<times> u8 \<Rightarrow> u16" where
  "vga_cell cell = push_bit 8 (ucast (to_vga_attr (fst (snd cell)) (snd (snd cell)))) OR ucast (byte_of (fst cell))"

definition term_init :: "console_state \<Rightarrow> console_state" where
  "term_init c =
     term_update_hw_cursor (term_enable_hw_cursor 14 15
       (c\<lparr>backend := DISPLAY_VGA_TEXT, text_cols := VGA_COLS, text_rows := VGA_ROWS,
          cursor_row := 0, cursor_col := 0, current_fg := 7, current_bg := 0\<rparr>))"

definition term_init_with_multiboot :: "multiboot_video option \<Rightarrow> u32 \<Rightarrow> console_state \<Rightarrow> console_state" where
  "term_init_with_multiboot mbi magic c =
     (let c = term_init c in
      case mbi of
        None \<Rightarrow> c
      | Some i \<Rightarrow>
          if magic \<noteq> MULTIBOOT_MAGIC \<or> mb_flags i AND push_bit 12 1 = 0 then c
          else if mb_fb_type i \<noteq> 1 then c
          else if mb_fb_bpp i \<noteq> 24 \<and> mb_fb_bpp i \<noteq> 32 then c
          else
            let f = \<lparr>fb_base = ucast (mb_fb_addr i), fb_pitch = mb_fb_pitch i, fb_width = mb_fb_width i,
                  fb_height = mb_fb_height i, fb_bpp = mb_fb_bpp i, fb_type = mb_fb_type i,
                  fb_red_pos = mb_fb_color_info i ! 0, fb_red_mask = mb_fb_color_info i ! 1,
                  fb_green_pos = mb_fb_color_info i ! 2, fb_green_mask = mb_fb_color_info i ! 3,
                  fb_blue_pos = mb_fb_color_info i ! 4, fb_blue_mask = mb_fb_color_info i ! 5\<rparr>;
                c = c\<lparr>fb := f\<rparr>
            in if fb_width f < FONT_W \<or> fb_height f < CELL_H then c
               else
                 let cols = ucast (fb_width f div FONT_W); rows = ucast (fb_height f div CELL_H)
                 in c\<lparr>text_cols := (if cols > MAX_CONSOLE_COLS then MAX_CONSOLE_COLS else cols),
                      text_rows := (if rows > MAX_CONSOLE_ROWS then MAX_CONSOLE_ROWS else rows),
                      backend := DISPLAY_FRAMEBUFFER, cursor_row := 0, cursor_col := 0\<rparr>)"

definition term_set_color :: "u8 \<Rightarrow> u8 \<Rightarrow> console_state \<Rightarrow> console_state" where
  "term_set_color fg bg c = c\<lparr>current_fg := fg AND 0x0F, current_bg := bg AND 0x0F\<rparr>"

definition term_get_color :: "console_state \<Rightarrow> u8 \<times> u8" where
  "term_get_color c = (current_fg c, current_bg c)"

definition console_has_framebuffer :: "console_state \<Rightarrow> bool" where
  "console_has_framebuffer c \<longleftrightarrow> backend c = DISPLAY_FRAMEBUFFER"

definition console_width :: "console_state \<Rightarrow> u32" where
  "console_width c = (if backend c = DISPLAY_FRAMEBUFFER then fb_width (fb c) else ucast VGA_COLS)"

definition console_height :: "console_state \<Rightarrow> u32" where
  "console_height c = (if backend c = DISPLAY_FRAMEBUFFER then fb_height (fb c) else ucast VGA_ROWS)"

definition term_clear :: "console_state \<Rightarrow> console_state option" where
  "term_clear c =
     do { c \<leftarrow> for_loop 0 (unat (ucast (text_cols c) * ucast (text_rows c) :: u32)) (\<lambda>i c. set_text i (blank c) c) c;
          c \<leftarrow> (if backend c = DISPLAY_FRAMEBUFFER
                then Some (c\<lparr>fb_mem := fb_fill_rect (fb c) 0 0 (fb_width (fb c)) (fb_height (fb c)) (current_bg c) (fb_mem c)\<rparr>)
                else for_loop 0 (unat VGA_COLS * unat VGA_ROWS) (\<lambda>i c. set_vga i (vga_cell (blank c)) c) c);
          c \<leftarrow> Some (c\<lparr>cursor_row := 0, cursor_col := 0\<rparr>);
          (if backend c = DISPLAY_FRAMEBUFFER then fb_redraw_all c else Some (term_update_hw_cursor c)) }"

text \<open>The parts of \<^verbatim>\<open>term_scroll_if_needed\<close>: moving a cell up, blanking the last row, showing the result.\<close>

definition scroll_cell :: "u16 \<Rightarrow> u16 \<Rightarrow> console_state \<Rightarrow> console_state option" where
  "scroll_cell row col c =
     do { cell \<leftarrow> get_text (text_index c row col) c;
          set_text (text_index c (row - 1) col) cell c }"

definition show_cell :: "u16 \<Rightarrow> u16 \<Rightarrow> console_state \<Rightarrow> console_state option" where
  "show_cell row col c =
     do { cell \<leftarrow> get_text (text_index c row col) c;
          set_vga (vga_index row col) (vga_cell cell) c }"

definition term_scroll_if_needed :: "console_state \<Rightarrow> console_state option" where
  "term_scroll_if_needed c =
     (if cursor_row c < text_rows c then Some c
      else
        do { c \<leftarrow> for_loop 1 (unat (text_rows c)) (\<lambda>row.
               for_loop 0 (unat (text_cols c)) (\<lambda>col. scroll_cell (of_nat row) (of_nat col))) c;
             c \<leftarrow> for_loop 0 (unat (text_cols c)) (\<lambda>col c.
               set_text (text_index c (text_rows c - 1) (of_nat col)) (blank c) c) c;
             c \<leftarrow> Some (c\<lparr>cursor_row := text_rows c - 1\<rparr>);
             (if backend c = DISPLAY_FRAMEBUFFER then fb_redraw_all c
              else for_loop 0 (unat (text_rows c)) (\<lambda>row.
                for_loop 0 (unat (text_cols c)) (\<lambda>col. show_cell (of_nat row) (of_nat col))) c) })"

text \<open>What each branch of \<^verbatim>\<open>write_local_char\<close> ends with.\<close>

definition refresh_cursor :: "console_state \<Rightarrow> console_state option" where
  "refresh_cursor c =
     (if backend c = DISPLAY_FRAMEBUFFER then draw_cursor True c else Some (term_update_hw_cursor c))"

definition hide_cursor :: "console_state \<Rightarrow> console_state option" where
  "hide_cursor c = (if backend c = DISPLAY_FRAMEBUFFER then draw_cursor False c else Some c)"

definition write_newline :: "console_state \<Rightarrow> console_state option" where
  "write_newline c =
     do { c \<leftarrow> hide_cursor c;
          c \<leftarrow> term_scroll_if_needed (c\<lparr>cursor_col := 0, cursor_row := cursor_row c + 1\<rparr>);
          refresh_cursor c }"

definition write_return :: "console_state \<Rightarrow> console_state option" where
  "write_return c = do { c \<leftarrow> hide_cursor c; refresh_cursor (c\<lparr>cursor_col := 0\<rparr>) }"

definition write_backspace :: "console_state \<Rightarrow> console_state option" where
  "write_backspace c =
     (if cursor_col c > 0 then
        do { c \<leftarrow> Some (c\<lparr>cursor_col := cursor_col c - 1\<rparr>);
             c \<leftarrow> set_text (text_index c (cursor_row c) (cursor_col c)) (blank c) c;
             (if backend c = DISPLAY_FRAMEBUFFER then fb_draw_cell (cursor_row c) (cursor_col c) True c
              else map_option term_update_hw_cursor
                (set_vga (vga_index (cursor_row c) (cursor_col c)) (vga_cell (blank c)) c)) }
      else Some c)"

definition write_glyph :: "char \<Rightarrow> console_state \<Rightarrow> console_state option" where
  "write_glyph ch c =
     (let cell = (ch, current_fg c, current_bg c) in
      do { c \<leftarrow> set_text (text_index c (cursor_row c) (cursor_col c)) cell c;
           c \<leftarrow> (if backend c = DISPLAY_FRAMEBUFFER then fb_draw_cell (cursor_row c) (cursor_col c) False c
                 else set_vga (vga_index (cursor_row c) (cursor_col c)) (vga_cell cell) c);
           c \<leftarrow> Some (c\<lparr>cursor_col := cursor_col c + 1\<rparr>);
           c \<leftarrow> (if cursor_col c \<ge> text_cols c
                 then term_scroll_if_needed (c\<lparr>cursor_col := 0, cursor_row := cursor_row c + 1\<rparr>)
                 else Some c);
           (if backend c = DISPLAY_FRAMEBUFFER then fb_set_cursor (cursor_row c) (cursor_col c) c
            else Some (term_update_hw_cursor c)) })"

definition write_local_char :: "char \<Rightarrow> console_state \<Rightarrow> console_state option" where
  "write_local_char ch c =
     (if ch = CHR 0x0A then write_newline c
      else if ch = CHR 0x0D then write_return c
      else if ch = CHR 0x08 then write_backspace c
      else write_glyph ch c)"

section \<open>The serial port\<close>

definition SERIAL_TX_SPIN_MAX :: nat where "SERIAL_TX_SPIN_MAX = 100000"

text \<open>
  How often the transmitter is found busy before each byte comes from the device
  (\<open>serial_waits\<close>, not busy when the list has ended); a byte that would wait too long is
  dropped.
\<close>

definition serial_send :: "char \<Rightarrow> console_state \<Rightarrow> console_state" where
  "serial_send ch c =
     (let w = (case serial_waits c of [] \<Rightarrow> 0 | w # _ \<Rightarrow> w); c = c\<lparr>serial_waits := tl (serial_waits c)\<rparr>
      in if w \<ge> SERIAL_TX_SPIN_MAX then c else c\<lparr>serial_sent := serial_sent c @ [ch]\<rparr>)"

definition serial_init :: "console_state \<Rightarrow> console_state" where
  "serial_init c = c\<lparr>serial_ready := True\<rparr>"

definition serial_is_ready :: "console_state \<Rightarrow> bool" where
  "serial_is_ready c \<longleftrightarrow> serial_ready c"

definition serial_putchar :: "char \<Rightarrow> console_state \<Rightarrow> console_state" where
  "serial_putchar ch c =
     (if \<not> serial_ready c then c
      else serial_send ch (if ch = CHR 0x0A then serial_send CHR 0x0D c else c))"

fun serial_print :: "string \<Rightarrow> console_state \<Rightarrow> console_state" where
  "serial_print [] c = c"
| "serial_print (ch # s) c = (if ch = NUL then c else serial_print s (serial_putchar ch c))"

section \<open>Printing\<close>

definition console_putchar :: "console_target \<Rightarrow> char \<Rightarrow> console_state \<Rightarrow> console_state option" where
  "console_putchar target ch c =
     do { c \<leftarrow> (if target \<noteq> CONSOLE_SERIAL then write_local_char ch c else Some c);
          Some (if target \<noteq> CONSOLE_VGA \<and> serial_is_ready c then serial_putchar ch c else c) }"

definition term_putchar :: "char \<Rightarrow> console_state \<Rightarrow> console_state option" where
  "term_putchar = console_putchar CONSOLE_BOTH"

fun console_print :: "console_target \<Rightarrow> string \<Rightarrow> console_state \<Rightarrow> console_state option" where
  "console_print target [] c = Some c"
| "console_print target (ch # s) c =
     (if ch = NUL then Some c else do { c \<leftarrow> console_putchar target ch c; console_print target s c })"

definition term_print :: "string \<Rightarrow> console_state \<Rightarrow> console_state option" where
  "term_print = console_print CONSOLE_BOTH"

text \<open>The digits that \<^verbatim>\<open>console_print_u32_dec\<close> puts into its buffer, at most ten of them.\<close>

fun dec_loop :: "nat \<Rightarrow> u32 \<Rightarrow> string" where
  "dec_loop 0 v = []"
| "dec_loop (Suc k) v = (if v > 0 then char_of (48 + unat (v mod 10)) # dec_loop k (v div 10) else [])"

definition u32_dec_text :: "u32 \<Rightarrow> string" where
  "u32_dec_text v = (if v = 0 then ''0'' else rev (dec_loop 10 v))"

definition console_print_u32_dec :: "console_target \<Rightarrow> u32 \<Rightarrow> console_state \<Rightarrow> console_state option" where
  "console_print_u32_dec target v = console_print target (u32_dec_text v)"

definition term_print_u32_dec :: "u32 \<Rightarrow> console_state \<Rightarrow> console_state option" where
  "term_print_u32_dec = console_print_u32_dec CONSOLE_BOTH"

definition hex_nibble :: "u8 \<Rightarrow> char" where
  "hex_nibble v = (let v = v AND 0x0F in
     if v < 10 then char_of (48 + unat v) else char_of (65 + (unat v - 10)))"

definition u32_hex_text :: "u32 \<Rightarrow> string" where
  "u32_hex_text v = ''0x'' @ map (\<lambda>shift. hex_nibble (ucast (drop_bit shift v AND 0x0F))) [28, 24, 20, 16, 12, 8, 4, 0]"

definition console_print_hex_u32 :: "console_target \<Rightarrow> u32 \<Rightarrow> console_state \<Rightarrow> console_state option" where
  "console_print_hex_u32 target v = console_print target (u32_hex_text v)"

definition term_print_hex_u32 :: "u32 \<Rightarrow> console_state \<Rightarrow> console_state option" where
  "term_print_hex_u32 = console_print_hex_u32 CONSOLE_BOTH"

text \<open>
  The arguments of a format string; an argument that is missing or of another type is
  undefined behaviour.
\<close>

datatype va_arg = Va_char char | Va_str "string option" | Va_u32 u32

fun console_vprintf :: "console_target \<Rightarrow> string \<Rightarrow> va_arg list \<Rightarrow> console_state \<Rightarrow> console_state option" where
  "console_vprintf target [] args c = Some c"
| "console_vprintf target [ch] args c =
     (if ch = NUL \<or> ch = CHR ''%'' then Some c else console_putchar target ch c)"
| "console_vprintf target (ch # d # fmt) args c =
     (if ch = NUL then Some c
      else if ch \<noteq> CHR ''%'' then do { c \<leftarrow> console_putchar target ch c; console_vprintf target (d # fmt) args c }
      else if d = NUL then Some c
      else if d = CHR ''%'' then do { c \<leftarrow> console_putchar target CHR ''%'' c; console_vprintf target fmt args c }
      else if d = CHR ''c'' then
        (case args of Va_char a # args \<Rightarrow> do { c \<leftarrow> console_putchar target a c; console_vprintf target fmt args c } | _ \<Rightarrow> None)
      else if d = CHR ''s'' then
        (case args of Va_str s # args \<Rightarrow>
           do { c \<leftarrow> console_print target (case s of Some s \<Rightarrow> s | None \<Rightarrow> ''(null)'') c; console_vprintf target fmt args c } | _ \<Rightarrow> None)
      else if d = CHR ''u'' then
        (case args of Va_u32 n # args \<Rightarrow> do { c \<leftarrow> console_print_u32_dec target n c; console_vprintf target fmt args c } | _ \<Rightarrow> None)
      else if d = CHR ''x'' then
        (case args of Va_u32 n # args \<Rightarrow> do { c \<leftarrow> console_print_hex_u32 target n c; console_vprintf target fmt args c } | _ \<Rightarrow> None)
      else
        do { c \<leftarrow> console_putchar target CHR ''%'' c; c \<leftarrow> console_putchar target d c; console_vprintf target fmt args c })"

definition console_printf :: "console_target \<Rightarrow> string \<Rightarrow> va_arg list \<Rightarrow> console_state \<Rightarrow> console_state option" where
  "console_printf target fmt args = console_vprintf target fmt args"

definition term_vprintf :: "string \<Rightarrow> va_arg list \<Rightarrow> console_state \<Rightarrow> console_state option" where
  "term_vprintf fmt args = console_vprintf CONSOLE_BOTH fmt args"

definition term_printf :: "string \<Rightarrow> va_arg list \<Rightarrow> console_state \<Rightarrow> console_state option" where
  "term_printf fmt args = console_vprintf CONSOLE_BOTH fmt args"

end
