(* ===== verification/ConsoleInv.thy ===== *)
theory ConsoleInv
  imports Console
begin

text \<open>
  The invariant of the console: the cursor is on the screen and the screen fits its arrays.
  Every operation returns and keeps it (\<open>keeps\<close>), draws inside the framebuffer only, and in
  text mode the VGA memory always shows the text arrays (\<open>mirrored\<close>).
\<close>

section \<open>Pixels stay in the framebuffer\<close>

definition in_frame :: "framebuffer_info \<Rightarrow> u32 \<Rightarrow> bool" where
  "in_frame f a \<longleftrightarrow> in_block (fb_base f) (unat (fb_pitch f) * unat (fb_height f)) a"

text \<open>A line of pixels fits the pitch, and the frame fits the address space.\<close>

definition frame_ok :: "framebuffer_info \<Rightarrow> bool" where
  "frame_ok f \<longleftrightarrow> unat (fb_width f) * unat (bytes_pp f) \<le> unat (fb_pitch f) \<and>
     unat (fb_pitch f) * unat (fb_height f) \<le> 2 ^ 32"

definition pixel_addr :: "framebuffer_info \<Rightarrow> u32 \<Rightarrow> u32 \<Rightarrow> u32" where
  "pixel_addr f x y = fb_base f + y * fb_pitch f + x * bytes_pp f"

lemma bytes_pp_24: "fb_bpp f = 24 \<Longrightarrow> bytes_pp f = 3"
  by (simp add: bytes_pp_def)

lemma bytes_pp_32: "fb_bpp f = 32 \<Longrightarrow> bytes_pp f = 4"
  by (simp add: bytes_pp_def)

lemma length_pixel_bytes: "length (pixel_bytes f packed) \<le> unat (bytes_pp f)"
  by (auto simp: pixel_bytes_def bytes_pp_24 bytes_pp_32)

lemma pixel_in_frame:
  assumes ok: "frame_ok f" and x: "x < fb_width f" and y: "y < fb_height f"
    and a: "in_block (pixel_addr f x y) (length (pixel_bytes f packed)) a"
  shows "in_frame f a"
proof -
  define B where "B = unat (bytes_pp f)"
  have fit: "unat (fb_width f) * B \<le> unat (fb_pitch f)" "unat (fb_pitch f) * unat (fb_height f) \<le> 2 ^ 32"
    using ok by (simp_all add: frame_ok_def B_def)
  define off where "off = y * fb_pitch f + x * bytes_pp f"
  have xs: "unat x * B + B \<le> unat (fb_pitch f)"
  proof -
    have "Suc (unat x) * B \<le> unat (fb_width f) * B" by (rule mult_le_mono1) (use x in \<open>simp add: word_less_nat_alt\<close>)
    then show ?thesis using fit(1) by simp
  qed
  have ys: "unat y * unat (fb_pitch f) + unat (fb_pitch f) \<le> unat (fb_pitch f) * unat (fb_height f)"
  proof -
    have "Suc (unat y) * unat (fb_pitch f) \<le> unat (fb_height f) * unat (fb_pitch f)"
      by (rule mult_le_mono1) (use y in \<open>simp add: word_less_nat_alt\<close>)
    then show ?thesis by (simp add: mult.commute)
  qed
  have B: "length (pixel_bytes f packed) \<le> B" unfolding B_def by (rule length_pixel_bytes)
  have rel: "unat (a - (fb_base f + off)) < length (pixel_bytes f packed)"
    using a by (simp add: in_block_def pixel_addr_def off_def add.assoc)
  have "0 < B" using rel B by linarith
  have lt: "unat y * unat (fb_pitch f) + unat x * B + B \<le> 2 ^ 32" using xs ys fit(2) by linarith
  have m1: "unat (y * fb_pitch f) = unat y * unat (fb_pitch f)"
    using lt \<open>0 < B\<close> by (simp add: unat_word_ariths)
  have m2: "unat (x * bytes_pp f) = unat x * B"
    using lt \<open>0 < B\<close> by (simp add: unat_word_ariths B_def)
  have off: "unat off = unat y * unat (fb_pitch f) + unat x * B"
    unfolding off_def using lt \<open>0 < B\<close> by (subst unat_add_exact) (simp_all add: m1 m2)
  have split: "a - fb_base f = off + (a - (fb_base f + off))" by simp
  have "unat (a - fb_base f) = unat off + unat (a - (fb_base f + off))"
    unfolding split by (rule trans [OF unat_add_exact]) (use off lt rel B in simp_all)
  then show ?thesis unfolding in_frame_def in_block_def using off rel B xs ys by linarith
qed

text \<open>Two memories that agree outside the frame.\<close>

definition off_frame_eq :: "framebuffer_info \<Rightarrow> memory \<Rightarrow> memory \<Rightarrow> bool" where
  "off_frame_eq f m m' \<longleftrightarrow> (\<forall>a. \<not> in_frame f a \<longrightarrow> m' a = m a)"

lemma off_frame_eq_refl [simp, intro]: "off_frame_eq f m m"
  by (simp add: off_frame_eq_def)

lemma off_frame_eq_trans [trans]: "off_frame_eq f m m' \<Longrightarrow> off_frame_eq f m' m'' \<Longrightarrow> off_frame_eq f m m''"
  by (simp add: off_frame_eq_def)

lemma write_pixel_off_frame:
  "frame_ok f \<Longrightarrow> x < fb_width f \<Longrightarrow> y < fb_height f \<Longrightarrow>
   off_frame_eq f m (mem_write (pixel_addr f x y) (pixel_bytes f packed) m)"
  unfolding off_frame_eq_def by (metis mem_write_other pixel_in_frame)

lemma put_pixel_off_frame: "frame_ok f \<Longrightarrow> off_frame_eq f m (put_pixel f x y color m)"
  using write_pixel_off_frame [of f x y m]
  by (simp add: put_pixel_def pixel_addr_def not_le)

lemma fill_cols_off_frame:
  "frame_ok f \<Longrightarrow> y < fb_height f \<Longrightarrow> off_frame_eq f m (fill_cols f packed (pixel_addr f x y) x k col m)"
proof (induction k arbitrary: col m)
  case (Suc k)
  have addr: "pixel_addr f x y + col * bytes_pp f = pixel_addr f (x + col) y"
    by (simp add: pixel_addr_def algebra_simps)
  show ?case
  proof (cases "x + col < fb_width f")
    case True
    have "off_frame_eq f m (mem_write (pixel_addr f (x + col) y) (pixel_bytes f packed) m)"
      using Suc.prems True by (simp add: write_pixel_off_frame)
    from off_frame_eq_trans [OF this Suc.IH] Suc.prems show ?thesis using True by (simp add: addr not_le)
  qed (simp add: not_less)
qed simp

lemma fill_rows_off_frame:
  "frame_ok f \<Longrightarrow> off_frame_eq f m (fill_rows f packed x y w k row m)"
proof (induction k arbitrary: row m)
  case (Suc k)
  show ?case
  proof (cases "y + row < fb_height f")
    case True
    have "off_frame_eq f m (fill_cols f packed (pixel_addr f x (y + row)) x (unat w) 0 m)"
      using Suc.prems True by (simp add: fill_cols_off_frame)
    from off_frame_eq_trans [OF this Suc.IH] Suc.prems show ?thesis using True
      by (simp add: Let_def pixel_addr_def not_le)
  qed (simp add: Let_def not_less)
qed simp

lemma fill_rect_off_frame: "frame_ok f \<Longrightarrow> off_frame_eq f m (fb_fill_rect f x y w h color m)"
  by (simp add: fb_fill_rect_def fill_rows_off_frame)

lemma draw_glyph_off_frame: "frame_ok f \<Longrightarrow> off_frame_eq f m (draw_glyph f glyph x y color m)"
proof -
  assume ok: "frame_ok f"
  let ?g = "\<lambda>(i, j) m. if (glyph ! i) AND push_bit (4 - j) 1 \<noteq> 0
     then put_pixel f (x + 1 + of_nat j) (y + 4 + of_nat i) color m else m"
  have "off_frame_eq f m (fold ?g ps m)" for ps m
  proof (induction ps arbitrary: m)
    case (Cons p ps)
    obtain i j where p: "p = (i, j)" by fastforce
    have "off_frame_eq f m (?g p m)" using ok by (simp add: p put_pixel_off_frame)
    from off_frame_eq_trans [OF this Cons.IH] show ?case by simp
  qed simp
  then show ?thesis unfolding draw_glyph_def .
qed

section \<open>The screen as a grid\<close>

abbreviation rows_of :: "console_state \<Rightarrow> nat" where "rows_of c \<equiv> unat (text_rows c)"
abbreviation cols_of :: "console_state \<Rightarrow> nat" where "cols_of c \<equiv> unat (text_cols c)"

text \<open>Everything but the cursor is in range.\<close>

definition con_geom :: "console_state \<Rightarrow> bool" where
  "con_geom c \<longleftrightarrow>
     length (text_chars c) = TEXT_CELLS \<and> length (text_fg c) = TEXT_CELLS \<and> length (text_bg c) = TEXT_CELLS \<and>
     length (vga c) = VGA_CELLS \<and> 0 < cols_of c \<and> cols_of c \<le> 120 \<and> 0 < rows_of c \<and> rows_of c \<le> 60 \<and>
     (backend c = DISPLAY_VGA_TEXT \<longrightarrow> text_cols c = VGA_COLS \<and> text_rows c = VGA_ROWS)"

definition on_screen :: "console_state \<Rightarrow> bool" where
  "on_screen c \<longleftrightarrow> cursor_row c < text_rows c \<and> cursor_col c < text_cols c"

definition con_inv :: "console_state \<Rightarrow> bool" where
  "con_inv c \<longleftrightarrow> con_geom c \<and> on_screen c"

definition cell_at :: "console_state \<Rightarrow> nat \<Rightarrow> char \<times> u8 \<times> u8" where
  "cell_at c i = (text_chars c ! i, text_fg c ! i, text_bg c ! i)"

definition screen :: "console_state \<Rightarrow> nat \<Rightarrow> nat \<Rightarrow> char \<times> u8 \<times> u8" where
  "screen c r k = cell_at c (r * cols_of c + k)"

text \<open>The VGA memory shows the text arrays.\<close>

definition mirrored :: "console_state \<Rightarrow> bool" where
  "mirrored c \<longleftrightarrow> (backend c = DISPLAY_VGA_TEXT \<longrightarrow> (\<forall>i < VGA_CELLS. vga c ! i = vga_cell (cell_at c i)))"

lemma text_index_eq: "text_index c row col = unat row * cols_of c + unat col"
proof -
  have b: "unat row < 2 ^ 16" "unat (text_cols c) < 2 ^ 16" "unat col < 2 ^ 16"
    using unsigned_less [of row] unsigned_less [of "text_cols c"] unsigned_less [of col] by simp_all
  have "unat row * unat (text_cols c) \<le> (2 ^ 16 - 1) * (2 ^ 16 - 1)"
    by (rule mult_mono) (use b in simp_all)
  then have "unat row * unat (text_cols c) + unat col < 2 ^ 32" using b by simp
  then show ?thesis using b
    by (simp add: text_index_def unat_word_ariths unsigned_ucast_eq take_bit_nat_eq_self)
qed

lemma unat_u16_of_nat: "n < 65536 \<Longrightarrow> unat (of_nat n :: u16) = n"
  by (simp add: unat_of_nat take_bit_eq_mod)

lemma grid_bound:
  fixes r k :: nat
  assumes "r < R" "k < C" "R \<le> R'" "C \<le> C'" shows "r * C + k < R' * C'"
proof -
  have "r * C + k < Suc r * C" using assms(2) by simp
  also have "\<dots> \<le> R' * C'" by (rule mult_le_mono) (use assms in auto)
  finally show ?thesis .
qed

lemma grid_inj:
  fixes r k :: nat
  assumes "k < C" "k' < C" shows "r * C + k = r' * C + k' \<longleftrightarrow> r = r' \<and> k = k'"
proof
  assume e: "r * C + k = r' * C + k'"
  have "(r * C + k) div C = r" "(r' * C + k') div C = r'" using assms by simp_all
  moreover have "(r * C + k) mod C = k" "(r' * C + k') mod C = k'" using assms by simp_all
  ultimately show "r = r' \<and> k = k'" using e by metis
qed simp

lemma geom_index: "con_geom c \<Longrightarrow> r < rows_of c \<Longrightarrow> k < cols_of c \<Longrightarrow> r * cols_of c + k < TEXT_CELLS"
  using grid_bound [of r "rows_of c" k "cols_of c" 60 120] by (simp add: con_geom_def TEXT_CELLS_def)

lemma VGA_sizes: "unat VGA_COLS = 80" "unat VGA_ROWS = 25"
  by (simp_all add: VGA_COLS_def VGA_ROWS_def)

lemma geom_vga_index:
  "con_geom c \<Longrightarrow> backend c = DISPLAY_VGA_TEXT \<Longrightarrow> r < rows_of c \<Longrightarrow> k < cols_of c \<Longrightarrow> r * 80 + k < VGA_CELLS"
  using grid_bound [of r 25 k 80 25 80] by (simp add: con_geom_def VGA_CELLS_def VGA_sizes)

text \<open>The effect of writing one cell, on the arrays and on the grid.\<close>

definition put_cell :: "nat \<Rightarrow> char \<times> u8 \<times> u8 \<Rightarrow> console_state \<Rightarrow> console_state" where
  "put_cell i cell c =
     c\<lparr>text_chars := (text_chars c)[i := fst cell], text_fg := (text_fg c)[i := fst (snd cell)],
       text_bg := (text_bg c)[i := snd (snd cell)]\<rparr>"

lemma set_text_eq: "i < TEXT_CELLS \<Longrightarrow> set_text i cell c = Some (put_cell i cell c)"
  by (simp add: set_text_def put_cell_def)

lemma get_text_eq: "i < TEXT_CELLS \<Longrightarrow> get_text i c = Some (cell_at c i)"
  by (simp add: get_text_def cell_at_def)

lemma cell_at_put_cell:
  "con_geom c \<Longrightarrow> i < TEXT_CELLS \<Longrightarrow> cell_at (put_cell i cell c) j = (if i = j then cell else cell_at c j)"
  by (auto simp: cell_at_def put_cell_def con_geom_def nth_list_update)

lemma screen_put_cell:
  assumes "con_geom c" "r < rows_of c" "k < cols_of c" "k' < cols_of c"
  shows "screen (put_cell (r * cols_of c + k) cell c) r' k' = (if r = r' \<and> k = k' then cell else screen c r' k')"
proof -
  have "cols_of (put_cell (r * cols_of c + k) cell c) = cols_of c" by (simp add: put_cell_def)
  then show ?thesis
    using assms by (simp add: screen_def cell_at_put_cell geom_index grid_inj)
qed

section \<open>What no operation changes\<close>

definition con_keeps :: "console_state \<Rightarrow> console_state \<Rightarrow> bool" where
  "con_keeps c c' \<longleftrightarrow>
     backend c' = backend c \<and> fb c' = fb c \<and> text_rows c' = text_rows c \<and> text_cols c' = text_cols c \<and>
     length (text_chars c') = length (text_chars c) \<and> length (text_fg c') = length (text_fg c) \<and>
     length (text_bg c') = length (text_bg c) \<and> length (vga c') = length (vga c) \<and>
     (frame_ok (fb c) \<longrightarrow> off_frame_eq (fb c) (fb_mem c) (fb_mem c'))"

lemma con_keeps_refl [simp, intro]: "con_keeps c c"
  by (simp add: con_keeps_def)

lemma con_keeps_trans [trans]: "con_keeps c c' \<Longrightarrow> con_keeps c' c'' \<Longrightarrow> con_keeps c c''"
  by (auto simp: con_keeps_def intro: off_frame_eq_trans)

lemma con_keeps_geom: "con_keeps c c' \<Longrightarrow> con_geom c \<Longrightarrow> con_geom c'"
  by (simp add: con_keeps_def con_geom_def)

lemma con_keeps_dims:
  "con_keeps c c' \<Longrightarrow> text_rows c' = text_rows c" "con_keeps c c' \<Longrightarrow> text_cols c' = text_cols c"
  "con_keeps c c' \<Longrightarrow> backend c' = backend c"
  by (simp_all add: con_keeps_def)

lemma con_keeps_put_cell [simp]: "con_keeps c (put_cell i cell c)"
  by (simp add: con_keeps_def put_cell_def)

lemma put_cell_simps [simp]:
  "cursor_row (put_cell i cell c) = cursor_row c" "cursor_col (put_cell i cell c) = cursor_col c"
  "backend (put_cell i cell c) = backend c" "text_rows (put_cell i cell c) = text_rows c"
  "text_cols (put_cell i cell c) = text_cols c" "vga (put_cell i cell c) = vga c"
  "current_fg (put_cell i cell c) = current_fg c" "current_bg (put_cell i cell c) = current_bg c"
  by (simp_all add: put_cell_def)

section \<open>Drawing\<close>

text \<open>An operation that only draws: it returns, and the pixels are the only change.\<close>

definition only_draws :: "console_state \<Rightarrow> console_state option \<Rightarrow> bool" where
  "only_draws c r \<longleftrightarrow> (\<exists>m. r = Some (c\<lparr>fb_mem := m\<rparr>) \<and> (frame_ok (fb c) \<longrightarrow> off_frame_eq (fb c) (fb_mem c) m))"

lemma only_draws_refl: "only_draws c (Some c)"
  unfolding only_draws_def by (rule exI [of _ "fb_mem c"]) simp

lemma only_draws_trans:
  assumes "only_draws c (Some c1)" and "only_draws c1 r" shows "only_draws c r"
proof -
  obtain m where 1: "c1 = c\<lparr>fb_mem := m\<rparr>" "frame_ok (fb c) \<longrightarrow> off_frame_eq (fb c) (fb_mem c) m"
    using assms(1) by (auto simp: only_draws_def)
  obtain m' where 2: "r = Some (c1\<lparr>fb_mem := m'\<rparr>)" "frame_ok (fb c1) \<longrightarrow> off_frame_eq (fb c1) (fb_mem c1) m'"
    using assms(2) unfolding only_draws_def by blast
  have "r = Some (c\<lparr>fb_mem := m'\<rparr>)" using 1(1) 2(1) by simp
  moreover have "frame_ok (fb c) \<longrightarrow> off_frame_eq (fb c) (fb_mem c) m'"
    using 1 2(2) by (auto intro: off_frame_eq_trans)
  ultimately show ?thesis unfolding only_draws_def by blast
qed

lemma only_drawsE:
  assumes "only_draws c r"
  obtains m where "r = Some (c\<lparr>fb_mem := m\<rparr>)" "con_keeps c (c\<lparr>fb_mem := m\<rparr>)"
proof -
  from assms obtain m where m: "r = Some (c\<lparr>fb_mem := m\<rparr>)" "frame_ok (fb c) \<longrightarrow> off_frame_eq (fb c) (fb_mem c) m"
    unfolding only_draws_def by blast
  have "con_keeps c (c\<lparr>fb_mem := m\<rparr>)" using m(2) by (simp add: con_keeps_def)
  with m(1) show thesis by (rule that)
qed

lemma geom_fb_mem [simp]: "con_geom (c\<lparr>fb_mem := m\<rparr>) = con_geom c"
  by (simp add: con_geom_def)

lemma draw_cell_only_draws:
  assumes g: "con_geom c" and r: "row < text_rows c" and k: "col < text_cols c"
  shows "only_draws c (fb_draw_cell row col vis c)"
proof -
  have i: "text_index c row col < TEXT_CELLS"
    unfolding text_index_eq by (rule geom_index [OF g]) (use r k in \<open>simp_all add: word_less_nat_alt\<close>)
  obtain ch fg bg where cell: "cell_at c (text_index c row col) = (ch, fg, bg)" by (cases "cell_at c (text_index c row col)") auto
  define m where "m = draw_glyph (fb c) (glyph_for_char ch) (ucast col * FONT_W) (ucast row * CELL_H) fg
    (fb_fill_rect (fb c) (ucast col * FONT_W) (ucast row * CELL_H) FONT_W CELL_H bg (fb_mem c))"
  have m: "frame_ok (fb c) \<longrightarrow> off_frame_eq (fb c) (fb_mem c) m"
    unfolding m_def by (meson draw_glyph_off_frame fill_rect_off_frame off_frame_eq_trans)
  have eq: "fb_draw_cell row col vis c = Some (c\<lparr>fb_mem :=
      if vis then fb_fill_rect (fb c) (ucast col * FONT_W) (ucast row * CELL_H + CELL_H - 2) FONT_W 2 fg m else m\<rparr>)"
    by (simp add: fb_draw_cell_def get_text_eq [OF i] cell m_def Let_def)
  show ?thesis unfolding only_draws_def eq
    using m fill_rect_off_frame off_frame_eq_trans by (intro exI conjI) (rule refl, simp, blast)
qed

lemma redraw_only_draws:
  assumes g: "con_geom c" shows "only_draws c (fb_redraw_all c)"
proof -
  let ?I = "\<lambda>c'. only_draws c (Some c')"
  let ?b = "\<lambda>row col c. fb_draw_cell (of_nat row) (of_nat col) (of_nat row = cursor_row c \<and> of_nat col = cursor_col c) c"
  have small: "rows_of c < 65536" "cols_of c < 65536" using g by (simp_all add: con_geom_def)
  have cell: "\<exists>s'. ?b row col s = Some s' \<and> ?I s'" if "row < rows_of c" "col < cols_of c" and drawn: "?I s" for row col s
  proof -
    from drawn obtain m where s: "s = c\<lparr>fb_mem := m\<rparr>" unfolding only_draws_def by blast
    have "only_draws s (?b row col s)"
      by (rule draw_cell_only_draws)
        (use that small g in \<open>simp_all add: s word_less_nat_alt unat_u16_of_nat\<close>)
    from only_draws_trans [OF drawn this] show ?thesis unfolding only_draws_def by blast
  qed
  have row: "\<exists>s'. for_loop 0 (cols_of c) (?b row) s = Some s' \<and> ?I s'" if "row < rows_of c" "?I s" for row s
    by (rule for_loop_keeps [where I = ?I]) (use that cell in auto)
  have "\<exists>s'. for_loop 0 (rows_of c) (\<lambda>row. for_loop 0 (cols_of c) (?b row)) c = Some s' \<and> ?I s'"
    by (rule for_loop_keeps [where I = ?I]) (use row only_draws_refl in auto)
  then show ?thesis by (auto simp: fb_redraw_all_def)
qed

lemma draw_cursor_only_draws: "con_geom c \<Longrightarrow> only_draws c (draw_cursor vis c)"
  by (simp add: draw_cursor_def draw_cell_only_draws only_draws_refl)

lemma hide_cursor_only_draws: "con_geom c \<Longrightarrow> only_draws c (hide_cursor c)"
  by (simp add: hide_cursor_def draw_cursor_only_draws only_draws_refl)

section \<open>Scrolling\<close>

text \<open>The text, the VGA memory and the pixels may change, cursor and colours do not.\<close>

definition paints :: "console_state \<Rightarrow> console_state \<Rightarrow> bool" where
  "paints c c' \<longleftrightarrow> con_keeps c c' \<and> cursor_row c' = cursor_row c \<and> cursor_col c' = cursor_col c \<and>
     current_fg c' = current_fg c \<and> current_bg c' = current_bg c"

lemma paints_refl [simp, intro]: "paints c c"
  by (simp add: paints_def)

lemma paints_trans: "paints c c' \<Longrightarrow> paints c' c'' \<Longrightarrow> paints c c''"
  by (auto simp: paints_def intro: con_keeps_trans)

lemma paints_put_cell [simp]: "paints c (put_cell i cell c)"
  by (simp add: paints_def)

lemma paints_geom: "paints c c' \<Longrightarrow> con_geom c \<Longrightarrow> con_geom c'"
  by (auto simp: paints_def intro: con_keeps_geom)

lemma paintsD:
  assumes "paints c c'"
  shows "text_rows c' = text_rows c" "text_cols c' = text_cols c" "backend c' = backend c"
    "cursor_row c' = cursor_row c" "cursor_col c' = cursor_col c" "blank c' = blank c"
  using assms by (simp_all add: paints_def con_keeps_def blank_def)

lemma only_draws_paints: "only_draws c (Some c') \<Longrightarrow> paints c c'"
  by (auto simp: only_draws_def paints_def con_keeps_def)

lemma screen_fb_mem [simp]: "screen (c\<lparr>fb_mem := m\<rparr>) = screen c"
  by (simp add: screen_def cell_at_def fun_eq_iff)

text \<open>One cell moves up.\<close>

lemma scroll_cell_eq:
  assumes g: "con_geom c" and r: "0 < row" "row < rows_of c" and k: "col < cols_of c"
  shows "scroll_cell (of_nat row) (of_nat col) c =
    Some (put_cell ((row - 1) * cols_of c + col) (screen c row col) c)"
proof -
  have b: "row < 65536" "col < 65536" using r k g by (simp_all add: con_geom_def)
  have u: "unat (of_nat row :: u16) = row" "unat (of_nat col :: u16) = col"
    using b by (simp_all add: unat_u16_of_nat)
  have "of_nat row - (1 :: u16) = of_nat (row - 1)" using r(1) by (simp add: of_nat_diff)
  then have u1: "unat (of_nat row - 1 :: u16) = row - 1" using b by (simp add: unat_u16_of_nat)
  have i: "row * cols_of c + col < TEXT_CELLS" "(row - 1) * cols_of c + col < TEXT_CELLS"
    by (rule geom_index [OF g]; use r k in simp)+
  then show ?thesis
    by (simp add: scroll_cell_def text_index_eq u u1 get_text_eq set_text_eq screen_def)
qed

definition shifted :: "console_state \<Rightarrow> nat \<Rightarrow> nat \<Rightarrow> console_state \<Rightarrow> bool" where
  "shifted c row col s \<longleftrightarrow> paints c s \<and>
     (\<forall>r < rows_of c. \<forall>k < cols_of c.
        screen s r k = (if r + 1 < row \<or> r + 1 = row \<and> k < col then screen c (r + 1) k else screen c r k))"

lemma shift_step:
  assumes g: "con_geom c" and s: "shifted c row col s" and r: "0 < row" "row < rows_of c" and k: "col < cols_of c"
  shows "\<exists>s'. scroll_cell (of_nat row) (of_nat col) s = Some s' \<and> shifted c row (Suc col) s'"
proof -
  have p: "paints c s" using s by (simp add: shifted_def)
  note d = paintsD [OF p] and gs = paints_geom [OF p g]
  have cell: "screen s row col = screen c row col" using s r k by (simp add: shifted_def)
  let ?s = "put_cell ((row - 1) * cols_of s + col) (screen s row col) s"
  have eq: "scroll_cell (of_nat row) (of_nat col) s = Some ?s"
    by (rule scroll_cell_eq) (use gs r k d in simp_all)
  have sc: "screen ?s r' k' = (if r' = row - 1 \<and> k' = col then screen c row col else screen s r' k')"
    if "k' < cols_of c" for r' k'
    using screen_put_cell [OF gs, of "row - 1" col k' "screen s row col" r'] r k d that cell by auto
  have "shifted c row (Suc col) ?s"
    unfolding shifted_def
  proof (intro conjI allI impI)
    show "paints c ?s" by (rule paints_trans [OF p]) simp
    fix r' k' assume b: "r' < rows_of c" "k' < cols_of c"
    have old: "screen s r' k' = (if r' + 1 < row \<or> r' + 1 = row \<and> k' < col then screen c (r' + 1) k' else screen c r' k')"
      using s b by (simp add: shifted_def)
    show "screen ?s r' k' =
      (if r' + 1 < row \<or> r' + 1 = row \<and> k' < Suc col then screen c (r' + 1) k' else screen c r' k')"
    proof (cases "r' = row - 1 \<and> k' = col")
      case True
      then show ?thesis using sc [OF b(2)] r(1) by auto
    next
      case False
      then have iff: "(r' + 1 < row \<or> r' + 1 = row \<and> k' < col) = (r' + 1 < row \<or> r' + 1 = row \<and> k' < Suc col)"
        using r(1) by (auto simp: less_Suc_eq)
      show ?thesis using old by (simp only: sc [OF b(2)] False if_False iff)
    qed
  qed
  then show ?thesis using eq by blast
qed

lemma shift_loop:
  assumes g: "con_geom c"
  shows "\<exists>s. for_loop 1 (rows_of c) (\<lambda>row. for_loop 0 (cols_of c) (\<lambda>col. scroll_cell (of_nat row) (of_nat col))) c = Some s \<and>
    shifted c (rows_of c) 0 s"
proof (rule for_loop_inv [where I = "\<lambda>row. shifted c row 0"])
  show "shifted c 1 0 c" by (simp add: shifted_def)
  show "1 \<le> rows_of c" using g by (simp add: con_geom_def)
next
  fix row s assume r: "1 \<le> row" "row < rows_of c" and s: "shifted c row 0 s"
  have "\<exists>s'. for_loop 0 (cols_of c) (\<lambda>col. scroll_cell (of_nat row) (of_nat col)) s = Some s' \<and> shifted c row (cols_of c) s'"
    by (rule for_loop_inv [where I = "\<lambda>col. shifted c row col"]) (use s r shift_step [OF g] in auto)
  moreover have "shifted c (Suc row) 0 s'" if "shifted c row (cols_of c) s'" for s'
    using that by (auto simp: shifted_def)
  ultimately show "\<exists>s'. for_loop 0 (cols_of c) (\<lambda>col. scroll_cell (of_nat row) (of_nat col)) s = Some s' \<and> shifted c (Suc row) 0 s'"
    by blast
qed

text \<open>The last row is blanked.\<close>

lemma blank_loop:
  assumes g: "con_geom s"
  shows "\<exists>s'. for_loop 0 (cols_of s) (\<lambda>col c. set_text (text_index c (text_rows c - 1) (of_nat col)) (blank c) c) s = Some s' \<and>
    paints s s' \<and> vga s' = vga s \<and>
    (\<forall>r < rows_of s. \<forall>k < cols_of s. screen s' r k = (if r = rows_of s - 1 then blank s else screen s r k))"
proof -
  let ?I = "\<lambda>col s'. paints s s' \<and> vga s' = vga s \<and>
    (\<forall>r < rows_of s. \<forall>k < cols_of s. screen s' r k = (if r = rows_of s - 1 \<and> k < col then blank s else screen s r k))"
  have "\<exists>s'. for_loop 0 (cols_of s) (\<lambda>col c. set_text (text_index c (text_rows c - 1) (of_nat col)) (blank c) c) s = Some s' \<and> ?I (cols_of s) s'"
  proof (rule for_loop_inv [where I = ?I])
    fix col t assume k: "0 \<le> col" "col < cols_of s" and I: "?I col t"
    have p: "paints s t" using I by blast
    note d = paintsD [OF p] and gt = paints_geom [OF p g]
    have R: "0 < rows_of s" "rows_of s < 65536" "cols_of s < 65536" using g by (simp_all add: con_geom_def)
    have "text_rows t \<noteq> 0" using R(1) d(1) by auto
    then have "unat (text_rows t - 1) = rows_of s - 1" unfolding d(1) by (rule unat_minus_one)
    then have idx: "text_index t (text_rows t - 1) (of_nat col) = (rows_of s - 1) * cols_of t + col"
      using k R(3) by (simp add: text_index_eq unat_u16_of_nat)
    let ?t = "put_cell ((rows_of s - 1) * cols_of t + col) (blank t) t"
    have "(rows_of s - 1) * cols_of t + col < TEXT_CELLS"
      by (rule geom_index [OF gt]) (use k R d in simp_all)
    then have eq: "set_text (text_index t (text_rows t - 1) (of_nat col)) (blank t) t = Some ?t"
      by (simp add: idx set_text_eq)
    have sc: "screen ?t r' k' = (if r' = rows_of s - 1 \<and> k' = col then blank s else screen t r' k')"
      if "k' < cols_of s" for r' k'
      using screen_put_cell [OF gt, of "rows_of s - 1" col k' "blank t" r'] R k d that by auto
    have "?I (Suc col) ?t"
    proof (intro conjI allI impI)
      show "paints s ?t" by (rule paints_trans [OF p]) simp
      show "vga ?t = vga s" using I by simp
      fix r' k' assume b: "r' < rows_of s" "k' < cols_of s"
      have old: "screen t r' k' = (if r' = rows_of s - 1 \<and> k' < col then blank s else screen s r' k')"
        using I b by blast
      have dis: "(r' = rows_of s - 1 \<and> k' < Suc col) = ((r' = rows_of s - 1 \<and> k' = col) \<or> (r' = rows_of s - 1 \<and> k' < col))"
        by (auto simp: less_Suc_eq)
      show "screen ?t r' k' = (if r' = rows_of s - 1 \<and> k' < Suc col then blank s else screen s r' k')"
        unfolding sc [OF b(2)] old dis by (cases "r' = rows_of s - 1 \<and> k' = col") (simp_all only: if_True if_False simp_thms)
    qed
    with eq show "\<exists>s'. set_text (text_index t (text_rows t - 1) (of_nat col)) (blank t) t = Some s' \<and> ?I (Suc col) s'"
      by blast
  qed simp_all
  then show ?thesis by auto
qed

text \<open>The VGA memory is brought up to date.\<close>

lemma show_loop:
  assumes g: "con_geom s" and b: "backend s = DISPLAY_VGA_TEXT"
  shows "\<exists>s'. for_loop 0 (rows_of s) (\<lambda>row. for_loop 0 (cols_of s) (\<lambda>col. show_cell (of_nat row) (of_nat col))) s = Some s' \<and>
    paints s s' \<and> screen s' = screen s \<and> mirrored s'"
proof -
  have dims: "rows_of s = 25" "cols_of s = 80" and len: "length (vga s) = VGA_CELLS"
    using g b by (simp_all add: con_geom_def VGA_sizes)
  let ?I = "\<lambda>n s'. \<exists>v. s' = s\<lparr>vga := v\<rparr> \<and> length v = VGA_CELLS \<and> (\<forall>i < n. v ! i = vga_cell (cell_at s i))"
  have step: "\<exists>s'. show_cell (of_nat row) (of_nat col) t = Some s' \<and> ?I (row * 80 + Suc col) s'"
    if r: "row < 25" and k: "col < 80" and I: "?I (row * 80 + col) t" for row col t
  proof -
    from I obtain v where t: "t = s\<lparr>vga := v\<rparr>" "length v = VGA_CELLS" "\<forall>i < row * 80 + col. v ! i = vga_cell (cell_at s i)"
      by blast
    have u: "unat (of_nat row :: u16) = row" "unat (of_nat col :: u16) = col"
      using r k by (simp_all add: unat_u16_of_nat)
    have idx: "text_index t (of_nat row) (of_nat col) = row * 80 + col" "vga_index (of_nat row) (of_nat col) = row * 80 + col"
      using dims t(1) by (simp_all add: text_index_eq vga_index_def u VGA_sizes)
    have lt: "row * 80 + col < 2000" using r k by simp
    have cell: "cell_at (s\<lparr>vga := v\<rparr>) = cell_at s" by (simp add: cell_at_def fun_eq_iff)
    have "show_cell (of_nat row) (of_nat col) t = Some (s\<lparr>vga := v[row * 80 + col := vga_cell (cell_at s (row * 80 + col))]\<rparr>)"
      using lt unfolding t(1)
      by (simp add: show_cell_def idx [unfolded t(1)] get_text_def set_vga_def TEXT_CELLS_def VGA_CELLS_def cell_at_def)
    moreover have "?I (row * 80 + Suc col) (s\<lparr>vga := v[row * 80 + col := vga_cell (cell_at s (row * 80 + col))]\<rparr>)"
      by (rule exI [of _ "v[row * 80 + col := vga_cell (cell_at s (row * 80 + col))]"])
        (use t(2,3) lt in \<open>auto simp: VGA_CELLS_def nth_list_update less_Suc_eq\<close>)
    ultimately show ?thesis by blast
  qed
  have row: "\<exists>s'. for_loop 0 80 (\<lambda>col. show_cell (of_nat row) (of_nat col)) t = Some s' \<and> ?I (Suc row * 80) s'"
    if "row < 25" "?I (row * 80) t" for row t
  proof -
    have "\<exists>s'. for_loop 0 80 (\<lambda>col. show_cell (of_nat row) (of_nat col)) t = Some s' \<and> ?I (row * 80 + 80) s'"
      by (rule for_loop_inv [where I = "\<lambda>col. ?I (row * 80 + col)"]) (use that step in auto)
    then show ?thesis by (simp add: add.commute)
  qed
  have "\<exists>s'. for_loop 0 25 (\<lambda>row. for_loop 0 80 (\<lambda>col. show_cell (of_nat row) (of_nat col))) s = Some s' \<and> ?I (25 * 80) s'"
  proof (rule for_loop_inv [where I = "\<lambda>row. ?I (row * 80)"])
    show "?I (0 * 80) s" by (rule exI [of _ "vga s"]) (simp add: len)
  qed (use row in auto)
  then obtain v where v: "for_loop 0 25 (\<lambda>row. for_loop 0 80 (\<lambda>col. show_cell (of_nat row) (of_nat col))) s = Some (s\<lparr>vga := v\<rparr>)"
    "length v = VGA_CELLS" "\<forall>i < 25 * 80. v ! i = vga_cell (cell_at s i)" by blast
  have "paints s (s\<lparr>vga := v\<rparr>)" using v(2) len by (simp add: paints_def con_keeps_def)
  moreover have "screen (s\<lparr>vga := v\<rparr>) = screen s" by (simp add: screen_def cell_at_def fun_eq_iff)
  moreover have "mirrored (s\<lparr>vga := v\<rparr>)" using v(3) by (simp add: mirrored_def VGA_CELLS_def cell_at_def)
  ultimately show ?thesis using v(1) dims by auto
qed

text \<open>The grid after scrolling by one row.\<close>

definition grid_scroll :: "nat \<Rightarrow> 'c \<Rightarrow> (nat \<Rightarrow> nat \<Rightarrow> 'c) \<Rightarrow> nat \<Rightarrow> nat \<Rightarrow> 'c" where
  "grid_scroll R b g = (\<lambda>r k. if r + 1 < R then g (r + 1) k else b)"

text \<open>Equality of two grids on the screen.\<close>

definition same_grid :: "console_state \<Rightarrow> (nat \<Rightarrow> nat \<Rightarrow> 'c) \<Rightarrow> (nat \<Rightarrow> nat \<Rightarrow> 'c) \<Rightarrow> bool" where
  "same_grid c g g' \<longleftrightarrow> (\<forall>r < rows_of c. \<forall>k < cols_of c. g r k = g' r k)"

lemma same_grid_refl [simp, intro]: "same_grid c g g"
  by (simp add: same_grid_def)

lemma mirrored_only_draws: "only_draws c (Some c') \<Longrightarrow> mirrored c' = mirrored c \<and> screen c' = screen c"
  by (auto simp: only_draws_def mirrored_def screen_def cell_at_def fun_eq_iff)

lemma scroll_spec:
  assumes g: "con_geom c" and full: "\<not> cursor_row c < text_rows c"
  shows "\<exists>c'. term_scroll_if_needed c = Some c' \<and> con_keeps c c' \<and> mirrored c' \<and>
    cursor_row c' = text_rows c - 1 \<and> cursor_col c' = cursor_col c \<and> blank c' = blank c \<and>
    same_grid c (screen c') (grid_scroll (rows_of c) (blank c) (screen c))"
proof -
  obtain s where s: "for_loop 1 (rows_of c) (\<lambda>row. for_loop 0 (cols_of c) (\<lambda>col. scroll_cell (of_nat row) (of_nat col))) c = Some s"
    "shifted c (rows_of c) 0 s" using shift_loop [OF g] by blast
  have ps: "paints c s" using s(2) by (simp add: shifted_def)
  note ds = paintsD [OF ps] and gs = paints_geom [OF ps g]
  obtain t where t: "for_loop 0 (cols_of s) (\<lambda>col c. set_text (text_index c (text_rows c - 1) (of_nat col)) (blank c) c) s = Some t"
    "paints s t" "\<forall>r < rows_of s. \<forall>k < cols_of s. screen t r k = (if r = rows_of s - 1 then blank s else screen s r k)"
    using blank_loop [OF gs] by blast
  note dt = paintsD [OF t(2)] and gt = paints_geom [OF t(2) gs]
  define u where "u = t\<lparr>cursor_row := text_rows t - 1\<rparr>"
  have gu: "con_geom u" using gt by (simp add: u_def con_geom_def)
  have R: "0 < rows_of c" using g by (simp add: con_geom_def)
  have grid: "same_grid c (screen t) (grid_scroll (rows_of c) (blank c) (screen c))"
    unfolding same_grid_def grid_scroll_def
  proof (intro allI impI)
    fix r k assume b: "r < rows_of c" "k < cols_of c"
    have "screen t r k = (if r = rows_of c - 1 then blank c else screen s r k)" using t(3) b ds by auto
    moreover have "screen s r k = (if r + 1 < rows_of c then screen c (r + 1) k else screen c r k)"
      using s(2) b by (auto simp: shifted_def)
    ultimately show "screen t r k = (if r + 1 < rows_of c then screen c (r + 1) k else blank c)" using b(1) by auto
  qed
  have su: "screen u = screen t" by (simp add: u_def screen_def cell_at_def fun_eq_iff)
  have scr: "term_scroll_if_needed c = (if backend u = DISPLAY_FRAMEBUFFER then fb_redraw_all u
     else for_loop 0 (rows_of u) (\<lambda>row. for_loop 0 (cols_of u) (\<lambda>col. show_cell (of_nat row) (of_nat col))) u)"
    using full s(1) t(1) ds dt by (simp add: term_scroll_if_needed_def u_def)
  have "\<exists>c'. (if backend u = DISPLAY_FRAMEBUFFER then fb_redraw_all u
     else for_loop 0 (rows_of u) (\<lambda>row. for_loop 0 (cols_of u) (\<lambda>col. show_cell (of_nat row) (of_nat col))) u) = Some c' \<and>
     paints u c' \<and> screen c' = screen u \<and> mirrored c'"
  proof (cases "backend u")
    case DISPLAY_VGA_TEXT
    then show ?thesis using show_loop [OF gu] by simp
  next
    case DISPLAY_FRAMEBUFFER
    obtain m where m: "fb_redraw_all u = Some (u\<lparr>fb_mem := m\<rparr>)" using redraw_only_draws [OF gu] by (auto elim: only_drawsE)
    have od: "only_draws u (Some (u\<lparr>fb_mem := m\<rparr>))" using redraw_only_draws [OF gu] m by simp
    show ?thesis using DISPLAY_FRAMEBUFFER m only_draws_paints [OF od] by (auto simp: mirrored_def)
  qed
  then obtain c' where c': "term_scroll_if_needed c = Some c'" "paints u c'" "screen c' = screen u" "mirrored c'"
    unfolding scr by blast
  have cu: "con_keeps c u"
    using con_keeps_trans [of c s t] ps t(2) by (simp add: paints_def con_keeps_def u_def)
  have "con_keeps c c'" using con_keeps_trans [OF cu] c'(2) by (simp add: paints_def)
  moreover have "cursor_row c' = text_rows c - 1" "cursor_col c' = cursor_col c" "blank c' = blank c"
    using paintsD [OF c'(2)] ds dt by (simp_all add: u_def blank_def)
  ultimately show ?thesis using c'(1,3,4) grid by (auto simp: su)
qed

section \<open>Writing a character\<close>

text \<open>
  What the screen promises: a grid of cells and a cursor.  \<open>R\<close> and \<open>C\<close> are the dimensions, \<open>b\<close>
  is the blank cell in the current colours.
\<close>

type_synonym 'c terminal = "(nat \<Rightarrow> nat \<Rightarrow> 'c) \<times> nat \<times> nat"

definition terminal_newline :: "nat \<Rightarrow> 'c \<Rightarrow> 'c terminal \<Rightarrow> 'c terminal" where
  "terminal_newline R b t =
     (case t of (g, row, col) \<Rightarrow> if row + 1 < R then (g, row + 1, 0) else (grid_scroll R b g, R - 1, 0))"

definition grid_put :: "nat \<Rightarrow> nat \<Rightarrow> 'c \<Rightarrow> (nat \<Rightarrow> nat \<Rightarrow> 'c) \<Rightarrow> nat \<Rightarrow> nat \<Rightarrow> 'c" where
  "grid_put row col x g = (\<lambda>r k. if r = row \<and> k = col then x else g r k)"

definition terminal_write ::
  "nat \<Rightarrow> nat \<Rightarrow> char \<times> 'p \<Rightarrow> (char \<times> 'p) terminal \<Rightarrow> (char \<times> 'p) terminal" where
  "terminal_write R C cell t =
     (case t of (g, row, col) \<Rightarrow>
        let b = (CHR '' '', snd cell) in
        if fst cell = CHR 0x0A then terminal_newline R b t
        else if fst cell = CHR 0x0D then (g, row, 0)
        else if fst cell = CHR 0x08 then (if col = 0 then t else (grid_put row (col - 1) b g, row, col - 1))
        else
          let g = grid_put row col cell g in
          if col + 1 < C then (g, row, col + 1) else terminal_newline R b (g, row, col))"

definition view :: "console_state \<Rightarrow> (char \<times> u8 \<times> u8) terminal" where
  "view c = (screen c, unat (cursor_row c), unat (cursor_col c))"

definition displays :: "console_state \<Rightarrow> (char \<times> u8 \<times> u8) terminal \<Rightarrow> bool" where
  "displays c t \<longleftrightarrow> same_grid c (screen c) (fst t) \<and> unat (cursor_row c) = fst (snd t) \<and> unat (cursor_col c) = snd (snd t)"

text \<open>What a call leaves that may write on the screen.\<close>

definition con_call :: "console_state \<Rightarrow> console_state option \<Rightarrow> bool" where
  "con_call c r \<longleftrightarrow> (\<exists>c'. r = Some c' \<and> con_keeps c c' \<and> on_screen c' \<and> blank c' = blank c \<and> (mirrored c \<longrightarrow> mirrored c'))"

definition writes :: "console_state \<Rightarrow> (char \<times> u8 \<times> u8) terminal \<Rightarrow> console_state option \<Rightarrow> bool" where
  "writes c t r \<longleftrightarrow> (\<exists>c'. r = Some c' \<and> con_keeps c c' \<and> on_screen c' \<and> blank c' = blank c \<and>
     (mirrored c \<longrightarrow> mirrored c') \<and> displays c' t)"

lemma writes_call: "writes c t r \<Longrightarrow> con_call c r"
  by (auto simp: writes_def con_call_def)

text \<open>Drawing afterwards does not matter.\<close>

lemma writes_draw:
  assumes w: "writes c t (Some c1)" and r: "only_draws c1 r" shows "writes c t r"
proof -
  obtain m where r': "r = Some (c1\<lparr>fb_mem := m\<rparr>)" "con_keeps c1 (c1\<lparr>fb_mem := m\<rparr>)" using r by (rule only_drawsE)
  have k: "con_keeps c (c1\<lparr>fb_mem := m\<rparr>)" using w r'(2) con_keeps_trans unfolding writes_def by blast
  show ?thesis
    unfolding writes_def r'(1)
    by (rule exI [of _ "c1\<lparr>fb_mem := m\<rparr>"])
      (use w k in \<open>auto simp: writes_def on_screen_def blank_def mirrored_def displays_def same_grid_def cell_at_def\<close>)
qed

lemma writes_hw_cursor:
  assumes w: "writes c t (Some c1)" shows "writes c t (Some (term_update_hw_cursor c1))"
proof -
  have "con_keeps c (term_update_hw_cursor c1)"
    using w by (simp add: writes_def con_keeps_def term_update_hw_cursor_def Let_def)
  then show ?thesis
    using w
    by (simp add: writes_def on_screen_def blank_def mirrored_def displays_def same_grid_def cell_at_def
        screen_def term_update_hw_cursor_def Let_def)
qed

lemma writes_geom: "con_geom c \<Longrightarrow> writes c t (Some c1) \<Longrightarrow> con_geom c1"
  by (auto simp: writes_def intro: con_keeps_geom)

lemma writes_refresh:
  "con_geom c \<Longrightarrow> writes c t (Some c1) \<Longrightarrow> writes c t (refresh_cursor c1)"
  unfolding refresh_cursor_def
  using writes_draw [OF _ draw_cursor_only_draws [OF writes_geom]] writes_hw_cursor by auto

lemma cursor_unat:
  assumes "con_inv c"
  shows "unat (cursor_row c) < rows_of c" "unat (cursor_col c) < cols_of c"
    "unat (cursor_row c + 1) = unat (cursor_row c) + 1" "unat (cursor_col c + 1) = unat (cursor_col c) + 1"
proof -
  show 1: "unat (cursor_row c) < rows_of c" "unat (cursor_col c) < cols_of c"
    using assms by (simp_all add: con_inv_def on_screen_def word_less_nat_alt)
  have "rows_of c \<le> 60" "cols_of c \<le> 120" using assms by (simp_all add: con_inv_def con_geom_def)
  then show "unat (cursor_row c + 1) = unat (cursor_row c) + 1" "unat (cursor_col c + 1) = unat (cursor_col c) + 1"
    using 1 by (simp_all add: unat_word_ariths)
qed

text \<open>Moving the cursor to the start of the next line, from a state with the cursor anywhere in a row.\<close>

lemma newline_writes:
  assumes g: "con_geom c" and row: "cursor_row c < text_rows c"
  shows "writes c (terminal_newline (rows_of c) (blank c) (view c))
    (term_scroll_if_needed (c\<lparr>cursor_col := 0, cursor_row := cursor_row c + 1\<rparr>))"
proof -
  define c1 where "c1 = c\<lparr>cursor_col := 0, cursor_row := cursor_row c + 1\<rparr>"
  have R: "rows_of c \<le> 60" "0 < cols_of c" and r: "unat (cursor_row c) < rows_of c"
    using g row by (simp_all add: con_geom_def word_less_nat_alt)
  then have inc: "unat (cursor_row c + 1) = unat (cursor_row c) + 1" by (simp add: unat_word_ariths)
  have g1: "con_geom c1" and k1: "con_keeps c c1" and b1: "blank c1 = blank c" and s1: "screen c1 = screen c"
    and m1: "mirrored c1 = mirrored c"
    using g by (simp_all add: c1_def con_geom_def con_keeps_def blank_def screen_def cell_at_def fun_eq_iff mirrored_def)
  show ?thesis unfolding c1_def [symmetric]
  proof (cases "cursor_row c1 < text_rows c1")
    case True
    then have "unat (cursor_row c) + 1 < rows_of c" using inc by (simp add: c1_def word_less_nat_alt)
    moreover have "term_scroll_if_needed c1 = Some c1" using True by (simp add: term_scroll_if_needed_def)
    ultimately show "writes c (terminal_newline (rows_of c) (blank c) (view c)) (term_scroll_if_needed c1)"
      using True R k1 b1 m1 s1 inc
      by (auto simp: writes_def on_screen_def displays_def view_def terminal_newline_def c1_def word_less_nat_alt)
  next
    case False
    then have last_row: "\<not> unat (cursor_row c) + 1 < rows_of c" using inc by (simp add: c1_def word_less_nat_alt)
    obtain c' where c': "term_scroll_if_needed c1 = Some c'" "con_keeps c1 c'" "mirrored c'"
      "cursor_row c' = text_rows c1 - 1" "cursor_col c' = cursor_col c1" "blank c' = blank c1"
      "same_grid c1 (screen c') (grid_scroll (rows_of c1) (blank c1) (screen c1))"
      using scroll_spec [OF g1 False] by blast
    have dims: "text_rows c' = text_rows c" "text_cols c' = text_cols c"
      using con_keeps_dims [OF c'(2)] by (simp_all add: c1_def)
    have "text_rows c \<noteq> 0" using r by auto
    then have row': "unat (text_rows c - 1) = rows_of c - 1" by (rule unat_minus_one)
    have on: "on_screen c'" using c'(4,5) R(2) r row' dims by (simp add: on_screen_def c1_def word_less_nat_alt)
    have "displays c' (terminal_newline (rows_of c) (blank c) (view c))"
      using c'(4,5,7) last_row row' dims
      by (simp add: displays_def view_def terminal_newline_def same_grid_def c1_def b1 [unfolded c1_def] s1 [unfolded c1_def])
    then show "writes c (terminal_newline (rows_of c) (blank c) (view c)) (term_scroll_if_needed c1)"
      using c'(1,3,6) b1 on con_keeps_trans [OF k1 c'(2)] by (auto simp: writes_def)
  qed
qed

text \<open>A write from a state that has been drawn on is one from the state before.\<close>

lemma writes_after_draw:
  assumes d: "only_draws c (Some c1)" and w: "writes c1 t r" shows "writes c t r"
proof -
  have k: "con_keeps c c1" using only_draws_paints [OF d] by (simp add: paints_def)
  have b: "blank c1 = blank c" using paintsD [OF only_draws_paints [OF d]] by simp
  show ?thesis using w mirrored_only_draws [OF d] con_keeps_trans [OF k] b by (auto simp: writes_def)
qed

lemma view_only_draws: "only_draws c (Some c1) \<Longrightarrow> view c1 = view c"
  using mirrored_only_draws paintsD [OF only_draws_paints] by (simp add: view_def)

lemma writes_self:
  assumes "con_keeps c c'" "on_screen c'" "blank c' = blank c" "mirrored c \<longrightarrow> mirrored c'" "displays c' t"
  shows "writes c t (Some c')"
  using assms by (simp add: writes_def)

lemma write_newline_writes:
  assumes inv: "con_inv c"
  shows "writes c (terminal_newline (rows_of c) (blank c) (view c)) (write_newline c)"
proof -
  have g: "con_geom c" and on: "on_screen c" using inv by (simp_all add: con_inv_def)
  obtain m where m: "hide_cursor c = Some (c\<lparr>fb_mem := m\<rparr>)" using hide_cursor_only_draws [OF g] by (auto elim: only_drawsE)
  have d: "only_draws c (Some (c\<lparr>fb_mem := m\<rparr>))" using hide_cursor_only_draws [OF g] m by simp
  let ?c1 = "c\<lparr>fb_mem := m\<rparr>"
  have "writes ?c1 (terminal_newline (rows_of ?c1) (blank ?c1) (view ?c1))
    (term_scroll_if_needed (?c1\<lparr>cursor_col := 0, cursor_row := cursor_row ?c1 + 1\<rparr>))"
    by (rule newline_writes) (use g on in \<open>simp_all add: on_screen_def\<close>)
  then have w: "writes c (terminal_newline (rows_of c) (blank c) (view c))
    (term_scroll_if_needed (?c1\<lparr>cursor_col := 0, cursor_row := cursor_row ?c1 + 1\<rparr>))"
    using writes_after_draw [OF d] view_only_draws [OF d] by (simp add: blank_def)
  then obtain c2 where c2: "term_scroll_if_needed (?c1\<lparr>cursor_col := 0, cursor_row := cursor_row ?c1 + 1\<rparr>) = Some c2"
    by (auto simp: writes_def)
  show ?thesis using writes_refresh [OF g] w c2 m by (simp add: write_newline_def)
qed

lemma write_return_writes:
  assumes inv: "con_inv c"
  shows "writes c (screen c, unat (cursor_row c), 0) (write_return c)"
proof -
  have g: "con_geom c" and on: "on_screen c" using inv by (simp_all add: con_inv_def)
  obtain m where m: "hide_cursor c = Some (c\<lparr>fb_mem := m\<rparr>)" "con_keeps c (c\<lparr>fb_mem := m\<rparr>)"
    using hide_cursor_only_draws [OF g] by (rule only_drawsE)
  have "writes c (screen c, unat (cursor_row c), 0) (Some (c\<lparr>fb_mem := m, cursor_col := 0\<rparr>))"
  proof (rule writes_self)
    show "con_keeps c (c\<lparr>fb_mem := m, cursor_col := 0\<rparr>)" using m(2) by (simp add: con_keeps_def)
    show "displays (c\<lparr>fb_mem := m, cursor_col := 0\<rparr>) (screen c, unat (cursor_row c), 0)"
      by (simp add: displays_def same_grid_def screen_def cell_at_def)
  qed (use on in \<open>auto simp: on_screen_def blank_def mirrored_def cell_at_def word_less_nat_alt\<close>)
  then show ?thesis using writes_refresh [OF g] m(1) by (simp add: write_return_def)
qed

text \<open>Writing the cell at a position of the screen, in the arrays and on the display.\<close>

lemma displays_put:
  assumes g: "con_geom c" and k: "con_keeps c c'" and s: "screen c' = screen (put_cell (row * cols_of c + col) x c)"
    and pos: "row < rows_of c" "col < cols_of c"
  shows "same_grid c' (screen c') (grid_put row col x (screen c))"
  unfolding same_grid_def grid_put_def s
  using screen_put_cell [OF g pos] con_keeps_dims [OF k] by auto

lemma set_vga_put:
  assumes g: "con_geom c" and b: "backend c = DISPLAY_VGA_TEXT" and pos: "unat row < rows_of c" "unat col < cols_of c"
    and c1: "c1 = put_cell (text_index c row col) x c"
  shows "\<exists>c2. set_vga (vga_index row col) (vga_cell x) c1 = Some c2 \<and> paints c c2 \<and> screen c2 = screen c1 \<and>
    (mirrored c \<longrightarrow> mirrored c2)"
proof -
  have C: "cols_of c = 80" using g b by (simp add: con_geom_def VGA_sizes)
  have i: "vga_index row col = text_index c row col" by (simp add: vga_index_def text_index_eq VGA_sizes C)
  have lt: "vga_index row col < VGA_CELLS"
    using geom_vga_index [OF g b pos] by (simp add: vga_index_def VGA_sizes)
  let ?c2 = "c1\<lparr>vga := (vga c1)[vga_index row col := vga_cell x]\<rparr>"
  have "set_vga (vga_index row col) (vga_cell x) c1 = Some ?c2" using lt by (simp add: set_vga_def)
  moreover have "paints c ?c2" using c1 by (simp add: paints_def con_keeps_def put_cell_def)
  moreover have "screen ?c2 = screen c1" by (simp add: screen_def cell_at_def fun_eq_iff)
  moreover have "mirrored ?c2" if m: "mirrored c"
    unfolding mirrored_def
  proof (intro impI allI)
    fix j assume j: "j < VGA_CELLS"
    have cell: "cell_at ?c2 j = cell_at c1 j" by (simp add: cell_at_def)
    have lt': "text_index c row col < TEXT_CELLS" using lt i by (simp add: TEXT_CELLS_def VGA_CELLS_def)
    have "cell_at c1 j = (if text_index c row col = j then x else cell_at c j)"
      unfolding c1 by (rule cell_at_put_cell [OF g lt'])
    moreover have "vga ?c2 ! j = (if text_index c row col = j then vga_cell x else vga c ! j)"
      using j g lt by (simp add: c1 i nth_list_update con_geom_def)
    ultimately show "vga ?c2 ! j = vga_cell (cell_at ?c2 j)" using m b j cell by (simp add: mirrored_def)
  qed
  ultimately show ?thesis by blast
qed

lemma show_put:
  assumes g: "con_geom c" and pos: "unat row < rows_of c" "unat col < cols_of c"
  obtains c2 where "set_text (text_index c row col) x c = Some (put_cell (text_index c row col) x c)"
    and "(if backend c = DISPLAY_FRAMEBUFFER then fb_draw_cell row col vis (put_cell (text_index c row col) x c)
          else set_vga (vga_index row col) (vga_cell x) (put_cell (text_index c row col) x c)) = Some c2"
    and "paints c c2" "mirrored c \<longrightarrow> mirrored c2" "same_grid c2 (screen c2) (grid_put (unat row) (unat col) x (screen c))"
proof -
  let ?c1 = "put_cell (text_index c row col) x c"
  have "text_index c row col < TEXT_CELLS" unfolding text_index_eq by (rule geom_index [OF g pos])
  then have st: "set_text (text_index c row col) x c = Some ?c1" by (rule set_text_eq)
  have g1: "con_geom ?c1" by (rule paints_geom [OF _ g]) simp
  have "\<exists>c2. (if backend c = DISPLAY_FRAMEBUFFER then fb_draw_cell row col vis ?c1
      else set_vga (vga_index row col) (vga_cell x) ?c1) = Some c2 \<and> paints c c2 \<and> screen c2 = screen ?c1 \<and>
      (mirrored c \<longrightarrow> mirrored c2)"
  proof (cases "backend c")
    case DISPLAY_VGA_TEXT
    then show ?thesis using set_vga_put [OF g _ pos refl] by simp
  next
    case DISPLAY_FRAMEBUFFER
    have od: "only_draws ?c1 (fb_draw_cell row col vis ?c1)"
      by (rule draw_cell_only_draws [OF g1]) (use pos in \<open>simp_all add: word_less_nat_alt\<close>)
    then obtain m where m: "fb_draw_cell row col vis ?c1 = Some (?c1\<lparr>fb_mem := m\<rparr>)" by (rule only_drawsE)
    have "paints ?c1 (?c1\<lparr>fb_mem := m\<rparr>)" using only_draws_paints od m by metis
    then have "paints c (?c1\<lparr>fb_mem := m\<rparr>)" by (rule paints_trans [rotated]) simp
    then show ?thesis using DISPLAY_FRAMEBUFFER m by (auto simp: mirrored_def)
  qed
  then obtain c2 where c2: "(if backend c = DISPLAY_FRAMEBUFFER then fb_draw_cell row col vis ?c1
      else set_vga (vga_index row col) (vga_cell x) ?c1) = Some c2" "paints c c2" "screen c2 = screen ?c1"
      "mirrored c \<longrightarrow> mirrored c2" by blast
  have "same_grid c2 (screen c2) (grid_put (unat row) (unat col) x (screen c))"
    by (rule displays_put [OF g _ _ pos]) (use c2(2,3) in \<open>simp_all add: paints_def text_index_eq\<close>)
  then show thesis using that [OF st c2(1,2,4)] by blast
qed

lemma write_backspace_writes:
  assumes inv: "con_inv c"
  shows "writes c (if cursor_col c = 0 then view c
      else (grid_put (unat (cursor_row c)) (unat (cursor_col c) - 1) (blank c) (screen c),
            unat (cursor_row c), unat (cursor_col c) - 1)) (write_backspace c)"
proof (cases "cursor_col c = 0")
  case True
  then show ?thesis using inv
    by (simp add: write_backspace_def writes_def con_inv_def displays_def view_def)
next
  case False
  have g: "con_geom c" and on: "on_screen c" using inv by (simp_all add: con_inv_def)
  define c0 where "c0 = c\<lparr>cursor_col := cursor_col c - 1\<rparr>"
  have dec: "unat (cursor_col c - 1) = unat (cursor_col c) - 1" using False by (rule unat_minus_one)
  have g0: "con_geom c0" and k0: "con_keeps c c0" and m0: "mirrored c0 = mirrored c" and b0: "blank c0 = blank c"
    and s0: "screen c0 = screen c"
    using g by (simp_all add: c0_def con_geom_def con_keeps_def mirrored_def blank_def screen_def cell_at_def fun_eq_iff)
  have pos: "unat (cursor_row c0) < rows_of c0" "unat (cursor_col c0) < cols_of c0"
    using cursor_unat(1,2) [OF inv] dec by (simp_all add: c0_def)
  obtain c2 where c2: "set_text (text_index c0 (cursor_row c0) (cursor_col c0)) (blank c0) c0
      = Some (put_cell (text_index c0 (cursor_row c0) (cursor_col c0)) (blank c0) c0)"
    "(if backend c0 = DISPLAY_FRAMEBUFFER then fb_draw_cell (cursor_row c0) (cursor_col c0) True (put_cell (text_index c0 (cursor_row c0) (cursor_col c0)) (blank c0) c0)
          else set_vga (vga_index (cursor_row c0) (cursor_col c0)) (vga_cell (blank c0)) (put_cell (text_index c0 (cursor_row c0) (cursor_col c0)) (blank c0) c0)) = Some c2"
    "paints c0 c2" "mirrored c0 \<longrightarrow> mirrored c2"
    "same_grid c2 (screen c2) (grid_put (unat (cursor_row c0)) (unat (cursor_col c0)) (blank c0) (screen c0))"
    using show_put [OF g0 pos] by blast
  note d = paintsD [OF c2(3)]
  have w: "writes c (grid_put (unat (cursor_row c)) (unat (cursor_col c) - 1) (blank c) (screen c),
            unat (cursor_row c), unat (cursor_col c) - 1) (Some c2)"
  proof (rule writes_self)
    show "con_keeps c c2" using con_keeps_trans [OF k0] c2(3) by (simp add: paints_def)
    show "on_screen c2" using pos d by (simp add: on_screen_def word_less_nat_alt)
    show "blank c2 = blank c" "mirrored c \<longrightarrow> mirrored c2" using d b0 m0 c2(4) by simp_all
    show "displays c2 (grid_put (unat (cursor_row c)) (unat (cursor_col c) - 1) (blank c) (screen c),
            unat (cursor_row c), unat (cursor_col c) - 1)"
      using c2(5) d by (simp add: displays_def s0 b0) (simp add: c0_def dec)
  qed
  let ?put = "put_cell (text_index c0 (cursor_row c0) (cursor_col c0)) (blank c0) c0"
  have "0 < cursor_col c" using False by (simp add: word_gt_0)
  then have eq: "write_backspace c = (if backend c0 = DISPLAY_FRAMEBUFFER
      then fb_draw_cell (cursor_row c0) (cursor_col c0) True ?put
      else map_option term_update_hw_cursor (set_vga (vga_index (cursor_row c0) (cursor_col c0)) (vga_cell (blank c0)) ?put))"
    using c2(1) by (simp add: write_backspace_def c0_def [symmetric]) (simp add: blank_def)
  have "writes c (grid_put (unat (cursor_row c)) (unat (cursor_col c) - 1) (blank c) (screen c),
            unat (cursor_row c), unat (cursor_col c) - 1) (write_backspace c)"
  proof (cases "backend c0")
    case DISPLAY_VGA_TEXT
    then have "write_backspace c = Some (term_update_hw_cursor c2)" using eq c2(2) by simp
    then show ?thesis using writes_hw_cursor [OF w] by simp
  next
    case DISPLAY_FRAMEBUFFER
    then have "write_backspace c = Some c2" using eq c2(2) by simp
    then show ?thesis using w by simp
  qed
  then show ?thesis using False by simp
qed

lemma write_glyph_writes:
  assumes inv: "con_inv c"
  shows "writes c (let g = grid_put (unat (cursor_row c)) (unat (cursor_col c)) (ch, current_fg c, current_bg c) (screen c) in
      if unat (cursor_col c) + 1 < cols_of c then (g, unat (cursor_row c), unat (cursor_col c) + 1)
      else terminal_newline (rows_of c) (blank c) (g, unat (cursor_row c), unat (cursor_col c))) (write_glyph ch c)"
proof -
  define x where "x = (ch, current_fg c, current_bg c)"
  define G where "G = grid_put (unat (cursor_row c)) (unat (cursor_col c)) x (screen c)"
  define T where "T = (if unat (cursor_col c) + 1 < cols_of c then (G, unat (cursor_row c), unat (cursor_col c) + 1)
      else terminal_newline (rows_of c) (blank c) (G, unat (cursor_row c), unat (cursor_col c)))"
  have g: "con_geom c" and on: "on_screen c" using inv by (simp_all add: con_inv_def)
  note cu = cursor_unat [OF inv]
  define c1 where "c1 = put_cell (text_index c (cursor_row c) (cursor_col c)) x c"
  obtain c2 where c2: "set_text (text_index c (cursor_row c) (cursor_col c)) x c = Some c1"
    "(if backend c = DISPLAY_FRAMEBUFFER then fb_draw_cell (cursor_row c) (cursor_col c) False c1
      else set_vga (vga_index (cursor_row c) (cursor_col c)) (vga_cell x) c1) = Some c2"
    "paints c c2" "mirrored c \<longrightarrow> mirrored c2" "same_grid c2 (screen c2) G"
    using show_put [OF g cu(1,2), of x False] unfolding c1_def G_def by blast
  note d = paintsD [OF c2(3)]
  define c3 where "c3 = c2\<lparr>cursor_col := cursor_col c2 + 1\<rparr>"
  have k3: "con_keeps c c3" using c2(3) by (simp add: paints_def con_keeps_def c3_def)
  have g3: "con_geom c3" by (rule con_keeps_geom [OF k3 g])
  have s3: "screen c3 = screen c2" and m3: "mirrored c3 = mirrored c2" and b3: "blank c3 = blank c"
    using d by (simp_all add: c3_def screen_def cell_at_def fun_eq_iff mirrored_def blank_def)
  have dims3: "text_rows c3 = text_rows c" "text_cols c3 = text_cols c" "cursor_row c3 = cursor_row c"
    "cursor_col c3 = cursor_col c + 1" "backend c3 = backend c" using d by (simp_all add: c3_def)
  have grid3: "same_grid c3 (screen c3) G" using c2(5) dims3 d by (simp add: same_grid_def s3)
  define r where "r = (if cursor_col c3 \<ge> text_cols c3
      then term_scroll_if_needed (c3\<lparr>cursor_col := 0, cursor_row := cursor_row c3 + 1\<rparr>) else Some c3)"
  have w: "writes c T r"
  proof (cases "unat (cursor_col c) + 1 < cols_of c")
    case True
    then have "r = Some c3" using dims3 cu(4) by (simp add: r_def word_le_nat_alt)
    moreover have "writes c T (Some c3)"
    proof (rule writes_self [OF k3])
      show "on_screen c3" using True dims3 cu by (simp add: on_screen_def word_less_nat_alt)
      show "displays c3 T" using True grid3 dims3 cu(4) by (simp add: displays_def T_def)
    qed (use b3 m3 c2(4) in auto)
    ultimately show ?thesis by simp
  next
    case False
    then have r: "r = term_scroll_if_needed (c3\<lparr>cursor_col := 0, cursor_row := cursor_row c3 + 1\<rparr>)"
      using dims3 cu(4) by (simp add: r_def word_le_nat_alt)
    have "writes c3 (terminal_newline (rows_of c3) (blank c3) (view c3)) r"
      unfolding r by (rule newline_writes [OF g3]) (use cu(1) dims3 in \<open>simp add: word_less_nat_alt\<close>)
    then obtain c4 where c4: "r = Some c4" "con_keeps c3 c4" "on_screen c4" "blank c4 = blank c3"
      "mirrored c3 \<longrightarrow> mirrored c4" "displays c4 (terminal_newline (rows_of c3) (blank c3) (view c3))"
      unfolding writes_def by blast
    have dims4: "text_rows c4 = text_rows c" "text_cols c4 = text_cols c" using con_keeps_dims [OF c4(2)] dims3 by simp_all
    have "displays c4 T"
    proof -
      have "T = terminal_newline (rows_of c) (blank c) (G, unat (cursor_row c), unat (cursor_col c))"
        using False by (simp add: T_def)
      then show ?thesis
        using c4(6) grid3 dims3 dims4
        by (auto simp: displays_def view_def terminal_newline_def same_grid_def b3 grid_scroll_def)
    qed
    moreover have "con_keeps c c4" by (rule con_keeps_trans [OF k3 c4(2)])
    ultimately show ?thesis using c4 b3 m3 c2(4) by (auto simp: writes_def)
  qed
  then obtain c5 where c5: "r = Some c5" by (auto simp: writes_def)
  have w5: "writes c T (Some c5)" using w c5 by simp
  have g5: "con_geom c5" by (rule writes_geom [OF g w5])
  have b1: "backend c1 = backend c" by (simp add: c1_def)
  have c1s: "cursor_row c1 = cursor_row c" "cursor_col c1 = cursor_col c" by (simp_all add: c1_def)
  have b5: "backend c5 = backend c" using w5 by (auto simp: writes_def con_keeps_def)
  have eq: "write_glyph ch c = (if backend c5 = DISPLAY_FRAMEBUFFER then fb_set_cursor (cursor_row c5) (cursor_col c5) c5
      else Some (term_update_hw_cursor c5))"
    using c2(1,2) c5 b1 c1s unfolding write_glyph_def Let_def x_def [symmetric] r_def c3_def
    by (cases "backend c"; cases "text_cols c2 \<le> cursor_col c2 + 1"; simp)
  have "writes c T (write_glyph ch c)"
  proof (cases "backend c5")
    case DISPLAY_VGA_TEXT
    then show ?thesis using writes_hw_cursor [OF w5] eq by simp
  next
    case DISPLAY_FRAMEBUFFER
    obtain m where m: "draw_cursor False c5 = Some (c5\<lparr>fb_mem := m\<rparr>)"
      using draw_cursor_only_draws [OF g5] by (rule only_drawsE)
    have w6: "writes c T (Some (c5\<lparr>fb_mem := m\<rparr>))"
      using writes_draw [OF w5] draw_cursor_only_draws [OF g5, of False] m by simp
    have "fb_set_cursor (cursor_row c5) (cursor_col c5) c5 = draw_cursor True (c5\<lparr>fb_mem := m\<rparr>)"
      by (simp add: fb_set_cursor_def m)
    then show ?thesis
      using writes_draw [OF w6 draw_cursor_only_draws] g5 eq DISPLAY_FRAMEBUFFER by simp
  qed
  then show ?thesis by (simp only: T_def G_def x_def Let_def)
qed

lemma write_local_char_writes:
  assumes inv: "con_inv c"
  shows "writes c (terminal_write (rows_of c) (cols_of c) (ch, current_fg c, current_bg c) (view c)) (write_local_char ch c)"
proof -
  have b: "(CHR '' '', current_fg c, current_bg c) = blank c" by (simp add: blank_def)
  show ?thesis
    using write_newline_writes [OF inv] write_return_writes [OF inv] write_backspace_writes [OF inv]
      write_glyph_writes [OF inv, of ch]
    by (auto simp: terminal_write_def write_local_char_def view_def b Let_def unat_eq_0 split: if_splits)
qed

section \<open>The other calls\<close>

text \<open>Any call: the next state is on the screen, of the same shape, and mirrored when the one before was.\<close>

definition con_safe :: "console_state \<Rightarrow> console_state option \<Rightarrow> bool" where
  "con_safe c r \<longleftrightarrow> (\<exists>c'. r = Some c' \<and> con_keeps c c' \<and> con_inv c' \<and> (mirrored c \<longrightarrow> mirrored c'))"

lemma con_safe_self: "con_inv c \<Longrightarrow> con_safe c (Some c)"
  by (auto simp: con_safe_def)

lemma con_safe_bind:
  assumes "con_safe c r" and "\<And>c'. con_keeps c c' \<Longrightarrow> con_inv c' \<Longrightarrow> con_safe c' (f c')"
  shows "con_safe c (r \<bind> f)"
proof -
  obtain c1 where 1: "r = Some c1" "con_keeps c c1" "con_inv c1" "mirrored c \<longrightarrow> mirrored c1"
    using assms(1) by (auto simp: con_safe_def)
  obtain c2 where 2: "f c1 = Some c2" "con_keeps c1 c2" "con_inv c2" "mirrored c1 \<longrightarrow> mirrored c2"
    using assms(2) [OF 1(2,3)] by (auto simp: con_safe_def)
  then show ?thesis using 1 con_keeps_trans [OF 1(2) 2(2)] by (auto simp: con_safe_def)
qed

lemma writes_safe: "con_inv c \<Longrightarrow> writes c t r \<Longrightarrow> con_safe c r"
  by (auto simp: writes_def con_safe_def con_inv_def intro: con_keeps_geom)

lemma write_local_char_safe: "con_inv c \<Longrightarrow> con_safe c (write_local_char ch c)"
  by (rule writes_safe [OF _ write_local_char_writes])

text \<open>The serial port is not seen on the screen.\<close>

lemma serial_send_frame [frame_simps]:
  "\<exists>w z. serial_send ch c = c\<lparr>serial_waits := w, serial_sent := z\<rparr>"
proof (cases "(case serial_waits c of [] \<Rightarrow> 0 | w # _ \<Rightarrow> w) \<ge> SERIAL_TX_SPIN_MAX")
  case True
  then have "serial_send ch c = c\<lparr>serial_waits := tl (serial_waits c), serial_sent := serial_sent c\<rparr>"
    by (simp add: serial_send_def)
  then show ?thesis by blast
next
  case False
  then have "serial_send ch c = c\<lparr>serial_waits := tl (serial_waits c), serial_sent := serial_sent c @ [ch]\<rparr>"
    by (simp add: serial_send_def)
  then show ?thesis by blast
qed

lemma serial_putchar_frame: "\<exists>w z. serial_putchar ch c = c\<lparr>serial_waits := w, serial_sent := z\<rparr>"
proof -
  obtain w1 o1 where 1: "serial_send CHR 0x0D c = c\<lparr>serial_waits := w1, serial_sent := o1\<rparr>"
    using serial_send_frame by blast
  obtain w2 o2 where 2: "serial_send ch (c\<lparr>serial_waits := w1, serial_sent := o1\<rparr>) =
    c\<lparr>serial_waits := w1, serial_sent := o1\<rparr>\<lparr>serial_waits := w2, serial_sent := o2\<rparr>" using serial_send_frame by blast
  obtain w3 o3 where 3: "serial_send ch c = c\<lparr>serial_waits := w3, serial_sent := o3\<rparr>" using serial_send_frame by blast
  have 4: "c = c\<lparr>serial_waits := serial_waits c, serial_sent := serial_sent c\<rparr>" by simp
  show ?thesis
  proof (cases "serial_ready c")
    case True
    then show ?thesis using 1 2 3 by (cases "ch = CHR 0x0A") (auto simp: serial_putchar_def)
  next
    case False
    then show ?thesis using 4 unfolding serial_putchar_def by (simp only: if_True simp_thms) blast
  qed
qed

lemma serial_putchar_safe:
  assumes "con_inv c" shows "con_safe c (Some (serial_putchar ch c))"
proof -
  obtain w z where "serial_putchar ch c = c\<lparr>serial_waits := w, serial_sent := z\<rparr>" using serial_putchar_frame by blast
  then show ?thesis
    using assms by (simp add: con_safe_def con_keeps_def con_inv_def con_geom_def on_screen_def mirrored_def cell_at_def)
qed

lemma console_putchar_safe: "con_inv c \<Longrightarrow> con_safe c (console_putchar target ch c)"
  unfolding console_putchar_def
  by (rule con_safe_bind) (auto intro: write_local_char_safe con_safe_self serial_putchar_safe)

lemma console_print_safe: "con_inv c \<Longrightarrow> con_safe c (console_print target s c)"
  by (induction s arbitrary: c) (auto intro!: con_safe_self con_safe_bind console_putchar_safe)

lemma term_set_color_safe: "con_inv c \<Longrightarrow> con_safe c (Some (term_set_color fg bg c))"
  by (simp add: term_set_color_def con_safe_def con_keeps_def con_inv_def con_geom_def on_screen_def mirrored_def cell_at_def)

text \<open>Clearing also works before the cursor is on the screen, and brings the mirror about.\<close>

lemma clear_text_loop:
  assumes g: "con_geom c" and n: "n \<le> TEXT_CELLS"
  shows "\<exists>s. for_loop 0 n (\<lambda>i c. set_text i (blank c) c) c = Some s \<and> paints c s \<and> vga s = vga c \<and>
    (\<forall>i < n. cell_at s i = blank c)"
proof (rule for_loop_inv [where I = "\<lambda>n s. paints c s \<and> vga s = vga c \<and> (\<forall>i < n. cell_at s i = blank c)"])
  fix i s assume i: "0 \<le> i" "i < n" and I: "paints c s \<and> vga s = vga c \<and> (\<forall>j < i. cell_at s j = blank c)"
  have p: "paints c s" using I by blast
  note d = paintsD [OF p]
  have lt: "i < TEXT_CELLS" using i n by simp
  let ?s = "put_cell i (blank s) s"
  have "paints c ?s" by (rule paints_trans [OF p]) simp
  moreover have "cell_at ?s j = blank c" if "j < Suc i" for j
    using cell_at_put_cell [OF paints_geom [OF p g] lt] I that d by (auto simp: less_Suc_eq)
  ultimately show "\<exists>s'. set_text i (blank s) s = Some s' \<and> paints c s' \<and> vga s' = vga c \<and> (\<forall>j < Suc i. cell_at s' j = blank c)"
    using I by (intro exI [of _ ?s]) (simp add: set_text_eq [OF lt])
qed simp_all

lemma clear_vga_loop:
  assumes len: "length (vga c) = VGA_CELLS" and n: "n \<le> VGA_CELLS"
  shows "\<exists>v. for_loop 0 n (\<lambda>i c. set_vga i (vga_cell (blank c)) c) c = Some (c\<lparr>vga := v\<rparr>) \<and> length v = VGA_CELLS \<and>
    (\<forall>i < n. v ! i = vga_cell (blank c))"
proof -
  let ?I = "\<lambda>n s. \<exists>v. s = c\<lparr>vga := v\<rparr> \<and> length v = VGA_CELLS \<and> (\<forall>i < n. v ! i = vga_cell (blank c))"
  have "\<exists>s. for_loop 0 n (\<lambda>i c. set_vga i (vga_cell (blank c)) c) c = Some s \<and> ?I n s"
  proof (rule for_loop_inv [where I = ?I])
    show "?I 0 c" by (rule exI [of _ "vga c"]) (simp add: len)
  next
    fix i s assume i: "0 \<le> i" "i < n" and I: "?I i s"
    then obtain v where v: "s = c\<lparr>vga := v\<rparr>" "length v = VGA_CELLS" "\<forall>j < i. v ! j = vga_cell (blank c)" by blast
    have "set_vga i (vga_cell (blank s)) s = Some (c\<lparr>vga := v[i := vga_cell (blank c)]\<rparr>)"
      using i n by (simp add: v(1) set_vga_def) (simp add: blank_def)
    moreover have "?I (Suc i) (c\<lparr>vga := v[i := vga_cell (blank c)]\<rparr>)"
      by (rule exI [of _ "v[i := vga_cell (blank c)]"]) (use v i n in \<open>auto simp: nth_list_update less_Suc_eq\<close>)
    ultimately show "\<exists>s'. set_vga i (vga_cell (blank s)) s = Some s' \<and> ?I (Suc i) s'" by blast
  qed simp
  then show ?thesis by blast
qed

lemma term_clear_spec:
  assumes g: "con_geom c"
  shows "\<exists>c'. term_clear c = Some c' \<and> con_keeps c c' \<and> con_inv c' \<and> mirrored c' \<and>
    displays c' ((\<lambda>_ _. blank c), 0, 0)"
proof -
  have R: "0 < rows_of c" "rows_of c \<le> 60" and C: "0 < cols_of c" "cols_of c \<le> 120" using g by (simp_all add: con_geom_def)
  define N where "N = cols_of c * rows_of c"
  have le: "N \<le> TEXT_CELLS" unfolding N_def TEXT_CELLS_def using mult_le_mono [OF C(2) R(2)] by simp
  have n: "unat (ucast (text_cols c) * ucast (text_rows c) :: u32) = N"
    using le R C by (simp add: N_def unat_word_ariths unsigned_ucast_eq take_bit_nat_eq_self TEXT_CELLS_def)
  obtain s where s: "for_loop 0 N (\<lambda>i c. set_text i (blank c) c) c = Some s" "paints c s" "vga s = vga c"
    "\<forall>i < N. cell_at s i = blank c" using clear_text_loop [OF g le] by blast
  note d = paintsD [OF s(2)] and gs = paints_geom [OF s(2) g]
  define F where "F = s\<lparr>fb_mem := fb_fill_rect (fb s) 0 0 (fb_width (fb s)) (fb_height (fb s)) (current_bg s) (fb_mem s)\<rparr>"
  define D where "D = (if backend s = DISPLAY_FRAMEBUFFER then Some F
    else for_loop 0 (unat VGA_COLS * unat VGA_ROWS) (\<lambda>i c. set_vga i (vga_cell (blank c)) c) s)"
  have "\<exists>t. D = Some t \<and> paints s t \<and> cell_at t = cell_at s \<and>
      (backend s = DISPLAY_VGA_TEXT \<longrightarrow> (\<forall>i < VGA_CELLS. vga t ! i = vga_cell (blank c)))"
  proof (cases "backend s")
    case DISPLAY_VGA_TEXT
    have "length (vga s) = VGA_CELLS" using gs by (simp add: con_geom_def)
    then obtain v where v: "for_loop 0 2000 (\<lambda>i c. set_vga i (vga_cell (blank c)) c) s = Some (s\<lparr>vga := v\<rparr>)"
      "length v = VGA_CELLS" "\<forall>i < 2000. v ! i = vga_cell (blank s)"
      using clear_vga_loop [of s 2000] by (auto simp: VGA_CELLS_def)
    have "D = Some (s\<lparr>vga := v\<rparr>)" using v(1) DISPLAY_VGA_TEXT by (simp add: D_def VGA_sizes)
    moreover have "paints s (s\<lparr>vga := v\<rparr>)" using v(2) gs by (simp add: paints_def con_keeps_def con_geom_def)
    moreover have "cell_at (s\<lparr>vga := v\<rparr>) = cell_at s" by (simp add: cell_at_def fun_eq_iff)
    ultimately show ?thesis using v(3) d(6) by (auto simp: VGA_CELLS_def)
  next
    case DISPLAY_FRAMEBUFFER
    then have "D = Some F" by (simp add: D_def)
    moreover have "paints s F" by (simp add: F_def paints_def con_keeps_def fill_rect_off_frame)
    moreover have "cell_at F = cell_at s" by (simp add: F_def cell_at_def fun_eq_iff)
    ultimately show ?thesis using DISPLAY_FRAMEBUFFER by auto
  qed
  then obtain t where t: "D = Some t" "paints s t" "cell_at t = cell_at s"
    "backend s = DISPLAY_VGA_TEXT \<longrightarrow> (\<forall>i < VGA_CELLS. vga t ! i = vga_cell (blank c))" by blast
  define u where "u = t\<lparr>cursor_row := 0, cursor_col := 0\<rparr>"
  have kt: "con_keeps c t" using s(2) t(2) con_keeps_trans unfolding paints_def by blast
  have ku: "con_keeps c u" using kt by (simp add: con_keeps_def u_def)
  have gu: "con_geom u" by (rule con_keeps_geom [OF ku g])
  have bu: "blank u = blank c" using paintsD [OF t(2)] d by (simp add: u_def blank_def)
  have cells: "cell_at u i = blank c" if "i < N" for i
  proof -
    have "cell_at u i = cell_at t i" by (simp add: u_def cell_at_def)
    then show ?thesis using that s(4) t(3) by simp
  qed
  have onu: "on_screen u" using R C con_keeps_dims [OF ku] by (simp add: on_screen_def u_def word_less_nat_alt)
  have mu: "mirrored u"
    unfolding mirrored_def
  proof (intro impI allI)
    fix i assume b: "backend u = DISPLAY_VGA_TEXT" and i: "i < VGA_CELLS"
    have bc: "backend c = DISPLAY_VGA_TEXT" using b con_keeps_dims(3) [OF ku] by simp
    then have "N = 2000" using g by (simp add: N_def con_geom_def VGA_sizes)
    then have "cell_at u i = blank c" using cells i by (simp add: VGA_CELLS_def)
    then show "vga u ! i = vga_cell (cell_at u i)" using t(4) i bc d by (simp add: u_def)
  qed
  have du: "displays u ((\<lambda>_ _. blank c), 0, 0)"
  proof -
    have "screen u r k = blank c" if "r < rows_of c" "k < cols_of c" for r k
      using cells [of "r * cols_of c + k"] grid_bound [OF that, of "rows_of c" "cols_of c"] con_keeps_dims [OF ku]
      by (simp add: screen_def N_def mult.commute)
    then show ?thesis using con_keeps_dims [OF ku] by (simp add: displays_def same_grid_def) (simp add: u_def)
  qed
  have eq: "term_clear c = (if backend u = DISPLAY_FRAMEBUFFER then fb_redraw_all u else Some (term_update_hw_cursor u))"
    using s(1) t(1) unfolding term_clear_def n D_def F_def by (simp add: u_def)
  have w: "writes c ((\<lambda>_ _. blank c), 0, 0) (Some u)"
    by (rule writes_self [OF ku onu bu]) (use mu du in auto)
  have wc: "writes c ((\<lambda>_ _. blank c), 0, 0) (term_clear c) \<and> (\<forall>c'. term_clear c = Some c' \<longrightarrow> mirrored c')"
  proof (cases "backend u")
    case DISPLAY_VGA_TEXT
    then show ?thesis using eq writes_hw_cursor [OF w] mu
      by (auto simp: mirrored_def term_update_hw_cursor_def Let_def cell_at_def)
  next
    case DISPLAY_FRAMEBUFFER
    then show ?thesis using eq writes_draw [OF w redraw_only_draws [OF gu]] redraw_only_draws [OF gu]
      by (auto simp: mirrored_def only_draws_def)
  qed
  then show ?thesis unfolding writes_def con_inv_def using g by (auto intro: con_keeps_geom)
qed

end
