(* ===== verification/ConsoleProps.thy ===== *)
theory ConsoleProps
  imports ConsoleInv
begin

text \<open>
  The properties of the console: whatever is printed, the cursor stays on the screen and no
  byte outside the arrays and the framebuffer is written; a written character has the effect of
  an abstract terminal; a printed number is read back by \<^verbatim>\<open>parse_u32_dec\<close>.
\<close>

section \<open>Printed numbers\<close>

lemma digit_char:
  assumes "d < 10"
  shows "is_digit (char_of (48 + d))" "digit_val (char_of (48 + d)) = d" "char_of (48 + d) \<noteq> NUL"
proof -
  have "of_char (char_of (48 + d) :: char) = 48 + d" using assms by simp
  then have val: "char_val (char_of (48 + d)) = 48 + int d" using assms by (simp add: char_val_def Let_def)
  then show "is_digit (char_of (48 + d))" "digit_val (char_of (48 + d)) = d"
    using assms by (simp_all add: is_digit_def char_between_def digit_val_def char_val_def)
  have "char_val NUL = 0" by (simp add: char_val_def)
  then show "char_of (48 + d) \<noteq> NUL" using val by (metis add_nonneg_eq_0_iff of_nat_0_le_iff zero_le_numeral zero_neq_numeral)
qed

lemma last_digit: "unat (v mod 10 :: u32) < 10"
  by (simp add: unat_mod)

lemmas dec_digit = digit_char [OF last_digit]

lemma dec_value_snoc: "dec_value (s @ [c]) = dec_value s * 10 + digit_val c"
  by (simp add: dec_value_def)

lemma dec_loop_digits: "list_all is_digit (dec_loop k v) \<and> NUL \<notin> set (dec_loop k v)"
  by (induction k v rule: dec_loop.induct) (simp_all add: dec_digit dec_digit(3) [symmetric])

lemma dec_loop_value: "unat v < 10 ^ k \<Longrightarrow> dec_value (rev (dec_loop k v)) = unat v"
proof (induction k v rule: dec_loop.induct)
  case (2 k v)
  have "unat (v div 10) < 10 ^ k" using "2.prems" by (simp add: unat_div less_mult_imp_div_less mult.commute)
  then have "0 < v \<Longrightarrow> dec_value (rev (dec_loop k (v div 10))) = unat (v div 10)" using "2.IH" by simp
  moreover have "unat v = unat (v div 10) * 10 + unat (v mod 10)" by (simp add: unat_div unat_mod)
  ultimately have "dec_value (rev (dec_loop (Suc k) v)) = unat v" if "0 < v"
    using that by (simp only: dec_loop.simps if_True rev.simps dec_value_snoc dec_digit)
  moreover have "dec_value (rev (dec_loop (Suc k) 0)) = 0" by (simp add: dec_value_def)
  ultimately show ?case by (cases "v = 0") (simp_all only: word_gt_0 unat_0 simp_thms)
qed (simp add: dec_value_def)

lemma u32_dec_text_digits:
  "u32_dec_text v \<noteq> [] \<and> list_all is_digit (u32_dec_text v) \<and> cstr (u32_dec_text v) = u32_dec_text v"
proof (cases "v = 0")
  case False
  have "dec_loop 10 v \<noteq> []" using False by (simp add: eval_nat_numeral word_gt_0)
  then show ?thesis using False dec_loop_digits [of 10 v] by (auto simp: u32_dec_text_def)
qed (simp add: u32_dec_text_def is_digit_def char_between_def char_val_def cstr_def)

section \<open>Start-up\<close>

text \<open>The state of the static variables before \<^verbatim>\<open>kmain\<close>, as far as it matters: the arrays have their sizes.\<close>

definition con_fresh :: "console_state \<Rightarrow> bool" where
  "con_fresh c \<longleftrightarrow>
     length (text_chars c) = TEXT_CELLS \<and> length (text_fg c) = TEXT_CELLS \<and> length (text_bg c) = TEXT_CELLS \<and>
     length (vga c) = VGA_CELLS"

text \<open>
  The screen size in characters is computed in 16 bits before it is limited; these are the
  sizes that do not wrap to 0.
\<close>

definition video_fits :: "multiboot_video option \<Rightarrow> bool" where
  "video_fits mbi \<longleftrightarrow>
     (case mbi of None \<Rightarrow> True | Some i \<Rightarrow> unat (mb_fb_width i) < 524288 \<and> unat (mb_fb_height i) < 1048576)"

lemma limited_size:
  fixes w u :: u32 and limit :: u16
  defines "n \<equiv> (ucast (w div u) :: u16)"
  assumes "u \<le> w" "0 < u" "unat w div unat u < 65536" "0 < limit"
  shows "0 < unat (if n > limit then limit else n)" "unat (if n > limit then limit else n) \<le> unat limit"
proof -
  have "0 < unat w div unat u"
    using assms(2,3) by (simp add: word_le_nat_alt word_less_nat_alt div_greater_zero_iff)
  moreover have "unat n = unat w div unat u"
    using assms(4) by (simp add: n_def unsigned_ucast_eq take_bit_nat_eq_self unat_div)
  ultimately show "0 < unat (if n > limit then limit else n)" "unat (if n > limit then limit else n) \<le> unat limit"
    using assms(5) by (auto simp: word_less_nat_alt)
qed

lemma term_init_inv: "con_fresh c \<Longrightarrow> con_inv (term_init c) \<and> backend (term_init c) = DISPLAY_VGA_TEXT"
  by (simp add: term_init_def term_update_hw_cursor_def term_enable_hw_cursor_def Let_def con_inv_def con_geom_def
      con_fresh_def on_screen_def VGA_sizes) (simp add: VGA_COLS_def VGA_ROWS_def)

lemma term_init_multiboot_inv:
  assumes "con_fresh c" and "video_fits mbi"
  shows "con_inv (term_init_with_multiboot mbi magic c)"
proof -
  define c1 where "c1 = term_init c"
  have i1: "con_inv c1" and b1: "backend c1 = DISPLAY_VGA_TEXT" using term_init_inv [OF assms(1)] by (simp_all add: c1_def)
  have fb: "con_inv (c1\<lparr>fb := f\<rparr>)" for f
    using i1 by (simp add: con_inv_def con_geom_def on_screen_def)
  show ?thesis
  proof (cases mbi)
    case None
    then show ?thesis using i1 by (simp add: term_init_with_multiboot_def c1_def Let_def)
  next
    case (Some i)
    have sizes: "unat (mb_fb_width i) div unat FONT_W < 65536" "unat (mb_fb_height i) div unat CELL_H < 65536"
      using assms(2) Some by (simp_all add: video_fits_def FONT_W_def CELL_H_def less_mult_imp_div_less)
    let ?cols = "ucast (mb_fb_width i div FONT_W) :: u16"
    let ?rows = "ucast (mb_fb_height i div CELL_H) :: u16"
    have "con_inv (c1\<lparr>fb := f, text_cols := (if ?cols > MAX_CONSOLE_COLS then MAX_CONSOLE_COLS else ?cols),
        text_rows := (if ?rows > MAX_CONSOLE_ROWS then MAX_CONSOLE_ROWS else ?rows),
        backend := DISPLAY_FRAMEBUFFER, cursor_row := 0, cursor_col := 0\<rparr>)"
      if "\<not> (mb_fb_width i < FONT_W \<or> mb_fb_height i < CELL_H)" for f
    proof -
      have C: "0 < unat (if ?cols > MAX_CONSOLE_COLS then MAX_CONSOLE_COLS else ?cols)"
        "unat (if ?cols > MAX_CONSOLE_COLS then MAX_CONSOLE_COLS else ?cols) \<le> 120"
        using limited_size [of FONT_W "mb_fb_width i" MAX_CONSOLE_COLS] that sizes(1)
        by (simp_all add: FONT_W_def MAX_CONSOLE_COLS_def not_less)
      have R: "0 < unat (if ?rows > MAX_CONSOLE_ROWS then MAX_CONSOLE_ROWS else ?rows)"
        "unat (if ?rows > MAX_CONSOLE_ROWS then MAX_CONSOLE_ROWS else ?rows) \<le> 60"
        using limited_size [of CELL_H "mb_fb_height i" MAX_CONSOLE_ROWS] that sizes(2)
        by (simp_all add: CELL_H_def MAX_CONSOLE_ROWS_def not_less)
      show ?thesis using i1 C R
        by (simp only: con_inv_def con_geom_def on_screen_def console_state.simps) (simp add: word_less_nat_alt)
    qed
    then show ?thesis using i1 fb Some
      by (simp add: term_init_with_multiboot_def c1_def [symmetric] Let_def)
  qed
qed

section \<open>Any output\<close>

datatype con_op =
    Put console_target char
  | Print console_target string
  | Print_dec console_target u32
  | Print_hex console_target u32
  | Set_color u8 u8
  | Clear

fun con_op_run :: "con_op \<Rightarrow> console_state \<Rightarrow> console_state option" where
  "con_op_run (Put target ch) c = console_putchar target ch c"
| "con_op_run (Print target s) c = console_print target s c"
| "con_op_run (Print_dec target v) c = console_print_u32_dec target v c"
| "con_op_run (Print_hex target v) c = console_print_hex_u32 target v c"
| "con_op_run (Set_color fg bg) c = Some (term_set_color fg bg c)"
| "con_op_run Clear c = term_clear c"

fun con_run :: "con_op list \<Rightarrow> console_state \<Rightarrow> console_state option" where
  "con_run [] c = Some c"
| "con_run (p # ps) c = do { c \<leftarrow> con_op_run p c; con_run ps c }"

lemma term_clear_safe: "con_inv c \<Longrightarrow> con_safe c (term_clear c)"
  using term_clear_spec [of c] by (auto simp: con_safe_def con_inv_def)

lemma con_op_safe: "con_inv c \<Longrightarrow> con_safe c (con_op_run p c)"
  by (cases p) (simp_all add: console_putchar_safe console_print_safe term_set_color_safe term_clear_safe
      console_print_u32_dec_def console_print_hex_u32_def)

lemma con_run_safe: "con_inv c \<Longrightarrow> con_safe c (con_run ps c)"
  by (induction ps arbitrary: c) (auto intro!: con_safe_self con_safe_bind con_op_safe)

text \<open>
  C38: Whatever is printed after start-up, the console returns: no write goes outside its text
  arrays or the VGA memory, the cursor stays on the screen, in graphics mode no byte outside
  the framebuffer changes, and in text mode the VGA memory shows exactly the text arrays.
\<close>

theorem console_any_output_safe:
  assumes "con_fresh c0" and "video_fits mbi"
    and "c = term_init_with_multiboot mbi magic c0"
  shows "\<exists>c'. (term_clear c \<bind> con_run ps) = Some c' \<and>
    cursor_row c' < text_rows c' \<and> cursor_col c' < text_cols c' \<and>
    unat (text_rows c') * unat (text_cols c') \<le> TEXT_CELLS \<and>
    (frame_ok (fb c) \<longrightarrow> (\<forall>a. \<not> in_frame (fb c) a \<longrightarrow> fb_mem c' a = fb_mem c a)) \<and>
    (backend c' = DISPLAY_VGA_TEXT \<longrightarrow> (\<forall>i < VGA_CELLS. vga c' ! i = vga_cell (cell_at c' i)))"
proof -
  have inv: "con_inv c" unfolding assms(3) by (rule term_init_multiboot_inv [OF assms(1,2)])
  obtain c1 where c1: "term_clear c = Some c1" "con_keeps c c1" "con_inv c1" "mirrored c1"
    using term_clear_spec [of c] inv by (auto simp: con_inv_def)
  obtain c' where c': "con_run ps c1 = Some c'" "con_keeps c1 c'" "con_inv c'" "mirrored c'"
    using con_run_safe [OF c1(3), of ps] c1(4) by (auto simp: con_safe_def)
  have "con_keeps c c'" by (rule con_keeps_trans [OF c1(2) c'(2)])
  moreover have "rows_of c' * cols_of c' \<le> TEXT_CELLS"
    using c'(3) mult_le_mono [of "rows_of c'" 60 "cols_of c'" 120] by (simp add: con_inv_def con_geom_def TEXT_CELLS_def)
  ultimately show ?thesis
    using c1(1) c'(1,3,4) by (auto simp: con_inv_def on_screen_def con_keeps_def off_frame_eq_def mirrored_def)
qed

definition demo_console :: console_state where
  "demo_console =
     \<lparr>backend = DISPLAY_VGA_TEXT,
      fb = \<lparr>fb_base = 0, fb_pitch = 0, fb_width = 0, fb_height = 0, fb_bpp = 0, fb_type = 0, fb_red_pos = 0,
        fb_red_mask = 0, fb_green_pos = 0, fb_green_mask = 0, fb_blue_pos = 0, fb_blue_mask = 0\<rparr>,
      cursor_row = 0, cursor_col = 0, text_rows = 25, text_cols = 80,
      text_chars = replicate TEXT_CELLS NUL, text_fg = replicate TEXT_CELLS 0, text_bg = replicate TEXT_CELLS 0,
      current_fg = 7, current_bg = 0, vga = replicate VGA_CELLS 0, fb_mem = \<lambda>_. 0, crtc = \<lambda>_. 0,
      serial_ready = False, serial_waits = [], serial_sent = []\<rparr>"

lemma demo_console_fresh: "con_fresh demo_console"
  by (simp add: con_fresh_def demo_console_def)

text \<open>A framebuffer of 640 by 480 pixels with 24 bits each, as the boot header asks for.\<close>

definition demo_video :: multiboot_video where
  "demo_video = \<lparr>mb_flags = 0x1001, mb_mem_lower = 640, mb_mem_upper = 31744, mb_fb_addr = 0xE0000000,
     mb_fb_pitch = 1920, mb_fb_width = 640, mb_fb_height = 480, mb_fb_bpp = 24, mb_fb_type = 1,
     mb_fb_color_info = [16, 8, 8, 8, 0, 8]\<rparr>"

theorem console_any_output_safe_witness:
  "\<exists>c'. (term_clear (term_init_with_multiboot (Some demo_video) MULTIBOOT_MAGIC demo_console) \<bind>
      con_run [Print CONSOLE_BOTH ''kmain: console ok'', Put CONSOLE_VGA CHR 0x0A, Print_dec CONSOLE_VGA 42]) = Some c' \<and>
    cursor_row c' < text_rows c'"
proof -
  have "video_fits (Some demo_video)" by (simp add: video_fits_def demo_video_def)
  from console_any_output_safe [OF demo_console_fresh this refl, of MULTIBOOT_MAGIC
      "[Print CONSOLE_BOTH ''kmain: console ok'', Put CONSOLE_VGA CHR 0x0A, Print_dec CONSOLE_VGA 42]"]
  show ?thesis by blast
qed

lemma unat_max_u16: "unat (- 1 :: u16) = 65535"
  by (simp add: unsigned_minus_1_eq_mask mask_eq_exp_minus_1)

text \<open>
  A framebuffer whose height in characters is a multiple of 65536 gives a screen without rows;
  the first line feed then writes outside the text arrays.
\<close>

lemma video_height_wraps:
  defines "c \<equiv> term_init_with_multiboot (Some (demo_video\<lparr>mb_fb_height := 0x100000\<rparr>)) MULTIBOOT_MAGIC demo_console"
  shows "text_rows c = 0" and "console_putchar CONSOLE_VGA CHR 0x0A c = None"
proof -
  have c: "text_rows c = 0" "text_cols c = 80" "backend c = DISPLAY_FRAMEBUFFER" "cursor_row c = 0"
    by (simp_all add: c_def term_init_with_multiboot_def demo_video_def MULTIBOOT_MAGIC_def Let_def CELL_H_def FONT_W_def
      MAX_CONSOLE_ROWS_def MAX_CONSOLE_COLS_def)
  then show "text_rows c = 0" by simp
  have "write_newline c = None"
    using c by (simp add: write_newline_def hide_cursor_def draw_cursor_def term_scroll_if_needed_def for_loop_step
        set_text_def text_index_eq TEXT_CELLS_def unat_max_u16)
  then show "console_putchar CONSOLE_VGA CHR 0x0A c = None"
    by (simp add: console_putchar_def write_local_char_def)
qed

text \<open>
  C39: Printing a character on the screen has the effect of an abstract terminal: a line feed goes
  to the start of the next line, a carriage return to the start of the line, a backspace blanks
  the cell to the left, another character is put at the cursor in the current colours; at
  the end of the last line all lines move up by one.
\<close>

theorem console_putchar_refines:
  assumes "con_inv c"
  shows "\<exists>c'. console_putchar CONSOLE_VGA ch c = Some c' \<and> con_inv c' \<and>
    displays c' (terminal_write (unat (text_rows c)) (unat (text_cols c)) (ch, current_fg c, current_bg c) (view c))"
proof -
  have "writes c (terminal_write (rows_of c) (cols_of c) (ch, current_fg c, current_bg c) (view c)) (write_local_char ch c)"
    by (rule write_local_char_writes [OF assms])
  then show ?thesis using assms unfolding writes_def con_inv_def console_putchar_def
    by (auto intro: con_keeps_geom)
qed

theorem console_putchar_refines_witness:
  "\<exists>c'. console_putchar CONSOLE_VGA CHR ''A'' (term_init demo_console) = Some c' \<and> screen c' 0 0 = (CHR ''A'', 7, 0)"
proof -
  define c where "c = term_init demo_console"
  have inv: "con_inv c" using term_init_inv [OF demo_console_fresh] by (simp add: c_def)
  have c: "text_rows c = 25" "text_cols c = 80" "current_fg c = 7" "current_bg c = 0" "cursor_row c = 0" "cursor_col c = 0"
    by (simp_all add: c_def term_init_def term_update_hw_cursor_def term_enable_hw_cursor_def Let_def VGA_COLS_def VGA_ROWS_def)
  obtain c' where c': "console_putchar CONSOLE_VGA CHR ''A'' c = Some c'" "con_inv c'"
    "displays c' (terminal_write 25 80 (CHR ''A'', 7, 0) (view c))"
    using console_putchar_refines [OF inv, of "CHR ''A''"] unfolding c by auto
  have "0 < rows_of c'" "0 < cols_of c'" using c'(2) by (simp_all add: con_inv_def con_geom_def)
  then have "screen c' 0 0 = (CHR ''A'', 7, 0)"
    using c'(3) by (simp add: displays_def same_grid_def terminal_write_def view_def Let_def c grid_put_def)
  then show ?thesis using c'(1) by (auto simp: c_def)
qed

text \<open>
  C40: A number printed in decimal is read back by the kernel's parser, for all 32-bit values.
\<close>

theorem dec_print_parse: "parse_u32_dec (u32_dec_text v) = (v, True)"
proof -
  have "unat v < 10 ^ 10" using unat_u32_bound [of v] by simp
  then have "v \<noteq> 0 \<Longrightarrow> dec_value (u32_dec_text v) = unat v" by (simp only: u32_dec_text_def if_False dec_loop_value)
  moreover have "dec_value (u32_dec_text 0) = 0"
    by (simp add: u32_dec_text_def dec_value_def digit_val_def char_val_def)
  ultimately have "dec_value (u32_dec_text v) = unat v" by (cases "v = 0") auto
  then show ?thesis using u32_dec_text_digits [of v] by (simp add: parse_u32_dec_eq)
qed

end
