(* ===== verification/Interrupts.thy ===== *)
theory Interrupts
  imports Loops Task
begin

text \<open>
  \<^verbatim>\<open>kernel/arch/i386/interrupts.c\<close>: the descriptor table, the interrupt masks, the dispatch of
  timer and keyboard interrupts, and the decoding of scan codes.  \<open>interrupt_state\<close> holds the
  static variables of the file; of the devices it has the two mask registers of the interrupt
  controllers, the port writes that acknowledge interrupts, and \<open>kbd_polls\<close>, what the
  successive polls of the keyboard controller will find: nothing or a scan code.
\<close>

section \<open>Data\<close>

definition IDT_ENTRIES :: nat where "IDT_ENTRIES = 256"
definition PIC1_COMMAND :: u16 where "PIC1_COMMAND = 0x20"
definition PIC2_COMMAND :: u16 where "PIC2_COMMAND = 0xA0"
definition PIC_EOI :: u8 where "PIC_EOI = 0x20"
definition IRQ_BASE :: u32 where "IRQ_BASE = 0x20"
definition KEYBOARD_QUEUE_SIZE :: u32 where "KEYBOARD_QUEUE_SIZE = 64"

record idt_entry =
  ie_offset_low :: u16
  ie_selector :: u16
  ie_zero :: u8
  ie_type_attr :: u8
  ie_offset_high :: u16

record interrupt_state =
  idt :: "idt_entry list"
  tick_count :: u32
  keyboard_queue :: string
  keyboard_head :: u32
  keyboard_tail :: u32
  shift_down :: bool
  code_selector :: u16
  pic1_mask :: u8
  pic2_mask :: u8
  pic_writes :: "(u16 \<times> u8) list"
  kbd_polls :: "u8 option list"

section \<open>The interrupt controllers\<close>

definition pic_send_eoi :: "u8 \<Rightarrow> interrupt_state \<Rightarrow> interrupt_state" where
  "pic_send_eoi irq s =
     (let s = (if irq \<ge> 8 then s\<lparr>pic_writes := pic_writes s @ [(PIC2_COMMAND, PIC_EOI)]\<rparr> else s)
      in s\<lparr>pic_writes := pic_writes s @ [(PIC1_COMMAND, PIC_EOI)]\<rparr>)"

definition mask_bit :: "u8 \<Rightarrow> bool \<Rightarrow> u8 \<Rightarrow> u8" where
  "mask_bit irq masked v = (if masked then v OR push_bit (unat irq) 1 else v AND NOT (push_bit (unat irq) 1))"

definition pic_set_mask :: "u8 \<Rightarrow> bool \<Rightarrow> interrupt_state \<Rightarrow> interrupt_state" where
  "pic_set_mask irq masked s =
     (if irq < 8 then s\<lparr>pic1_mask := mask_bit irq masked (pic1_mask s)\<rparr>
      else s\<lparr>pic2_mask := mask_bit (irq - 8) masked (pic2_mask s)\<rparr>)"

section \<open>The descriptor table\<close>

definition set_gate :: "u8 \<Rightarrow> u8 \<Rightarrow> u32 \<Rightarrow> interrupt_state \<Rightarrow> interrupt_state" where
  "set_gate attr vector offset s =
     s\<lparr>idt := (idt s)[unat vector := \<lparr>ie_offset_low = ucast (offset AND 0xFFFF), ie_selector = code_selector s,
        ie_zero = 0, ie_type_attr = attr, ie_offset_high = ucast (drop_bit 16 offset AND 0xFFFF)\<rparr>]\<rparr>"

definition idt_set_gate :: "u8 \<Rightarrow> u32 \<Rightarrow> interrupt_state \<Rightarrow> interrupt_state" where
  "idt_set_gate = set_gate 0x8E"

definition idt_set_gate_user :: "u8 \<Rightarrow> u32 \<Rightarrow> interrupt_state \<Rightarrow> interrupt_state" where
  "idt_set_gate_user = set_gate 0xEE"

text \<open>The addresses of the assembly entry points.\<close>

record entry_stubs =
  irq0_stub :: u32
  irq1_stub :: u32
  irq_default_stub :: u32
  syscall_stub :: u32
  ex6_stub :: u32
  ex13_stub :: u32
  ex14_stub :: u32

text \<open>\<open>cs\<close> is the code segment the kernel runs in.\<close>

definition idt_init :: "u16 \<Rightarrow> entry_stubs \<Rightarrow> interrupt_state \<Rightarrow> interrupt_state" where
  "idt_init cs st s =
     (let s = s\<lparr>code_selector := cs\<rparr>;
          s = fold (\<lambda>i. idt_set_gate (of_nat i) (irq_default_stub st)) [0..<IDT_ENTRIES] s;
          s = idt_set_gate (ucast IRQ_BASE + 0) (irq0_stub st) s;
          s = idt_set_gate (ucast IRQ_BASE + 1) (irq1_stub st) s;
          s = idt_set_gate 6 (ex6_stub st) s;
          s = idt_set_gate 13 (ex13_stub st) s;
          s = idt_set_gate 14 (ex14_stub st) s
      in idt_set_gate_user 0x80 (syscall_stub st) s)"

definition interrupts_get_gate80 :: "interrupt_state \<Rightarrow> u16 \<times> u8 \<times> u32" where
  "interrupts_get_gate80 s =
     (let e = idt s ! 0x80
      in (ie_selector e, ie_type_attr e, push_bit 16 (ucast (ie_offset_high e)) OR ucast (ie_offset_low e)))"

text \<open>
  Start-up without the initialisation commands of \<^verbatim>\<open>pic_remap\<close>, which puts the masks back:
  every line but the timer is masked.
\<close>

definition interrupts_init :: "u16 \<Rightarrow> entry_stubs \<Rightarrow> interrupt_state \<Rightarrow> interrupt_state" where
  "interrupts_init cs st s =
     (let s = pic_set_mask 0 False (idt_init cs st s)
      in fold (\<lambda>irq. pic_set_mask (of_nat irq) True) [1..<16] s)"

section \<open>The keyboard\<close>

text \<open>A full queue drops the character; an index outside the buffer would be undefined.\<close>

definition keyboard_queue_push :: "char \<Rightarrow> interrupt_state \<Rightarrow> interrupt_state" where
  "keyboard_queue_push c s =
     (let nxt = (keyboard_head s + 1) mod KEYBOARD_QUEUE_SIZE in
      if nxt = keyboard_tail s then s
      else s\<lparr>keyboard_queue := (keyboard_queue s)[unat (keyboard_head s) := c], keyboard_head := nxt\<rparr>)"

definition keyboard_queue_pop :: "interrupt_state \<Rightarrow> char option \<times> interrupt_state" where
  "keyboard_queue_pop s =
     (if keyboard_head s = keyboard_tail s then (None, s)
      else (Some (keyboard_queue s ! unat (keyboard_tail s)),
            s\<lparr>keyboard_tail := (keyboard_tail s + 1) mod KEYBOARD_QUEUE_SIZE\<rparr>))"

text \<open>The two tables up to their last entry that is given; the rest is zero.\<close>

definition scancodes_normal :: string where
  "scancodes_normal =
     [NUL, CHR 0x1B] @ ''1234567890-='' @ [CHR 0x08, CHR 0x09] @ ''qwertyuiop[]'' @ [CHR 0x0A, NUL] @
     ''asdfghjkl;'' @ [CHR 0x27, CHR 0x60, NUL, CHR 0x5C] @ ''zxcvbnm,./'' @ [NUL, CHR ''*'', NUL, CHR '' '', NUL]"

definition scancodes_shifted :: string where
  "scancodes_shifted =
     [NUL, CHR 0x1B] @ ''!@#$%^&*()_+'' @ [CHR 0x08, CHR 0x09] @ ''QWERTYUIOP{}'' @ [CHR 0x0A, NUL] @
     ''ASDFGHJKL:'' @ [CHR 0x22, CHR ''~'', NUL, CHR ''|''] @ ''ZXCVBNM<>?'' @ [NUL, CHR ''*'', NUL, CHR '' '', NUL]"

definition table_entry :: "string \<Rightarrow> u8 \<Rightarrow> char" where
  "table_entry tab i = (if unat i < length tab then tab ! unat i else NUL)"

definition decode_scancode :: "u8 \<Rightarrow> interrupt_state \<Rightarrow> char \<times> interrupt_state" where
  "decode_scancode scancode s =
     (if scancode = 0x2A \<or> scancode = 0x36 then (NUL, s\<lparr>shift_down := True\<rparr>)
      else if scancode = 0xAA \<or> scancode = 0xB6 then (NUL, s\<lparr>shift_down := False\<rparr>)
      else if scancode AND 0x80 \<noteq> 0 \<or> scancode \<ge> 128 then (NUL, s)
      else (table_entry (if shift_down s then scancodes_shifted else scancodes_normal) scancode, s))"

text \<open>A poll: the character, or \<open>None\<close> where the code returns 0.\<close>

definition keyboard_try_read_char :: "interrupt_state \<Rightarrow> char option \<times> interrupt_state" where
  "keyboard_try_read_char s =
     (case kbd_polls s of
        [] \<Rightarrow> (None, s)
      | None # ps \<Rightarrow> (None, s\<lparr>kbd_polls := ps\<rparr>)
      | Some scancode # ps \<Rightarrow>
          let (c, s) = decode_scancode scancode (s\<lparr>kbd_polls := ps\<rparr>)
          in if c = NUL \<or> c = CHR 0x09 then (None, s) else (Some c, s))"

lemma keyboard_try_shorter:
  "keyboard_try_read_char s = (r, s') \<Longrightarrow> kbd_polls s \<noteq> [] \<Longrightarrow> length (kbd_polls s') < length (kbd_polls s)"
  by (auto simp: keyboard_try_read_char_def decode_scancode_def Let_def split: list.splits option.splits if_splits)

text \<open>
  Waiting for a character: \<^verbatim>\<open>keyboard_read_char_blocking\<close>, and the inner loop of a read from the
  standard input.  Without another key the loop does not end (\<open>None\<close>).
\<close>

function keyboard_read_char_blocking :: "interrupt_state \<Rightarrow> (char \<times> interrupt_state) option" where
  "keyboard_read_char_blocking s =
     (if kbd_polls s = [] then None
      else case keyboard_try_read_char s of
          (Some c, s) \<Rightarrow> Some (c, s)
        | (None, s) \<Rightarrow> keyboard_read_char_blocking s)"
  by pat_completeness auto
termination
  by (relation "measure (\<lambda>s. length (kbd_polls s))") (auto dest: keyboard_try_shorter [OF sym])

declare keyboard_read_char_blocking.simps [simp del]

section \<open>Dispatch\<close>

text \<open>
  An exception ends in the panic screen and does not return (\<open>None\<close>); \<open>data\<close> is the byte at the
  data port of the keyboard.
\<close>

definition interrupt_dispatch ::
  "u32 \<Rightarrow> u8 \<Rightarrow> interrupt_state \<times> sched_state \<Rightarrow> (interrupt_state \<times> sched_state) option" where
  "interrupt_dispatch vector data t =
     (case t of (s, sc) \<Rightarrow>
        if vector < 32 then None
        else if vector < IRQ_BASE \<or> vector \<ge> IRQ_BASE + 16 then Some (s, sc)
        else
          let irq = ucast (vector - IRQ_BASE);
              (s, sc) =
                (if irq = 0 then (s\<lparr>tick_count := tick_count s + 1\<rparr>, scheduler_on_timer_tick sc)
                 else if irq = 1 then
                   (let (c, s) = decode_scancode data s
                    in if c \<noteq> NUL \<and> c \<noteq> CHR 0x09 then (keyboard_queue_push c s, sc) else (s, sc))
                 else (s, sc))
          in Some (pic_send_eoi irq s, sc))"

definition timer_ticks :: "interrupt_state \<Rightarrow> u32" where
  "timer_ticks s = tick_count s"

section \<open>The queue is first in, first out\<close>

definition queue_inv :: "interrupt_state \<Rightarrow> bool" where
  "queue_inv s \<longleftrightarrow> length (keyboard_queue s) = 64 \<and> keyboard_head s < 64 \<and> keyboard_tail s < 64"

definition queued :: "interrupt_state \<Rightarrow> string" where
  "queued s = map (\<lambda>i. keyboard_queue s ! ((unat (keyboard_tail s) + i) mod 64))
     [0..<(unat (keyboard_head s) + 64 - unat (keyboard_tail s)) mod 64]"

lemma next_slot: "h < 64 \<Longrightarrow> unat ((h + 1) mod KEYBOARD_QUEUE_SIZE) = (unat h + 1) mod 64"
  by (simp add: KEYBOARD_QUEUE_SIZE_def unat_mod word_less_nat_alt unat_word_ariths)

lemma ring_before:
  fixes h t i :: nat
  assumes "h < 64" "t < 64" "i < (h + 64 - t) mod 64"
  shows "(t + i) mod 64 \<noteq> h"
proof (cases "t \<le> h")
  case True
  then have e: "h + 64 - t = (h - t) + 64" by linarith
  have "(h + 64 - t) mod 64 = (h - t) mod 64" unfolding e by (rule mod_add_self2)
  moreover have "(h - t) mod 64 = h - t" by (rule mod_less) (use assms(1) in linarith)
  ultimately have "i < h - t" using assms(3) by (simp only:)
  then show ?thesis using assms(1) by (subst mod_less) linarith+
next
  case False
  have lt: "h + 64 - t < 64" using False assms(1) by linarith
  have i: "i < h + 64 - t" using assms(3) unfolding mod_less [OF lt] .
  show ?thesis
  proof (cases "t + i < 64")
    case True
    then show ?thesis using False by simp
  next
    case ge: False
    then have "(t + i) mod 64 = t + i - 64" using i assms by (simp add: le_mod_geq)
    then show ?thesis using i assms ge by linarith
  qed
qed

lemma queue_push_spec:
  assumes "queue_inv s"
  shows "queue_inv (keyboard_queue_push c s) \<and>
    queued (keyboard_queue_push c s) = (if length (queued s) < 63 then queued s @ [c] else queued s)"
proof -
  define h where "h = unat (keyboard_head s)"
  define t where "t = unat (keyboard_tail s)"
  have b: "h < 64" "t < 64" and len: "length (keyboard_queue s) = 64" and hw: "keyboard_head s < 64"
    using assms by (simp_all add: queue_inv_def word_less_nat_alt h_def t_def)
  have nxt: "unat ((keyboard_head s + 1) mod KEYBOARD_QUEUE_SIZE) = (h + 1) mod 64"
    unfolding h_def by (rule next_slot [OF hw])
  have eq: "(keyboard_head s + 1) mod KEYBOARD_QUEUE_SIZE = keyboard_tail s \<longleftrightarrow> (h + 1) mod 64 = t"
    unfolding nxt [symmetric] t_def by (simp add: word_unat_eq_iff)
  have L: "length (queued s) = (h + 64 - t) mod 64" by (simp add: queued_def h_def t_def)
  have full: "(h + 1) mod 64 = t \<longleftrightarrow> \<not> (h + 64 - t) mod 64 < 63" using b by (auto simp: mod_if)
  show ?thesis
  proof (cases "(h + 1) mod 64 = t")
    case True
    then show ?thesis using assms eq full L by (simp add: keyboard_queue_push_def Let_def)
  next
    case False
    define s' where "s' = s\<lparr>keyboard_queue := (keyboard_queue s)[h := c],
      keyboard_head := (keyboard_head s + 1) mod KEYBOARD_QUEUE_SIZE\<rparr>"
    have s': "keyboard_queue_push c s = s'" using False eq by (simp add: keyboard_queue_push_def Let_def s'_def h_def)
    have n: "((h + 1) mod 64 + 64 - t) mod 64 = Suc ((h + 64 - t) mod 64)"
      using b False full by (auto simp: mod_if split: if_splits)
    have h': "unat (keyboard_head s') = (h + 1) mod 64" by (simp add: s'_def nxt)
    have at: "(t + (h + 64 - t) mod 64) mod 64 = h" using b by (auto simp: mod_if)
    have "queued s' = map (\<lambda>i. (keyboard_queue s)[h := c] ! ((t + i) mod 64)) [0..<Suc ((h + 64 - t) mod 64)]"
      unfolding queued_def h' n [symmetric] by (simp add: s'_def t_def)
    also have "\<dots> = map (\<lambda>i. (keyboard_queue s)[h := c] ! ((t + i) mod 64)) [0..<(h + 64 - t) mod 64] @ [c]"
      using b len by (simp add: at)
    also have "map (\<lambda>i. (keyboard_queue s)[h := c] ! ((t + i) mod 64)) [0..<(h + 64 - t) mod 64] = queued s"
    proof -
      have "(t + i) mod 64 \<noteq> h" if "i < (h + 64 - t) mod 64" for i
        by (rule ring_before [OF b that])
      then have "(keyboard_queue s)[h := c] ! ((t + i) mod 64) = keyboard_queue s ! ((t + i) mod 64)"
        if "i < (h + 64 - t) mod 64" for i using that by (metis nth_list_update_neq)
      then show ?thesis by (simp add: queued_def h_def [symmetric] t_def [symmetric])
    qed
    finally have q: "queued s' = queued s @ [c]" .
    have "unat (keyboard_head s') < 64" by (simp add: h')
    then have "queue_inv s'" using assms by (simp add: queue_inv_def word_less_nat_alt s'_def)
    then show ?thesis using q s' False full L by simp
  qed
qed

lemma queue_pop_spec:
  assumes "queue_inv s"
  shows "case keyboard_queue_pop s of (r, s') \<Rightarrow>
    queue_inv s' \<and> (case queued s of [] \<Rightarrow> r = None \<and> s' = s | c # cs \<Rightarrow> r = Some c \<and> queued s' = cs)"
proof -
  define h where "h = unat (keyboard_head s)"
  define t where "t = unat (keyboard_tail s)"
  have b: "h < 64" "t < 64" and tw: "keyboard_tail s < 64"
    using assms by (simp_all add: queue_inv_def word_less_nat_alt h_def t_def)
  show ?thesis
  proof (cases "keyboard_head s = keyboard_tail s")
    case True
    then show ?thesis using assms by (simp add: keyboard_queue_pop_def queued_def)
  next
    case False
    then have ne: "h \<noteq> t" by (simp add: h_def t_def word_unat_eq_iff)
    define s' where "s' = s\<lparr>keyboard_tail := (keyboard_tail s + 1) mod KEYBOARD_QUEUE_SIZE\<rparr>"
    have t': "unat (keyboard_tail s') = (t + 1) mod 64" by (simp add: s'_def t_def next_slot [OF tw])
    have n: "(h + 64 - t) mod 64 = Suc ((h + 64 - (t + 1) mod 64) mod 64)"
      using b ne by (auto simp: mod_if split: if_splits)
    have shift: "((t + 1) mod 64 + i) mod 64 = (t + Suc i) mod 64" for i by (simp add: mod_add_left_eq)
    have "queued s = map (\<lambda>i. keyboard_queue s ! ((t + i) mod 64)) [0..<Suc ((h + 64 - (t + 1) mod 64) mod 64)]"
      by (simp only: queued_def h_def [symmetric] t_def [symmetric] n)
    also have "\<dots> = keyboard_queue s ! t # map (\<lambda>i. keyboard_queue s ! ((t + Suc i) mod 64)) [0..<(h + 64 - (t + 1) mod 64) mod 64]"
      using b by (subst map_upt_Suc) simp
    also have "map (\<lambda>i. keyboard_queue s ! ((t + Suc i) mod 64)) [0..<(h + 64 - (t + 1) mod 64) mod 64] = queued s'"
      unfolding queued_def t' shift by (simp add: s'_def h_def)
    finally have q: "queued s = keyboard_queue s ! t # queued s'" .
    have "unat (keyboard_tail s') < 64" by (simp add: t')
    then have "queue_inv s'" using assms by (simp add: queue_inv_def word_less_nat_alt s'_def)
    then show ?thesis using q False by (simp add: keyboard_queue_pop_def s'_def [symmetric] t_def)
  qed
qed

end
