(* ===== verification/Syscall.thy ===== *)
theory Syscall
  imports Ipc Service VfsProps ConsoleProps Interrupts
begin

text \<open>
  \<^verbatim>\<open>kernel/syscall.c\<close>: the system calls, the descriptor table and the checks of user pointers.
  \<open>kernel\<close> is the state of the whole kernel: the memory, heap and file tree (\<open>vfs_state\<close>),
  the scheduler with the process table, the saved images, mailboxes and services, the mounts,
  the keyboard, the static variables of \<^verbatim>\<open>syscall.c\<close>, and what has been printed.  A handler
  returns the result and the new state; \<open>None\<close> means that it does not return (a read that waits
  for a key that never comes) or has left the defined behaviour of C.

  A user pointer is an address of \<open>mem\<close>; the kernel's own tables are not in \<open>mem\<close>, so that a
  write through a pointer into them is not seen (\<^verbatim>\<open>validate_user_ptr\<close> is to prevent it, and
  \<open>user_ptr_confined\<close> shows that it does).  Colour changes are not part of the output.
\<close>

section \<open>Data\<close>

definition SYSCALL_WRITE_MAX :: u32 where "SYSCALL_WRITE_MAX = 1024"
definition ERR_BADF :: int where "ERR_BADF = - 9"
definition ERR_AGAIN :: int where "ERR_AGAIN = - 11"
definition ERR_FAULT :: int where "ERR_FAULT = - 14"
definition ERR_INVAL :: int where "ERR_INVAL = - 22"
definition ERR_NFILE :: int where "ERR_NFILE = - 24"
definition ERR_BLOCKED :: int where "ERR_BLOCKED = - 512"

lemmas err_defs = ERR_BADF_def ERR_AGAIN_def ERR_FAULT_def ERR_INVAL_def ERR_NFILE_def ERR_BLOCKED_def

definition O_ACCMODE :: u32 where "O_ACCMODE = 0x3"
definition O_WRONLY :: u32 where "O_WRONLY = 0x1"
definition O_RDWR :: u32 where "O_RDWR = 0x2"
definition O_CREAT :: u32 where "O_CREAT = 0x40"
definition O_TRUNC :: u32 where "O_TRUNC = 0x200"
definition O_APPEND :: u32 where "O_APPEND = 0x400"

record fd_entry =
  fd_used :: bool
  fd_pid :: int
  fd_readable :: bool
  fd_writable :: bool
  fd_data :: u32
  fd_size :: u32
  fd_offset :: u32
  fd_path :: string
  fd_write_buf :: u32
  fd_write_size :: u32
  fd_write_capacity :: u32
  fd_dirty :: bool

definition FD_MAX :: nat where "FD_MAX = 16"

text \<open>
  \<open>kernel_bytes\<close> is the size of the kernel image, \<open>cpu_vendor_id\<close> what \<^verbatim>\<open>cpuid\<close> answers (if the
  processor has it) and \<open>screen_pixels\<close> the size of the framebuffer (if there is one).
\<close>

record kernel = vfs_state +
  kn_sched :: sched_state
  kn_elf :: elf_state
  kn_ipc :: ipc_state
  kn_services :: "service_entry list"
  kn_fs :: fs_state
  kn_irq :: interrupt_state
  fd_table :: "fd_entry list"
  user_cwd :: u32
  user_boot_mbi :: "multiboot_info option"
  user_boot_magic :: u32
  ring3_active :: u32
  ring3_current_pid :: u32
  ring3_stop_reason :: u32
  ring3_exit_code :: u32
  kernel_bytes :: u32
  cpu_vendor_id :: "string option"
  screen_pixels :: "(u32 \<times> u32) option"
  kn_output :: "(console_target \<times> string) list"

abbreviation kn_procs :: "'a kernel_scheme \<Rightarrow> proc_table" where
  "kn_procs k \<equiv> sc_procs (kn_sched k)"

abbreviation current_pid :: "'a kernel_scheme \<Rightarrow> int" where
  "current_pid k \<equiv> sint (ring3_current_pid k)"

definition emit :: "console_target \<Rightarrow> string \<Rightarrow> 'a kernel_scheme \<Rightarrow> 'a kernel_scheme" where
  "emit out s k = k\<lparr>kn_output := kn_output k @ [(out, s)]\<rparr>"

text \<open>The part of the kernel the message operations work on.\<close>

definition core_of :: "'a kernel_scheme \<Rightarrow> kcore" where
  "core_of k = \<lparr>heap = heap k, mem = mem k, k_sched = kn_sched k, k_elf = kn_elf k, k_ipc = kn_ipc k\<rparr>"

definition with_core :: "kcore \<Rightarrow> 'a kernel_scheme \<Rightarrow> 'a kernel_scheme" where
  "with_core c k = k\<lparr>heap := heap c, mem := mem c, kn_sched := k_sched c, kn_elf := k_elf c, kn_ipc := k_ipc c\<rparr>"

definition in_core :: "(kcore \<Rightarrow> 'r \<times> kcore) \<Rightarrow> 'a kernel_scheme \<Rightarrow> 'r \<times> 'a kernel_scheme" where
  "in_core f k = (let (r, c) = f (core_of k) in (r, with_core c k))"

section \<open>User pointers\<close>

definition range_contains :: "u32 \<Rightarrow> u32 \<Rightarrow> u32 \<Rightarrow> u32 \<Rightarrow> bool" where
  "range_contains base sz ptr len =
     (if sz = 0 then False
      else if ptr < base then False
      else if len = 0 then ptr < base + sz
      else let e = ptr + len in if e < ptr then False else e \<le> base + sz)"

definition validate_user_ptr :: "'a kernel_scheme \<Rightarrow> u32 \<Rightarrow> u32 \<Rightarrow> bool" where
  "validate_user_ptr k p len =
     (if ring3_active k = 0 then True
      else
        let pid = current_pid k in
        if pid \<le> 0 then False
        else case proc_get_image (kn_procs k) pid of
            None \<Rightarrow> False
          | Some img \<Rightarrow>
              if \<not> im_loaded img then False
              else if range_contains (im_image_base img) (im_image_size img) p len then True
              else if range_contains (im_stack_base img) (im_stack_size img) p len then True
              else False)"

text \<open>The characters that are copied, without the terminator; \<open>n\<close> is the room left.\<close>

fun copy_cstr_loop :: "'a kernel_scheme \<Rightarrow> u32 \<Rightarrow> nat \<Rightarrow> string option" where
  "copy_cstr_loop k p 0 = Some []"
| "copy_cstr_loop k p (Suc n) =
     (if \<not> validate_user_ptr k p 1 then None
      else
        let c = char_of_byte (mem k p) in
        if c = NUL then Some [] else map_option ((#) c) (copy_cstr_loop k (p + 1) n))"

definition copy_user_cstr :: "'a kernel_scheme \<Rightarrow> u32 \<Rightarrow> nat \<Rightarrow> string option" where
  "copy_user_cstr k user_ptr dst_size =
     (if user_ptr = NULL \<or> dst_size = 0 then None else copy_cstr_loop k user_ptr (dst_size - 1))"

text \<open>The joining of the two parts is the one of \<^verbatim>\<open>vfs_path_join\<close>.\<close>

definition make_abs_path :: "'a kernel_scheme \<Rightarrow> u32 \<Rightarrow> string \<Rightarrow> nat \<Rightarrow> string option option" where
  "make_abs_path k cwd path out_size =
     (if out_size = 0 then Some None
      else if deref path = CHR ''/'' then Some (Some (str_copy [] path (of_nat out_size)))
      else
        do { cwd_path \<leftarrow> vfs_get_cwd_path (vfs_nodes k) (vfs_root_node k) (if cwd \<noteq> NULL then cwd else vfs_root k) 128;
             Some (vfs_path_join out_size cwd_path path) })"

text \<open>\<^verbatim>\<open>user_cwd ? user_cwd : vfs_root()\<close>\<close>

definition cwd_or_root :: "'a kernel_scheme \<Rightarrow> u32" where
  "cwd_or_root k = (if user_cwd k \<noteq> NULL then user_cwd k else vfs_root k)"

definition syscall_set_user_cwd :: "u32 \<Rightarrow> 'a kernel_scheme \<Rightarrow> 'a kernel_scheme" where
  "syscall_set_user_cwd cwd k = k\<lparr>user_cwd := cwd\<rparr>"

definition syscall_set_bootinfo :: "multiboot_info option \<Rightarrow> u32 \<Rightarrow> 'a kernel_scheme \<Rightarrow> 'a kernel_scheme" where
  "syscall_set_bootinfo mbi magic k = k\<lparr>user_boot_mbi := mbi, user_boot_magic := magic\<rparr>"

text \<open>\<open>frame\<close> is the stack of the trap: eight registers, then the words pushed by the processor.\<close>

definition syscall_save_yield_context :: "u32 list \<Rightarrow> 'a kernel_scheme \<Rightarrow> 'a kernel_scheme" where
  "syscall_save_yield_context frame k =
     (let pid = current_pid k in
      if pid \<le> 0 then k
      else case proc_get_image (kn_procs k) pid of
          None \<Rightarrow> k
        | Some img \<Rightarrow>
            if \<not> im_loaded img then k
            else
              let ctx = \<lparr>uc_edi = frame ! 0, uc_esi = frame ! 1, uc_ebp = frame ! 2, uc_esp_dummy = frame ! 3,
                    uc_ebx = frame ! 4, uc_edx = frame ! 5, uc_ecx = frame ! 6, uc_eax = 0, uc_eip = frame ! 8,
                    uc_cs = frame ! 9, uc_eflags = frame ! 10, uc_user_esp = frame ! 11, uc_user_ss = frame ! 12\<rparr>;
                  img = img\<lparr>im_context := ctx, im_context_valid := True\<rparr>
              in k\<lparr>kn_sched := upd_procs (\<lambda>pt. snd (proc_bind_image pid (Some img) pt)) (kn_sched k)\<rparr>)"

section \<open>Descriptors\<close>

definition fd_alloc_slot :: "fd_entry list \<Rightarrow> nat option" where
  "fd_alloc_slot fds = map_option (\<lambda>i. i + 3) (find_index (\<lambda>e. \<not> fd_used e) (drop 3 fds))"

definition fd_lookup :: "fd_entry list \<Rightarrow> int \<Rightarrow> int \<Rightarrow> nat option" where
  "fd_lookup fds fd pid =
     (if fd < 3 \<or> fd \<ge> int FD_MAX then None
      else if \<not> fd_used (fds ! nat fd) \<or> fd_pid (fds ! nat fd) \<noteq> pid then None
      else Some (nat fd))"

definition empty_fd :: fd_entry where
  "empty_fd = \<lparr>fd_used = False, fd_pid = - 1, fd_readable = False, fd_writable = False, fd_data = NULL, fd_size = 0,
     fd_offset = 0, fd_path = [], fd_write_buf = NULL, fd_write_size = 0, fd_write_capacity = 0, fd_dirty = False\<rparr>"

definition put_fd :: "nat \<Rightarrow> fd_entry \<Rightarrow> 'a kernel_scheme \<Rightarrow> 'a kernel_scheme" where
  "put_fd slot e k = k\<lparr>fd_table := (fd_table k)[slot := e]\<rparr>"

definition fd_reset_slot :: "nat \<Rightarrow> 'a kernel_scheme \<Rightarrow> 'a kernel_scheme" where
  "fd_reset_slot slot k = (if slot \<ge> FD_MAX then k else put_fd slot empty_fd k)"

text \<open>
  The doubling loop: \<open>Some None\<close> when the capacity can not be doubled any more; it would not
  end for a capacity of 0.
\<close>

partial_function (option) grow_capacity :: "u32 \<Rightarrow> u32 \<Rightarrow> u32 option option" where
  "grow_capacity capacity needed =
     (if capacity < needed then
        if capacity > 0x7FFFFFFF then Some None else grow_capacity (capacity * 2) needed
      else Some (Some capacity))"

declare grow_capacity.simps [code]

definition fd_ensure_write_capacity ::
  "fd_entry \<Rightarrow> u32 \<Rightarrow> 'a kernel_scheme \<Rightarrow> (bool \<times> fd_entry \<times> 'a kernel_scheme) option" where
  "fd_ensure_write_capacity fd needed k =
     (if needed \<le> fd_write_capacity fd then Some (True, fd, k)
      else
        do { r \<leftarrow> grow_capacity (if fd_write_capacity fd = 0 then 256 else fd_write_capacity fd) needed;
             (case r of
                None \<Rightarrow> Some (False, fd, k)
              | Some capacity \<Rightarrow>
                  let (new_buf, k) = kmalloc capacity k in
                  if new_buf = NULL then Some (False, fd, k)
                  else
                    let n = unat (fd_write_size fd);
                        m = (if fd_write_buf fd \<noteq> NULL then mem_copy new_buf (fd_write_buf fd) n (mem k)
                             else mem_write new_buf (replicate n 0) (mem k))
                    in Some (True, fd\<lparr>fd_write_buf := new_buf, fd_write_capacity := capacity\<rparr>, k\<lparr>mem := m\<rparr>)) })"

section \<open>Files\<close>

text \<open>Reading a line from the keyboard; \<open>n\<close> characters may still be read.\<close>

fun read_stdin :: "nat \<Rightarrow> u32 \<Rightarrow> u32 \<Rightarrow> 'a kernel_scheme \<Rightarrow> (int \<times> 'a kernel_scheme) option" where
  "read_stdin 0 buf i k = Some (sint i, k)"
| "read_stdin (Suc n) buf i k =
     (case keyboard_read_char_blocking (kn_irq k) of
        None \<Rightarrow> None
      | Some (c, irq) \<Rightarrow>
          let k = k\<lparr>kn_irq := irq, mem := (mem k)(buf + i := byte_of c)\<rparr> in
          if c = CHR 0x0A then Some (sint (i + 1), k) else read_stdin n buf (i + 1) k)"

text \<open>
  The copying loop of a read: up to \<open>len\<close> bytes from \<open>src\<close> of which \<open>sz\<close> are there.  The result is
  the number of bytes.
\<close>

definition read_from :: "nat \<Rightarrow> u32 \<Rightarrow> u32 \<Rightarrow> u32 \<Rightarrow> u32 \<Rightarrow> 'a kernel_scheme \<Rightarrow> int \<times> 'a kernel_scheme" where
  "read_from slot src sz buf len k =
     (let e = fd_table k ! slot in
      if fd_offset e \<ge> sz then (0, k)
      else
        let n = min len (sz - fd_offset e);
            k = k\<lparr>mem := mem_copy buf (src + fd_offset e) (unat n) (mem k)\<rparr>
        in (sint n, put_fd slot (e\<lparr>fd_offset := fd_offset e + n\<rparr>) k))"

definition ksys_read :: "int \<Rightarrow> u32 \<Rightarrow> u32 \<Rightarrow> 'a kernel_scheme \<Rightarrow> (int \<times> 'a kernel_scheme) option" where
  "ksys_read fd buf len k =
     (if fd = 0 \<and> buf = NULL then Some (ERR_FAULT, k)
      else if \<not> validate_user_ptr k buf (if len = 0 then 1 else len) then Some (ERR_FAULT, k)
      else if fd = 0 then read_stdin (unat len) buf 0 k
      else
        (case fd_lookup (fd_table k) fd (current_pid k) of
           None \<Rightarrow> Some (ERR_BADF, k)
         | Some slot \<Rightarrow>
             let e = fd_table k ! slot in
             if \<not> fd_readable e then Some (ERR_BADF, k)
             else if fd_write_buf e \<noteq> NULL then Some (read_from slot (fd_write_buf e) (fd_write_size e) buf len k)
             else Some (read_from slot (fd_data e) (fd_size e) buf len k)))"

text \<open>The end of \<^verbatim>\<open>ksys_write\<close>, on a buffer that is large enough.\<close>

definition write_at :: "fd_entry \<Rightarrow> u32 \<Rightarrow> u32 \<Rightarrow> memory \<Rightarrow> fd_entry \<times> memory" where
  "write_at e buf len m =
     (let wb = fd_write_buf e;
          m = (if fd_offset e > fd_write_size e
               then mem_write (wb + fd_write_size e) (replicate (unat (fd_offset e - fd_write_size e)) 0) m else m);
          m = mem_copy (wb + fd_offset e) buf (unat len) m;
          offset = fd_offset e + len;
          wsize = (if offset > fd_write_size e then offset else fd_write_size e);
          m = m(wb + wsize := 0)
      in (e\<lparr>fd_offset := offset, fd_write_size := wsize, fd_data := wb, fd_size := wsize, fd_dirty := True\<rparr>, m))"

definition ksys_write :: "int \<Rightarrow> u32 \<Rightarrow> u32 \<Rightarrow> 'a kernel_scheme \<Rightarrow> (int \<times> 'a kernel_scheme) option" where
  "ksys_write fd buf len k =
     (if buf = NULL then Some (ERR_BADF, k)
      else if \<not> validate_user_ptr k buf (if len = 0 then 1 else len) then Some (ERR_FAULT, k)
      else if fd = 1 \<or> fd = 2 then
        let len = (if len > SYSCALL_WRITE_MAX then SYSCALL_WRITE_MAX else len)
        in Some (sint len, emit CONSOLE_VGA (map char_of_byte (mem_read (mem k) buf (unat len))) k)
      else
        (case fd_lookup (fd_table k) fd (current_pid k) of
           None \<Rightarrow> Some (ERR_BADF, k)
         | Some slot \<Rightarrow>
             let entry = fd_table k ! slot in
             if \<not> fd_writable entry then Some (ERR_BADF, k)
             else
               let needed = fd_offset entry + len in
               if needed < fd_offset entry then Some (ERR_INVAL, k)
               else
                 do { (ok, entry, k) \<leftarrow> fd_ensure_write_capacity entry (needed + 1) k;
                      if \<not> ok then Some (ERR_INVAL, k)
                      else
                        let (entry, m) = write_at entry buf len (mem k)
                        in Some (sint len, put_fd slot entry (k\<lparr>mem := m\<rparr>)) }))"

text \<open>The descriptor that \<^verbatim>\<open>ksys_open\<close> fills in for a file found at \<open>data\<close> with \<open>sz\<close> bytes.\<close>

definition open_slot ::
  "nat \<Rightarrow> int \<Rightarrow> u32 \<Rightarrow> string \<Rightarrow> u32 \<Rightarrow> u32 \<Rightarrow> 'a kernel_scheme \<Rightarrow> (int \<times> 'a kernel_scheme) option" where
  "open_slot slot pid flags full_path data sz k =
     (let access = flags AND O_ACCMODE;
          want_write = (access = O_WRONLY \<or> access = O_RDWR);
          want_read = (access \<noteq> O_WRONLY);
          trunc = (flags AND O_TRUNC \<noteq> 0);
          e = empty_fd\<lparr>fd_used := True, fd_pid := pid, fd_readable := want_read, fd_writable := want_write,
                fd_data := data, fd_size := sz, fd_offset := (if flags AND O_APPEND \<noteq> 0 then sz else 0),
                fd_path := str_copy [] full_path 128\<rparr>
      in if \<not> want_write then Some (int slot, put_fd slot e k)
         else
           let initial_size = (if trunc then 0 else sz) in
           do { (ok, e, k) \<leftarrow> fd_ensure_write_capacity e (initial_size + 1) k;
                if \<not> ok then Some (ERR_INVAL, fd_reset_slot slot k)
                else
                  let wb = fd_write_buf e;
                      m = (mem_copy wb data (unat initial_size) (mem k))(wb + initial_size := 0);
                      e = e\<lparr>fd_write_size := initial_size, fd_data := wb, fd_size := initial_size\<rparr>;
                      e = (if trunc then e\<lparr>fd_offset := 0, fd_dirty := True\<rparr> else e)
                  in Some (int slot, put_fd slot e (k\<lparr>mem := m\<rparr>)) })"

definition ksys_open :: "u32 \<Rightarrow> u32 \<Rightarrow> 'a kernel_scheme \<Rightarrow> (int \<times> 'a kernel_scheme) option" where
  "ksys_open path flags k =
     (if path = NULL then Some (ERR_INVAL, k)
      else case copy_user_cstr k path 128 of
          None \<Rightarrow> Some (ERR_FAULT, k)
        | Some kpath \<Rightarrow>
            do { full \<leftarrow> make_abs_path k (cwd_or_root k) kpath 128;
                 (case full of
                    None \<Rightarrow> Some (ERR_INVAL, k)
                  | Some full_path \<Rightarrow>
                      do { (ok, k) \<leftarrow> (if flags AND O_CREAT \<noteq> 0 then vfs_touch (cwd_or_root k) (Some full_path) k
                                       else Some (True, k));
                           if \<not> ok then Some (ERR_INVAL, k)
                           else
                             do { (r, k) \<leftarrow> vfs_read_file (kn_fs k) (cwd_or_root k) (Some full_path) k;
                                  (case r of
                                     None \<Rightarrow> Some (ERR_INVAL, k)
                                   | Some (data, sz) \<Rightarrow>
                                       (case fd_alloc_slot (fd_table k) of
                                          None \<Rightarrow> Some (ERR_NFILE, k)
                                        | Some slot \<Rightarrow> open_slot slot (current_pid k) flags full_path data sz k)) } }) })"

text \<open>
  A descriptor that is dirty has a buffer; the empty string that the code writes in place of a
  missing one is modelled for size 0 only.
\<close>

definition ksys_close :: "int \<Rightarrow> 'a kernel_scheme \<Rightarrow> (int \<times> 'a kernel_scheme) option" where
  "ksys_close fd k =
     (case fd_lookup (fd_table k) fd (current_pid k) of
        None \<Rightarrow> Some (ERR_BADF, k)
      | Some slot \<Rightarrow>
          let e = fd_table k ! slot in
          if fd_writable e \<and> fd_dirty e then
            if fd_write_buf e = NULL \<and> fd_write_size e \<noteq> 0 then None
            else
              do { (ok, k) \<leftarrow> vfs_write_file (cwd_or_root k) (Some (fd_path e)) (fd_write_buf e) (fd_write_size e) k;
                   Some (if \<not> ok then (ERR_INVAL, k) else (0, fd_reset_slot slot k)) }
          else Some (0, fd_reset_slot slot k))"

section \<open>Processes and directories\<close>

definition ksys_getpid :: "'a kernel_scheme \<Rightarrow> int" where
  "ksys_getpid k =
     (if ring3_active k \<noteq> 0 \<and> ring3_current_pid k > 0 then current_pid k else task_current_pid (kn_sched k))"

definition ksys_mkdir :: "u32 \<Rightarrow> 'a kernel_scheme \<Rightarrow> (int \<times> 'a kernel_scheme) option" where
  "ksys_mkdir path k =
     (if path = NULL then Some (ERR_INVAL, k)
      else case copy_user_cstr k path 128 of
          None \<Rightarrow> Some (ERR_FAULT, k)
        | Some kpath \<Rightarrow>
            do { (ok, k) \<leftarrow> vfs_make_dir (cwd_or_root k) (Some kpath) k;
                 Some (if \<not> ok then ERR_INVAL else 0, k) })"

definition ksys_getcwd :: "u32 \<Rightarrow> u32 \<Rightarrow> 'a kernel_scheme \<Rightarrow> (int \<times> 'a kernel_scheme) option" where
  "ksys_getcwd buf len k =
     (if buf = NULL \<or> len = 0 then Some (ERR_INVAL, k)
      else if \<not> validate_user_ptr k buf len then Some (ERR_FAULT, k)
      else
        do { path \<leftarrow> vfs_get_cwd_path (vfs_nodes k) (vfs_root_node k) (cwd_or_root k) 128;
             let n = str_len path in
             Some (if n + 1 > len then (ERR_INVAL, k)
                   else (sint n, k\<lparr>mem := mem_write buf (map byte_of (take (unat n) path) @ [0]) (mem k)\<rparr>)) })"

definition ksys_list :: "u32 \<Rightarrow> 'a kernel_scheme \<Rightarrow> (int \<times> 'a kernel_scheme) option" where
  "ksys_list path k =
     (if path = NULL then
        do { out \<leftarrow> vfs_list (kn_fs k) (cwd_or_root k) None k; Some (0, emit CONSOLE_VGA out k) }
      else case copy_user_cstr k path 128 of
          None \<Rightarrow> Some (ERR_FAULT, k)
        | Some kpath \<Rightarrow>
            do { out \<leftarrow> vfs_list (kn_fs k) (cwd_or_root k) (Some kpath) k; Some (0, emit CONSOLE_VGA out k) })"

text \<open>\<^verbatim>\<open>task_list\<close> of \<^verbatim>\<open>kernel/task.c\<close>: the table that is printed.\<close>

definition task_line :: "sched_state \<Rightarrow> nat \<Rightarrow> string" where
  "task_line s i =
     (let t = tasks s ! i in
      (if current_index s = Some i then ''*   '' else ''    '') @ u32_dec_text (word_of_int (tk_pid t)) @ ''    '' @
      (if tk_ppid t < 0 then ''-1'' else u32_dec_text (word_of_int (tk_ppid t))) @ ''   '' @
      task_state_name (tk_state t) @ '' '' @ proc_state_name (proc_state_of (sc_procs s) (tk_pid t)) @ ''    '' @
      u32_dec_text (tk_runtime_ticks t) @ ''    '' @ tk_name t @ newline)"

definition task_list :: "sched_state \<Rightarrow> string" where
  "task_list s = ''CUR PID  PPID TSK PRC TICKS NAME'' @ newline @
     concat (map (task_line s) (filter (\<lambda>i. tk_state (tasks s ! i) \<noteq> TASK_UNUSED) [0..<MAX_TASKS]))"

definition ksys_ps :: "'a kernel_scheme \<Rightarrow> int \<times> 'a kernel_scheme" where
  "ksys_ps k = (0, emit CONSOLE_VGA (task_list (kn_sched k)) k)"

text \<open>\<^verbatim>\<open>print_systeminfo\<close> of \<^verbatim>\<open>kernel/arch/i386/platform.c\<close>.\<close>

definition print_systeminfo :: "multiboot_info option \<Rightarrow> u32 \<Rightarrow> 'a kernel_scheme \<Rightarrow> string" where
  "print_systeminfo mbi magic k =
     ''System Information'' @ newline @
     (case mbi of
        Some i \<Rightarrow>
          if magic = MULTIBOOT_MAGIC \<and> mb_flags i AND 0x1 \<noteq> 0 then
            ''  Conventional RAM: '' @ u32_dec_text (mb_mem_lower i) @ '' KiB'' @ newline @
            ''  Extended RAM:     '' @ u32_dec_text (mb_mem_upper i) @ '' KiB'' @ newline @
            ''  Usable total:     '' @ u32_dec_text (mb_mem_lower i + mb_mem_upper i) @ '' KiB'' @ newline
          else ''  RAM info: unavailable from multiboot'' @ newline
      | None \<Rightarrow> ''  RAM info: unavailable from multiboot'' @ newline) @
     ''  CPU:              '' @
     (case cpu_vendor_id k of
        Some vendor \<Rightarrow> ''CPUID vendor: '' @ vendor
      | None \<Rightarrow> ''80486-class (no CPUID)'') @ newline @
     ''  Kernel image:     '' @ u32_dec_text (kernel_bytes k) @ '' bytes'' @ newline @
     ''  Console backend:  '' @
     (case screen_pixels k of
        Some (w, h) \<Rightarrow> ''framebuffer '' @ u32_dec_text w @ ''x'' @ u32_dec_text h @ newline
      | None \<Rightarrow> ''VGA text mode'' @ newline) @
     ''  Timer ticks:      '' @ u32_dec_text (timer_ticks (kn_irq k)) @ '' (IRQ0 preemption)'' @ newline @
     ''  Heap state:       '' @
     (if heap_is_ready (heap k)
      then u32_dec_text (heap_bytes_used (heap k)) @ '' / '' @ u32_dec_text (heap_bytes_total (heap k)) @ '' bytes used'' @ newline
      else ''unavailable'' @ newline) @
     ''  Block devices:    '' @ u32_dec_text (storage_device_count (ie_storage (kn_fs k))) @ newline @
     ''  Mount entries:    '' @ u32_dec_text (fs_mount_count (kn_fs k)) @ newline @
     ''  Tasks:            '' @ u32_dec_text (task_count (kn_sched k)) @ newline @
     ''  Processes:        '' @ u32_dec_text (proc_count (kn_procs k)) @ newline @
     ''  Sched switches:   '' @ u32_dec_text (scheduler_switch_count (kn_sched k)) @ newline @ newline"

definition ksys_systeminfo :: "'a kernel_scheme \<Rightarrow> int \<times> 'a kernel_scheme" where
  "ksys_systeminfo k =
     (if user_boot_mbi k = None \<or> user_boot_magic k \<noteq> MULTIBOOT_MAGIC
      then (ERR_INVAL, emit CONSOLE_VGA (''systeminfo: boot info unavailable'' @ newline) k)
      else (0, emit CONSOLE_BOTH (print_systeminfo (user_boot_mbi k) (user_boot_magic k) k) k))"

text \<open>The fields of \<^verbatim>\<open>struct mem_info\<close> in their order.\<close>

record mem_info =
  mi_total_kib :: u32
  mi_used_kib :: u32
  mi_free_kib :: u32
  mi_shared_kib :: u32
  mi_buff_cache_kib :: u32
  mi_available_kib :: u32
  mi_swap_total_kib :: u32
  mi_swap_used_kib :: u32
  mi_swap_free_kib :: u32

definition mem_info_bytes :: "mem_info \<Rightarrow> u8 list" where
  "mem_info_bytes i = concat (map le32 [mi_total_kib i, mi_used_kib i, mi_free_kib i, mi_shared_kib i,
     mi_buff_cache_kib i, mi_available_kib i, mi_swap_total_kib i, mi_swap_used_kib i, mi_swap_free_kib i])"

definition meminfo_of :: "'a kernel_scheme \<Rightarrow> mem_info" where
  "meminfo_of k =
     (let total_kib = (case user_boot_mbi k of
            Some i \<Rightarrow> if user_boot_magic k = MULTIBOOT_MAGIC \<and> mb_flags i AND 0x1 \<noteq> 0
              then mb_mem_lower i + mb_mem_upper i else 0
          | None \<Rightarrow> 0);
          used_bytes = (if heap_is_ready (heap k) then kernel_bytes k + heap_bytes_used (heap k) else kernel_bytes k);
          free_bytes =
            (if heap_is_ready (heap k) then heap_bytes_free (heap k)
             else if total_kib > 1024 then
               let total_bytes = total_kib * 1024
               in if total_bytes > kernel_bytes k then total_bytes - kernel_bytes k else 0
             else 0);
          used_kib = (used_bytes + 1023) div 1024;
          free_kib = (if total_kib > used_kib then total_kib - used_kib else 0);
          available = free_bytes div 1024
      in \<lparr>mi_total_kib = total_kib, mi_used_kib = used_kib, mi_free_kib = free_kib, mi_shared_kib = 0,
          mi_buff_cache_kib = 0, mi_available_kib = (if available > free_kib then free_kib else available),
          mi_swap_total_kib = 0, mi_swap_used_kib = 0, mi_swap_free_kib = 0\<rparr>)"

definition ksys_meminfo :: "u32 \<Rightarrow> 'a kernel_scheme \<Rightarrow> int \<times> 'a kernel_scheme" where
  "ksys_meminfo info k =
     (if info = NULL \<or> \<not> validate_user_ptr k info 36 then (ERR_FAULT, k)
      else (0, k\<lparr>mem := mem_write info (mem_info_bytes (meminfo_of k)) (mem k)\<rparr>))"

section \<open>Messages and services\<close>

text \<open>The structure at an address of user memory.\<close>

definition message_at :: "memory \<Rightarrow> u32 \<Rightarrow> ipc_message" where
  "message_at m p = \<lparr>ms_src_pid = sint (rd32 m p), ms_dst_pid = sint (rd32 m (p + 4)), ms_type = rd32 m (p + 8),
     ms_arg1 = rd32 m (p + 12), ms_arg2 = rd32 m (p + 16), ms_arg3 = rd32 m (p + 20), ms_arg4 = rd32 m (p + 24)\<rparr>"

definition ksys_ipc_send :: "u32 \<Rightarrow> 'a kernel_scheme \<Rightarrow> int \<times> 'a kernel_scheme" where
  "ksys_ipc_send msg k =
     (if msg = NULL \<or> \<not> validate_user_ptr k msg 28 then (ERR_FAULT, k)
      else
        let kmsg = message_at (mem k) msg;
            (ok, k) = in_core (ipc_send (current_pid k) (ms_dst_pid kmsg) (Some kmsg)) k
        in (if \<not> ok then ERR_AGAIN else 0, k))"

definition ksys_ipc_recv :: "u32 \<Rightarrow> 'a kernel_scheme \<Rightarrow> int \<times> 'a kernel_scheme" where
  "ksys_ipc_recv msg k =
     (if msg = NULL \<or> \<not> validate_user_ptr k msg 28 then (ERR_FAULT, k)
      else
        let dst_pid = current_pid k; (r, ipc) = ipc_recv dst_pid (kn_ipc k) in
        case r of
          None \<Rightarrow>
            (let (ok, ipc) = ipc_block_recv (kn_procs k) dst_pid msg ipc
             in (if \<not> ok then ERR_AGAIN else ERR_BLOCKED, k\<lparr>kn_ipc := ipc\<rparr>))
        | Some kmsg \<Rightarrow> (0, k\<lparr>kn_ipc := ipc, mem := mem_write msg (message_bytes kmsg) (mem k)\<rparr>))"

definition ksys_ipc_reply :: "u32 \<Rightarrow> 'a kernel_scheme \<Rightarrow> int \<times> 'a kernel_scheme" where
  "ksys_ipc_reply msg k =
     (if msg = NULL \<or> \<not> validate_user_ptr k msg 28 then (ERR_FAULT, k)
      else
        let kmsg = message_at (mem k) msg;
            (ok, k) = in_core (ipc_reply (current_pid k) (ms_dst_pid kmsg) (Some kmsg)) k
        in (if \<not> ok then ERR_AGAIN else 0, k))"

definition ksys_yield :: int where "ksys_yield = 0"

definition ksys_service_register :: "u32 \<Rightarrow> 'a kernel_scheme \<Rightarrow> int \<times> 'a kernel_scheme" where
  "ksys_service_register name k =
     (if name = NULL then (ERR_INVAL, k)
      else case copy_user_cstr k name 32 of
          None \<Rightarrow> (ERR_FAULT, k)
        | Some kname \<Rightarrow>
            let (ok, services) = service_register (kn_procs k) (Some kname) (current_pid k) (kn_services k)
            in (if \<not> ok then ERR_INVAL else 0, k\<lparr>kn_services := services\<rparr>))"

definition ksys_service_lookup :: "u32 \<Rightarrow> 'a kernel_scheme \<Rightarrow> int \<times> 'a kernel_scheme" where
  "ksys_service_lookup name k =
     (if name = NULL then (ERR_INVAL, k)
      else case copy_user_cstr k name 32 of
          None \<Rightarrow> (ERR_FAULT, k)
        | Some kname \<Rightarrow>
            let (pid, services) = service_lookup (kn_procs k) (Some kname) (kn_services k)
            in (if pid < 0 then ERR_INVAL else pid, k\<lparr>kn_services := services\<rparr>))"

section \<open>File status\<close>

definition stat_bytes :: "user_stat \<Rightarrow> u8 list" where
  "stat_bytes st = le32 (st_mode st) @ le32 (st_size st)"

definition ksys_stat :: "u32 \<Rightarrow> u32 \<Rightarrow> 'a kernel_scheme \<Rightarrow> (int \<times> 'a kernel_scheme) option" where
  "ksys_stat path st k =
     (if path = NULL \<or> st = NULL then Some (ERR_INVAL, k)
      else if \<not> validate_user_ptr k st 8 then Some (ERR_FAULT, k)
      else case copy_user_cstr k path 128 of
          None \<Rightarrow> Some (ERR_FAULT, k)
        | Some kpath \<Rightarrow>
            do { (r, k) \<leftarrow> vfs_stat (kn_fs k) (cwd_or_root k) (Some kpath) k;
                 Some (case r of
                         None \<Rightarrow> (ERR_INVAL, k)
                       | Some x \<Rightarrow> (0, k\<lparr>mem := mem_write st (stat_bytes x) (mem k)\<rparr>)) })"

definition ksys_fstat :: "int \<Rightarrow> u32 \<Rightarrow> 'a kernel_scheme \<Rightarrow> int \<times> 'a kernel_scheme" where
  "ksys_fstat fd st k =
     (if st = NULL then (ERR_INVAL, k)
      else if \<not> validate_user_ptr k st 8 then (ERR_FAULT, k)
      else if 0 \<le> fd \<and> fd \<le> 2
      then (0, k\<lparr>mem := mem_write st (stat_bytes \<lparr>st_mode = 0x2000, st_size = 0\<rparr>) (mem k)\<rparr>)
      else
        (case fd_lookup (fd_table k) fd (current_pid k) of
           None \<Rightarrow> (ERR_BADF, k)
         | Some slot \<Rightarrow>
             let e = fd_table k ! slot;
                 x = \<lparr>st_mode = S_IFREG, st_size = (if fd_write_buf e \<noteq> NULL then fd_write_size e else fd_size e)\<rparr>
             in (0, k\<lparr>mem := mem_write st (stat_bytes x) (mem k)\<rparr>)))"

section \<open>Dispatch\<close>

text \<open>An \<^verbatim>\<open>int\<close> in decimal, as \<^verbatim>\<open>ksys_exit\<close> prints it.\<close>

definition signed_text :: "int \<Rightarrow> string" where
  "signed_text v = (if v < 0 then ''-'' @ u32_dec_text (word_of_int (- v)) else u32_dec_text (word_of_int v))"

definition ksys_exit :: "int \<Rightarrow> 'a kernel_scheme \<Rightarrow> 'a kernel_scheme" where
  "ksys_exit code k =
     (let pid = task_current_pid (kn_sched k);
          k = (if pid > 0 then k\<lparr>kn_sched := upd_procs (\<lambda>pt. snd (proc_exit pid code pt)) (kn_sched k)\<rparr> else k)
      in emit CONSOLE_BOTH (''process '' @ signed_text pid @ '' exited with code '' @ signed_text code @ newline) k)"

text \<open>The numbers of \<^verbatim>\<open>enum syscall_id\<close>.\<close>

datatype syscall_id =
    SYS_READ | SYS_WRITE | SYS_OPEN | SYS_CLOSE | SYS_MKDIR | SYS_GETCWD | SYS_GETPID | SYS_EXIT | SYS_LIST
  | SYS_SYSTEMINFO | SYS_PS | SYS_MEMINFO | SYS_IPC_SEND | SYS_IPC_RECV | SYS_IPC_REPLY | SYS_YIELD
  | SYS_SERVICE_REGISTER | SYS_SERVICE_LOOKUP | SYS_STAT | SYS_FSTAT | SYS_RET_KERNEL

definition syscall_numbers :: "(u32 \<times> syscall_id) list" where
  "syscall_numbers =
     [(0, SYS_READ), (1, SYS_WRITE), (2, SYS_OPEN), (3, SYS_CLOSE), (83, SYS_MKDIR), (183, SYS_GETCWD),
      (20, SYS_GETPID), (60, SYS_EXIT), (241, SYS_LIST), (242, SYS_SYSTEMINFO), (243, SYS_PS), (244, SYS_MEMINFO),
      (245, SYS_IPC_SEND), (246, SYS_IPC_RECV), (247, SYS_IPC_REPLY), (248, SYS_YIELD), (249, SYS_SERVICE_REGISTER),
      (250, SYS_SERVICE_LOOKUP), (251, SYS_STAT), (252, SYS_FSTAT), (240, SYS_RET_KERNEL)]"

fun run_syscall :: "syscall_id \<Rightarrow> u32 \<Rightarrow> u32 \<Rightarrow> u32 \<Rightarrow> 'a kernel_scheme \<Rightarrow> (int \<times> 'a kernel_scheme) option" where
  "run_syscall SYS_READ a1 a2 a3 k = ksys_read (sint a1) a2 a3 k"
| "run_syscall SYS_WRITE a1 a2 a3 k = ksys_write (sint a1) a2 a3 k"
| "run_syscall SYS_OPEN a1 a2 a3 k = ksys_open a1 a2 k"
| "run_syscall SYS_CLOSE a1 a2 a3 k = ksys_close (sint a1) k"
| "run_syscall SYS_GETPID a1 a2 a3 k = Some (ksys_getpid k, k)"
| "run_syscall SYS_MKDIR a1 a2 a3 k = ksys_mkdir a1 k"
| "run_syscall SYS_GETCWD a1 a2 a3 k = ksys_getcwd a1 a2 k"
| "run_syscall SYS_EXIT a1 a2 a3 k = Some (0, ksys_exit (sint a1) k)"
| "run_syscall SYS_LIST a1 a2 a3 k = ksys_list a1 k"
| "run_syscall SYS_SYSTEMINFO a1 a2 a3 k = Some (ksys_systeminfo k)"
| "run_syscall SYS_PS a1 a2 a3 k = Some (ksys_ps k)"
| "run_syscall SYS_MEMINFO a1 a2 a3 k = Some (ksys_meminfo a1 k)"
| "run_syscall SYS_IPC_SEND a1 a2 a3 k = Some (ksys_ipc_send a1 k)"
| "run_syscall SYS_IPC_RECV a1 a2 a3 k = Some (ksys_ipc_recv a1 k)"
| "run_syscall SYS_IPC_REPLY a1 a2 a3 k = Some (ksys_ipc_reply a1 k)"
| "run_syscall SYS_YIELD a1 a2 a3 k = Some (ksys_yield, k)"
| "run_syscall SYS_SERVICE_REGISTER a1 a2 a3 k = Some (ksys_service_register a1 k)"
| "run_syscall SYS_SERVICE_LOOKUP a1 a2 a3 k = Some (ksys_service_lookup a1 k)"
| "run_syscall SYS_STAT a1 a2 a3 k = ksys_stat a1 a2 k"
| "run_syscall SYS_FSTAT a1 a2 a3 k = Some (ksys_fstat (sint a1) a2 k)"
| "run_syscall SYS_RET_KERNEL a1 a2 a3 k = Some (0, k)"

definition syscall_entry :: "u32 \<Rightarrow> u32 \<Rightarrow> u32 \<Rightarrow> u32 \<Rightarrow> 'a kernel_scheme \<Rightarrow> (int \<times> 'a kernel_scheme) option" where
  "syscall_entry num a1 a2 a3 k =
     (case map_of syscall_numbers num of
        Some n \<Rightarrow> run_syscall n a1 a2 a3 k
      | None \<Rightarrow> Some (- 1, k))"

end
