(* ===== verification/Exec.thy ===== *)
theory Exec
  imports Syscall
begin

text \<open>
  \<^verbatim>\<open>kernel/exec.c\<close>, the functions of \<^verbatim>\<open>kernel/elf.c\<close> and \<^verbatim>\<open>kernel/task.c\<close> that run user programs,
  and what the two assembly files around them do to the state of the kernel: the way into user
  mode, the trap, and the way back.

  The programs themselves are a parameter: \<open>user_code\<close> says, for the registers and the memory
  with which the processor enters user mode, in which state it traps into the kernel for the
  first time after that: the memory, the interrupts that arrived in between (vector, and for the
  keyboard the byte at its data port), and the registers.  \<open>None\<close> is a program that never traps.
\<close>

section \<open>User mode\<close>

text \<open>
  \<open>entry_regs\<close> is what the kernel leaves in the registers that \<^verbatim>\<open>enter_user_mode\<close> does not set;
  the other two fields are the addresses of the code and the stack of \<^verbatim>\<open>ring3_test\<close>.
\<close>

record machine =
  user_code :: "user_context \<Rightarrow> memory \<Rightarrow> (memory \<times> (u32 \<times> u8) list \<times> user_context) option"
  entry_regs :: user_context
  ring3_user_stub :: u32
  ring3_user_stack :: u32

definition take_interrupt :: "u32 \<times> u8 \<Rightarrow> kernel \<Rightarrow> kernel option" where
  "take_interrupt i k =
     (case i of (vector, data) \<Rightarrow>
        map_option (\<lambda>(irq, sc). k\<lparr>kn_irq := irq, kn_sched := sc\<rparr>) (interrupt_dispatch vector data (kn_irq k, kn_sched k)))"

fun take_interrupts :: "(u32 \<times> u8) list \<Rightarrow> kernel \<Rightarrow> kernel option" where
  "take_interrupts [] k = Some k"
| "take_interrupts (i # is) k = Option.bind (take_interrupt i k) (take_interrupts is)"

text \<open>The words of the trap frame, from the top of the stack.\<close>

definition trap_frame :: "user_context \<Rightarrow> u32 list" where
  "trap_frame r = [uc_edi r, uc_esi r, uc_ebp r, uc_esp_dummy r, uc_ebx r, uc_edx r, uc_ecx r, uc_eax r,
     uc_eip r, uc_cs r, uc_eflags r, uc_user_esp r, uc_user_ss r]"

text \<open>
  The system call stub.  \<open>Some r\<close> continues the program with the registers \<open>r\<close>, \<open>None\<close> returns
  to the kernel code that entered user mode.
\<close>

definition return_to_kernel :: "kernel \<Rightarrow> kernel" where
  "return_to_kernel k = k\<lparr>ring3_active := 0, ring3_current_pid := 0\<rparr>"

definition user_trap :: "user_context \<Rightarrow> kernel \<Rightarrow> (user_context option \<times> kernel) option" where
  "user_trap r k =
     (let num = uc_eax r; from_user = (uc_cs r AND 0x3 = 0x3 \<or> ring3_active k = 1) in
      if num = 60 \<and> from_user then
        Some (None, return_to_kernel (k\<lparr>ring3_exit_code := uc_ebx r\<rparr>))
      else if num = 240 \<and> from_user then
        Some (None, return_to_kernel (k\<lparr>ring3_exit_code := 0, ring3_stop_reason := 2\<rparr>))
      else if num = 248 \<and> from_user then
        Some (None, return_to_kernel ((syscall_save_yield_context (trap_frame r) k)
          \<lparr>ring3_exit_code := 0, ring3_stop_reason := 1\<rparr>))
      else
        do { (ret, k) \<leftarrow> syscall_entry num (uc_ebx r) (uc_ecx r) (uc_edx r) k;
             Some (if ret = ERR_BLOCKED then
                     (None, return_to_kernel ((syscall_save_yield_context (trap_frame r) k)
                        \<lparr>ring3_exit_code := 0, ring3_stop_reason := 3\<rparr>))
                   else (Some (r\<lparr>uc_eax := word_of_int ret\<rparr>), k)) })"

text \<open>The program from the registers \<open>r\<close> on, to the trap that ends it.\<close>

partial_function (option) user_run :: "machine \<Rightarrow> user_context \<Rightarrow> kernel \<Rightarrow> kernel option" where
  "user_run M r k =
     do { (m, irqs, r) \<leftarrow> user_code M r (mem k);
          k \<leftarrow> take_interrupts irqs (k\<lparr>mem := m\<rparr>);
          (cont, k) \<leftarrow> user_trap r k;
          (case cont of None \<Rightarrow> Some k | Some r \<Rightarrow> user_run M r k) }"

declare user_run.simps [code]

definition in_user_mode :: "machine \<Rightarrow> user_context \<Rightarrow> kernel \<Rightarrow> (int \<times> kernel) option" where
  "in_user_mode M r k =
     map_option (\<lambda>k. (sint (ring3_exit_code k), k)) (user_run M r (k\<lparr>ring3_active := 1, ring3_stop_reason := 0\<rparr>))"

definition enter_user_mode :: "machine \<Rightarrow> u32 \<Rightarrow> u32 \<Rightarrow> kernel \<Rightarrow> (int \<times> kernel) option" where
  "enter_user_mode M eip esp k =
     in_user_mode M ((entry_regs M)\<lparr>uc_esi := eip, uc_edi := esp, uc_eip := eip, uc_cs := 0x1B,
       uc_eflags := 0x202, uc_user_esp := esp, uc_user_ss := 0x23\<rparr>) k"

definition resume_user_mode :: "machine \<Rightarrow> user_context \<Rightarrow> kernel \<Rightarrow> (int \<times> kernel) option" where
  "resume_user_mode M r k = in_user_mode M r k"

text \<open>\<^verbatim>\<open>ring3_test\<close> of \<^verbatim>\<open>kernel/arch/i386/ring3.c\<close>\<close>

definition ring3_test :: "machine \<Rightarrow> console_target \<Rightarrow> kernel \<Rightarrow> (bool \<times> kernel) option" where
  "ring3_test M out k =
     do { let user_sp = ring3_user_stack M + (4096 - 16);
          let k = emit out (''ring3: enter test'' @ newline) k;
          (_, k) \<leftarrow> enter_user_mode M (ring3_user_stub M) user_sp k;
          Some (True, emit out (''ring3: returned to kernel'' @ newline) k) }"

section \<open>Running an image\<close>

fun elf_error_text :: "elf_error \<Rightarrow> string" where
  "elf_error_text ELF_too_small = ''run: ELF too small'' @ newline"
| "elf_error_text ELF_bad_magic = ''run: bad ELF magic'' @ newline"
| "elf_error_text ELF_bad_class = ''run: unsupported ELF class/data/version'' @ newline"
| "elf_error_text ELF_bad_type = ''run: unsupported ELF type/machine/version'' @ newline"
| "elf_error_text ELF_bad_phdrs = ''run: missing/invalid program headers'' @ newline"
| "elf_error_text ELF_headers_out_of_range = ''run: ELF headers out of range'' @ newline"
| "elf_error_text ELF_bad_segment = ''run: invalid PT_LOAD segment'' @ newline"
| "elf_error_text ELF_too_many_segments = ''run: too many load segments'' @ newline"
| "elf_error_text ELF_no_segments = ''run: no loadable segments'' @ newline"
| "elf_error_text ELF_outside_range = ''run: image outside reserved user range'' @ newline"
| "elf_error_text ELF_too_large = ''run: image too large for user buffer'' @ newline"
| "elf_error_text ELF_bad_plan = ''run: invalid load plan'' @ newline"
| "elf_error_text ELF_no_slot = ''run: no free process image slots'' @ newline"
| "elf_error_text ELF_segment_range = ''run: segment file range out of bounds'' @ newline"
| "elf_error_text ELF_no_image = ''run: no loaded image'' @ newline"
| "elf_error_text ELF_bad_entry = ''run: entry outside loaded image'' @ newline"
| "elf_error_text ELF_bad_stack = ''run: invalid user stack'' @ newline"
| "elf_error_text ELF_arg_too_long = ''run: argument too long'' @ newline"
| "elf_error_text ELF_args_exceed_stack = ''run: arguments exceed user stack'' @ newline"
| "elf_error_text ELF_table_exceeds_stack = ''run: argument table exceeds user stack'' @ newline"
| "elf_error_text ELF_header_exceeds_stack = ''run: argument header exceeds user stack'' @ newline"
| "elf_error_text ELF_not_resumable = ''run: no resumable image'' @ newline"
| "elf_error_text ELF_no_image_slot = ''run: no process image slot'' @ newline"

text \<open>
  The result is the exit code, or \<open>None\<close> where the code returns 0.  The checks and the argument
  block are \<open>elf_build_stack\<close>, the restoration of the memory \<open>elf_restore_image\<close>.
\<close>

definition elf_execute_image ::
  "machine \<Rightarrow> proc_image \<Rightarrow> int \<Rightarrow> int \<Rightarrow> string option list \<Rightarrow> console_target \<Rightarrow> kernel \<Rightarrow> (int option \<times> kernel) option" where
  "elf_execute_image M img pid argc argv out k =
     (case elf_build_stack img pid argc argv (mem k) of
        (Inl err, m) \<Rightarrow> Some (None, emit out (elf_error_text err) (k\<lparr>mem := m\<rparr>))
      | (Inr user_sp, m) \<Rightarrow>
          do { (rc, k) \<leftarrow> enter_user_mode M (im_entry img) user_sp (k\<lparr>mem := m, ring3_current_pid := word_of_int pid\<rparr>);
               Some (Some rc, k\<lparr>ring3_current_pid := 0\<rparr>) })"

definition elf_resume_image ::
  "machine \<Rightarrow> proc_image \<Rightarrow> int \<Rightarrow> console_target \<Rightarrow> kernel \<Rightarrow> (int option \<times> kernel) option" where
  "elf_resume_image M img pid out k =
     (case elf_restore_image (kn_procs k) pid img (mem k) (kn_elf k) of
        (Inl err, e) \<Rightarrow> Some (None, emit out (elf_error_text err) (k\<lparr>kn_elf := e\<rparr>))
      | (Inr m, e) \<Rightarrow>
          do { (rc, k) \<leftarrow> resume_user_mode M (im_context img) (k\<lparr>kn_elf := e, mem := m, ring3_current_pid := word_of_int pid\<rparr>);
               Some (Some rc, k\<lparr>ring3_current_pid := 0\<rparr>) })"

section \<open>Running a task\<close>

record exec_context =
  ec_output :: console_target
  ec_cwd :: u32
  ec_mbi :: "multiboot_info option"
  ec_magic :: u32

datatype exec_stop_reason = EXEC_STOP_NONE | EXEC_STOP_YIELDED | EXEC_STOP_EXITED | EXEC_STOP_BLOCKED

definition in_sched :: "(sched_state \<Rightarrow> sched_state) \<Rightarrow> kernel \<Rightarrow> kernel" where
  "in_sched f k = k\<lparr>kn_sched := f (kn_sched k)\<rparr>"

text \<open>
  The two branches for a program that has stopped but not ended: its memory is saved, or the
  function fails.  \<open>ts\<close> and \<open>ps\<close> are the states of the task and the process.
\<close>

definition park_task ::
  "int \<Rightarrow> task_state \<Rightarrow> proc_state \<Rightarrow> exec_stop_reason \<Rightarrow> kernel \<Rightarrow> (int \<times> exec_stop_reason) option \<times> kernel" where
  "park_task pid ts ps reason k =
     (case proc_get_image (kn_procs k) pid of
        None \<Rightarrow> (None, k)
      | Some img \<Rightarrow>
          (case elf_snapshot_image (kn_procs k) pid img (mem k) (kn_elf k) of
             (False, e) \<Rightarrow> (None, k\<lparr>kn_elf := e\<rparr>)
           | (True, e) \<Rightarrow>
               (Some (0, reason),
                in_sched (\<lambda>s. task_return_to_kernel_main (upd_procs (proc_set_state pid ps) (task_set_state pid ts s)))
                  (k\<lparr>kn_elf := e\<rparr>))))"

text \<open>The loop of the function returns in its first round.\<close>

definition task_run_user_until_stop ::
  "machine \<Rightarrow> int \<Rightarrow> int \<Rightarrow> string option list \<Rightarrow> exec_context \<Rightarrow> kernel \<Rightarrow> ((int \<times> exec_stop_reason) option \<times> kernel) option" where
  "task_run_user_until_stop M pid argc argv ctx k =
     (if pid \<le> 0 then Some (None, k)
      else case proc_get_image (kn_procs k) pid of
          None \<Rightarrow> Some (None, k)
        | Some img \<Rightarrow>
            if \<not> im_loaded img then Some (None, k)
            else
              do { let k = syscall_set_user_cwd (if im_cwd img \<noteq> NULL then im_cwd img else ec_cwd ctx) k;
                   let k = syscall_set_bootinfo (ec_mbi ctx) (ec_magic ctx) k;
                   let k = in_sched (\<lambda>s. upd_procs (proc_set_state pid PROC_RUNNING) (task_set_state pid TASK_RUNNING s)) k;
                   (rc, k) \<leftarrow> (if im_context_valid img then elf_resume_image M img pid (im_output img) k
                              else elf_execute_image M img pid argc argv (im_output img) k);
                   Some (case rc of
                           None \<Rightarrow> (None, k)
                         | Some rc \<Rightarrow>
                             if ring3_stop_reason k = 1 then park_task pid TASK_READY PROC_READY EXEC_STOP_YIELDED k
                             else if ring3_stop_reason k = 3 then park_task pid TASK_BLOCKED PROC_BLOCKED EXEC_STOP_BLOCKED k
                             else
                               (Some (rc, EXEC_STOP_EXITED),
                                in_sched (\<lambda>s. task_return_to_kernel_main
                                  (upd_procs (proc_set_state pid PROC_ZOMBIE) (task_set_state pid TASK_ZOMBIE s))) k)) })"

text \<open>The three calls that remove a process and its task.\<close>

definition exit_and_reap :: "int \<Rightarrow> int \<Rightarrow> kernel \<Rightarrow> kernel" where
  "exit_and_reap pid code k =
     in_sched (\<lambda>s. snd (task_reap_pid pid (upd_procs (\<lambda>pt. snd (proc_reap_pid pid (snd (proc_exit pid code pt)))) s))) k"

definition resumable :: "sched_state \<Rightarrow> task_info \<Rightarrow> bool" where
  "resumable s t = (tk_state t = TASK_READY \<and> tk_pid t > 0 \<and>
     (case proc_get_image (sc_procs s) (tk_pid t) of
        None \<Rightarrow> False | Some img \<Rightarrow> im_loaded img \<and> im_context_valid img))"

definition task_resume_next_ready_user :: "machine \<Rightarrow> multiboot_info option \<Rightarrow> u32 \<Rightarrow> kernel \<Rightarrow> (bool \<times> kernel) option" where
  "task_resume_next_ready_user M mbi magic k =
     (case find_index (resumable (kn_sched k)) (tasks (kn_sched k)) of
        None \<Rightarrow> Some (False, k)
      | Some i \<Rightarrow>
          (let pid = tk_pid (tasks (kn_sched k) ! i) in
           case proc_get_image (kn_procs k) pid of
             None \<Rightarrow> None
           | Some img \<Rightarrow>
               do { (r, k) \<leftarrow> task_run_user_until_stop M pid 0 []
                      \<lparr>ec_output = im_output img, ec_cwd = im_cwd img, ec_mbi = mbi, ec_magic = magic\<rparr> k;
                    Some (case r of
                            None \<Rightarrow> (False, k)
                          | Some (code, reason) \<Rightarrow>
                              (True, if reason = EXEC_STOP_EXITED then exit_and_reap (tk_pid (tasks (kn_sched k) ! i)) code k else k)) }))"

section \<open>Programs by path\<close>

definition exec_has_suffix :: "string \<Rightarrow> string \<Rightarrow> bool" where
  "exec_has_suffix s suffix =
     (let s_len = str_len s; suf_len = str_len suffix in
      if s_len < suf_len then False
      else list_all (\<lambda>i. deref (drop (unat (s_len - suf_len + of_nat i)) s) = deref (drop i suffix)) [0..<unat suf_len])"

definition exec_is_elf_path :: "u32 \<Rightarrow> string \<Rightarrow> kernel \<Rightarrow> (bool \<times> kernel) option" where
  "exec_is_elf_path cwd path k =
     do { (r, k) \<leftarrow> vfs_read_file (kn_fs k) cwd (Some path) k;
          Some (case r of
                  None \<Rightarrow> (False, k)
                | Some (data, sz) \<Rightarrow>
                    (if data = NULL \<or> sz < 4 then False
                     else mem_read (mem k) data 4 = [0x7F, byte_of CHR ''E'', byte_of CHR ''L'', byte_of CHR ''F''], k)) }"

text \<open>\<open>name_start s name\<close> is the loop over the path, \<open>name\<close> the start of the name so far.\<close>

fun name_start :: "string \<Rightarrow> string \<Rightarrow> string" where
  "name_start [] name = name"
| "name_start (c # s) name =
     (if c = NUL then name
      else name_start s (if c = CHR ''/'' \<and> deref s \<noteq> NUL then s else name))"

definition exec_program_name_from_path :: "string option \<Rightarrow> u32 \<Rightarrow> string \<Rightarrow> string" where
  "exec_program_name_from_path path out_size out =
     (if out_size = 0 then out
      else case path of
          None \<Rightarrow> str_copy out ''userprog'' out_size
        | Some p \<Rightarrow>
            if deref p = NUL then str_copy out ''userprog'' out_size
            else
              let name = name_start p p;
                  len = str_len name;
                  ch = (\<lambda>i. deref (drop (unat i) name));
                  len = (if len > 4 \<and> ch (len - 4) = CHR ''.'' \<and> ch (len - 3) = CHR ''e'' \<and>
                           ch (len - 2) = CHR ''l'' \<and> ch (len - 1) = CHR ''f'' then len - 4 else len)
              in if len = 0 then str_copy out ''userprog'' out_size
                 else
                   let len = (if len + 1 > out_size then out_size - 1 else len)
                   in take (unat len) name)"

text \<open>\<^verbatim>\<open>elf_prepare_load_plan_from_vfs\<close> of \<^verbatim>\<open>kernel/elf.c\<close>\<close>

definition elf_prepare_load_plan_from_vfs :: "u32 \<Rightarrow> string \<Rightarrow> console_target \<Rightarrow> kernel \<Rightarrow> (exec_load_plan option \<times> kernel) option" where
  "elf_prepare_load_plan_from_vfs cwd path out k =
     do { (r, k) \<leftarrow> vfs_read_file (kn_fs k) cwd (Some path) k;
          let missing = (None, emit out (''run: file not found'' @ newline) k);
          Some (case r of
                  None \<Rightarrow> missing
                | Some (data, sz) \<Rightarrow>
                    if data = NULL then missing
                    else case elf_prepare_load_plan (mem k) data sz of
                        Inl err \<Rightarrow> (None, emit out (elf_error_text err) k)
                      | Inr plan \<Rightarrow> (Some plan, k)) }"

definition report_pid :: "string \<Rightarrow> int \<Rightarrow> exec_context \<Rightarrow> kernel \<Rightarrow> kernel" where
  "report_pid what pid ctx k = emit (ec_output ctx) (what @ u32_dec_text (word_of_int pid) @ newline) k"

text \<open>From the program in memory on: the process exists, and its image is loaded, bound and run.\<close>

definition exec_run_loaded ::
  "machine \<Rightarrow> int \<Rightarrow> exec_load_plan \<Rightarrow> u32 \<Rightarrow> u32 \<Rightarrow> int \<Rightarrow> string option list \<Rightarrow> exec_context \<Rightarrow> kernel \<Rightarrow> (bool \<times> kernel) option" where
  "exec_run_loaded M pid plan data sz argc argv ctx k =
     (case elf_load_from_plan (kn_procs k) pid plan data sz (kn_elf k) (mem k) of
        (Inl err, e, m) \<Rightarrow>
          Some (False, exit_and_reap pid (- 1) (emit (ec_output ctx) (elf_error_text err) (k\<lparr>kn_elf := e, mem := m\<rparr>)))
      | (Inr img, e, m) \<Rightarrow>
          do { let img = img\<lparr>im_cwd := ec_cwd ctx, im_output := ec_output ctx\<rparr>;
               let k = in_sched (upd_procs (\<lambda>pt. snd (proc_bind_image pid (Some img) pt))) (k\<lparr>kn_elf := e, mem := m\<rparr>);
               (r, k) \<leftarrow> task_run_user_until_stop M pid argc argv ctx k;
               Some (case r of
                       None \<Rightarrow> (False, exit_and_reap pid (- 1) k)
                     | Some (rc, reason) \<Rightarrow>
                         if reason = EXEC_STOP_YIELDED then (True, report_pid ''run: yielded pid '' pid ctx k)
                         else if reason = EXEC_STOP_BLOCKED then (True, report_pid ''run: blocked pid '' pid ctx k)
                         else (True, exit_and_reap pid rc k)) })"

definition exec_run_elf_path ::
  "machine \<Rightarrow> string \<Rightarrow> int \<Rightarrow> string option list \<Rightarrow> exec_context \<Rightarrow> kernel \<Rightarrow> (bool \<times> kernel) option" where
  "exec_run_elf_path M path argc argv ctx k =
     (let ppid = task_current_pid (kn_sched k);
          ppid = (if ppid < 0 then 0 else ppid)
      in do { (r, k) \<leftarrow> vfs_read_file (kn_fs k) (ec_cwd ctx) (Some path) k;
              (case r of
                 None \<Rightarrow> Some (False, emit (ec_output ctx) (''run: file not found'' @ newline) k)
               | Some (data, sz) \<Rightarrow>
                   if data = NULL then Some (False, emit (ec_output ctx) (''run: file not found'' @ newline) k)
                   else
                     do { (plan, k) \<leftarrow> elf_prepare_load_plan_from_vfs (ec_cwd ctx) path (ec_output ctx) k;
                          (case plan of
                             None \<Rightarrow> Some (False, k)
                           | Some plan \<Rightarrow>
                               let prog_name = exec_program_name_from_path (Some path) 16 [];
                                   (pid, sc) = task_spawn_user (Some prog_name) ppid (kn_sched k);
                                   k = k\<lparr>kn_sched := sc\<rparr>
                               in if pid < 0 then Some (False, emit (ec_output ctx) (''run: failed to allocate process'' @ newline) k)
                                  else exec_run_loaded M pid plan data sz argc argv ctx k) }) })"

text \<open>The result of a built-in program is not used.\<close>

definition prog_mounts :: "exec_context \<Rightarrow> kernel \<Rightarrow> kernel" where
  "prog_mounts ctx k = emit (ec_output ctx) (fs_print_mounts (kn_fs k)) k"

definition prog_ring3test :: "machine \<Rightarrow> exec_context \<Rightarrow> kernel \<Rightarrow> kernel option" where
  "prog_ring3test M ctx k =
     do { (ok, k) \<leftarrow> ring3_test M (ec_output ctx) k;
          Some (if \<not> ok then emit (ec_output ctx) (''ring3test: failed'' @ newline) k else k) }"

definition exec_seed_programs :: int where "exec_seed_programs = 0"

text \<open>
  The paths that are tried, in this order, for a path that names no built-in program: the path,
  the path with the suffix, and for a path under \<^verbatim>\<open>/bin\<close> the same two on the CD-ROM.
\<close>

definition exec_with_suffix :: "string \<Rightarrow> string list" where
  "exec_with_suffix path =
     (if exec_has_suffix path ''.elf'' then []
      else
        let alt_path = str_copy [] path 128
        in if str_len alt_path + 4 < 128 then [alt_path @ ''.elf''] else [])"

definition exec_on_cdrom :: "string \<Rightarrow> string" where
  "exec_on_cdrom path = fst (copy_bounded path 128 ''/mount/cdrom'')"

definition exec_candidates :: "string \<Rightarrow> string list" where
  "exec_candidates path =
     path # exec_with_suffix path @
     (if str_startswith path ''/bin/'' then exec_on_cdrom path # exec_with_suffix (exec_on_cdrom path) else [])"

fun exec_try ::
  "machine \<Rightarrow> string list \<Rightarrow> int \<Rightarrow> string option list \<Rightarrow> exec_context \<Rightarrow> kernel \<Rightarrow> (int \<times> kernel) option" where
  "exec_try M [] argc argv ctx k = Some (0, k)"
| "exec_try M (path # paths) argc argv ctx k =
     do { (is_elf, k) \<leftarrow> exec_is_elf_path (ec_cwd ctx) path k;
          if is_elf then
            do { (ok, k) \<leftarrow> exec_run_elf_path M path argc argv ctx k; Some (if ok then 1 else - 1, k) }
          else exec_try M paths argc argv ctx k }"

definition exec_run_path ::
  "machine \<Rightarrow> string \<Rightarrow> int \<Rightarrow> string option list \<Rightarrow> exec_context \<Rightarrow> kernel \<Rightarrow> (int \<times> kernel) option" where
  "exec_run_path M path argc argv ctx k =
     (if str_eq path ''/bin/mounts'' then Some (1, prog_mounts ctx k)
      else if str_eq path ''/bin/ring3test'' then map_option (Pair 1) (prog_ring3test M ctx k)
      else exec_try M (exec_candidates path) argc argv ctx k)"

definition exec_resume_pid :: "machine \<Rightarrow> int \<Rightarrow> exec_context \<Rightarrow> kernel \<Rightarrow> (bool \<times> kernel) option" where
  "exec_resume_pid M pid ctx k =
     (if pid \<le> 0 then Some (False, k)
      else
        let refuse = Some (False, emit (ec_output ctx) (''resume: pid not resumable'' @ newline) k) in
        case proc_get_image (kn_procs k) pid of
          None \<Rightarrow> refuse
        | Some img \<Rightarrow>
            if \<not> im_loaded img \<or> \<not> im_context_valid img then refuse
            else
              do { (r, k) \<leftarrow> task_run_user_until_stop M pid 0 [] ctx k;
                   Some (case r of
                           None \<Rightarrow> (False, emit (ec_output ctx) (''resume: failed'' @ newline) k)
                         | Some (rc, reason) \<Rightarrow>
                             if reason = EXEC_STOP_YIELDED then (True, report_pid ''resume: yielded pid '' pid ctx k)
                             else if reason = EXEC_STOP_BLOCKED then (True, report_pid ''resume: blocked pid '' pid ctx k)
                             else (True, exit_and_reap pid rc k)) })"

end
