(* ===== verification/Shell.thy ===== *)
theory Shell
  imports Exec Console
begin

text \<open>
  \<^verbatim>\<open>kernel/shell.c\<close>, \<^verbatim>\<open>kernel/panic.c\<close> and the parts of \<^verbatim>\<open>arch/i386/serial.c\<close> and
  \<^verbatim>\<open>arch/i386/platform.c\<close> that the shell waits on.

  The state is the kernel, the console and the bytes that the serial port delivers: one entry
  per poll of its status, \<open>None\<close> for a poll that finds nothing.  What the functions of the kernel
  print is in \<open>kn_output\<close> while they run; \<open>in_kernel\<close> prints it on the console.  A result \<open>None\<close>
  stands for an access outside an array or for a call that does not return; a function that
  stops the processor has the result \<open>Halted\<close>.
\<close>

record world =
  w_kernel :: kernel
  w_console :: console_state
  serial_polls :: "char option list"

datatype 'a outcome = Halted world | Returned 'a

text \<open>
  The parameters: the processor in user mode, the boot information, and the address of the
  buffer \<open>out\<close> of \<^verbatim>\<open>shell_handle_echo\<close> on the stack of the kernel.
\<close>

record shell_env =
  se_machine :: machine
  se_mbi :: "multiboot_info option"
  se_magic :: u32
  se_echo_out :: u32

definition in_console :: "(console_state \<Rightarrow> console_state option) \<Rightarrow> world \<Rightarrow> world option" where
  "in_console f w = map_option (\<lambda>c. w\<lparr>w_console := c\<rparr>) (f (w_console w))"

abbreviation say :: "console_target \<Rightarrow> string \<Rightarrow> world \<Rightarrow> world option" where
  "say out s \<equiv> in_console (console_print out s)"

abbreviation say_dec :: "console_target \<Rightarrow> u32 \<Rightarrow> world \<Rightarrow> world option" where
  "say_dec out v \<equiv> in_console (console_print_u32_dec out v)"

abbreviation say_hex :: "console_target \<Rightarrow> u32 \<Rightarrow> world \<Rightarrow> world option" where
  "say_hex out v \<equiv> in_console (console_print_hex_u32 out v)"

abbreviation say_char :: "console_target \<Rightarrow> char \<Rightarrow> world \<Rightarrow> world option" where
  "say_char out c \<equiv> in_console (console_putchar out c)"

fun print_all :: "(console_target \<times> string) list \<Rightarrow> console_state \<Rightarrow> console_state option" where
  "print_all [] c = Some c"
| "print_all ((out, s) # ps) c = Option.bind (console_print out s c) (print_all ps)"

definition in_kernel :: "(kernel \<Rightarrow> ('a \<times> kernel) option) \<Rightarrow> world \<Rightarrow> ('a \<times> world) option" where
  "in_kernel f w =
     do { (r, k) \<leftarrow> f (w_kernel w);
          c \<leftarrow> print_all (kn_output k) (w_console w);
          Some (r, w\<lparr>w_kernel := k\<lparr>kn_output := []\<rparr>, w_console := c\<rparr>) }"

section \<open>Panic\<close>

definition panic_header :: "console_state \<Rightarrow> console_state option" where
  "panic_header c =
     do { c \<leftarrow> term_clear (term_set_color 15 4 c);
          c \<leftarrow> term_print (''A problem has been detected and SLOP OS has been shut down'' @ newline) c;
          term_print (''to prevent damage to your computer.'' @ newline @ newline) c }"

record interrupt_frame =
  if_gs :: u32
  if_fs :: u32
  if_es :: u32
  if_ds :: u32
  if_edi :: u32
  if_esi :: u32
  if_ebp :: u32
  if_esp :: u32
  if_ebx :: u32
  if_edx :: u32
  if_ecx :: u32
  if_eax :: u32
  if_vector :: u32
  if_error_code :: u32
  if_eip :: u32
  if_cs :: u32
  if_eflags :: u32

definition kernel_panic_exception :: "interrupt_frame \<Rightarrow> world \<Rightarrow> 'a outcome option" where
  "kernel_panic_exception frame w =
     do { c \<leftarrow> panic_header (w_console w);
          c \<leftarrow> term_print (''EXCEPTION DETAILS'' @ newline) c;
          c \<leftarrow> term_print ''  vector:  '' c;
          c \<leftarrow> term_print_u32_dec (if_vector frame) c;
          c \<leftarrow> term_print (newline @ ''  error:   '') c;
          c \<leftarrow> term_print_hex_u32 (if_error_code frame) c;
          c \<leftarrow> term_print (newline @ ''  eip:     '') c;
          c \<leftarrow> term_print_hex_u32 (if_eip frame) c;
          c \<leftarrow> term_print (newline @ ''  cs:      '') c;
          c \<leftarrow> term_print_hex_u32 (if_cs frame) c;
          c \<leftarrow> term_print (newline @ ''  eflags:  '') c;
          c \<leftarrow> term_print_hex_u32 (if_eflags frame) c;
          c \<leftarrow> term_print newline c;
          Some (Halted (w\<lparr>w_console := c\<rparr>)) }"

definition kernel_panic_message :: "string option \<Rightarrow> world \<Rightarrow> 'a outcome option" where
  "kernel_panic_message message w =
     do { c \<leftarrow> panic_header (w_console w);
          c \<leftarrow> term_print (''EXCEPTION DETAILS'' @ newline) c;
          c \<leftarrow> term_print ''  manual panic requested'' c;
          c \<leftarrow> (case message of
                   None \<Rightarrow> Some c
                 | Some s \<Rightarrow> if deref s \<noteq> NUL then do { c \<leftarrow> term_print '': '' c; term_print s c } else Some c);
          c \<leftarrow> term_print newline c;
          Some (Halted (w\<lparr>w_console := c\<rparr>)) }"

section \<open>Lines\<close>

definition SHELL_INPUT_MAX :: u32 where "SHELL_INPUT_MAX = 127"
definition SHELL_ARG_MAX :: nat where "SHELL_ARG_MAX = 16"
definition SHELL_ECHO_MAX :: nat where "SHELL_ECHO_MAX = 128"

text \<open>The elements of \<open>input\<close> that have not been written hold anything.\<close>

record shell_context =
  sh_output :: console_target
  sh_input :: string
  sh_len :: u32
  sh_cwd :: u32

fun skip_spaces :: "string \<Rightarrow> string" where
  "skip_spaces [] = []"
| "skip_spaces (c # s) = (if c = CHR '' '' then skip_spaces s else c # s)"

text \<open>
  The inner loop over the characters of an argument, to a space, \<^verbatim>\<open>>\<close> or the end: the argument,
  and the line from there on.
\<close>

fun arg_loop :: "string \<Rightarrow> string \<Rightarrow> string \<times> string" where
  "arg_loop [] arg = (arg, [])"
| "arg_loop (c # s) arg =
     (if c = NUL \<or> c = CHR '' '' \<or> c = CHR ''>'' then (arg, c # s) else arg_loop s (arg @ [c]))"

text \<open>
  \<open>shell_split_args p n\<close> are the arguments from \<open>p\<close> on, at most \<open>n\<close> of them.  A \<^verbatim>\<open>>\<close> that ends an
  argument is overwritten with a null character, and the loop goes on from this character.
\<close>

fun shell_split_args :: "string \<Rightarrow> nat \<Rightarrow> string list" where
  "shell_split_args p 0 = []"
| "shell_split_args p (Suc n) =
     (if deref p = NUL then []
      else
        let p = skip_spaces p in
        if deref p = NUL then []
        else if deref p = CHR ''>'' then ''>'' # shell_split_args (tl p) n
        else
          let (arg, rest) = arg_loop p [] in
          arg # (if deref rest = CHR ''>'' then shell_split_args (NUL # tl rest) n
                 else if deref rest = NUL then shell_split_args rest n
                 else shell_split_args (tl rest) n))"

section \<open>The commands\<close>

definition help_lines :: "string list" where
  "help_lines =
    [''Commands:'',
     ''  help       - list commands'',
     ''  clear      - clear screen'',
     ''  cd PATH    - change directory (shell builtin)'',
     ''  dir [PATH] - list directory (shell builtin)'',
     ''  file PATH  - inspect file header (shell builtin)'',
     ''  resume PID - resume yielded user task'',
     ''  alloc N    - allocate N bytes from kernel heap'',
     ''  panic      - trigger kernel panic screen'',
     ''  reboot     - reset machine'',
     ''  halt       - stop CPU'',
     ''Program-style commands (/bin/*):'',
     ''  ls [PATH], pwd, mkdir PATH, touch PATH'',
     ''  cat PATH, writetest PATH TEXT, stdiotest PATH TEXT'',
     ''  systeminfo, sysinfod, ps, free'',
     ''  ipc_recv, ipc_send PID [TYPE] [ARG1] [ARG2]'',
     ''  ipc_selftest, yieldtest'',
     ''  svc_reg NAME, svc_lookup NAME'',
     ''    svc_reg keeps a live service task waiting on IPC'',
     ''  mounts, ring3test'',
     ''  tip: try ls /mount/cdrom and cat /mount/cdrom/...'',
     ''Shell builtins:'',
     ''  echo TEXT, echo TEXT > PATH'']"

definition shell_print_help :: "shell_context \<Rightarrow> world \<Rightarrow> world option" where
  "shell_print_help ctx w = in_console (print_all (map (\<lambda>s. (sh_output ctx, s @ newline)) help_lines)) w"

definition shell_print_heap_summary :: "shell_context \<Rightarrow> world \<Rightarrow> world option" where
  "shell_print_heap_summary ctx w =
     (let out = sh_output ctx; h = heap (w_kernel w) in
      if \<not> heap_is_ready h then say out (''Heap is unavailable. Multiboot memory info was not provided.'' @ newline) w
      else
        do { w \<leftarrow> say out ''Heap usage: '' w;
             w \<leftarrow> say_dec out (heap_bytes_used h) w;
             w \<leftarrow> say out '' / '' w;
             w \<leftarrow> say_dec out (heap_bytes_total h) w;
             w \<leftarrow> say out '' bytes, free '' w;
             w \<leftarrow> say_dec out (heap_bytes_free h) w;
             say out newline w })"

definition shell_handle_alloc :: "shell_context \<Rightarrow> string \<Rightarrow> world \<Rightarrow> world option" where
  "shell_handle_alloc ctx arg w =
     (let out = sh_output ctx; (sz, ok) = parse_u32_dec arg in
      if \<not> ok \<or> sz = 0 then say out (''Usage: alloc N'' @ newline) w
      else
        do { (ptr, w) \<leftarrow> in_kernel (\<lambda>k. Some (kmalloc sz k)) w;
             if ptr = NULL then say out (''Allocation failed.'' @ newline) w
             else
               do { w \<leftarrow> say out ''Allocated '' w;
                    w \<leftarrow> say_dec out sz w;
                    w \<leftarrow> say out '' bytes at '' w;
                    w \<leftarrow> say_hex out ptr w;
                    say out newline w } })"

definition shell_handle_cd :: "shell_context \<Rightarrow> string \<Rightarrow> world \<Rightarrow> (shell_context \<times> world) option" where
  "shell_handle_cd ctx arg w =
     (let arg = skip_spaces arg in
      if deref arg = NUL then map_option (Pair ctx) (say (sh_output ctx) (''Usage: cd PATH'' @ newline) w)
      else
        do { ((ok, cwd), w) \<leftarrow> in_kernel (\<lambda>k. map_option (\<lambda>(ok, cwd, k). ((ok, cwd), k))
               (vfs_change_dir (kn_fs k) (sh_cwd ctx) (Some arg) k)) w;
             let ctx = ctx\<lparr>sh_cwd := cwd\<rparr>;
             if \<not> ok then map_option (Pair ctx) (say (sh_output ctx) (''cd: no such directory'' @ newline) w)
             else Some (ctx, w) })"

definition shell_handle_dir :: "shell_context \<Rightarrow> string \<Rightarrow> world \<Rightarrow> world option" where
  "shell_handle_dir ctx arg w =
     (let arg = skip_spaces arg; path = (if deref arg = NUL then [] else arg) in
      do { listing \<leftarrow> vfs_list (kn_fs (w_kernel w)) (sh_cwd ctx) (Some path) (w_kernel w);
           say (sh_output ctx) listing w })"

definition shell_handle_file :: "shell_context \<Rightarrow> string \<Rightarrow> world \<Rightarrow> world option" where
  "shell_handle_file ctx arg w =
     (let out = sh_output ctx; arg = skip_spaces arg in
      if deref arg = NUL then say out (''Usage: file PATH'' @ newline) w
      else
        do { (r, w) \<leftarrow> in_kernel (\<lambda>k. vfs_read_file (kn_fs k) (sh_cwd ctx) (Some arg) k) w;
             let missing = say out (''file: no such file'' @ newline) w;
             (case r of
                None \<Rightarrow> missing
              | Some (data, sz) \<Rightarrow>
                  if data = NULL then missing
                  else
                    do { let m = mem (w_kernel w);
                         w \<leftarrow> say out ''size='' w;
                         w \<leftarrow> say_dec out sz w;
                         w \<leftarrow> (if sz \<ge> 4 then
                                 do { w \<leftarrow> say out '' magic='' w;
                                      say_hex out (ucast (m data) OR push_bit 8 (ucast (m (data + 1))) OR
                                        push_bit 16 (ucast (m (data + 2))) OR push_bit 24 (ucast (m (data + 3)))) w }
                               else Some w);
                         say out newline w }) })"

definition shell_exec_context :: "shell_env \<Rightarrow> shell_context \<Rightarrow> exec_context" where
  "shell_exec_context env ctx =
     \<lparr>ec_output = sh_output ctx, ec_cwd = sh_cwd ctx, ec_mbi = se_mbi env, ec_magic = se_magic env\<rparr>"

definition shell_handle_resume :: "shell_env \<Rightarrow> shell_context \<Rightarrow> string \<Rightarrow> world \<Rightarrow> world option" where
  "shell_handle_resume env ctx arg w =
     (let arg = skip_spaces arg in
      if deref arg = NUL then say (sh_output ctx) (''Usage: resume PID'' @ newline) w
      else
        let (pid, ok) = parse_u32_dec arg in
        if \<not> ok \<or> pid = 0 then say (sh_output ctx) (''resume: invalid pid'' @ newline) w
        else map_option snd (in_kernel (exec_resume_pid (se_machine env) (sint pid) (shell_exec_context env ctx)) w))"

text \<open>The text of \<^verbatim>\<open>echo\<close>: the arguments with spaces between them, as far as the buffer goes.\<close>

fun echo_text :: "string list \<Rightarrow> string \<Rightarrow> string" where
  "echo_text [] out = out"
| "echo_text (part # parts) out =
     (if out \<noteq> [] \<and> length out + 1 \<ge> SHELL_ECHO_MAX then out
      else
        let out = (if out \<noteq> [] then out @ '' '' else out)
        in echo_text parts (fst (copy_bounded part SHELL_ECHO_MAX out)))"

definition shell_handle_echo :: "shell_env \<Rightarrow> shell_context \<Rightarrow> string \<Rightarrow> world \<Rightarrow> world option" where
  "shell_handle_echo env ctx line w =
     (let argv = shell_split_args line SHELL_ARG_MAX; args = tl argv in
      if length argv < 2 then say_char (sh_output ctx) CHR 0x0A w
      else
        case find_index (\<lambda>a. str_eq a ''>'') args of
          None \<Rightarrow>
            do { w \<leftarrow> say (sh_output ctx) (echo_text args []) w;
                 say_char (sh_output ctx) CHR 0x0A w }
        | Some redir \<Rightarrow>
            if redir = 0 then say (sh_output ctx) (''echo: missing text'' @ newline) w
            else if redir + 1 \<ge> length args then say (sh_output ctx) (''echo: missing redirect path'' @ newline) w
            else
              let txt = echo_text (take redir args) [] in
              do { (ok, w) \<leftarrow> in_kernel (\<lambda>k. vfs_write_file (sh_cwd ctx) (Some (args ! (redir + 1))) (se_echo_out env) (of_nat (length txt))
                     (k\<lparr>mem := mem_write (se_echo_out env) (map byte_of txt @ [0]) (mem k)\<rparr>)) w;
                   if \<not> ok then say (sh_output ctx) (''echo: write failed'' @ newline) w else Some w })"

definition shell_print_prompt :: "shell_context \<Rightarrow> world \<Rightarrow> world option" where
  "shell_print_prompt ctx w =
     do { path \<leftarrow> vfs_get_cwd_path (vfs_nodes (w_kernel w)) (vfs_root_node (w_kernel w)) (sh_cwd ctx) 128;
          let (fg, bg) = term_get_color (w_console w);
          w \<leftarrow> in_console (\<lambda>c. console_printf (sh_output ctx) ''%s> '' [Va_str (Some path)] (term_set_color 10 0 c)) w;
          in_console (\<lambda>c. Some (term_set_color fg bg c)) w }"

definition shell_program_path :: "string \<Rightarrow> string" where
  "shell_program_path arg =
     (if deref arg = CHR ''/'' then str_copy [] arg 64 else fst (copy_bounded arg 64 (str_copy [] ''/bin/'' 64)))"

definition shell_run_program :: "shell_env \<Rightarrow> shell_context \<Rightarrow> string \<Rightarrow> world \<Rightarrow> (int \<times> world) option" where
  "shell_run_program env ctx line w =
     (case shell_split_args line SHELL_ARG_MAX of
        [] \<Rightarrow> Some (1, w)
      | arg # args \<Rightarrow>
          let arg = (if str_eq arg ''about'' then ''systeminfo'' else arg);
              argv = arg # args
          in in_kernel (exec_run_path (se_machine env) (shell_program_path arg) (int (length argv)) (map Some argv)
               (shell_exec_context env ctx)) w)"

definition with_ctx :: "shell_context \<Rightarrow> world option \<Rightarrow> (shell_context \<times> world) outcome option" where
  "with_ctx ctx r = map_option (\<lambda>w. Returned (ctx, w)) r"

definition shell_execute_line :: "shell_env \<Rightarrow> shell_context \<Rightarrow> string \<Rightarrow> world \<Rightarrow> (shell_context \<times> world) outcome option" where
  "shell_execute_line env ctx line w =
     (let trimmed = skip_spaces line; out = sh_output ctx in
      if deref trimmed = NUL then with_ctx ctx (Some w)
      else if str_eq trimmed ''help'' then with_ctx ctx (shell_print_help ctx w)
      else if str_eq trimmed ''clear'' then
        with_ctx ctx (if out = CONSOLE_VGA then in_console term_clear w else say out newline w)
      else if str_eq trimmed ''heap'' then with_ctx ctx (shell_print_heap_summary ctx w)
      else if str_startswith trimmed ''alloc '' then with_ctx ctx (shell_handle_alloc ctx (drop 6 trimmed) w)
      else if str_eq trimmed ''dir'' then with_ctx ctx (shell_handle_dir ctx [] w)
      else if str_startswith trimmed ''dir '' then with_ctx ctx (shell_handle_dir ctx (drop 4 trimmed) w)
      else if str_startswith trimmed ''file '' then with_ctx ctx (shell_handle_file ctx (drop 5 trimmed) w)
      else if str_startswith trimmed ''resume '' then with_ctx ctx (shell_handle_resume env ctx (drop 7 trimmed) w)
      else if str_startswith trimmed ''cd '' then map_option Returned (shell_handle_cd ctx (drop 3 trimmed) w)
      else if str_eq trimmed ''panic'' then kernel_panic_message (Some ''triggered from shell'') w
      else if str_eq trimmed ''reboot'' then map_option Halted (in_console (term_print (''Rebooting...'' @ newline)) w)
      else if str_eq trimmed ''halt'' then
        map_option Halted (in_console (term_print (''CPU halted. Reset VM to continue.'' @ newline)) w)
      else if str_eq trimmed ''echo'' \<or> str_startswith trimmed ''echo '' then
        with_ctx ctx (shell_handle_echo env ctx trimmed w)
      else
        do { (r, w) \<leftarrow> shell_run_program env ctx trimmed w;
             with_ctx ctx (if r = 0 then say out (''Unknown command/program. Type \"help\".'' @ newline) w else Some w) })"

section \<open>Characters\<close>

definition set_input :: "u32 \<Rightarrow> char \<Rightarrow> shell_context \<Rightarrow> shell_context option" where
  "set_input i c ctx =
     (if unat i < length (sh_input ctx) then Some (ctx\<lparr>sh_input := (sh_input ctx)[unat i := c]\<rparr>) else None)"

definition shell_process_char :: "shell_env \<Rightarrow> shell_context \<Rightarrow> char \<Rightarrow> world \<Rightarrow> (shell_context \<times> world) outcome option" where
  "shell_process_char env ctx c w =
     (let c = (if c = CHR 0x0D then CHR 0x0A else c) in
      if c = CHR 0x0A then
        do { ctx \<leftarrow> set_input (sh_len ctx) NUL ctx;
             w \<leftarrow> say_char (sh_output ctx) CHR 0x0A w;
             r \<leftarrow> shell_execute_line env ctx (sh_input ctx) w;
             (case r of
                Halted w \<Rightarrow> Some (Halted w)
              | Returned (ctx, w) \<Rightarrow> let ctx = ctx\<lparr>sh_len := 0\<rparr> in with_ctx ctx (shell_print_prompt ctx w)) }
      else if c = CHR 0x08 \<or> c = CHR 0x7F then
        if sh_len ctx > 0 then with_ctx (ctx\<lparr>sh_len := sh_len ctx - 1\<rparr>) (say_char (sh_output ctx) CHR 0x08 w)
        else with_ctx ctx (Some w)
      else if 32 \<le> (of_char c :: nat) \<and> (of_char c :: nat) \<le> 126 \<and> sh_len ctx < SHELL_INPUT_MAX then
        do { ctx \<leftarrow> set_input (sh_len ctx) c ctx;
             with_ctx (ctx\<lparr>sh_len := sh_len ctx + 1\<rparr>) (say_char (sh_output ctx) c w) }
      else with_ctx ctx (Some w))"

section \<open>The loop\<close>

definition serial_try_read_char :: "world \<Rightarrow> char option \<times> world" where
  "serial_try_read_char w =
     (if \<not> serial_ready (w_console w) then (None, w)
      else case serial_polls w of [] \<Rightarrow> (None, w) | p # ps \<Rightarrow> (p, w\<lparr>serial_polls := ps\<rparr>))"

definition shell_try_get_input :: "console_target \<Rightarrow> world \<Rightarrow> char option \<times> world" where
  "shell_try_get_input out w =
     (if out = CONSOLE_SERIAL then serial_try_read_char w
      else
        let (c, irq) = keyboard_try_read_char (kn_irq (w_kernel w))
        in (c, w\<lparr>w_kernel := (w_kernel w)\<lparr>kn_irq := irq\<rparr>\<rparr>))"

text \<open>
  The parts of the body of the loop of \<^verbatim>\<open>shell_loop\<close>: a turn of the shell on the screen and of
  the one on the serial line, each with the information whether there was a character, and the
  rest.  The interrupts that arrive in kernel mode are taken while the processor waits in
  \<^verbatim>\<open>cpu_relax_wait\<close>.
\<close>

definition shell_turn :: "shell_env \<Rightarrow> shell_context \<Rightarrow> world \<Rightarrow> (bool \<times> shell_context \<times> world) outcome option" where
  "shell_turn env ctx w =
     (case shell_try_get_input (sh_output ctx) w of
        (None, w) \<Rightarrow> Some (Returned (False, ctx, w))
      | (Some c, w) \<Rightarrow>
          map_option (\<lambda>r. case r of Halted w \<Rightarrow> Halted w | Returned (ctx, w) \<Rightarrow> Returned (True, ctx, w))
            (shell_process_char env ctx c w))"

definition serial_turn :: "shell_env \<Rightarrow> shell_context \<Rightarrow> world \<Rightarrow> (bool \<times> shell_context \<times> world) outcome option" where
  "serial_turn env ctx w =
     (if serial_is_ready (w_console w) then shell_turn env ctx w else Some (Returned (False, ctx, w)))"

definition cpu_relax_wait :: "(u32 \<times> u8) list \<Rightarrow> world \<Rightarrow> world option" where
  "cpu_relax_wait irqs w = map_option (\<lambda>k. w\<lparr>w_kernel := k\<rparr>) (take_interrupts irqs (w_kernel w))"

definition shell_idle :: "shell_env \<Rightarrow> bool \<Rightarrow> (u32 \<times> u8) list \<Rightarrow> world \<Rightarrow> world option" where
  "shell_idle env handled_input irqs w =
     (if handled_input then cpu_relax_wait irqs w
      else
        do { (resumed, w) \<leftarrow> in_kernel (task_resume_next_ready_user (se_machine env) (se_mbi env) (se_magic env)) w;
             if resumed then Some w else cpu_relax_wait irqs w })"

type_synonym shells = "shell_context \<times> shell_context \<times> world"

definition shell_round :: "shell_env \<Rightarrow> (u32 \<times> u8) list \<Rightarrow> shells \<Rightarrow> shells outcome option" where
  "shell_round env irqs st =
     (case st of (v, s, w) \<Rightarrow>
        do { r \<leftarrow> shell_turn env v w;
             (case r of
                Halted w \<Rightarrow> Some (Halted w)
              | Returned (h1, v, w) \<Rightarrow>
                  do { r \<leftarrow> serial_turn env s w;
                       (case r of
                          Halted w \<Rightarrow> Some (Halted w)
                        | Returned (h2, s, w) \<Rightarrow>
                            map_option (\<lambda>w. Returned (v, s, w)) (shell_idle env (h1 \<or> h2) irqs w)) }) })"

text \<open>The statements before the loop; \<open>in1\<close> and \<open>in2\<close> are the uninitialised input arrays.\<close>

definition shell_greet :: "string \<Rightarrow> shell_context \<Rightarrow> world \<Rightarrow> world option" where
  "shell_greet title ctx w =
     do { w \<leftarrow> in_console (\<lambda>c. console_print (sh_output ctx) (title @ newline) (term_set_color 11 0 c)) w;
          w \<leftarrow> in_console (\<lambda>c. console_print (sh_output ctx) (''Type \"help\" for commands.'' @ newline @ newline) (term_set_color 7 0 c)) w;
          shell_print_prompt ctx w }"

definition shell_start :: "string \<Rightarrow> string \<Rightarrow> world \<Rightarrow> shells option" where
  "shell_start in1 in2 w =
     (let root = vfs_root (w_kernel w);
          v = \<lparr>sh_output = CONSOLE_VGA, sh_input = in1, sh_len = 0, sh_cwd = root\<rparr>;
          s = \<lparr>sh_output = CONSOLE_SERIAL, sh_input = in2, sh_len = 0, sh_cwd = root\<rparr>
      in do { w \<leftarrow> shell_greet ''SLOP OS (microkernel bootstrap)'' v w;
              w \<leftarrow> (if serial_is_ready (w_console w) then shell_greet ''SLOP serial console'' s w else Some w);
              Some (v, s, w) })"

text \<open>The loop for as many rounds as there are lists of interrupts.\<close>

fun shell_rounds :: "shell_env \<Rightarrow> (u32 \<times> u8) list list \<Rightarrow> shells \<Rightarrow> shells outcome option" where
  "shell_rounds env [] st = Some (Returned st)"
| "shell_rounds env (irqs # rounds) st =
     do { r \<leftarrow> shell_round env irqs st;
          (case r of Halted w \<Rightarrow> Some (Halted w) | Returned st \<Rightarrow> shell_rounds env rounds st) }"

end
