(* ===== verification/VfsFrame.thy ===== *)
theory VfsFrame
  imports VfsProps
begin

text \<open>
  What the file operations leave alone beside the tree: the parts of the kernel that extend
  \<open>vfs_state\<close>, the bounds of the heap, and the place of the data of every file, which is the old
  one or a block taken from the free part of the heap.  Other users of the heap, the buffers of
  open files, need this to know that their blocks stay theirs.
\<close>

definition data_from :: "'a vfs_state_scheme \<Rightarrow> vfs_node \<Rightarrow> bool" where
  "data_from s n' \<longleftrightarrow> vn_size n' = 0 \<or> h_current (heap s) \<le> vn_data n' \<or>
     (\<exists>a n. vfs_nodes s a = Some n \<and> vn_data n' = vn_data n \<and> vn_size n' = vn_size n)"

definition same_arena :: "heap_state \<Rightarrow> heap_state \<Rightarrow> bool" where
  "same_arena h h' \<longleftrightarrow> heap_inv h' \<and> h_start h' = h_start h \<and> h_limit h' = h_limit h \<and> h_ready h' = h_ready h \<and>
     h_current h \<le> h_current h'"

definition vfs_frame :: "'a vfs_state_scheme \<Rightarrow> 'a vfs_state_scheme \<Rightarrow> bool" where
  "vfs_frame s s' \<longleftrightarrow> same_arena (heap s) (heap s') \<and> vfs_state.more s' = vfs_state.more s \<and>
     (\<forall>a n. vfs_nodes s' a = Some n \<longrightarrow> data_from s n)"

lemma same_arena_refl [simp]: "heap_inv h \<Longrightarrow> same_arena h h"
  by (simp add: same_arena_def)

lemma same_arena_trans: "same_arena h1 h2 \<Longrightarrow> same_arena h2 h3 \<Longrightarrow> same_arena h1 h3"
  by (auto simp: same_arena_def)

lemma vfs_frame_refl [simp]: "heap_inv (heap s) \<Longrightarrow> vfs_frame s s"
  by (auto simp: vfs_frame_def data_from_def)

lemma vfs_frame_inv: "vfs_frame s s' \<Longrightarrow> heap_inv (heap s')"
  by (simp add: vfs_frame_def same_arena_def)

lemma data_from_trans:
  assumes "vfs_frame s s'" and "data_from s' n" shows "data_from s n"
  using assms unfolding vfs_frame_def data_from_def same_arena_def by (metis order_trans)

lemma vfs_frame_trans: "vfs_frame s s' \<Longrightarrow> vfs_frame s' s'' \<Longrightarrow> vfs_frame s s''"
  using data_from_trans [of s s'] same_arena_trans by (auto simp: vfs_frame_def)

lemma kmalloc_arena:
  assumes "heap_inv (heap s)" and "kmalloc n s = (p, s')"
  shows "same_arena (heap s) (heap s')"
proof (cases "p = NULL")
  case True
  then have "s' = s" using assms by (intro kmalloc_NULL) simp_all
  then show ?thesis using assms(1) by simp
next
  case False
  note ok = kmalloc_ok [OF assms False]
  have "unat (h_current (heap s)) \<le> unat (h_current (heap s'))"
    using le_round_up_16 [of "unat p + unat n"] by (simp add: ok(4) flip: ok(1))
  moreover have "h_start (heap s') = h_start (heap s)" "h_limit (heap s') = h_limit (heap s)" "h_ready (heap s') = h_ready (heap s)"
    by (subst ok(5), simp)+
  ultimately show ?thesis using kmalloc_heap_inv [OF assms] by (simp add: same_arena_def word_le_nat_alt)
qed

lemma kmalloc_keeps:
  fixes s :: "'a vfs_state_scheme"
  assumes "kmalloc n s = (p, s')"
  shows "vfs_nodes s' = vfs_nodes s" "vfs_root_node s' = vfs_root_node s" "vfs_state.more s' = vfs_state.more s" "mem s' = mem s"
  using kmalloc_eqD [OF assms] by auto

lemma vfs_frame_kmalloc:
  assumes "heap_inv (heap s)" and "kmalloc n s = (p, s')"
  shows "vfs_frame s (s'\<lparr>mem := m\<rparr>)"
  using kmalloc_arena [OF assms] kmalloc_keeps [OF assms(2)] by (auto simp: vfs_frame_def data_from_def)

lemma vfs_frame_mem [simp]: "vfs_frame s (s'\<lparr>mem := m\<rparr>) \<longleftrightarrow> vfs_frame s s'"
  by (simp add: vfs_frame_def)

lemma vfs_frame_nodes:
  assumes "vfs_frame s s'" and "\<And>a n. N a = Some n \<Longrightarrow> data_from s n"
  shows "vfs_frame s (s'\<lparr>vfs_nodes := N\<rparr>)"
  using assms by (simp add: vfs_frame_def)

lemma alloc_node_frame:
  assumes inv: "heap_inv (heap s)" and r: "vfs_alloc_node name type parent s = Some (node, s')"
  shows "vfs_frame s s'"
proof -
  obtain p s1 where k: "kcalloc sizeof_vfs_node s = (p, s1)" by fastforce
  obtain q s2 where k2: "kmalloc sizeof_vfs_node s = (q, s2)" by fastforce
  have s1: "s1 = s2 \<or> s1 = s2\<lparr>mem := mem_zero q sizeof_vfs_node (mem s2)\<rparr>" "p = q"
    using k k2 by (auto simp: kcalloc_def split: if_splits)
  have f: "vfs_frame s s1" using vfs_frame_kmalloc [OF inv k2] s1 by (auto simp: vfs_frame_mem)
  have old: "data_from s n" if "vfs_nodes s1 a = Some n" for a n
    using f that by (simp add: vfs_frame_def)
  have new: "data_from s n" if "vn_size n = 0" for n using that by (simp add: data_from_def)
  have moved: "data_from s (n\<lparr>vn_first_child := c\<rparr>)" if "vfs_nodes s1 a = Some n" for a n c
    using old [OF that] by (simp add: data_from_def)
  show ?thesis
    using r k f by (auto simp: vfs_alloc_node_def Let_def split: if_splits option.splits intro!: vfs_frame_nodes [OF f])
      (rule old, assumption | rule moved, assumption | rule new, simp)+
qed

lemma in_parent_frame:
  assumes "heap_inv (heap s)" and "in_parent cwd path s body = Some (ok, s')"
    and "\<And>parent name. body parent name = Some (ok, s') \<Longrightarrow> vfs_frame s s'"
  shows "vfs_frame s s'"
  using assms by (auto simp: in_parent_def split: if_splits option.splits bind_splits)

lemma make_dir_frame:
  assumes inv: "heap_inv (heap s)" and r: "vfs_make_dir cwd path s = Some (ok, s')" shows "vfs_frame s s'"
proof (rule in_parent_frame [OF inv r [unfolded vfs_make_dir_def]], goal_cases)
  case (1 parent name)
  then consider "s' = s" | node type where "vfs_alloc_node name type parent s = Some (node, s')"
    by (auto split: if_splits bind_splits)
  then show ?case using alloc_node_frame [OF inv] inv by cases auto
qed

lemma touch_frame:
  assumes inv: "heap_inv (heap s)" and r: "vfs_touch cwd path s = Some (ok, s')" shows "vfs_frame s s'"
proof (rule in_parent_frame [OF inv r [unfolded vfs_touch_def]], goal_cases)
  case (1 parent name)
  then consider "s' = s" | node type where "vfs_alloc_node name type parent s = Some (node, s')"
    by (auto split: if_splits bind_splits option.splits)
  then show ?case using alloc_node_frame [OF inv] inv by cases auto
qed

lemma set_data_frame:
  assumes f: "vfs_frame s s1" and d: "h_current (heap s) \<le> data" and r: "set_file_data node data sz s1 = Some (ok, s')"
  shows "vfs_frame s s'"
proof -
  have "data_from s n" if "((vfs_nodes s1)(node \<mapsto> x\<lparr>vn_data := data, vn_size := sz\<rparr>)) a = Some n" for a n x
    using that f d by (auto simp: vfs_frame_def data_from_def split: if_splits)
  then show ?thesis using r by (auto simp: set_file_data_def split: option.splits intro!: vfs_frame_nodes [OF f])
qed

lemma fill_frame:
  assumes f: "vfs_frame s s1" and k: "kmalloc n s1 = (p, s2)" and p: "p \<noteq> NULL"
    and r: "set_file_data node p sz (s2\<lparr>mem := m\<rparr>) = Some (ok, s')"
  shows "vfs_frame s s'"
proof -
  have "p = h_current (heap s1)" using kmalloc_ok(1) [OF vfs_frame_inv [OF f] k p] .
  then have "h_current (heap s) \<le> p" using f by (simp add: vfs_frame_def same_arena_def)
  moreover have "vfs_frame s (s2\<lparr>mem := m\<rparr>)" using vfs_frame_trans [OF f vfs_frame_kmalloc [OF vfs_frame_inv [OF f] k]] .
  ultimately show ?thesis using set_data_frame r by blast
qed

lemma kmalloc_frame_trans: "vfs_frame s s1 \<Longrightarrow> kmalloc n s1 = (p, s2) \<Longrightarrow> vfs_frame s s2"
  using vfs_frame_trans vfs_frame_kmalloc [of s1 n p s2 "mem s2"] vfs_frame_inv [of s s1] by fastforce

lemma write_file_frame:
  assumes inv: "heap_inv (heap s)" and r: "vfs_write_file cwd path d sz s = Some (ok, s')" shows "vfs_frame s s'"
proof (cases "s' = s")
  case False
  then obtain ok1 s1 where t: "vfs_touch cwd path s = Some (ok1, s1)"
    using r by (auto simp: vfs_write_file_def split: if_splits bind_splits)
  note f1 = touch_frame [OF inv t]
  obtain p s2 where k: "kmalloc (sz + 1) s1 = (p, s2)" by fastforce
  show ?thesis
    using r t False f1 k kmalloc_frame_trans [OF f1 k] fill_frame [OF f1 k]
    by (auto simp: vfs_write_file_def split: if_splits bind_splits)
qed (simp add: inv)

lemma seed_file_frame:
  assumes inv: "heap_inv (heap s)" and r: "vfs_write_seed_file path d s = Some (ok, s')" shows "vfs_frame s s'"
proof -
  obtain ok1 s1 where t: "vfs_touch (vfs_root_node s) (Some path) s = Some (ok1, s1)"
    using r by (auto simp: vfs_write_seed_file_def Let_def split: if_splits bind_splits)
  note f1 = touch_frame [OF inv t]
  obtain p s2 where k: "kmalloc (str_len d + 1) s1 = (p, s2)" by fastforce
  show ?thesis
    using r t f1 k kmalloc_frame_trans [OF f1 k] fill_frame [OF f1 k]
    by (auto simp: vfs_write_seed_file_def Let_def split: if_splits bind_splits)
qed

lemma read_mounted_frame:
  assumes inv: "heap_inv (heap s)" and r: "read_mounted fs subpath s = Some (res, s')"
  shows "vfs_frame s s'"
proof (cases "s' = s")
  case False
  obtain dev where "iso_read_file_alloc fs dev subpath s = Some (res, s')"
    using r False by (auto simp: read_mounted_def fs_read_file_from_mount_def fs_ops_dispatch iso_ops_read_file_def
        split: option.splits if_splits)
  then obtain n p s1 where "kmalloc n s = (p, s1)" "s' = s1 \<or> (\<exists>m. s' = s1\<lparr>mem := m\<rparr>)"
    using iso_read_state [of fs dev subpath s res s'] False by blast
  then show ?thesis using vfs_frame_kmalloc [OF inv] by (auto simp: vfs_frame_mem)
qed (simp add: inv)

lemma read_file_frame:
  assumes inv: "heap_inv (heap s)" and r: "vfs_read_file fs cwd path s = Some (res, s')" shows "vfs_frame s s'"
  using r read_mounted_frame [OF inv] inv by (auto simp: vfs_read_file_def split: if_splits bind_splits option.splits)

lemma stat_frame:
  assumes inv: "heap_inv (heap s)" and r: "vfs_stat fs cwd path s = Some (res, s')" shows "vfs_frame s s'"
  using r read_mounted_frame [OF inv] inv
  by (auto simp: vfs_stat_def split: if_splits bind_splits option.splits)

text \<open>What is read lies below the watermark.\<close>

lemma iso_read_result:
  assumes "iso_read_file_alloc env dev path s = Some (Some (d, sz), s')"
  shows "\<exists>loc. lo_size loc \<le> ISO_FILE_MAX \<and> iso_read_extent env dev loc s = (Some (d, sz), s')"
  using assms unfolding iso_read_file_alloc_def Let_def
  by (auto split: if_splits option.splits prod.splits simp: not_less)

lemma read_mounted_bound:
  assumes inv: "heap_inv (heap s)" and r: "read_mounted fs subpath s = Some (Some (d, sz), s')"
  shows "unat d + unat sz \<le> unat (h_current (heap s'))"
proof -
  obtain dev where "iso_read_file_alloc fs dev subpath s = Some (Some (d, sz), s')"
    using r by (auto simp: read_mounted_def fs_read_file_from_mount_def fs_ops_dispatch iso_ops_read_file_def
        split: option.splits if_splits)
  then obtain loc where loc: "lo_size loc \<le> ISO_FILE_MAX" "iso_read_extent fs dev loc s = (Some (d, sz), s')"
    using iso_read_result by blast
  obtain p s1 where k: "kmalloc (lo_size loc + 1) s = (p, s1)" by fastforce
  have e: "p \<noteq> NULL" "d = p" "sz = lo_size loc" "heap s' = heap s1"
    using loc(2) k by (auto simp: iso_read_extent_def split: if_splits prod.splits)
  note ok = kmalloc_ok [OF inv k e(1)]
  have "unat (lo_size loc + 1) = unat (lo_size loc) + 1"
    using loc(1) by (subst unat_add_exact) (simp_all add: ISO_FILE_MAX_def word_le_nat_alt)
  then show ?thesis using ok(4) le_round_up_16 [of "unat p + unat (lo_size loc + 1)"] e by simp
qed

lemma read_file_bound:
  assumes inv: "vfs_inv s" and r: "vfs_read_file fs cwd path s = Some (Some (d, sz), s')"
  shows "unat d + unat sz \<le> unat (h_current (heap s'))"
proof (cases "\<exists>subpath. read_mounted fs subpath s = Some (Some (d, sz), s')")
  case True
  then show ?thesis using read_mounted_bound [OF vfs_inv_heap [OF inv]] by blast
next
  case False
  obtain check where ck: "vfs_check_path s cwd path = Some check"
    using r by (auto simp: vfs_read_file_def split: bind_splits)
  have "vfs_is_cdrom_mount_path check = None" "vfs_is_bin_alias_path check = None"
    using r ck False by (auto simp: vfs_read_file_def split: option.splits)
  then have body: "do { node \<leftarrow> vfs_resolve_from (vfs_nodes s) (vfs_root_node s) cwd path;
      if node = NULL then Some (None, s)
      else (case vfs_nodes s node of
              None \<Rightarrow> None
            | Some n \<Rightarrow> Some (if vn_type n \<noteq> VFS_NODE_FILE then None else Some (vn_data n, vn_size n), s)) } = Some (Some (d, sz), s')"
    using r ck by (simp add: vfs_read_file_def)
  then obtain a where a: "vfs_resolve_from (vfs_nodes s) (vfs_root_node s) cwd path = Some a" by (cases "vfs_resolve_from (vfs_nodes s) (vfs_root_node s) cwd path") simp_all
  show ?thesis
  proof (cases "vfs_nodes s a")
    case (Some n)
    then have "d = vn_data n \<and> sz = vn_size n \<and> s' = s" using body a by (cases "a = NULL"; cases "vn_type n = VFS_NODE_FILE") simp_all
    then show ?thesis using inv Some by (auto simp: vfs_inv_def)
  qed (use body a in \<open>simp split: if_splits\<close>)
qed

end
