(* ===== verification/SyscallInv.thy ===== *)
theory SyscallInv
  imports Syscall VfsFrame
begin

text \<open>
  The invariant of the kernel that the system calls keep (\<open>kn_inv\<close>), what a system call may
  change (\<open>user_step\<close>), and the lemmas for each handler.  The memory of user programs (the image
  region and the stacks) does not meet the heap; every buffer of an open file is a block of the
  heap that meets neither another buffer nor the data of a file.
\<close>

section \<open>User memory\<close>

definition stacks_size :: nat where "stacks_size = ELF_PROC_SLOTS * unat ELF_STACK_SIZE"

definition user_space :: "'a kernel_scheme \<Rightarrow> u32 \<Rightarrow> bool" where
  "user_space k x \<longleftrightarrow> in_region x \<or> in_block (user_stacks_at (kn_elf k)) stacks_size x"

text \<open>
  The directories of a tree, by the addresses of their nodes; the directory a program was started
  in is one of them.
\<close>

definition dirs :: "(u32 \<rightharpoonup> vfs_node) \<Rightarrow> u32 \<Rightarrow> u32 set" where
  "dirs nodes root = {c. \<exists>ps n. names_ok ps \<and> walk nodes root ps = Some c \<and> nodes c = Some n \<and> vn_type n = VFS_NODE_DIR}"

abbreviation kn_dirs :: "'a vfs_state_scheme \<Rightarrow> u32 set" where
  "kn_dirs k \<equiv> dirs (vfs_nodes k) (vfs_root_node k)"

definition image_ok :: "u32 \<Rightarrow> u32 set \<Rightarrow> proc_image \<Rightarrow> bool" where
  "image_ok stacks D img \<longleftrightarrow> (im_cwd img = NULL \<or> im_cwd img \<in> D) \<and> im_stack_size img = ELF_STACK_SIZE \<and>
     0x300000 \<le> unat (im_image_base img) \<and> unat (im_image_base img) + unat (im_image_size img) \<le> 0x320000 \<and>
     unat stacks \<le> unat (im_stack_base img) \<and>
     unat (im_stack_base img) + unat ELF_STACK_SIZE \<le> unat stacks + stacks_size"

definition images_ok :: "u32 \<Rightarrow> u32 set \<Rightarrow> proc_table \<Rightarrow> bool" where
  "images_ok stacks D pt \<longleftrightarrow> (\<forall>pid p img. proc_map pt pid = Some (p, img) \<and> im_loaded img \<longrightarrow> image_ok stacks D img)"

lemma images_ok_mono: "images_ok st D pt \<Longrightarrow> D \<subseteq> D' \<Longrightarrow> images_ok st D' pt"
  by (fastforce simp: images_ok_def image_ok_def)

lemma run_inv_dirs: "run_inv (c, s) \<longleftrightarrow> vfs_inv s \<and> c \<in> kn_dirs s"
proof
  assume r: "run_inv (c, s)"
  then obtain ps where ps: "vfs_inv s" "cwd_at s c ps" "vfs_abs s ps = Some Directory" by (auto simp: run_inv_def)
  obtain d where "vfs_nodes s c = Some d" "vn_type d = VFS_NODE_DIR" using directory_node [OF ps] .
  then show "vfs_inv s \<and> c \<in> kn_dirs s" using ps by (auto simp: dirs_def cwd_at_def)
next
  assume r: "vfs_inv s \<and> c \<in> kn_dirs s"
  then obtain ps n where ps: "names_ok ps" "walk (vfs_nodes s) (vfs_root_node s) ps = Some c" "vfs_nodes s c = Some n" "vn_type n = VFS_NODE_DIR"
    by (auto simp: dirs_def)
  moreover have "vfs_root_node s \<noteq> NULL" using r ps(3) tree_nonempty [of "vfs_nodes s" "vfs_root_node s"] by (auto simp: vfs_inv_def)
  ultimately have c: "cwd_at s c ps" "vfs_root_node s \<noteq> NULL" by (simp_all add: cwd_at_def)
  have "vfs_abs s ps = Some Directory" using ps c by (simp add: vfs_abs_def entry_of_def)
  then show "run_inv (c, s)" using r c(1) by (auto simp: run_inv_def)
qed

lemma ext_dirs:
  assumes "vfs_ext s s'" and "vfs_inv s" shows "kn_dirs s \<subseteq> kn_dirs s'"
  using ext_run_inv [OF assms(1)] assms(2) by (auto simp: run_inv_dirs)

section \<open>Tasks keep their pids\<close>

lemma map_update_same [simp]: "f e = f (xs ! i) \<Longrightarrow> map f (xs[i := e]) = map f xs"
proof (cases "i < length xs")
  case True
  assume "f e = f (xs ! i)"
  then show ?thesis using True by (metis list_update_id map_update nth_map)
qed (simp add: list_update_beyond)

lemma demote_pids [simp]: "map tk_pid (tasks (demote_current slot s)) = map tk_pid (tasks s)"
  by (simp add: demote_current_def split: option.split)

lemma return_main_pids [simp]: "map tk_pid (tasks (task_return_to_kernel_main s)) = map tk_pid (tasks s)"
  by (simp add: task_return_to_kernel_main_def Let_def split: option.split)

lemma task_state_pids [simp]: "map tk_pid (tasks (task_set_state pid st s)) = map tk_pid (tasks s)"
  by (simp add: task_set_state_def Let_def split: option.split)

lemma put_task_pids: "tk_pid e = tk_pid (tasks s ! i) \<Longrightarrow> map tk_pid (tasks (put_task i e s)) = map tk_pid (tasks s)"
  by (simp add: put_task_def)

lemma switch_pids: "map tk_pid (tasks (sched_switch cur nxt s)) = map tk_pid (tasks s)"
  by (simp add: sched_switch_def Let_def put_task_pids del: put_task_sel)

lemma tick_pids [simp]: "map tk_pid (tasks (scheduler_on_timer_tick s)) = map tk_pid (tasks s)"
  by (simp add: scheduler_on_timer_tick_def Let_def switch_pids split: option.split)

lemma wake_pids [simp]: "map tk_pid (tasks (wake pid img s)) = map tk_pid (tasks s)"
  by (simp add: wake_def Let_def)

section \<open>Buffers\<close>

text \<open>The addresses of the buffer of an open file and of the data of a file.\<close>

definition buf :: "fd_entry \<Rightarrow> nat set" where
  "buf e = {unat (fd_write_buf e)..<unat (fd_write_buf e) + unat (fd_write_capacity e)}"

definition extent :: "vfs_node \<Rightarrow> nat set" where
  "extent n = {unat (vn_data n)..<unat (vn_data n) + unat (vn_size n)}"

definition fd_ok :: "heap_state \<Rightarrow> fd_entry \<Rightarrow> bool" where
  "fd_ok h e \<longleftrightarrow> length (fd_path e) < 128 \<and>
     (if fd_writable e then
        fd_write_buf e \<noteq> NULL \<and> unat (h_start h) \<le> unat (fd_write_buf e) \<and>
        unat (fd_write_buf e) + unat (fd_write_capacity e) \<le> unat (h_current h) \<and>
        unat (fd_write_size e) < unat (fd_write_capacity e) \<and> unat (fd_offset e) \<le> unat (fd_write_size e)
      else fd_write_buf e = NULL \<and> fd_write_capacity e = 0 \<and> fd_write_size e = 0)"

definition fds_ok :: "heap_state \<Rightarrow> fd_entry list \<Rightarrow> bool" where
  "fds_ok h fds \<longleftrightarrow> length fds = FD_MAX \<and> (\<forall>i < FD_MAX. fd_used (fds ! i) \<longrightarrow> fd_ok h (fds ! i)) \<and>
     (\<forall>i < FD_MAX. \<forall>j < FD_MAX. i \<noteq> j \<and> fd_used (fds ! i) \<and> fd_used (fds ! j) \<longrightarrow> buf (fds ! i) \<inter> buf (fds ! j) = {})"

definition data_ok :: "heap_state \<Rightarrow> fd_entry list \<Rightarrow> vfs_node \<Rightarrow> bool" where
  "data_ok h fds n \<longleftrightarrow> (vn_size n \<noteq> 0 \<longrightarrow> h_start h \<le> vn_data n) \<and>
     (\<forall>i < FD_MAX. fd_used (fds ! i) \<longrightarrow> extent n \<inter> buf (fds ! i) = {})"

definition files_inv :: "'a kernel_scheme \<Rightarrow> bool" where
  "files_inv k \<longleftrightarrow> fds_ok (heap k) (fd_table k) \<and> (\<forall>a n. vfs_nodes k a = Some n \<longrightarrow> data_ok (heap k) (fd_table k) n)"

section \<open>The invariant\<close>

definition tables_inv :: "'a kernel_scheme \<Rightarrow> bool" where
  "tables_inv k \<longleftrightarrow> sched_inv (kn_sched k) \<and> elf_inv (kn_elf k) \<and> ipc_inv (kn_ipc k) \<and> service_inv (kn_services k) \<and>
     images_ok (user_stacks_at (kn_elf k)) (kn_dirs k) (kn_procs k) \<and>
     unat (user_stacks_at (kn_elf k)) + stacks_size \<le> unat (h_start (heap k))"

definition kn_inv :: "'a kernel_scheme \<Rightarrow> bool" where
  "kn_inv k \<longleftrightarrow> run_inv (cwd_or_root k, k) \<and> tables_inv k \<and> files_inv k"

text \<open>
  What a system call of the running process may change: its own descriptors, the free part of
  the heap, the buffers of its own files, and user memory.
\<close>

definition buffered :: "memory \<Rightarrow> fd_entry \<Rightarrow> u8 list" where
  "buffered m e = mem_read m (fd_write_buf e) (unat (fd_write_size e))"

abbreviation kn_pids :: "'a kernel_scheme \<Rightarrow> int list" where
  "kn_pids k \<equiv> map tk_pid (tasks (kn_sched k))"

definition user_step :: "'a kernel_scheme \<Rightarrow> 'a kernel_scheme \<Rightarrow> bool" where
  "user_step k k' \<longleftrightarrow> same_arena (heap k) (heap k') \<and> user_stacks_at (kn_elf k') = user_stacks_at (kn_elf k) \<and>
     kn_fs k' = kn_fs k \<and> user_cwd k' = user_cwd k \<and> kn_dirs k \<subseteq> kn_dirs k' \<and> kn_pids k' = kn_pids k \<and> ring3_active k' = ring3_active k \<and> ring3_current_pid k' = ring3_current_pid k \<and>
     (\<forall>x. mem k' x \<noteq> mem k x \<longrightarrow> user_space k x \<or> h_start (heap k) \<le> x \<and> x < h_limit (heap k)) \<and>
     (\<forall>i < FD_MAX. fd_used (fd_table k ! i) \<and> fd_pid (fd_table k ! i) \<noteq> current_pid k \<longrightarrow>
        fd_table k' ! i = fd_table k ! i \<and> buffered (mem k') (fd_table k ! i) = buffered (mem k) (fd_table k ! i))"

lemma kn_inv_heap: "kn_inv k \<Longrightarrow> heap_inv (heap k)"
  by (simp add: kn_inv_def run_inv_def vfs_inv_def)

lemma kn_inv_vfs: "kn_inv k \<Longrightarrow> vfs_inv k"
  by (simp add: kn_inv_def run_inv_def)

lemma kn_inv_cwd:
  assumes "kn_inv k" obtains ps where "cwd_at k (cwd_or_root k) ps" "vfs_abs k ps = Some Directory"
  using assms by (auto simp: kn_inv_def run_inv_def)

lemma user_step_refl [simp]: "kn_inv k \<Longrightarrow> user_step k k"
  by (simp add: user_step_def kn_inv_heap)

lemma user_step_trans:
  assumes "user_step k k1" and "user_step k1 k2" shows "user_step k k2"
proof -
  have "user_space k x \<or> h_start (heap k) \<le> x \<and> x < h_limit (heap k)" if "mem k2 x \<noteq> mem k x" for x
  proof (cases "mem k1 x = mem k x")
    case True
    then show ?thesis using assms that by (auto simp: user_step_def user_space_def same_arena_def)
  next
    case False
    then show ?thesis using assms(1) by (auto simp: user_step_def)
  qed
  moreover have "fd_table k2 ! i = fd_table k ! i \<and> buffered (mem k2) (fd_table k ! i) = buffered (mem k) (fd_table k ! i)"
    if "i < FD_MAX" "fd_used (fd_table k ! i)" "fd_pid (fd_table k ! i) \<noteq> current_pid k" for i
  proof -
    have "fd_table k1 ! i = fd_table k ! i" "buffered (mem k1) (fd_table k ! i) = buffered (mem k) (fd_table k ! i)"
      "ring3_current_pid k1 = ring3_current_pid k"
      using assms(1) that by (simp_all add: user_step_def)
    then show ?thesis using assms(2) that unfolding user_step_def by metis
  qed
  ultimately show ?thesis using assms same_arena_trans [of "heap k" "heap k1"] by (auto simp: user_step_def)
qed

section \<open>User pointers\<close>

lemma range_contains_block:
  assumes "range_contains base sz p len" and "unat base + unat sz < 2 ^ 32" and "len \<noteq> 0"
  shows "unat base \<le> unat p \<and> unat p + unat len \<le> unat base + unat sz"
proof -
  have c: "base \<le> p" "p \<le> p + len" "p + len \<le> base + sz"
    using assms(1,3) by (auto simp: range_contains_def Let_def not_less split: if_splits)
  have "unat (p + len) = unat p + unat len" using c(2) by (intro unat_add_exact) (simp add: add_no_wrap_iff)
  moreover have "unat (base + sz) = unat base + unat sz" using assms(2) by (intro unat_add_exact)
  ultimately show ?thesis using c by (simp add: word_le_nat_alt)
qed

text \<open>A pointer that passes the check lies in the image or on the stack of the running process.\<close>

lemma user_ptr_confined:
  assumes inv: "kn_inv k" and act: "ring3_active k \<noteq> 0" and v: "validate_user_ptr k p len" and len: "len \<noteq> 0"
  shows "in_block p (unat len) x \<Longrightarrow> user_space k x"
    and "unat p + unat len \<le> unat (h_start (heap k)) \<or> unat p + unat len \<le> 0x320000"
proof -
  have t: "sched_inv (kn_sched k)" "images_ok (user_stacks_at (kn_elf k)) (kn_dirs k) (kn_procs k)"
    "unat (user_stacks_at (kn_elf k)) + stacks_size \<le> unat (h_start (heap k))"
    using inv by (simp_all add: kn_inv_def tables_inv_def)
  obtain img where img: "proc_get_image (kn_procs k) (current_pid k) = Some img" "im_loaded img"
    "range_contains (im_image_base img) (im_image_size img) p len \<or> range_contains (im_stack_base img) (im_stack_size img) p len"
    using v act by (auto simp: validate_user_ptr_def Let_def split: if_splits option.splits)
  then have ok: "image_ok (user_stacks_at (kn_elf k)) (kn_dirs k) img"
    using t(2) by (auto simp: images_ok_def proc_get_image_map [OF sched_inv_procs [OF t(1)]])
  have hs: "unat (h_start (heap k)) < 2 ^ 32" by (rule unat_u32_bound)
  have b: "unat (im_image_base img) + unat (im_image_size img) < 2 ^ 32" "unat (im_stack_base img) + unat (im_stack_size img) < 2 ^ 32"
    using ok t(3) hs by (simp_all add: image_ok_def)
  from img(3) range_contains_block [OF _ b(1) len, of p] range_contains_block [OF _ b(2) len, of p]
  have c: "unat (im_image_base img) \<le> unat p \<and> unat p + unat len \<le> unat (im_image_base img) + unat (im_image_size img) \<or>
      unat (im_stack_base img) \<le> unat p \<and> unat p + unat len \<le> unat (im_stack_base img) + unat (im_stack_size img)"
    by blast
  then show top: "unat p + unat len \<le> unat (h_start (heap k)) \<or> unat p + unat len \<le> 0x320000"
    using ok t(3) by (auto simp: image_ok_def)
  assume "in_block p (unat len) x"
  moreover have "unat p + unat len \<le> 2 ^ 32" using top hs by auto
  ultimately have x: "unat p \<le> unat x" "unat x < unat p + unat len" by (simp_all add: in_block_iff)
  have "unat (user_stacks_at (kn_elf k)) + stacks_size \<le> 2 ^ 32" using t(3) hs by simp
  then show "user_space k x"
    using c x ok by (auto simp: user_space_def in_region_iff in_block_iff image_ok_def)
qed

lemma user_space_outside:
  assumes "kn_inv k" and "user_space k x"
  shows "unat x < unat (h_start (heap k)) \<or> unat (h_limit (heap k)) \<le> unat x"
proof -
  have s: "unat (user_stacks_at (kn_elf k)) + stacks_size \<le> unat (h_start (heap k))"
    using assms(1) by (simp add: kn_inv_def tables_inv_def)
  then have "unat (user_stacks_at (kn_elf k)) + stacks_size \<le> 2 ^ 32" using unat_u32_bound [of "h_start (heap k)"] by simp
  then have "in_region x \<or> unat x < unat (h_start (heap k))"
    using assms(2) s by (auto simp: user_space_def in_block_iff)
  moreover have "unat x < unat (h_start (heap k)) \<or> unat (h_limit (heap k)) \<le> unat x" if "in_region x"
    using that kn_inv_heap [OF assms(1)]
    by (auto simp: in_region_iff heap_inv_def USER_IMAGE_RESERVED_BASE_def word_le_nat_alt split: if_splits)
  ultimately show ?thesis by blast
qed

section \<open>File system calls\<close>

lemma same_more:
  assumes "vfs_state.more k' = vfs_state.more k"
  shows "kn_sched k' = kn_sched k" "kn_elf k' = kn_elf k" "kn_ipc k' = kn_ipc k" "kn_services k' = kn_services k" "kn_fs k' = kn_fs k"
    "kn_irq k' = kn_irq k" "fd_table k' = fd_table k" "user_cwd k' = user_cwd k" "ring3_active k' = ring3_active k"
    "ring3_current_pid k' = ring3_current_pid k"
  using assms by (cases k; cases k'; simp)+

lemma fd_ok_arena:
  assumes "fd_ok h e" and "same_arena h h'" shows "fd_ok h' e"
  using assms by (auto simp: fd_ok_def same_arena_def word_le_nat_alt split: if_splits)

lemma fds_ok_arena: "fds_ok h fds \<Longrightarrow> same_arena h h' \<Longrightarrow> fds_ok h' fds"
  using fd_ok_arena by (auto simp: fds_ok_def)

text \<open>The buffers lie below the watermark.\<close>

lemma buf_below:
  assumes "fds_ok h fds" and "i < FD_MAX" and "fd_used (fds ! i)"
  shows "buf (fds ! i) \<subseteq> {unat (h_start h)..<unat (h_current h)}"
proof -
  have "fd_ok h (fds ! i)" using assms by (simp add: fds_ok_def)
  then show ?thesis by (cases "fd_writable (fds ! i)") (auto simp: fd_ok_def buf_def)
qed

lemma data_ok_frame:
  assumes inv: "files_inv k" "heap_inv (heap k)" and f: "vfs_frame k k'" and n: "vfs_nodes k' a = Some n"
  shows "data_ok (heap k') (fd_table k) n"
proof -
  have ar: "same_arena (heap k) (heap k')" and d: "data_from k n" using f n by (simp_all add: vfs_frame_def)
  have hs: "h_start (heap k') = h_start (heap k)" using ar by (simp add: same_arena_def)
  from d consider "vn_size n = 0" | "h_current (heap k) \<le> vn_data n"
    | b n0 where "vfs_nodes k b = Some n0" "vn_data n = vn_data n0" "vn_size n = vn_size n0"
    by (auto simp: data_from_def)
  then show ?thesis
  proof cases
    case 1
    then show ?thesis by (simp add: data_ok_def extent_def)
  next
    case 2
    have "extent n \<inter> buf (fd_table k ! i) = {}" if "i < FD_MAX" "fd_used (fd_table k ! i)" for i
      using buf_below [OF _ that] inv(1) 2 by (fastforce simp: files_inv_def extent_def word_le_nat_alt)
    moreover have "h_start (heap k) \<le> vn_data n" using inv(2) 2 by (auto simp: heap_inv_def)
    ultimately show ?thesis by (simp add: data_ok_def hs)
  next
    case 3
    then have "data_ok (heap k) (fd_table k) n0" using inv(1) by (simp add: files_inv_def)
    then show ?thesis using 3 by (simp add: data_ok_def extent_def hs)
  qed
qed

lemma files_frame:
  assumes "files_inv k" "heap_inv (heap k)" and "vfs_frame k k'"
  shows "files_inv k'"
proof -
  have t: "fd_table k' = fd_table k" "same_arena (heap k) (heap k')"
    using assms(3) by (auto simp: vfs_frame_def intro: same_more(7))
  show ?thesis
    using data_ok_frame [OF assms] fds_ok_arena [OF _ t(2)] assms(1) by (simp add: files_inv_def t(1))
qed

lemma buffered_below:
  assumes "fd_ok h e" and "\<And>x. unat (h_start h) \<le> unat x \<Longrightarrow> unat x < unat (h_current h) \<Longrightarrow> m' x = m x"
  shows "buffered m' e = buffered m e"
proof (cases "fd_writable e")
  case True
  then have e: "unat (h_start h) \<le> unat (fd_write_buf e)" "unat (fd_write_buf e) + unat (fd_write_size e) \<le> unat (h_current h)"
    using assms(1) by (simp_all add: fd_ok_def)
  show ?thesis unfolding buffered_def
  proof (rule mem_read_cong)
    fix x assume "in_block (fd_write_buf e) (unat (fd_write_size e)) x"
    then have "unat (fd_write_buf e) \<le> unat x" "unat x < unat (fd_write_buf e) + unat (fd_write_size e)"
      using e(2) unat_u32_bound [of "h_current h"] by (simp_all add: in_block_iff)
    then show "m' x = m x" using e by (intro assms(2)) simp_all
  qed
qed (use assms(1) in \<open>simp add: fd_ok_def buffered_def\<close>)

lemma fs_call_step:
  assumes inv: "kn_inv k" and ext: "vfs_ext k k'" and f: "vfs_frame k k'"
  shows "kn_inv k'" and "user_step k k'"
proof -
  have m: "vfs_state.more k' = vfs_state.more k" and ar: "same_arena (heap k) (heap k')" using f by (simp_all add: vfs_frame_def)
  have cwd: "cwd_or_root k' = cwd_or_root k" using same_more(8) [OF m] vfs_extD(2) [OF ext] by (simp add: cwd_or_root_def vfs_root_def)
  have fi: "files_inv k" "heap_inv (heap k)" using inv kn_inv_heap [OF inv] by (simp_all add: kn_inv_def)
  have "run_inv (cwd_or_root k', k')" using ext_run_inv [OF ext] inv cwd by (simp add: kn_inv_def)
  moreover have "tables_inv k'"
    using inv ar same_more [OF m] images_ok_mono [OF _ ext_dirs [OF ext kn_inv_vfs [OF inv]]]
    by (simp add: kn_inv_def tables_inv_def same_arena_def)
  ultimately show "kn_inv k'" using files_frame [OF fi f] by (simp add: kn_inv_def)
  have old: "mem k' x = mem k x" if "x < h_current (heap k) \<or> h_limit (heap k) \<le> x" for x
    using vfs_extD(6) [OF ext that] .
  have "h_start (heap k) \<le> x \<and> x < h_limit (heap k)" if "mem k' x \<noteq> mem k x" for x
    using old [of x] that fi(2) by (fastforce simp: heap_inv_def word_le_nat_alt word_less_nat_alt)
  moreover have "buffered (mem k') (fd_table k ! i) = buffered (mem k) (fd_table k ! i)"
    if "i < FD_MAX" "fd_used (fd_table k ! i)" for i
    using that fi(1) by (intro buffered_below [of "heap k"] old) (auto simp: files_inv_def fds_ok_def word_less_nat_alt)
  ultimately show "user_step k k'"
    using ar same_more [OF m] ext_dirs [OF ext kn_inv_vfs [OF inv]] by (simp add: user_step_def)
qed

section \<open>Writes to user memory\<close>

lemma abs_mem_cong:
  assumes "\<And>a n. vfs_nodes s a = Some n \<Longrightarrow> mem_read m (vn_data n) (unat (vn_size n)) = mem_read (mem s) (vn_data n) (unat (vn_size n))"
  shows "vfs_abs (s\<lparr>mem := m\<rparr>) = vfs_abs s"
proof
  fix qs
  have "entry_of m n = entry_of (mem s) n" if "vfs_nodes s a = Some n" for a n
    using assms [OF that] by (cases "vn_type n") (simp_all add: entry_of_def)
  then show "vfs_abs (s\<lparr>mem := m\<rparr>) qs = vfs_abs s qs"
    by (auto simp: vfs_abs_def intro!: bind_option_cong option.map_cong)
qed

text \<open>The data of a file lies in the used part of the heap.\<close>

lemma data_block:
  assumes inv: "kn_inv k" and n: "vfs_nodes k a = Some n" and x: "in_block (vn_data n) (unat (vn_size n)) x"
  shows "unat x \<in> extent n" and "unat (h_start (heap k)) \<le> unat x" and "unat x < unat (h_current (heap k))"
proof -
  have top: "unat (vn_data n) + unat (vn_size n) \<le> unat (h_current (heap k))"
    using kn_inv_vfs [OF inv] n by (auto simp: vfs_inv_def)
  then have b: "unat (vn_data n) + unat (vn_size n) \<le> 2 ^ 32" using unat_u32_bound [of "h_current (heap k)"] by simp
  from x b show e: "unat x \<in> extent n" by (simp add: in_block_iff extent_def)
  have "vn_size n \<noteq> 0" using x by auto
  then have "h_start (heap k) \<le> vn_data n" using inv n by (auto simp: kn_inv_def files_inv_def data_ok_def)
  then show "unat (h_start (heap k)) \<le> unat x" "unat x < unat (h_current (heap k))"
    using e top by (auto simp: extent_def word_le_nat_alt)
qed

lemma entry_directory: "entry_of m n = Directory \<longleftrightarrow> vn_type n = VFS_NODE_DIR"
  by (cases "vn_type n") (simp_all add: entry_of_def)

lemma directory_mem: "vfs_abs (s\<lparr>mem := m\<rparr>) ps = Some Directory \<longleftrightarrow> vfs_abs s ps = Some Directory"
  by (auto simp: vfs_abs_def entry_directory split: bind_splits)

lemma run_inv_mem [simp]: "run_inv (c, s\<lparr>mem := m\<rparr>) = run_inv (c, s)"
  by (simp add: run_inv_def directory_mem vfs_inv_def cwd_at_def)

lemma kn_inv_mem [simp]: "kn_inv (k\<lparr>mem := m\<rparr>) = kn_inv k"
  by (simp add: kn_inv_def cwd_or_root_def vfs_root_def tables_inv_def files_inv_def)

text \<open>
  A write to user memory, or to the buffer of a descriptor of the running process, changes no
  file and no buffer of another process.
\<close>

definition own_bytes :: "'a kernel_scheme \<Rightarrow> u32 \<Rightarrow> bool" where
  "own_bytes k x \<longleftrightarrow> user_space k x \<or>
     (\<exists>i < FD_MAX. fd_used (fd_table k ! i) \<and> fd_pid (fd_table k ! i) = current_pid k \<and> unat x \<in> buf (fd_table k ! i))"

lemma own_bytes_elsewhere:
  assumes inv: "kn_inv k" and x: "own_bytes k x"
  shows "vfs_nodes k a = Some n \<Longrightarrow> \<not> in_block (vn_data n) (unat (vn_size n)) x"
    and "i < FD_MAX \<Longrightarrow> fd_used (fd_table k ! i) \<Longrightarrow> fd_pid (fd_table k ! i) \<noteq> current_pid k \<Longrightarrow> unat x \<notin> buf (fd_table k ! i)"
    and "user_space k x \<or> h_start (heap k) \<le> x \<and> x < h_limit (heap k)"
proof -
  have hi: "heap_inv (heap k)" and fi: "fds_ok (heap k) (fd_table k)"
    "\<And>a n. vfs_nodes k a = Some n \<Longrightarrow> data_ok (heap k) (fd_table k) n"
    using inv kn_inv_heap [OF inv] by (simp_all add: kn_inv_def files_inv_def)
  have cl: "unat (h_current (heap k)) \<le> unat (h_limit (heap k))" using hi by (simp add: heap_inv_def word_le_nat_alt)
  note out = user_space_outside [OF inv]
  show "\<not> in_block (vn_data n) (unat (vn_size n)) x" if "vfs_nodes k a = Some n"
  proof
    assume b: "in_block (vn_data n) (unat (vn_size n)) x"
    note d = data_block [OF inv that b]
    show False
      using x d out [of x] cl fi(2) [OF that] by (auto simp: own_bytes_def data_ok_def)
  qed
  show "unat x \<notin> buf (fd_table k ! i)"
    if "i < FD_MAX" "fd_used (fd_table k ! i)" "fd_pid (fd_table k ! i) \<noteq> current_pid k"
  proof
    assume b: "unat x \<in> buf (fd_table k ! i)"
    then have "unat (h_start (heap k)) \<le> unat x" "unat x < unat (h_current (heap k))" using buf_below [OF fi(1) that(1,2)] by auto
    then have "\<not> user_space k x" using out [of x] cl by auto
    then obtain j where "j < FD_MAX" "fd_used (fd_table k ! j)" "fd_pid (fd_table k ! j) = current_pid k" "unat x \<in> buf (fd_table k ! j)"
      using x by (auto simp: own_bytes_def)
    moreover from this have "j \<noteq> i" using that(3) by auto
    ultimately show False using fi(1) that(1,2) b by (auto simp: fds_ok_def)
  qed
  show "user_space k x \<or> h_start (heap k) \<le> x \<and> x < h_limit (heap k)"
    using x buf_below [OF fi(1)] cl by (fastforce simp: own_bytes_def word_le_nat_alt word_less_nat_alt)
qed

lemma own_write_step:
  assumes inv: "kn_inv k" and m: "\<And>x. m x \<noteq> mem k x \<Longrightarrow> own_bytes k x"
  shows "user_step k (k\<lparr>mem := m\<rparr>)" and "vfs_abs (k\<lparr>mem := m\<rparr>) = vfs_abs k"
proof -
  have fi: "fds_ok (heap k) (fd_table k)" using inv by (simp add: kn_inv_def files_inv_def)
  have "buffered m (fd_table k ! i) = buffered (mem k) (fd_table k ! i)"
    if i: "i < FD_MAX" "fd_used (fd_table k ! i)" "fd_pid (fd_table k ! i) \<noteq> current_pid k" for i
    unfolding buffered_def
  proof (rule mem_read_cong)
    fix x assume x: "in_block (fd_write_buf (fd_table k ! i)) (unat (fd_write_size (fd_table k ! i))) x"
    have "fd_ok (heap k) (fd_table k ! i)" using fi i by (simp add: fds_ok_def)
    then have "unat x \<in> buf (fd_table k ! i)"
      using x unat_u32_bound [of "h_current (heap k)"]
      by (cases "fd_writable (fd_table k ! i)") (auto simp: fd_ok_def buf_def in_block_iff)
    then show "m x = mem k x" using own_bytes_elsewhere(2) [OF inv m i] by blast
  qed
  then show "user_step k (k\<lparr>mem := m\<rparr>)"
    using own_bytes_elsewhere(3) [OF inv m] kn_inv_heap [OF inv] by (simp add: user_step_def)
  show "vfs_abs (k\<lparr>mem := m\<rparr>) = vfs_abs k"
    by (rule abs_mem_cong, rule mem_read_cong) (use own_bytes_elsewhere(1) [OF inv m] in blast)
qed

text \<open>What does not touch the file tree, the heap or the memory keeps the invariant of the tree.\<close>

lemma tree_cong:
  assumes "heap s' = heap s" "mem s' = mem s" "vfs_nodes s' = vfs_nodes s" "vfs_root_node s' = vfs_root_node s"
  shows "vfs_abs s' = vfs_abs s" and "run_inv (c, s') = run_inv (c, s)"
proof -
  show a: "vfs_abs s' = vfs_abs s" by (rule ext) (simp add: vfs_abs_def assms)
  show "run_inv (c, s') = run_inv (c, s)" by (simp add: run_inv_def vfs_inv_def cwd_at_def a assms)
qed

lemma kn_inv_tree:
  assumes "kn_inv k" and "heap k' = heap k" "mem k' = mem k" "vfs_nodes k' = vfs_nodes k" "vfs_root_node k' = vfs_root_node k"
    "user_cwd k' = user_cwd k" and "tables_inv k'" and "files_inv k'"
  shows "kn_inv k'"
proof -
  have "cwd_or_root k' = cwd_or_root k" by (simp add: cwd_or_root_def vfs_root_def assms(5,6))
  moreover have "run_inv (cwd_or_root k, k') = run_inv (cwd_or_root k, k)" by (rule tree_cong(2) [OF assms(2-5)])
  ultimately show ?thesis using assms(1,7,8) by (simp add: kn_inv_def)
qed

section \<open>Descriptors and their buffers\<close>

text \<open>\<open>e\<close> may be stored in \<open>slot\<close>: its buffer meets nothing that belongs to others.\<close>

definition private_buf :: "'a kernel_scheme \<Rightarrow> nat \<Rightarrow> fd_entry \<Rightarrow> bool" where
  "private_buf k slot e \<longleftrightarrow>
     (\<forall>i < FD_MAX. i \<noteq> slot \<and> fd_used (fd_table k ! i) \<longrightarrow> buf e \<inter> buf (fd_table k ! i) = {}) \<and>
     (\<forall>a n. vfs_nodes k a = Some n \<longrightarrow> extent n \<inter> buf e = {})"

definition in_arena :: "heap_state \<Rightarrow> fd_entry \<Rightarrow> bool" where
  "in_arena h e \<longleftrightarrow> fd_write_buf e \<noteq> NULL \<and> unat (h_start h) \<le> unat (fd_write_buf e) \<and>
     unat (fd_write_buf e) + unat (fd_write_capacity e) \<le> unat (h_current h)"

lemma private_own:
  assumes "kn_inv k" and "slot < FD_MAX" and "fd_used (fd_table k ! slot)"
  shows "private_buf k slot (fd_table k ! slot)"
  using assms by (auto simp: private_buf_def kn_inv_def files_inv_def fds_ok_def data_ok_def)

lemma private_cong: "buf e' = buf e \<Longrightarrow> private_buf k slot e \<Longrightarrow> private_buf k slot e'"
  by (simp add: private_buf_def)

lemma put_fd_step:
  assumes inv: "kn_inv k" and slot: "slot < FD_MAX" "fd_used (fd_table k ! slot) \<longrightarrow> fd_pid (fd_table k ! slot) = current_pid k"
    and e: "fd_used e \<longrightarrow> fd_ok (heap k) e \<and> private_buf k slot e"
  shows "kn_inv (put_fd slot e k)" and "user_step k (put_fd slot e k)" and "vfs_abs (put_fd slot e k) = vfs_abs k"
proof -
  have fo: "fds_ok (heap k) (fd_table k)" and d: "\<And>a n. vfs_nodes k a = Some n \<Longrightarrow> data_ok (heap k) (fd_table k) n"
    using inv by (simp_all add: kn_inv_def files_inv_def)
  have len: "length (fd_table k) = FD_MAX" using fo by (simp add: fds_ok_def)
  have at: "(fd_table k)[slot := e] ! i = (if i = slot then e else fd_table k ! i)" if "i < FD_MAX" for i
    using that len by simp
  have "fds_ok (heap k) ((fd_table k)[slot := e])"
    using fo e slot(1) len unfolding fds_ok_def private_buf_def
    by (auto simp: at split: if_splits)
  moreover have "data_ok (heap k) ((fd_table k)[slot := e]) n" if "vfs_nodes k a = Some n" for a n
    using d [OF that] e that by (auto simp: data_ok_def private_buf_def at)
  ultimately have "files_inv (put_fd slot e k)" by (simp add: files_inv_def put_fd_def)
  moreover have "tables_inv (put_fd slot e k)" using inv by (simp add: kn_inv_def tables_inv_def put_fd_def)
  ultimately show "kn_inv (put_fd slot e k)" by (intro kn_inv_tree [OF inv]) (simp_all add: put_fd_def)
  show "user_step k (put_fd slot e k)"
    using slot kn_inv_heap [OF inv] by (auto simp: user_step_def put_fd_def at)
  show "vfs_abs (put_fd slot e k) = vfs_abs k" by (rule tree_cong(1)) (simp_all add: put_fd_def)
qed

lemma grow_capacity_returns:
  "capacity \<noteq> 0 \<Longrightarrow> \<exists>r. grow_capacity capacity needed = Some r \<and> (\<forall>c. r = Some c \<longrightarrow> needed \<le> c)"
proof (induction "2 ^ 32 - unat capacity" arbitrary: capacity rule: less_induct)
  case less
  show ?case
  proof (cases "capacity < needed \<and> \<not> capacity > 0x7FFFFFFF")
    case False
    then show ?thesis by (subst grow_capacity.simps) auto
  next
    case True
    then have c: "unat capacity \<le> 0x7FFFFFFF" "0 < unat capacity"
      using less.prems by (simp_all add: not_less word_le_nat_alt unat_gt_0)
    then have d: "unat (capacity * 2) = unat capacity * 2" by (simp add: unat_word_ariths)
    then have "capacity * 2 \<noteq> 0" using c(2) by (auto simp: word_unat_eq_iff)
    moreover have "2 ^ 32 - unat (capacity * 2) < 2 ^ 32 - unat capacity" using c d by simp
    ultimately have "\<exists>r. grow_capacity (capacity * 2) needed = Some r \<and> (\<forall>c. r = Some c \<longrightarrow> needed \<le> c)"
      using less.hyps by blast
    then show ?thesis using True by (subst grow_capacity.simps) simp
  qed
qed

text \<open>Taking a block from the heap for a buffer.\<close>

lemma fill_buffer_step:
  assumes inv: "kn_inv k" and a: "kmalloc n k = (p, k1)" "p \<noteq> NULL"
    and m: "\<And>x. \<not> in_block p (unat n) x \<Longrightarrow> m x = mem k x"
  shows "kn_inv (k1\<lparr>mem := m\<rparr>)" and "user_step k (k1\<lparr>mem := m\<rparr>)" and "vfs_abs (k1\<lparr>mem := m\<rparr>) = vfs_abs k"
    and "fd_table k1 = fd_table k" and "ring3_current_pid k1 = ring3_current_pid k"
    and "in_arena (heap k1) (e\<lparr>fd_write_buf := p, fd_write_capacity := n\<rparr>)"
    and "private_buf (k1\<lparr>mem := m\<rparr>) slot (e\<lparr>fd_write_buf := p, fd_write_capacity := n\<rparr>)"
proof -
  note b = fill_block_ext [OF kn_inv_vfs [OF inv] a m]
  have f: "vfs_frame k (k1\<lparr>mem := m\<rparr>)" by (rule vfs_frame_kmalloc [OF kn_inv_heap [OF inv] a(1)])
  show "kn_inv (k1\<lparr>mem := m\<rparr>)" by (rule fs_call_step(1) [OF inv b(1) f])
  show "user_step k (k1\<lparr>mem := m\<rparr>)" by (rule fs_call_step(2) [OF inv b(1) f])
  show "vfs_abs (k1\<lparr>mem := m\<rparr>) = vfs_abs k" by (rule b(2))
  have more: "vfs_state.more k1 = vfs_state.more k" using kmalloc_keeps(3) [OF a(1)] .
  show fd: "fd_table k1 = fd_table k" "ring3_current_pid k1 = ring3_current_pid k" using same_more [OF more] by simp_all
  have ar: "same_arena (heap k) (heap k1)" by (rule kmalloc_arena [OF kn_inv_heap [OF inv] a(1)])
  have pc: "unat p = unat (h_current (heap k))" using b(3) by simp
  then show "in_arena (heap k1) (e\<lparr>fd_write_buf := p, fd_write_capacity := n\<rparr>)"
    using a(2) b(4) ar kn_inv_heap [OF inv] by (simp add: in_arena_def same_arena_def heap_inv_def word_le_nat_alt)
  have fo: "fds_ok (heap k) (fd_table k)" using inv by (simp add: kn_inv_def files_inv_def)
  have "buf (e\<lparr>fd_write_buf := p, fd_write_capacity := n\<rparr>) \<inter> buf (fd_table k ! i) = {}" if "i < FD_MAX" "fd_used (fd_table k ! i)" for i
    using buf_below [OF fo that] pc by (fastforce simp: buf_def [of "e\<lparr>fd_write_buf := p, fd_write_capacity := n\<rparr>"])
  moreover have "extent nd \<inter> buf (e\<lparr>fd_write_buf := p, fd_write_capacity := n\<rparr>) = {}" if "vfs_nodes k a = Some nd" for a nd
  proof -
    have "unat (vn_data nd) + unat (vn_size nd) \<le> unat p" using kn_inv_vfs [OF inv] that pc by (auto simp: vfs_inv_def)
    then show ?thesis by (auto simp: extent_def buf_def)
  qed
  ultimately show "private_buf (k1\<lparr>mem := m\<rparr>) slot (e\<lparr>fd_write_buf := p, fd_write_capacity := n\<rparr>)"
    by (simp add: private_buf_def fd(1) b(6))
qed

text \<open>What growing the buffer of \<open>e\<close> to \<open>needed\<close> bytes guarantees.\<close>

definition grown :: "'a kernel_scheme \<Rightarrow> nat \<Rightarrow> fd_entry \<Rightarrow> u32 \<Rightarrow> bool \<Rightarrow> fd_entry \<Rightarrow> 'a kernel_scheme \<Rightarrow> bool" where
  "grown k slot e needed ok e' k' \<longleftrightarrow> kn_inv k' \<and> user_step k k' \<and> vfs_abs k' = vfs_abs k \<and> fd_table k' = fd_table k \<and>
     (\<not> ok \<longrightarrow> k' = k) \<and> e' = e\<lparr>fd_write_buf := fd_write_buf e', fd_write_capacity := fd_write_capacity e'\<rparr> \<and>
     private_buf k' slot e' \<and>
     (ok \<longrightarrow> needed \<le> fd_write_capacity e' \<and> fd_write_capacity e \<le> fd_write_capacity e' \<and> in_arena (heap k') e' \<and>
        buffered (mem k') e' = buffered (mem k) e \<and> (fd_write_buf e = NULL \<longrightarrow> h_current (heap k) \<le> fd_write_buf e')) \<and>
     (\<forall>x. x < h_current (heap k) \<or> h_limit (heap k) \<le> x \<longrightarrow> mem k' x = mem k x)"

lemma ensure_capacity_step:
  assumes inv: "kn_inv k" and priv: "private_buf k slot e" and nz: "needed \<noteq> 0"
    and e: "if fd_write_buf e = NULL then fd_write_capacity e = 0 \<and> fd_write_size e = 0
      else in_arena (heap k) e \<and> unat (fd_write_size e) \<le> unat (fd_write_capacity e)"
  shows "\<exists>ok e' k'. fd_ensure_write_capacity e needed k = Some (ok, e', k') \<and> grown k slot e needed ok e' k'"
proof (cases "needed \<le> fd_write_capacity e")
  case True
  then have "fd_ensure_write_capacity e needed k = Some (True, e, k)" by (simp add: fd_ensure_write_capacity_def)
  moreover have "fd_write_buf e \<noteq> NULL" using e True nz by (auto split: if_splits)
  ultimately show ?thesis using e inv True priv by (intro exI [of _ True] exI [of _ e] exI [of _ k]) (simp add: grown_def)
next
  case False
  let ?c = "if fd_write_capacity e = 0 then 256 else fd_write_capacity e"
  have "?c \<noteq> 0" by simp
  then obtain r where r: "grow_capacity ?c needed = Some r" "\<And>c. r = Some c \<Longrightarrow> needed \<le> c"
    using grow_capacity_returns by blast
  show ?thesis
  proof (cases "\<exists>c p k1. r = Some c \<and> kmalloc c k = (p, k1) \<and> p \<noteq> NULL")
    case no: False
    have "fd_ensure_write_capacity e needed k = Some (False, e, k)"
    proof (cases r)
      case (Some c)
      obtain p k1 where a: "kmalloc c k = (p, k1)" by fastforce
      then have "p = NULL" using no Some by blast
      then have "k1 = k" using a by (intro kmalloc_NULL [OF kn_inv_heap [OF inv]]) simp
      then show ?thesis using False r(1) Some a \<open>p = NULL\<close> by (simp add: fd_ensure_write_capacity_def)
    qed (use False r(1) in \<open>simp add: fd_ensure_write_capacity_def\<close>)
    then show ?thesis using inv priv by (intro exI [of _ False] exI [of _ e] exI [of _ k]) (simp add: grown_def)
  next
    case True
    then obtain c p k1 where a: "r = Some c" "kmalloc c k = (p, k1)" "p \<noteq> NULL" by blast
    let ?n = "unat (fd_write_size e)" and ?e = "e\<lparr>fd_write_buf := p, fd_write_capacity := c\<rparr>"
    define m where "m = (if fd_write_buf e \<noteq> NULL then mem_copy p (fd_write_buf e) ?n (mem k1) else mem_write p (replicate ?n 0) (mem k1))"
    have mem1: "mem k1 = mem k" using kmalloc_keeps(4) [OF a(2)] .
    have n: "?n \<le> unat c" using e False r(2) [OF a(1)] by (auto simp: word_le_nat_alt split: if_splits)
    have out: "m x = mem k x" if "\<not> in_block p (unat c) x" for x
    proof -
      have "\<not> in_block p ?n x" using that n by (auto dest: in_block_mono)
      then show ?thesis by (simp add: m_def mem1 mem_copy_other mem_write_other)
    qed
    note st = fill_buffer_step [OF inv a(2,3) out]
    have run: "fd_ensure_write_capacity e needed k = Some (True, ?e, k1\<lparr>mem := m\<rparr>)"
      using False r(1) a by (simp add: fd_ensure_write_capacity_def m_def Let_def)
    have "mem_read m p ?n = mem_read (mem k) (fd_write_buf e) ?n"
    proof (cases "fd_write_buf e = NULL")
      case nz: False
      note kb = kmalloc_ok [OF kn_inv_heap [OF inv] a(2,3)]
      have ends: "unat (fd_write_buf e) + ?n \<le> unat p" using e nz kb(1) by (simp add: in_arena_def)
      have "unat p + ?n \<le> 2 ^ 32" using kb(3) n unat_u32_bound [of "h_limit (heap k)"] by simp
      then have "\<not> in_block (fd_write_buf e) ?n x" if "in_block p ?n x" for x
        using that ends by (simp add: in_block_iff)
      then have "mem_copy p (fd_write_buf e) ?n (mem k) = mem_write p (mem_read (mem k) (fd_write_buf e) ?n) (mem k)"
        using unat_u32_bound by (intro mem_copy_eq_write)
      then show ?thesis
        using nz mem_write_read [of "mem_read (mem k) (fd_write_buf e) ?n" p "mem k"] unat_u32_bound [of "fd_write_size e"]
        by (simp add: m_def mem1)
    qed (use e in simp)
    then have "buffered m ?e = buffered (mem k) e" by (simp add: buffered_def)
    moreover have "mem (k1\<lparr>mem := m\<rparr>) x = mem k x" if "x < h_current (heap k) \<or> h_limit (heap k) \<le> x" for x
      using vfs_extD(6) [OF fill_block_ext(1) [OF kn_inv_vfs [OF inv] a(2,3) out] that] .
    moreover have "needed \<le> c" "fd_write_capacity e \<le> c" using r(2) [OF a(1)] False by auto
    ultimately have "grown k slot e needed True ?e (k1\<lparr>mem := m\<rparr>)"
      using st kmalloc_ok(1) [OF kn_inv_heap [OF inv] a(2,3)] by (simp add: grown_def)
    then show ?thesis using run by blast
  qed
qed

end
