(* ===== verification/SyscallOps.thy ===== *)
theory SyscallOps
  imports SyscallInv
begin

text \<open>Every handler of \<^verbatim>\<open>kernel/syscall.c\<close>, called from user mode, returns and keeps the invariant.\<close>

definition safe_call :: "bool \<Rightarrow> 'a kernel_scheme \<Rightarrow> (int \<times> 'a kernel_scheme) option \<Rightarrow> bool" where
  "safe_call q k r \<longleftrightarrow> (\<exists>ret k'. r = Some (ret, k') \<and> kn_inv k' \<and> user_step k k' \<and> (q \<longrightarrow> vfs_abs k' = vfs_abs k))"

lemma safe_call_same [simp]: "kn_inv k \<Longrightarrow> safe_call q k (Some (r, k))"
  by (simp add: safe_call_def)

lemma safe_callI: "kn_inv k' \<Longrightarrow> user_step k k' \<Longrightarrow> (q \<Longrightarrow> vfs_abs k' = vfs_abs k) \<Longrightarrow> safe_call q k (Some (r, k'))"
  by (simp add: safe_call_def)

lemma safe_call_trans:
  assumes "user_step k k1" and "q \<Longrightarrow> vfs_abs k1 = vfs_abs k" and "safe_call q k1 r"
  shows "safe_call q k r"
  using assms by (auto simp: safe_call_def intro: user_step_trans)

lemma same_pid: "user_step k k' \<Longrightarrow> ring3_current_pid k' = ring3_current_pid k"
  by (simp add: user_step_def)

lemma validate_cong:
  "kn_sched k' = kn_sched k \<Longrightarrow> ring3_active k' = ring3_active k \<Longrightarrow> ring3_current_pid k' = ring3_current_pid k \<Longrightarrow>
   validate_user_ptr k' p len = validate_user_ptr k p len"
  by (simp only: validate_user_ptr_def)

section \<open>Output and results in user memory\<close>

text \<open>Changes of the tables that are not in the memory.\<close>

lemma tables_step:
  assumes inv: "kn_inv k" and t: "tables_inv k'"
    and same: "heap k' = heap k" "mem k' = mem k" "vfs_nodes k' = vfs_nodes k" "vfs_root_node k' = vfs_root_node k"
      "user_cwd k' = user_cwd k" "fd_table k' = fd_table k" "user_stacks_at (kn_elf k') = user_stacks_at (kn_elf k)"
      "kn_fs k' = kn_fs k" "ring3_active k' = ring3_active k" "ring3_current_pid k' = ring3_current_pid k" "kn_pids k' = kn_pids k"
  shows "kn_inv k'" "user_step k k'" "vfs_abs k' = vfs_abs k"
proof -
  have "files_inv k'" using inv by (simp add: kn_inv_def files_inv_def same)
  then show "kn_inv k'" by (rule kn_inv_tree [OF inv same(1-5) t])
  show "user_step k k'" using kn_inv_heap [OF inv] by (simp add: user_step_def same)
  show "vfs_abs k' = vfs_abs k" by (rule tree_cong(1) [OF same(1-4)])
qed

lemma emit_step:
  assumes "kn_inv k" shows "kn_inv (emit t s k)" "user_step k (emit t s k)" "vfs_abs (emit t s k) = vfs_abs k"
proof -
  have "tables_inv (emit t s k)" using assms by (simp add: kn_inv_def tables_inv_def emit_def)
  note tables_step [OF assms this]
  then show "kn_inv (emit t s k)" "user_step k (emit t s k)" "vfs_abs (emit t s k) = vfs_abs k" by (simp_all add: emit_def)
qed

lemma safe_emit: "kn_inv k \<Longrightarrow> safe_call q k (Some (r, emit t s k))"
  by (intro safe_callI emit_step)

lemma user_write_step:
  assumes inv: "kn_inv k" and act: "ring3_active k \<noteq> 0" and v: "validate_user_ptr k p len" and n: "n \<le> unat len" "len \<noteq> 0"
    and m: "\<And>x. \<not> in_block p n x \<Longrightarrow> m x = mem k x"
  shows "user_step k (k\<lparr>mem := m\<rparr>)" and "vfs_abs (k\<lparr>mem := m\<rparr>) = vfs_abs k"
proof -
  have own: "own_bytes k x" if "m x \<noteq> mem k x" for x
  proof -
    have "in_block p (unat len) x" using m [of x] that n(1) by (auto dest: in_block_mono)
    then show ?thesis using user_ptr_confined(1) [OF inv act v n(2)] by (simp add: own_bytes_def)
  qed
  show "user_step k (k\<lparr>mem := m\<rparr>)" by (rule own_write_step(1) [OF inv own])
  show "vfs_abs (k\<lparr>mem := m\<rparr>) = vfs_abs k" by (rule own_write_step(2) [OF inv own])
qed

lemma safe_user_write:
  assumes "kn_inv k" and "ring3_active k \<noteq> 0" and "validate_user_ptr k p len" and "len \<noteq> 0" and "length bs \<le> unat len"
  shows "safe_call q k (Some (r, k\<lparr>mem := mem_write p bs (mem k)\<rparr>))"
  using user_write_step [OF assms(1-3) assms(5,4)] assms(1) by (intro safe_callI) (auto simp: mem_write_other)

section \<open>Reading\<close>

lemma fd_lookup_SomeD:
  assumes "fd_lookup fds fd pid = Some slot"
  shows "slot < FD_MAX" "fd_used (fds ! slot)" "fd_pid (fds ! slot) = pid"
  using assms by (auto simp: fd_lookup_def FD_MAX_def split: if_splits)

lemma read_from_safe:
  assumes inv: "kn_inv k" and act: "ring3_active k \<noteq> 0" and v: "validate_user_ptr k p (if len = 0 then 1 else len)"
    and slot: "slot < FD_MAX" "fd_used (fd_table k ! slot)" "fd_pid (fd_table k ! slot) = current_pid k"
    and sz: "fd_writable (fd_table k ! slot) \<longrightarrow> sz = fd_write_size (fd_table k ! slot)"
  shows "safe_call True k (Some (read_from slot src sz p len k))"
proof (cases "fd_offset (fd_table k ! slot) \<ge> sz")
  case True
  then show ?thesis using inv by (simp add: read_from_def)
next
  case False
  let ?e = "fd_table k ! slot"
  define n where "n = min len (sz - fd_offset ?e)"
  define m where "m = mem_copy p (src + fd_offset ?e) (unat n) (mem k)"
  define e where "e = ?e\<lparr>fd_offset := fd_offset ?e + n\<rparr>"
  have run: "read_from slot src sz p len k = (sint n, put_fd slot e (k\<lparr>mem := m\<rparr>))"
    using False by (simp add: read_from_def Let_def n_def m_def e_def)
  have nl: "unat n \<le> unat (if len = 0 then 1 else len)"
    by (auto simp: n_def min_def word_le_nat_alt)
  have n1: "(if len = 0 then 1 else len) \<noteq> 0" by simp
  have out: "m x = mem k x" if "\<not> in_block p (unat n) x" for x using that by (simp add: m_def mem_copy_other)
  note w = user_write_step [OF inv act v nl n1 out]
  have ok: "fd_ok (heap k) ?e" using inv slot by (simp add: kn_inv_def files_inv_def fds_ok_def)
  have "unat n \<le> unat sz - unat (fd_offset ?e)" using False by (auto simp: n_def min_def word_le_nat_alt unat_sub_exact)
  then have "unat (fd_offset ?e + n) \<le> unat sz"
    using False unat_u32_bound [of sz] by (subst unat_add_exact) (auto simp: not_le word_less_nat_alt)
  then have "fd_ok (heap k) e" using ok sz by (auto simp: fd_ok_def e_def)
  moreover have "private_buf (k\<lparr>mem := m\<rparr>) slot e"
    using private_own [OF inv slot(1,2)] by (simp add: private_buf_def e_def buf_def)
  ultimately have s: "kn_inv (put_fd slot e (k\<lparr>mem := m\<rparr>))" "user_step (k\<lparr>mem := m\<rparr>) (put_fd slot e (k\<lparr>mem := m\<rparr>))"
      "vfs_abs (put_fd slot e (k\<lparr>mem := m\<rparr>)) = vfs_abs (k\<lparr>mem := m\<rparr>)"
    using put_fd_step [of "k\<lparr>mem := m\<rparr>" slot e] inv slot by simp_all
  show ?thesis unfolding run using s w by (intro safe_callI user_step_trans [OF w(1) s(2)]) simp_all
qed

lemma read_safe:
  assumes inv: "kn_inv k" and act: "ring3_active k \<noteq> 0" and fd: "fd \<noteq> 0"
  shows "safe_call True k (ksys_read fd p len k)"
proof (cases "validate_user_ptr k p (if len = 0 then 1 else len)")
  case v: True
  show ?thesis
  proof (cases "fd_lookup (fd_table k) fd (current_pid k)")
    case (Some slot)
    note l = fd_lookup_SomeD [OF Some]
    have ok: "fd_ok (heap k) (fd_table k ! slot)" using inv l by (simp add: kn_inv_def files_inv_def fds_ok_def)
    then have "fd_write_buf (fd_table k ! slot) = NULL \<longrightarrow> \<not> fd_writable (fd_table k ! slot)" by (auto simp: fd_ok_def)
    then show ?thesis
      using v fd Some inv read_from_safe [OF inv act v l] by (auto simp: ksys_read_def Let_def)
  qed (use v fd inv in \<open>simp add: ksys_read_def\<close>)
qed (use fd inv in \<open>simp add: ksys_read_def\<close>)

section \<open>Writing\<close>

text \<open>\<open>bs\<close> written over \<open>xs\<close> from position \<open>i\<close> on, as the contents of a file are overwritten.\<close>

definition splice :: "nat \<Rightarrow> u8 list \<Rightarrow> u8 list \<Rightarrow> u8 list" where
  "splice i bs xs = take i xs @ bs @ drop (i + length bs) xs"

lemma length_splice: "i \<le> length xs \<Longrightarrow> length (splice i bs xs) = max (i + length bs) (length xs)"
  by (auto simp: splice_def)

lemma splice_nth:
  "i \<le> length xs \<Longrightarrow> j < max (i + length bs) (length xs) \<Longrightarrow>
   splice i bs xs ! j = (if i \<le> j \<and> j < i + length bs then bs ! (j - i) else xs ! j)"
  by (auto simp: splice_def nth_append min_def max_def not_less split: if_splits)

lemma write_at_spec:
  fixes e :: fd_entry and len :: u32
  defines "b \<equiv> unat (fd_write_buf e)" and "i \<equiv> unat (fd_offset e)" and "s \<equiv> unat (fd_write_size e)"
    and "c \<equiv> unat (fd_write_capacity e)" and "l \<equiv> unat len"
  assumes le: "i \<le> s" and sc: "s < c" and lc: "i + l < c" and bc: "b + c < 2 ^ 32"
    and src: "\<And>x. in_block p l x \<Longrightarrow> unat x \<notin> buf e" and w: "write_at e p len m = (e', m')"
  shows "m' x \<noteq> m x \<Longrightarrow> unat x \<in> buf e" and "buffered m' e' = splice i (mem_read m p l) (buffered m e)"
    and "unat (fd_offset e') = i + l" and "unat (fd_write_size e') = max (i + l) s"
    and "fd_used e' = fd_used e" and "fd_pid e' = fd_pid e" and "fd_writable e' = fd_writable e" and "fd_path e' = fd_path e"
    and "fd_write_buf e' = fd_write_buf e" and "fd_write_capacity e' = fd_write_capacity e" and "fd_dirty e'"
proof -
  let ?wb = "fd_write_buf e" and ?o = "fd_offset e" and ?bs = "mem_read m p l"
  define z where "z = (if fd_offset e + len > fd_write_size e then fd_offset e + len else fd_write_size e)"
  have ol: "unat (?o + len) = i + l" using lc bc unfolding i_def l_def by (intro unat_add_exact) simp
  have z: "unat z = max (i + l) s" by (simp add: z_def word_less_nat_alt ol s_def max_def)
  have blk: "in_block (?wb + ?o) l x \<longleftrightarrow> b + i \<le> unat x \<and> unat x < b + i + l" for x
  proof -
    have "unat (?wb + ?o) = b + i" using le sc bc unfolding b_def i_def by (intro unat_add_exact) simp
    then show ?thesis using lc bc by (subst in_block_iff) simp_all
  qed
  have "\<not> in_block p l x" if "in_block (?wb + ?o) l x" for x
    using src [of x] that lc unfolding blk by (auto simp: buf_def b_def c_def)
  then have copy: "mem_copy (?wb + ?o) p l m = mem_write (?wb + ?o) ?bs m"
    using unat_u32_bound [of len] by (intro mem_copy_eq_write) (simp_all add: l_def)
  have gap: "\<not> fd_write_size e < ?o" using le by (simp add: word_less_nat_alt i_def s_def)
  have r: "m' = (mem_write (?wb + ?o) ?bs m)(?wb + z := 0)"
    "e' = e\<lparr>fd_offset := ?o + len, fd_write_size := z, fd_data := ?wb, fd_size := z, fd_dirty := True\<rparr>"
    using w gap copy by (auto simp: write_at_def Let_def z_def l_def)
  have wz: "unat (?wb + z) = b + max (i + l) s"
  proof -
    have "unat (?wb + z) = unat ?wb + unat z" using z sc lc bc by (intro unat_add_exact) (auto simp: b_def)
    then show ?thesis by (simp add: z b_def)
  qed
  show "unat x \<in> buf e" if "m' x \<noteq> m x"
  proof (cases "x = ?wb + z")
    case True
    then show ?thesis using wz sc lc by (auto simp: buf_def b_def c_def)
  next
    case False
    then have "in_block (?wb + ?o) l x" using that by (auto simp: r(1) intro: ccontr mem_write_other)
    then show ?thesis using lc unfolding blk by (auto simp: buf_def b_def c_def)
  qed
  show "unat (fd_offset e') = i + l" "unat (fd_write_size e') = max (i + l) s" using ol z by (simp_all add: r(2))
  show "fd_used e' = fd_used e" "fd_pid e' = fd_pid e" "fd_writable e' = fd_writable e" "fd_path e' = fd_path e"
    "fd_write_buf e' = fd_write_buf e" "fd_write_capacity e' = fd_write_capacity e" "fd_dirty e'"
    by (simp_all add: r(2))
  have lens: "length (buffered m e) = s" "length ?bs = l" by (simp_all add: buffered_def s_def)
  show "buffered m' e' = splice i ?bs (buffered m e)"
  proof (rule nth_equalityI)
    show len: "length (buffered m' e') = length (splice i ?bs (buffered m e))"
      using le lens by (simp add: length_splice buffered_def r(2) z)
    fix j assume "j < length (buffered m' e')"
    then have j: "j < max (i + l) s" using le lens by (simp add: len length_splice)
    have uj: "unat (?wb + of_nat j) = b + j"
      using j sc lc bc unfolding b_def by (subst unat_add_exact) (auto simp: unat_of_nat_exact)
    have "buffered m' e' ! j = m' (?wb + of_nat j)" using j by (simp add: buffered_def r(2) z mem_read_nth)
    also have "\<dots> = mem_write (?wb + ?o) ?bs m (?wb + of_nat j)"
      using uj wz j by (auto simp: r(1))
    also have "\<dots> = (if i \<le> j \<and> j < i + l then ?bs ! (j - i) else m (?wb + of_nat j))"
    proof (cases "i \<le> j \<and> j < i + l")
      case True
      have "?wb + of_nat j = (?wb + ?o) + of_nat (j - i)"
        using True by (simp add: i_def of_nat_diff)
      moreover have "j - i < length ?bs" using True lens(2) by arith
      ultimately show ?thesis using True lens(2) mem_write_nth [of "j - i" ?bs "?wb + ?o" m] unat_u32_bound [of len]
        by (simp add: l_def)
    next
      case False
      then have "\<not> in_block (?wb + ?o) l (?wb + of_nat j)" by (auto simp: blk uj)
      then show ?thesis using False lens(2) by (auto simp: mem_write_other)
    qed
    also have "\<dots> = splice i ?bs (buffered m e) ! j"
    proof -
      have "m (?wb + of_nat j) = buffered m e ! j" if "\<not> (i \<le> j \<and> j < i + l)"
        using that j le by (auto simp: buffered_def mem_read_nth s_def max_def split: if_splits)
      then show ?thesis using j le lens by (simp add: splice_nth)
    qed
    finally show "buffered m' e' ! j = splice i ?bs (buffered m e) ! j" .
  qed
qed

text \<open>A heap that holds a buffer ends below the image region.\<close>

lemma arena_bound:
  assumes "heap_inv h" and "in_arena h e" and "0 < unat (fd_write_capacity e)"
  shows "unat (h_current h) \<le> 0x300000" and "unat (h_start h) \<le> 0x300000"
proof -
  have "h_ready h" using assms by (auto simp: heap_inv_def in_arena_def word_le_nat_alt split: if_splits)
  then show "unat (h_current h) \<le> 0x300000" "unat (h_start h) \<le> 0x300000"
    using assms(1) by (auto simp: heap_inv_def USER_IMAGE_RESERVED_BASE_def word_le_nat_alt)
qed

text \<open>Storing a descriptor and writing to its buffer.\<close>

lemma commit_step:
  assumes inv: "kn_inv k" and slot: "slot < FD_MAX" "fd_used (fd_table k ! slot) \<longrightarrow> fd_pid (fd_table k ! slot) = current_pid k"
    and e: "fd_used e" "fd_pid e = current_pid k" "fd_ok (heap k) e" "private_buf k slot e"
    and m: "\<And>x. m x \<noteq> mem k x \<Longrightarrow> unat x \<in> buf e"
  shows "kn_inv (put_fd slot e (k\<lparr>mem := m\<rparr>))" and "user_step k (put_fd slot e (k\<lparr>mem := m\<rparr>))"
    and "vfs_abs (put_fd slot e (k\<lparr>mem := m\<rparr>)) = vfs_abs k"
proof -
  have eq: "put_fd slot e (k\<lparr>mem := m\<rparr>) = (put_fd slot e k)\<lparr>mem := m\<rparr>" by (simp add: put_fd_def)
  have st: "kn_inv (put_fd slot e k)" "user_step k (put_fd slot e k)" "vfs_abs (put_fd slot e k) = vfs_abs k"
    using put_fd_step [OF inv slot, of e] e by blast+
  have "length (fd_table k) = FD_MAX" using inv by (simp add: kn_inv_def files_inv_def fds_ok_def)
  then have "fd_table (put_fd slot e k) ! slot = e" using slot(1) by (simp add: put_fd_def)
  then have own: "own_bytes (put_fd slot e k) x" if "m x \<noteq> mem (put_fd slot e k) x" for x
    using m [of x] that slot(1) e(1,2) same_pid [OF st(2)] by (auto simp: own_bytes_def put_fd_def)
  note w = own_write_step [OF st(1) own]
  show "kn_inv (put_fd slot e (k\<lparr>mem := m\<rparr>))" using st(1) by (simp add: eq)
  show "user_step k (put_fd slot e (k\<lparr>mem := m\<rparr>))" unfolding eq by (rule user_step_trans [OF st(2) w(1)])
  show "vfs_abs (put_fd slot e (k\<lparr>mem := m\<rparr>)) = vfs_abs k" using w(2) st(3) by (simp add: eq)
qed

text \<open>
  A write through a descriptor: it fails without a change when there is no room, or the bytes are
  spliced into the buffered contents.
\<close>

lemma write_step:
  assumes inv: "kn_inv k" and act: "ring3_active k \<noteq> 0" and v: "validate_user_ptr k p (if len = 0 then 1 else len)"
    and p: "p \<noteq> NULL" and fd: "fd_lookup (fd_table k) fd (current_pid k) = Some slot" and wr: "fd_writable (fd_table k ! slot)"
  shows "ksys_write fd p len k = Some (ERR_INVAL, k) \<or>
    (\<exists>k' e'. ksys_write fd p len k = Some (sint len, k') \<and> kn_inv k' \<and> user_step k k' \<and> vfs_abs k' = vfs_abs k \<and>
       fd_table k' = (fd_table k)[slot := e'] \<and> fd_used e' \<and> fd_writable e' \<and> fd_pid e' = current_pid k \<and> fd_path e' = fd_path (fd_table k ! slot) \<and>
       fd_dirty e' \<and> unat (fd_offset e') = unat (fd_offset (fd_table k ! slot)) + unat len \<and>
       buffered (mem k') e' = splice (unat (fd_offset (fd_table k ! slot))) (mem_read (mem k) p (unat len)) (buffered (mem k) (fd_table k ! slot)))"
proof -
  let ?e = "fd_table k ! slot"
  note l = fd_lookup_SomeD [OF fd]
  have nf: "fd \<noteq> 1" "fd \<noteq> 2" using fd by (auto simp: fd_lookup_def)
  have ok: "fd_ok (heap k) ?e" using inv l by (simp add: kn_inv_def files_inv_def fds_ok_def)
  then have ia: "in_arena (heap k) ?e" and es: "unat (fd_write_size ?e) < unat (fd_write_capacity ?e)"
    "unat (fd_offset ?e) \<le> unat (fd_write_size ?e)" "fd_write_buf ?e \<noteq> NULL"
    using wr by (simp_all add: fd_ok_def in_arena_def)
  note ab = arena_bound [OF kn_inv_heap [OF inv] ia]
  have bnd: "unat (fd_offset ?e) + unat len + 1 < 2 ^ 32"
  proof -
    have "unat p + unat (if len = 0 then 1 else len) \<le> 0x320000"
      using user_ptr_confined(2) [OF inv act v] ab es(1) by auto
    then have "unat len \<le> 0x320000" by (auto split: if_splits)
    then show ?thesis using ab es ia by (simp add: in_arena_def)
  qed
  have need: "unat (fd_offset ?e + len) = unat (fd_offset ?e) + unat len" "unat (fd_offset ?e + len + 1) = unat (fd_offset ?e) + unat len + 1"
    using bnd by (simp_all add: unat_add_exact)
  have nw: "\<not> fd_offset ?e + len < fd_offset ?e" by (simp add: word_less_nat_alt need)
  have nz: "fd_offset ?e + len + 1 \<noteq> 0" using need(2) by (auto simp: word_unat_eq_iff)
  obtain ok1 e1 k1 where run1: "fd_ensure_write_capacity ?e (fd_offset ?e + len + 1) k = Some (ok1, e1, k1)"
    and g: "grown k slot ?e (fd_offset ?e + len + 1) ok1 e1 k1"
    using ensure_capacity_step [OF inv private_own [OF inv l(1,2)] nz] ia es by auto
  have c: "kn_inv k1" "user_step k k1" "vfs_abs k1 = vfs_abs k" "fd_table k1 = fd_table k" "\<not> ok1 \<Longrightarrow> k1 = k"
    "e1 = ?e\<lparr>fd_write_buf := fd_write_buf e1, fd_write_capacity := fd_write_capacity e1\<rparr>" "private_buf k1 slot e1"
    "ok1 \<Longrightarrow> fd_offset ?e + len + 1 \<le> fd_write_capacity e1 \<and> fd_write_capacity ?e \<le> fd_write_capacity e1"
    "ok1 \<Longrightarrow> in_arena (heap k1) e1" "ok1 \<Longrightarrow> buffered (mem k1) e1 = buffered (mem k) ?e"
    "\<And>x. x < h_current (heap k) \<or> h_limit (heap k) \<le> x \<Longrightarrow> mem k1 x = mem k x"
    using g unfolding grown_def by blast+
  show ?thesis
  proof (cases ok1)
    case False
    then show ?thesis using run1 c(5) nf p v fd wr nw by (simp add: ksys_write_def Let_def)
  next
    case True
    obtain e2 m where w: "write_at e1 p len (mem k1) = (e2, m)" by fastforce
    have e1: "fd_used e1" "fd_pid e1 = current_pid k" "fd_offset e1 = fd_offset ?e" "fd_write_size e1 = fd_write_size ?e" "fd_writable e1"
      "fd_path e1 = fd_path ?e"
      using l(2,3) wr by (subst c(6), simp)+
    have a1: "in_arena (heap k1) e1" using c(9) True by blast
    have cap: "unat (fd_offset ?e) + unat len < unat (fd_write_capacity e1)" "unat (fd_write_size ?e) < unat (fd_write_capacity e1)"
      using c(8) [OF True] es(1) by (auto simp: word_le_nat_alt need)
    have ok1': "fd_ok (heap k1) e1" using a1 e1 cap es(2) ok by (simp add: fd_ok_def in_arena_def)
    have slot1: "fd_used (fd_table k1 ! slot) \<longrightarrow> fd_pid (fd_table k1 ! slot) = current_pid k1"
      using c(4) l(3) same_pid [OF c(2)] by simp
    have bc: "unat (fd_write_buf e1) + unat (fd_write_capacity e1) < 2 ^ 32"
      using a1 unat_u32_bound [of "h_current (heap k1)"] by (simp add: in_arena_def)
    have ub: "user_space k x" if "in_block p (unat len) x" for x
    proof -
      have "len \<noteq> 0" using that by auto
      then show ?thesis using user_ptr_confined(1) [OF inv act v, of x] that by simp
    qed
    have src: "unat x \<notin> buf e1" if "in_block p (unat len) x" for x
    proof -
      have "unat (h_start (heap k1)) \<le> unat x \<Longrightarrow> unat x < unat (h_limit (heap k1)) \<Longrightarrow> False"
        using user_space_outside [OF inv ub [OF that]] c(2) by (auto simp: user_step_def same_arena_def)
      moreover have "unat (h_current (heap k1)) \<le> unat (h_limit (heap k1))"
        using kn_inv_heap [OF c(1)] by (simp add: heap_inv_def word_le_nat_alt)
      ultimately show ?thesis using a1 by (auto simp: buf_def in_arena_def)
    qed
    have spl: "mem_read (mem k1) p (unat len) = mem_read (mem k) p (unat len)"
    proof (rule mem_read_cong)
      fix x assume "in_block p (unat len) x"
      then have "unat x < unat (h_start (heap k)) \<or> unat (h_limit (heap k)) \<le> unat x" using user_space_outside [OF inv ub] by blast
      moreover have "unat (h_start (heap k)) \<le> unat (h_current (heap k))" using kn_inv_heap [OF inv] by (simp add: heap_inv_def word_le_nat_alt)
      ultimately show "mem k1 x = mem k x" by (intro c(11)) (auto simp: word_less_nat_alt word_le_nat_alt)
    qed
    note ws = write_at_spec [OF _ _ _ bc src w, unfolded e1, OF es(2) cap(2,1)]
    note e2 = ws(9,10,11)
    have e2': "fd_used e2" "fd_pid e2 = current_pid k" "fd_writable e2" "fd_path e2 = fd_path ?e"
      using ws(5-8) e1(1,5) by simp_all
    have ok2: "fd_ok (heap k1) e2"
      using ok1' e2 e2' ws(3,4) cap by (auto simp: fd_ok_def e1 max_def)
    have p2: "private_buf k1 slot e2" by (rule private_cong [OF _ c(7)]) (simp add: buf_def e2)
    have m: "unat x \<in> buf e2" if "m x \<noteq> mem k1 x" for x using ws(1) [of x] that by (simp add: buf_def e2)
    have pid2: "fd_pid e2 = current_pid k1" using e2'(2) same_pid [OF c(2)] by simp
    note st = commit_step [OF c(1) l(1) slot1 e2'(1) pid2 ok2 p2, of m, OF m]
    have run: "ksys_write fd p len k = Some (sint len, put_fd slot e2 (k1\<lparr>mem := m\<rparr>))"
      using run1 True nf p v fd wr nw w by (simp add: ksys_write_def Let_def)
    have "buffered (mem (put_fd slot e2 (k1\<lparr>mem := m\<rparr>))) e2 =
        splice (unat (fd_offset ?e)) (mem_read (mem k) p (unat len)) (buffered (mem k) ?e)"
      using ws(2) c(10) True by (simp add: put_fd_def spl)
    moreover have "fd_table (put_fd slot e2 (k1\<lparr>mem := m\<rparr>)) = (fd_table k)[slot := e2]" by (simp add: put_fd_def c(4))
    ultimately show ?thesis
      using run st(1,3) user_step_trans [OF c(2) st(2)] e2 e2' ws(3) c(3)
      by (intro disjI2 exI [of _ "put_fd slot e2 (k1\<lparr>mem := m\<rparr>)"] exI [of _ e2]) simp
  qed
qed

lemma write_safe:
  assumes inv: "kn_inv k" and act: "ring3_active k \<noteq> 0"
  shows "safe_call True k (ksys_write fd p len k)"
proof (cases "p = NULL \<or> \<not> validate_user_ptr k p (if len = 0 then 1 else len) \<or> fd = 1 \<or> fd = 2")
  case True
  then show ?thesis using inv by (auto simp: ksys_write_def Let_def intro!: safe_emit)
next
  case False
  show ?thesis
  proof (cases "fd_lookup (fd_table k) fd (current_pid k)")
    case (Some slot)
    show ?thesis
    proof (cases "fd_writable (fd_table k ! slot)")
      case True
      then show ?thesis using write_step [OF inv act _ _ Some True, of p len] False inv by (fastforce simp: safe_call_def)
    qed (use False Some inv in \<open>simp add: ksys_write_def Let_def\<close>)
  qed (use False inv in \<open>simp add: ksys_write_def\<close>)
qed

section \<open>Opening and closing\<close>

lemma fd_alloc_slot_D:
  assumes "fd_alloc_slot fds = Some slot" and "length fds = FD_MAX"
  shows "slot < FD_MAX" "\<not> fd_used (fds ! slot)" "3 \<le> slot"
proof -
  obtain i where i: "find_index (\<lambda>e. \<not> fd_used e) (drop 3 fds) = Some i" "slot = i + 3"
    using assms(1) by (auto simp: fd_alloc_slot_def)
  then show "slot < FD_MAX" "\<not> fd_used (fds ! slot)" "3 \<le> slot"
    using find_index_SomeD(1,2) [OF i(1)] assms(2) by (simp_all add: add.commute)
qed

text \<open>The contents a descriptor starts with.\<close>

definition opened :: "u32 \<Rightarrow> u8 list \<Rightarrow> u8 list" where
  "opened flags bs = (if flags AND O_TRUNC \<noteq> 0 then [] else bs)"

abbreviation wants_write :: "u32 \<Rightarrow> bool" where
  "wants_write flags \<equiv> flags AND O_ACCMODE = O_WRONLY \<or> flags AND O_ACCMODE = O_RDWR"

lemma open_slot_step:
  assumes inv: "kn_inv k" and slot: "fd_alloc_slot (fd_table k) = Some slot"
    and data: "unat d + unat sz \<le> unat (h_current (heap k))"
  shows "(\<exists>k'. open_slot slot (current_pid k) flags path d sz k = Some (ERR_INVAL, k') \<and> kn_inv k' \<and> user_step k k' \<and> vfs_abs k' = vfs_abs k) \<or>
    (\<exists>k' e. open_slot slot (current_pid k) flags path d sz k = Some (int slot, k') \<and> kn_inv k' \<and> user_step k k' \<and> vfs_abs k' = vfs_abs k \<and>
       fd_table k' = (fd_table k)[slot := e] \<and> fd_used e \<and> fd_pid e = current_pid k \<and> fd_path e = str_copy [] path 128 \<and>
       (fd_writable e \<longleftrightarrow> wants_write flags) \<and>
       (wants_write flags \<longrightarrow> buffered (mem k') e = opened flags (mem_read (mem k) d (unat sz)) \<and>
          unat (fd_offset e) = (if flags AND O_APPEND \<noteq> 0 then length (buffered (mem k') e) else 0) \<and>
          (fd_dirty e \<longleftrightarrow> flags AND O_TRUNC \<noteq> 0)))"
proof -
  have len: "length (fd_table k) = FD_MAX" using inv by (simp add: kn_inv_def files_inv_def fds_ok_def)
  note s = fd_alloc_slot_D [OF slot len]
  define e0 where "e0 = empty_fd\<lparr>fd_used := True, fd_pid := current_pid k, fd_readable := flags AND O_ACCMODE \<noteq> O_WRONLY,
    fd_writable := wants_write flags, fd_data := d, fd_size := sz, fd_offset := (if flags AND O_APPEND \<noteq> 0 then sz else 0),
    fd_path := str_copy [] path 128\<rparr>"
  define z where "z = (if flags AND O_TRUNC \<noteq> 0 then 0 else sz)"
  have plen: "length (str_copy [] path 128) < 128" using length_str_copy [of 128 "[]" path] by simp
  have priv0: "private_buf k slot e0" by (simp add: private_buf_def buf_def e0_def empty_fd_def)
  show ?thesis
  proof (cases "wants_write flags")
    case False
    have run: "open_slot slot (current_pid k) flags path d sz k = Some (int slot, put_fd slot e0 k)"
      using False by (simp add: open_slot_def Let_def e0_def)
    have "fd_ok (heap k) e0" using False plen by (simp add: fd_ok_def e0_def empty_fd_def)
    then have st: "kn_inv (put_fd slot e0 k)" "user_step k (put_fd slot e0 k)" "vfs_abs (put_fd slot e0 k) = vfs_abs k"
      using put_fd_step [OF inv s(1), of e0] s(2) priv0 by simp_all
    show ?thesis
      using run st False by (intro disjI2 exI [of _ "put_fd slot e0 k"] exI [of _ e0]) (simp add: put_fd_def e0_def)
  next
    case True
    have hd: "16 dvd unat (h_current (heap k))" using kn_inv_heap [OF inv] by (simp add: heap_inv_def)
    then have "unat (h_current (heap k)) \<noteq> 2 ^ 32 - 1" by (auto dest: dvd_imp_mod_0)
    then have zb: "unat z + 1 < 2 ^ 32" "unat d + unat z \<le> unat (h_current (heap k))"
      using data unat_u32_bound [of "h_current (heap k)"] by (auto simp: z_def)
    then have z1: "unat (z + 1) = unat z + 1" "z + 1 \<noteq> 0" by (simp_all add: unat_add_exact word_unat_eq_iff)
    obtain ok e1 k1 where run: "fd_ensure_write_capacity e0 (z + 1) k = Some (ok, e1, k1)" and g: "grown k slot e0 (z + 1) ok e1 k1"
      using ensure_capacity_step [OF inv priv0 z1(2)] by (auto simp: e0_def empty_fd_def)
    have c: "kn_inv k1" "user_step k k1" "vfs_abs k1 = vfs_abs k" "fd_table k1 = fd_table k" "\<not> ok \<Longrightarrow> k1 = k"
      "e1 = e0\<lparr>fd_write_buf := fd_write_buf e1, fd_write_capacity := fd_write_capacity e1\<rparr>" "private_buf k1 slot e1"
      "ok \<Longrightarrow> z + 1 \<le> fd_write_capacity e1" "ok \<Longrightarrow> in_arena (heap k1) e1"
      "\<And>x. x < h_current (heap k) \<or> h_limit (heap k) \<le> x \<Longrightarrow> mem k1 x = mem k x"
      "ok \<Longrightarrow> fd_write_buf e0 = NULL \<Longrightarrow> h_current (heap k) \<le> fd_write_buf e1"
      using g unfolding grown_def by blast+
    have "open_slot slot (current_pid k) flags path d sz k =
        (if \<not> wants_write flags then Some (int slot, put_fd slot e0 k)
         else do { (ok, e, k) \<leftarrow> fd_ensure_write_capacity e0 (z + 1) k;
                if \<not> ok then Some (ERR_INVAL, fd_reset_slot slot k)
                else let wb = fd_write_buf e; m = (mem_copy wb d (unat z) (mem k))(wb + z := 0);
                       e = e\<lparr>fd_write_size := z, fd_data := wb, fd_size := z\<rparr>;
                       e = (if flags AND O_TRUNC \<noteq> 0 then e\<lparr>fd_offset := 0, fd_dirty := True\<rparr> else e)
                     in Some (int slot, put_fd slot e (k\<lparr>mem := m\<rparr>)) })"
      by (simp only: open_slot_def Let_def e0_def z_def)
    then have go: "open_slot slot (current_pid k) flags path d sz k =
        (if \<not> ok then Some (ERR_INVAL, fd_reset_slot slot k1)
         else let e = e1\<lparr>fd_write_size := z, fd_data := fd_write_buf e1, fd_size := z\<rparr>
              in Some (int slot, put_fd slot (if flags AND O_TRUNC \<noteq> 0 then e\<lparr>fd_offset := 0, fd_dirty := True\<rparr> else e)
                   (k1\<lparr>mem := (mem_copy (fd_write_buf e1) d (unat z) (mem k1))(fd_write_buf e1 + z := 0)\<rparr>)))"
      using True run by (simp add: Let_def)
    show ?thesis
    proof (cases ok)
      case False
      have "kn_inv (put_fd slot empty_fd k)" "user_step k (put_fd slot empty_fd k)" "vfs_abs (put_fd slot empty_fd k) = vfs_abs k"
        using put_fd_step [OF inv s(1), of empty_fd] s(2) by (simp_all add: empty_fd_def)
      then show ?thesis using go False c(5) s(1) by (simp add: fd_reset_slot_def)
    next
      case yes: True
      let ?b = "fd_write_buf e1"
      define m where "m = (mem_copy ?b d (unat z) (mem k1))(?b + z := 0)"
      define e where "e = (let e = e1\<lparr>fd_write_size := z, fd_data := ?b, fd_size := z\<rparr>
        in if flags AND O_TRUNC \<noteq> 0 then e\<lparr>fd_offset := 0, fd_dirty := True\<rparr> else e)"
      have run2: "open_slot slot (current_pid k) flags path d sz k = Some (int slot, put_fd slot e (k1\<lparr>mem := m\<rparr>))"
        using go yes by (simp add: Let_def m_def e_def)
      have "fd_used e1 = fd_used e0" "fd_pid e1 = fd_pid e0" "fd_writable e1 = fd_writable e0" "fd_path e1 = fd_path e0"
        "fd_offset e1 = fd_offset e0" "fd_dirty e1 = fd_dirty e0"
        by (subst c(6), simp)+
      then have e: "fd_used e" "fd_pid e = current_pid k" "fd_writable e" "fd_path e = str_copy [] path 128"
        "fd_write_buf e = ?b" "fd_write_capacity e = fd_write_capacity e1" "fd_write_size e = z"
        "fd_offset e = (if flags AND O_TRUNC \<noteq> 0 then 0 else if flags AND O_APPEND \<noteq> 0 then sz else 0)"
        "fd_dirty e \<longleftrightarrow> flags AND O_TRUNC \<noteq> 0"
        using True by (simp_all add: e_def Let_def e0_def empty_fd_def)
      have ia: "in_arena (heap k1) e1" using c(9) yes by blast
      have cap: "unat z + 1 \<le> unat (fd_write_capacity e1)" using c(8) [OF yes] by (simp add: word_le_nat_alt z1)
      have ok': "fd_ok (heap k1) e" using ia cap plen e by (auto simp: fd_ok_def in_arena_def z_def)
      have priv: "private_buf k1 slot e" by (rule private_cong [OF _ c(7)]) (simp add: buf_def e)
      have bc: "unat ?b + (unat z + 1) < 2 ^ 32"
        using ia cap unat_u32_bound [of "h_current (heap k1)"] by (simp add: in_arena_def)
      have fresh: "unat (h_current (heap k)) \<le> unat ?b" using c(11) [OF yes] by (simp add: e0_def empty_fd_def word_le_nat_alt)
      have disj: "\<not> in_block d (unat z) x" if "in_block ?b (unat z) x" for x
        using that fresh zb(2) bc unat_u32_bound [of "h_current (heap k)"] by (auto simp: in_block_iff)
      have mx: "unat x \<in> buf e" if "m x \<noteq> mem k1 x" for x
      proof -
        have "in_block ?b (unat z + 1) x" using that copy_to_block(2) [OF disj bc] by (auto simp: m_def)
        then show ?thesis using bc cap by (simp add: in_block_iff buf_def e)
      qed
      have slot1: "fd_used (fd_table k1 ! slot) \<longrightarrow> fd_pid (fd_table k1 ! slot) = current_pid k1" using s(2) c(4) by simp
      have pid1: "fd_pid e = current_pid k1" using e(2) same_pid [OF c(2)] by simp
      note st = commit_step [OF c(1) s(1) slot1 e(1) pid1 ok' priv, of m, OF mx]
      have "mem_read m ?b (unat z) = mem_read (mem k1) d (unat z)" using copy_to_block(1) [OF disj bc] by (simp add: m_def)
      also have "\<dots> = mem_read (mem k) d (unat z)"
        using zb(2) unat_u32_bound [of "h_current (heap k)"]
        by (intro mem_read_cong c(10)) (auto simp: in_block_iff word_less_nat_alt)
      finally have "buffered m e = opened flags (mem_read (mem k) d (unat sz))"
        by (simp add: buffered_def e opened_def z_def)
      moreover have "length (buffered m e) = unat z" by (simp add: buffered_def e)
      moreover have "fd_table (put_fd slot e (k1\<lparr>mem := m\<rparr>)) = (fd_table k)[slot := e]" by (simp add: put_fd_def c(4))
      moreover have "mem (put_fd slot e (k1\<lparr>mem := m\<rparr>)) = m" by (simp add: put_fd_def)
      ultimately show ?thesis
        using run2 st(1,3) user_step_trans [OF c(2) st(2)] e True c(3)
        by (intro disjI2 exI [of _ "put_fd slot e (k1\<lparr>mem := m\<rparr>)"] exI [of _ e]) (simp add: z_def)
    qed
  qed
qed

text \<open>Paths from user memory.\<close>

lemma copy_cstr_length: "copy_cstr_loop k p n = Some s \<Longrightarrow> length s \<le> n"
  by (induction n arbitrary: p s) (auto simp: Let_def split: if_splits)

lemma copy_user_cstr_length: "copy_user_cstr k p n = Some s \<Longrightarrow> length s < n"
  using copy_cstr_length [of k p "n - 1" s] by (fastforce simp: copy_user_cstr_def split: if_splits)

lemma copy_bounded_length: "copy_bounded xs n out = (out', rest) \<Longrightarrow> length out < n \<Longrightarrow> length out' < n"
  by (induction xs n out rule: copy_bounded.induct) (auto split: if_splits)

lemma path_join_length:
  assumes "vfs_path_join n base rel = Some out" shows "length out < n"
proof -
  have n: "0 < n" using assms by (simp add: vfs_path_join_def split: if_splits)
  obtain o1 r1 where 1: "copy_bounded base n [] = (o1, r1)" by fastforce
  define o2 where "o2 = (if o1 \<noteq> [] \<and> last o1 \<noteq> CHR ''/'' then o1 @ ''/'' else o1)"
  obtain o3 r3 where 3: "copy_bounded rel n o2 = (o3, r3)" by fastforce
  have "length o1 < n" using copy_bounded_length [OF 1] n by simp
  then have "length o2 < n" using assms 1 by (auto simp: vfs_path_join_def o2_def split: if_splits)
  then show ?thesis using assms 1 3 copy_bounded_length [OF 3] by (auto simp: vfs_path_join_def o2_def Let_def split: if_splits)
qed

lemma abs_path_returns:
  assumes "kn_inv k"
  obtains full where "make_abs_path k (cwd_or_root k) path 128 = Some full" "path_ok full"
proof -
  obtain ps where cwd: "cwd_at k (cwd_or_root k) ps" using kn_inv_cwd [OF assms] .
  have nz: "cwd_or_root k \<noteq> NULL"
    using cwd_at_node [OF kn_inv_vfs [OF assms] cwd] by blast
  have g: "vfs_get_cwd_path (vfs_nodes k) (vfs_root_node k) (cwd_or_root k) 128 = Some (cwd_text ps)"
    using get_cwd_path_spec [OF vfs_inv_tree [OF kn_inv_vfs [OF assms]]] cwd by (simp add: cwd_at_def VFS_PATH_MAX_def)
  show ?thesis
  proof (cases "deref path = CHR ''/''")
    case True
    then show ?thesis using length_str_copy [of 128 "[]" path]
      by (intro that [of "Some (str_copy [] path 128)"]) (auto simp: make_abs_path_def)
  next
    case False
    then show ?thesis using g nz path_join_length [of 128 "cwd_text ps" path]
      by (intro that [of "vfs_path_join 128 (cwd_text ps) path"]) (force simp: make_abs_path_def)+
  qed
qed

text \<open>The absolute path is a C string that fits its buffer.\<close>

lemma copy_bounded_text:
  "copy_bounded xs n out = (out', rest) \<Longrightarrow> \<exists>ys. out' = out @ ys \<and> NUL \<notin> set ys \<and> xs = ys @ rest"
proof (induction xs n out rule: copy_bounded.induct)
  case (2 c xs n out)
  show ?case
  proof (cases "c \<noteq> NUL \<and> length out + 1 < n")
    case True
    then obtain ys where "out' = (out @ [c]) @ ys" "NUL \<notin> set ys" "xs = ys @ rest" using 2 by auto
    then show ?thesis using True by (intro exI [of _ "c # ys"]) auto
  qed (use 2 in auto)
qed simp

lemma path_join_text:
  assumes "vfs_path_join n base rel = Some out" and "1 < n" and "deref base = CHR ''/''"
  shows "NUL \<notin> set out \<and> deref out = CHR ''/''"
proof -
  obtain o1 r1 where 1: "copy_bounded base n [] = (o1, r1)" by fastforce
  define o2 where "o2 = (if o1 \<noteq> [] \<and> last o1 \<noteq> CHR ''/'' then o1 @ ''/'' else o1)"
  obtain o3 r3 where 3: "copy_bounded rel n o2 = (o3, r3)" by fastforce
  obtain b where b: "base = CHR ''/'' # b" using assms(3) by (cases base) auto
  obtain ys where "copy_bounded b n ''/'' = (o1, r1)" "o1 = ''/'' @ ys" "NUL \<notin> set ys"
    using 1 assms(2) b copy_bounded_text [of b n "''/''" o1 r1] by auto
  moreover obtain zs where "o3 = o2 @ zs" "NUL \<notin> set zs" using copy_bounded_text [OF 3] by blast
  moreover have "out = o3" using assms(1) 1 3 by (auto simp: vfs_path_join_def o2_def Let_def split: if_splits)
  ultimately show ?thesis by (auto simp: o2_def)
qed

lemma cwd_text_slash: "deref (cwd_text ps) = CHR ''/''"
proof -
  have "\<exists>t. cwd_out qs n (CHR ''/'' # s) = CHR ''/'' # t" for qs n s
    by (induction qs n "CHR ''/'' # s" arbitrary: s rule: cwd_out.induct) (auto simp: Let_def)
  then obtain t where "cwd_out (rev (take 16 (rev ps))) 127 ''/'' = CHR ''/'' # t" by blast
  then show ?thesis by (simp add: cwd_text_def)
qed

lemma abs_path_text:
  assumes inv: "kn_inv k" and m: "make_abs_path k (cwd_or_root k) p 128 = Some (Some f)"
  shows "str_copy [] f 128 = f" "deref f = CHR ''/''" "path_ok (Some f)"
proof -
  have f: "NUL \<notin> set f \<and> length f < 128 \<and> deref f = CHR ''/''"
  proof (cases "deref p = CHR ''/''")
    case True
    then obtain q where p: "p = CHR ''/'' # q" by (cases p) auto
    have "f = str_copy [] p 128" using m True by (simp add: make_abs_path_def)
    then show ?thesis
      using length_str_copy [of 128 "[]" p] NUL_notin_str_copy [of "[]" p 128] p by (simp add: str_copy_eq)
  next
    case False
    obtain ps where cwd: "cwd_at k (cwd_or_root k) ps" using kn_inv_cwd [OF inv] .
    have nz: "cwd_or_root k \<noteq> NULL" using cwd_at_node [OF kn_inv_vfs [OF inv] cwd] by blast
    have "vfs_get_cwd_path (vfs_nodes k) (vfs_root_node k) (cwd_or_root k) 128 = Some (cwd_text ps)"
      using get_cwd_path_spec [OF vfs_inv_tree [OF kn_inv_vfs [OF inv]]] cwd by (simp add: cwd_at_def VFS_PATH_MAX_def)
    then have "vfs_path_join 128 (cwd_text ps) p = Some f" using m False nz by (simp add: make_abs_path_def)
    then show ?thesis using path_join_text [OF _ _ cwd_text_slash] path_join_length by force
  qed
  then show "str_copy [] f 128 = f" "deref f = CHR ''/''" "path_ok (Some f)" by (simp_all add: str_copy_eq)
qed

text \<open>The calls of \<^verbatim>\<open>vfs.c\<close> from a system call.\<close>

lemma touch_step:
  assumes inv: "kn_inv k" and p: "path_ok path"
  shows "\<exists>ok k'. vfs_touch (cwd_or_root k) path k = Some (ok, k') \<and> kn_inv k' \<and> user_step k k'"
proof -
  obtain ps where cwd: "cwd_at k (cwd_or_root k) ps" using kn_inv_cwd [OF inv] .
  obtain ok k' where t: "vfs_touch (cwd_or_root k) path k = Some (ok, k')" "vfs_ext k k'"
    using touch_facts [OF kn_inv_vfs [OF inv] cwd p] by metis
  then show ?thesis using fs_call_step [OF inv t(2) touch_frame [OF kn_inv_heap [OF inv] t(1)]] by blast
qed

lemma read_file_returns:
  assumes inv: "vfs_inv s" and cwd: "cwd_at s cwd ps" and cd: "cd_returns fs"
  shows "vfs_read_file fs cwd path s \<noteq> None"
proof (cases "on_cdrom ps path")
  case True
  then show ?thesis using check_path_spec [OF inv cwd, of path] cd_returns_read [OF cd]
    by (auto simp: vfs_read_file_def on_cdrom_def split: option.splits)
next
  case False
  then show ?thesis using read_file_spec [OF inv cwd False, of fs] by auto
qed

lemma read_file_step:
  assumes inv: "kn_inv k" and cd: "cd_returns (kn_fs k)"
  shows "\<exists>r k'. vfs_read_file (kn_fs k) (cwd_or_root k) path k = Some (r, k') \<and> kn_inv k' \<and> user_step k k' \<and> vfs_abs k' = vfs_abs k \<and>
    fd_table k' = fd_table k \<and> (\<forall>d sz. r = Some (d, sz) \<longrightarrow> unat d + unat sz \<le> unat (h_current (heap k')))"
proof -
  obtain ps where cwd: "cwd_at k (cwd_or_root k) ps" using kn_inv_cwd [OF inv] .
  obtain r k' where r: "vfs_read_file (kn_fs k) (cwd_or_root k) path k = Some (r, k')"
    using read_file_returns [OF kn_inv_vfs [OF inv] cwd cd, of path] by auto
  have q: "quiet k k'" by (rule read_file_quiet [OF kn_inv_vfs [OF inv] cwd r])
  have f: "vfs_frame k k'" by (rule read_file_frame [OF kn_inv_heap [OF inv] r])
  have "fd_table k' = fd_table k" using f by (auto simp: vfs_frame_def intro: same_more(7))
  then show ?thesis
    using r q fs_call_step [OF inv _ f] read_file_bound [OF kn_inv_vfs [OF inv]] by (auto simp: quiet_def)
qed

text \<open>Opening, up to the choice of a descriptor.\<close>

lemma open_body:
  assumes inv: "kn_inv k" and cd: "cd_returns (kn_fs k)" and kp: "path \<noteq> NULL" "copy_user_cstr k path 128 = Some kpath"
    and f: "make_abs_path k (cwd_or_root k) kpath 128 = Some (Some f)" "path_ok (Some f)"
  obtains k1 k2 r ok where "kn_inv k1" "user_step k k1" "kn_inv k2" "user_step k k2"
    "\<forall>d sz. r = Some (d, sz) \<longrightarrow> unat d + unat sz \<le> unat (h_current (heap k2))"
    "ksys_open path flags k =
        (if \<not> ok then Some (ERR_INVAL, k1)
         else (case r of
             None \<Rightarrow> Some (ERR_INVAL, k2)
           | Some (data, sz) \<Rightarrow> (case fd_alloc_slot (fd_table k2) of
                 None \<Rightarrow> Some (ERR_NFILE, k2)
               | Some slot \<Rightarrow> open_slot slot (current_pid k2) flags f data sz k2)))"
proof -
  obtain ok k1 where t: "(if flags AND O_CREAT \<noteq> 0 then vfs_touch (cwd_or_root k) (Some f) k else Some (True, k)) = Some (ok, k1)"
    "kn_inv k1" "user_step k k1"
    using touch_step [OF inv f(2)] inv by (cases "flags AND O_CREAT \<noteq> 0") auto
  have cd1: "cd_returns (kn_fs k1)" using cd t(3) by (simp add: user_step_def)
  obtain r k2 where r: "vfs_read_file (kn_fs k1) (cwd_or_root k1) (Some f) k1 = Some (r, k2)" "kn_inv k2" "user_step k1 k2"
    "\<forall>d sz. r = Some (d, sz) \<longrightarrow> unat d + unat sz \<le> unat (h_current (heap k2))"
    using read_file_step [OF t(2) cd1] by blast
  show ?thesis
    by (rule that [OF t(2,3) r(2) user_step_trans [OF t(3) r(3)], of r ok])
      (use r(4) kp f t(1) r(1) in \<open>simp_all add: ksys_open_def\<close>)
qed

lemma open_safe:
  assumes inv: "kn_inv k" and cd: "cd_returns (kn_fs k)"
  shows "safe_call False k (ksys_open path flags k)"
proof (cases "path = NULL \<or> copy_user_cstr k path 128 = None")
  case True
  then show ?thesis using inv by (auto simp: ksys_open_def)
next
  case False
  then obtain kpath where kp: "path \<noteq> NULL" "copy_user_cstr k path 128 = Some kpath" by auto
  obtain full where fp: "make_abs_path k (cwd_or_root k) kpath 128 = Some full" "path_ok full" using abs_path_returns [OF inv] .
  show ?thesis
  proof (cases full)
    case None
    then show ?thesis using inv kp fp by (simp add: ksys_open_def)
  next
    case (Some f)
    obtain ok k1 r k2 where o: "kn_inv k1" "user_step k k1" "kn_inv k2" "user_step k k2"
      "\<forall>d sz. r = Some (d, sz) \<longrightarrow> unat d + unat sz \<le> unat (h_current (heap k2))"
      and body: "ksys_open path flags k =
        (if \<not> ok then Some (ERR_INVAL, k1)
         else (case r of
             None \<Rightarrow> Some (ERR_INVAL, k2)
           | Some (data, sz) \<Rightarrow> (case fd_alloc_slot (fd_table k2) of
                 None \<Rightarrow> Some (ERR_NFILE, k2)
               | Some slot \<Rightarrow> open_slot slot (current_pid k2) flags f data sz k2)))"
      using open_body [OF inv cd kp fp [unfolded Some], where flags = flags] .
    have "safe_call False k2 (open_slot slot (current_pid k2) flags f d sz k2)"
      if "r = Some (d, sz)" "fd_alloc_slot (fd_table k2) = Some slot" for d sz slot
      using open_slot_step [OF o(3) that(2) o(5) [rule_format, OF that(1)], of flags f] by (auto simp: safe_call_def)
    then show ?thesis
      unfolding body using o by (auto simp: safe_call_trans [OF o(4)] intro: safe_callI split: option.split)
  qed
qed

text \<open>A successful call that opens for writing and truncates leaves an empty buffer.\<close>

lemma open_truncated:
  assumes inv: "kn_inv k" and cd: "cd_returns (kn_fs k)" and r: "ksys_open path flags k = Some (fd, k')" "0 \<le> fd"
    and fl: "wants_write flags" "flags AND O_TRUNC \<noteq> 0"
  obtains slot kpath f e where "fd = int slot" "3 \<le> slot" "slot < FD_MAX" "copy_user_cstr k path 128 = Some kpath"
    "make_abs_path k (cwd_or_root k) kpath 128 = Some (Some f)" "kn_inv k'" "user_step k k'" "fd_table k' ! slot = e"
    "fd_used e" "fd_pid e = current_pid k" "fd_writable e" "fd_dirty e" "fd_path e = str_copy [] f 128"
    "buffered (mem k') e = []" "fd_offset e = 0"
proof -
  obtain kpath where kp: "path \<noteq> NULL" "copy_user_cstr k path 128 = Some kpath"
    using r by (auto simp: ksys_open_def err_defs split: if_splits option.splits)
  obtain full where fp: "make_abs_path k (cwd_or_root k) kpath 128 = Some full" "path_ok full" using abs_path_returns [OF inv] .
  obtain f where Some: "full = Some f" using r kp fp by (cases full) (simp_all add: ksys_open_def err_defs)
  obtain ok k1 rr k2 where "kn_inv k1" "user_step k k1" and o: "kn_inv k2" "user_step k k2" "\<forall>d sz. rr = Some (d, sz) \<longrightarrow> unat d + unat sz \<le> unat (h_current (heap k2))"
    and body: "ksys_open path flags k =
      (if \<not> ok then Some (ERR_INVAL, k1)
       else (case rr of
           None \<Rightarrow> Some (ERR_INVAL, k2)
         | Some (data, sz) \<Rightarrow> (case fd_alloc_slot (fd_table k2) of
               None \<Rightarrow> Some (ERR_NFILE, k2)
             | Some slot \<Rightarrow> open_slot slot (current_pid k2) flags f data sz k2)))"
    using open_body [OF inv cd kp fp [unfolded Some], where flags = flags] .
  obtain d sz slot where x: "rr = Some (d, sz)" "fd_alloc_slot (fd_table k2) = Some slot"
    "open_slot slot (current_pid k2) flags f d sz k2 = Some (fd, k')"
    using r unfolding body by (auto simp: err_defs split: if_splits option.splits)
  have len: "length (fd_table k2) = FD_MAX" using o(1) by (simp add: kn_inv_def files_inv_def fds_ok_def)
  obtain e where e: "fd = int slot" "kn_inv k'" "user_step k2 k'" "fd_table k' = (fd_table k2)[slot := e]" "fd_used e"
    "fd_pid e = current_pid k2" "fd_path e = str_copy [] f 128" "fd_writable e" "buffered (mem k') e = []"
    "unat (fd_offset e) = 0" "fd_dirty e"
    using open_slot_step [OF o(1) x(2) o(3) [rule_format, OF x(1)], of flags f] x(3) r(2) fl by (auto simp: err_defs opened_def)
  note s = fd_alloc_slot_D [OF x(2) len]
  show ?thesis
    using e s len kp fp Some same_pid [OF o(2)] user_step_trans [OF o(2) e(3)]
    by (intro that [of slot kpath f e]) (simp_all add: word_unat_eq_iff)
qed

lemma close_safe:
  assumes inv: "kn_inv k"
  shows "safe_call False k (ksys_close fd k)"
proof (cases "fd_lookup (fd_table k) fd (current_pid k)")
  case (Some slot)
  note l = fd_lookup_SomeD [OF Some]
  let ?e = "fd_table k ! slot"
  have ok: "fd_ok (heap k) ?e" using inv l by (simp add: kn_inv_def files_inv_def fds_ok_def)
  have reset: "safe_call False k1 (Some (r, fd_reset_slot slot k1))"
    if "kn_inv k1" "fd_table k1 = fd_table k" "ring3_current_pid k1 = ring3_current_pid k" for k1 r
    using put_fd_step [OF that(1) l(1), of empty_fd] l that(2,3) by (auto simp: fd_reset_slot_def empty_fd_def intro: safe_callI)
  show ?thesis
  proof (cases "fd_writable ?e \<and> fd_dirty ?e")
    case False
    then show ?thesis using Some reset [OF inv] by (auto simp: ksys_close_def Let_def)
  next
    case True
    obtain ps where cwd: "cwd_at k (cwd_or_root k) ps" using kn_inv_cwd [OF inv] .
    have "path_ok (Some (fd_path ?e))" using ok by (simp add: fd_ok_def)
    then obtain ok1 k1 where w: "vfs_write_file (cwd_or_root k) (Some (fd_path ?e)) (fd_write_buf ?e) (fd_write_size ?e) k = Some (ok1, k1)"
      "vfs_ext k k1"
      using write_file_spec [OF kn_inv_vfs [OF inv] cwd, of "Some (fd_path ?e)"] by blast
    note f = write_file_frame [OF kn_inv_heap [OF inv] w(1)]
    note s = fs_call_step [OF inv w(2) f]
    have same: "fd_table k1 = fd_table k" "ring3_current_pid k1 = ring3_current_pid k"
      using f by (auto simp: vfs_frame_def intro: same_more)
    have "fd_write_buf ?e \<noteq> NULL" using ok True by (simp add: fd_ok_def)
    then have "ksys_close fd k = Some (if \<not> ok1 then (ERR_INVAL, k1) else (0, fd_reset_slot slot k1))"
      using Some True w(1) by (simp add: ksys_close_def Let_def)
    then show ?thesis
      using s safe_call_trans [OF s(2) _ reset [OF s(1) same]] by (cases ok1) (auto intro: safe_callI)
  qed
qed (use inv in \<open>simp add: ksys_close_def\<close>)

section \<open>Directories and status\<close>

lemma mkdir_safe:
  assumes inv: "kn_inv k"
  shows "safe_call False k (ksys_mkdir path k)"
proof (cases "path = NULL \<or> copy_user_cstr k path 128 = None")
  case True
  then show ?thesis using inv by (auto simp: ksys_mkdir_def)
next
  case False
  then obtain kpath where kp: "path \<noteq> NULL" "copy_user_cstr k path 128 = Some kpath" by auto
  obtain ps where cwd: "cwd_at k (cwd_or_root k) ps" using kn_inv_cwd [OF inv] .
  have "path_ok (Some kpath)" using copy_user_cstr_length [OF kp(2)] by simp
  then obtain ok k1 where m: "vfs_make_dir (cwd_or_root k) (Some kpath) k = Some (ok, k1)" "vfs_ext k k1"
    using make_dir_ext [OF kn_inv_vfs [OF inv] cwd] by blast
  note s = fs_call_step [OF inv m(2) make_dir_frame [OF kn_inv_heap [OF inv] m(1)]]
  then show ?thesis using kp m(1) by (auto simp: ksys_mkdir_def intro: safe_callI)
qed

lemma cwd_out_length: "length (cwd_out ps n out) \<le> length out + n"
proof (induction ps n out rule: cwd_out.induct)
  case (2 p ps n out)
  show ?case
  proof (cases "unat (str_len p) + 1 > n \<or> ps = []")
    case False
    then have "length (cwd_out ps (n - unat (str_len p) - 1) (out @ take (unat (str_len p)) p @ ''/'')) \<le>
        length (out @ take (unat (str_len p)) p @ ''/'') + (n - unat (str_len p) - 1)"
      using 2 by simp
    also have "\<dots> \<le> length out + n" using False by (auto simp: min_def)
    finally show ?thesis using False by (simp add: Let_def)
  qed (auto simp: Let_def)
qed simp

lemma cwd_text_length: "length (cwd_text ps) \<le> 128"
  using cwd_out_length [of "rev (take 16 (rev ps))" 127 "''/''"] by (simp add: cwd_text_def)

lemma getcwd_safe:
  assumes inv: "kn_inv k" and act: "ring3_active k \<noteq> 0"
  shows "safe_call True k (ksys_getcwd p len k)"
proof (cases "p = NULL \<or> len = 0 \<or> \<not> validate_user_ptr k p len")
  case True
  then show ?thesis using inv by (auto simp: ksys_getcwd_def)
next
  case False
  obtain ps where cwd: "cwd_at k (cwd_or_root k) ps" using kn_inv_cwd [OF inv] .
  let ?t = "cwd_text ps"
  have g: "vfs_get_cwd_path (vfs_nodes k) (vfs_root_node k) (cwd_or_root k) 128 = Some ?t"
    using get_cwd_path_spec [OF vfs_inv_tree [OF kn_inv_vfs [OF inv]]] cwd by (simp add: cwd_at_def VFS_PATH_MAX_def)
  show ?thesis
  proof (cases "str_len ?t + 1 > len")
    case True
    then show ?thesis using False g inv by (simp add: ksys_getcwd_def Let_def)
  next
    case small: False
    have "length (map byte_of (take (unat (str_len ?t)) ?t) @ [0 :: u8]) \<le> unat len"
    proof -
      have "length ?t < 2 ^ 32" using cwd_text_length [of ps] by simp
      then have "unat (str_len ?t) \<le> 128" using unat_str_len [of ?t] length_cstr_le [of ?t] cwd_text_length [of ps] by simp
      then have "unat (str_len ?t + 1) = unat (str_len ?t) + 1" by (simp add: unat_add_exact)
      then show ?thesis using small by (simp add: word_less_nat_alt)
    qed
    then show ?thesis
      using False g small safe_user_write [OF inv act, of p len] by (simp add: ksys_getcwd_def Let_def)
  qed
qed

text \<open>What listing a directory of the CD-ROM needs.\<close>

definition cd_lists :: "fs_state \<Rightarrow> bool" where
  "cd_lists fs \<longleftrightarrow> cd_returns fs \<and> (\<forall>p. fs_list_dir_from_mount fs (Some CDROM_MOUNT) (Some p) \<noteq> None)"

lemma list_returns:
  assumes inv: "vfs_inv s" and cwd: "cwd_at s cwd ps" and cd: "cd_lists fs"
  shows "vfs_list fs cwd path s \<noteq> None"
proof -
  have lm: "list_mounted fs sp \<noteq> None" for sp
    using cd by (auto simp: cd_lists_def list_mounted_def split: bind_splits)
  have bin: "fs_path_is_dir_from_mount fs (Some CDROM_MOUNT) (Some ''/bin'') \<noteq> None" using cd by (simp add: cd_lists_def cd_returns_def)
  have check: "(if path = None \<or> deref (the path) = NUL
      then map_option Some (vfs_get_cwd_path (vfs_nodes s) (vfs_root_node s) cwd VFS_PATH_MAX) else vfs_check_path s cwd path) \<noteq> None"
    using get_cwd_path_spec [OF vfs_inv_tree [OF inv], of ps cwd] cwd check_path_spec [OF inv cwd, of path] by (simp add: cwd_at_def)
  have node: "\<exists>a. vfs_resolve_from (vfs_nodes s) (vfs_root_node s) cwd path = Some a \<and>
      (a = NULL \<or> (\<exists>n es. vfs_nodes s a = Some n \<and> list_loop (vfs_nodes s) (vn_first_child n) = Some es \<and>
         vfs_dir_has_child_named (vfs_nodes s) a ''bin'' \<noteq> None))"
  proof (cases "vfs_path s ps path")
    case None
    then show ?thesis using resolve_spec(1) [OF inv cwd None] by blast
  next
    case (Some qs)
    obtain a n where a: "vfs_resolve_from (vfs_nodes s) (vfs_root_node s) cwd path = Some a" "cwd_at s a qs" "a \<noteq> NULL" "vfs_nodes s a = Some n"
      using resolve_spec(2) [OF inv cwd Some] by blast
    have "vfs_dir_has_child_named (vfs_nodes s) a ''bin'' \<noteq> None"
      using vfs_find_child_returns [OF vfs_inv_tree [OF inv], of a "''bin''"] a(4) by (simp add: vfs_dir_has_child_named_def)
    then show ?thesis using a list_spec [OF inv a(2,4)] by blast
  qed
  obtain ck where ck: "(if path = None \<or> deref (the path) = NUL
      then map_option Some (vfs_get_cwd_path (vfs_nodes s) (vfs_root_node s) cwd VFS_PATH_MAX) else vfs_check_path s cwd path) = Some ck"
    using check by blast
  obtain a where a: "vfs_resolve_from (vfs_nodes s) (vfs_root_node s) cwd path = Some a"
    "a = NULL \<or> (\<exists>n es. vfs_nodes s a = Some n \<and> list_loop (vfs_nodes s) (vn_first_child n) = Some es \<and>
       vfs_dir_has_child_named (vfs_nodes s) a ''bin'' \<noteq> None)" using node by blast
  obtain b where b: "fs_path_is_dir_from_mount fs (Some CDROM_MOUNT) (Some ''/bin'') = Some b" using bin by blast
  show ?thesis
  proof (cases "case vfs_is_cdrom_mount_path ck of Some sp \<Rightarrow> Some sp | None \<Rightarrow> vfs_is_bin_alias_path ck")
    case (Some sp)
    then show ?thesis using lm [of sp] unfolding vfs_list_def ck by simp
  next
    case None
    then show ?thesis using a b unfolding vfs_list_def ck by auto
  qed
qed

lemma list_safe:
  assumes inv: "kn_inv k" and cd: "cd_lists (kn_fs k)"
  shows "safe_call True k (ksys_list path k)"
proof -
  obtain ps where cwd: "cwd_at k (cwd_or_root k) ps" using kn_inv_cwd [OF inv] .
  have l: "safe_call True k (do { out \<leftarrow> vfs_list (kn_fs k) (cwd_or_root k) p k; Some (0, emit CONSOLE_VGA out k) })" for p
    using list_returns [OF kn_inv_vfs [OF inv] cwd cd, of p] safe_emit [OF inv] by auto
  show ?thesis using l inv by (auto simp: ksys_list_def split: option.split)
qed

lemma stat_safe:
  assumes inv: "kn_inv k" and act: "ring3_active k \<noteq> 0" and cd: "cd_returns (kn_fs k)"
  shows "safe_call True k (ksys_stat path st k)"
proof (cases "path = NULL \<or> st = NULL \<or> \<not> validate_user_ptr k st 8 \<or> copy_user_cstr k path 128 = None")
  case True
  then show ?thesis using inv by (auto simp: ksys_stat_def)
next
  case False
  then obtain kpath where kp: "path \<noteq> NULL" "st \<noteq> NULL" "validate_user_ptr k st 8" "copy_user_cstr k path 128 = Some kpath" by auto
  obtain ps where cwd: "cwd_at k (cwd_or_root k) ps" using kn_inv_cwd [OF inv] .
  obtain r k1 where r: "vfs_stat (kn_fs k) (cwd_or_root k) (Some kpath) k = Some (r, k1)"
    using stat_returns [OF kn_inv_vfs [OF inv] cwd cd, of "Some kpath"] by auto
  have q: "vfs_ext k k1" "vfs_abs k1 = vfs_abs k" using stat_quiet [OF kn_inv_vfs [OF inv] cwd r] by (simp_all add: quiet_def)
  have f: "vfs_frame k k1" by (rule stat_frame [OF kn_inv_heap [OF inv] r])
  note s = fs_call_step [OF inv q(1) f]
  have more: "vfs_state.more k1 = vfs_state.more k" using f by (simp add: vfs_frame_def)
  have v1: "validate_user_ptr k1 st 8" "ring3_active k1 \<noteq> 0"
    using kp(3) act validate_cong [of k1 k] same_more [OF more] by simp_all
  show ?thesis
  proof (rule safe_call_trans [OF s(2)])
    show "safe_call True k1 (ksys_stat path st k)"
      using kp r s(1) safe_user_write [OF s(1) v1(2,1)]
      by (cases r) (simp_all add: ksys_stat_def stat_bytes_def)
  qed (rule q(2))
qed

lemma fstat_safe:
  assumes inv: "kn_inv k" and act: "ring3_active k \<noteq> 0"
  shows "safe_call True k (Some (ksys_fstat fd st k))"
proof (cases "st = NULL \<or> \<not> validate_user_ptr k st 8")
  case True
  then show ?thesis using inv by (auto simp: ksys_fstat_def)
next
  case False
  have w: "safe_call True k (Some (r, k\<lparr>mem := mem_write st (stat_bytes x) (mem k)\<rparr>))" for r x
    using False by (intro safe_user_write [OF inv act, of st 8]) (simp_all add: stat_bytes_def)
  show ?thesis using False w inv by (auto simp: ksys_fstat_def Let_def split: option.split)
qed

lemma meminfo_safe:
  assumes inv: "kn_inv k" and act: "ring3_active k \<noteq> 0"
  shows "safe_call True k (Some (ksys_meminfo p k))"
proof (cases "p = NULL \<or> \<not> validate_user_ptr k p 36")
  case True
  then show ?thesis using inv by (auto simp: ksys_meminfo_def)
next
  case False
  have "length (mem_info_bytes (meminfo_of k)) \<le> unat (36 :: u32)" by (simp add: mem_info_bytes_def)
  then show ?thesis using False safe_user_write [OF inv act, of p 36] by (simp add: ksys_meminfo_def)
qed

section \<open>Messages and services\<close>

lemma services_safe:
  assumes inv: "kn_inv k" and "service_inv ss"
  shows "safe_call q k (Some (r, k\<lparr>kn_services := ss\<rparr>))"
proof -
  have "tables_inv (k\<lparr>kn_services := ss\<rparr>)" using assms by (simp add: kn_inv_def tables_inv_def)
  note st = tables_step [OF inv this]
  show ?thesis by (rule safe_callI) (rule st, simp_all)+
qed

lemma service_calls_safe:
  assumes inv: "kn_inv k"
  shows "safe_call True k (Some (ksys_service_register p k))" and "safe_call True k (Some (ksys_service_lookup p k))"
proof -
  have si: "service_inv (kn_services k)" using inv by (simp add: kn_inv_def tables_inv_def)
  show "safe_call True k (Some (ksys_service_register p k))"
    using inv services_safe [OF inv service_register_ok(1) [OF si]]
    by (auto simp: ksys_service_register_def case_prod_beta Let_def split: option.split)
  show "safe_call True k (Some (ksys_service_lookup p k))"
    using inv services_safe [OF inv service_lookup_ok(1) [OF si]]
    by (auto simp: ksys_service_lookup_def case_prod_beta Let_def split: option.split)
qed

text \<open>Writing to the memory of a stopped process touches its saved image or its stack.\<close>

lemma task_memory_frame:
  assumes inv: "elf_inv e" and img: "\<And>img. proc_get_image pt pid = Some img \<Longrightarrow> im_loaded img \<Longrightarrow> image_ok (user_stacks_at e) D img"
    and st: "unat (user_stacks_at e) + stacks_size < 2 ^ 32" and len: "length bs < 2 ^ 32"
    and r: "elf_write_to_task_memory pt pid dst bs m e = (ok, m', e')"
  shows "elf_inv e'" and "user_stacks_at e' = user_stacks_at e" and "m' x \<noteq> m x \<Longrightarrow> in_block (user_stacks_at e) stacks_size x"
proof -
  have goals: "elf_inv e' \<and> user_stacks_at e' = user_stacks_at e \<and> (\<forall>x. m' x \<noteq> m x \<longrightarrow> in_block (user_stacks_at e) stacks_size x)"
  proof (cases "(ok, m', e') = (False, m, e)")
    case False
    then obtain im sl e1 where i: "proc_get_image pt pid = Some im" "im_loaded im" "0 \<le> pid" "elf_slot_for_pid pt pid e = (sl, e1)"
      using r by (auto simp: elf_write_to_task_memory_def Let_def split: option.splits if_splits prod.splits)
    note so = elf_slot_for_pid_ok(1,3) [OF inv i(3,4)]
    have ib: "image_ok (user_stacks_at e) D im" by (rule img [OF i(1,2)])
    have blk: "in_block (user_stacks_at e) stacks_size x"
      if h: "dst \<ge> im_stack_base im" "dst + of_nat (length bs) \<ge> dst" "dst + of_nat (length bs) \<le> im_stack_base im + im_stack_size im"
        and x: "in_block dst (length bs) x" for x
    proof -
      have u: "unat (of_nat (length bs) :: u32) = length bs" using len by (rule unat_of_nat_exact)
      have "unat (dst + of_nat (length bs)) = unat dst + length bs"
        using h(2) u by (metis add_no_wrap_iff unat_add_exact)
      moreover have "unat (im_stack_base im + im_stack_size im) = unat (im_stack_base im) + unat (im_stack_size im)"
        using ib st by (intro unat_add_exact) (simp add: image_ok_def)
      ultimately have d: "unat (im_stack_base im) \<le> unat dst" "unat dst + length bs \<le> unat (im_stack_base im) + unat (im_stack_size im)"
        using h by (simp_all add: word_le_nat_alt)
      then have "unat dst + length bs \<le> 2 ^ 32" using ib st by (simp add: image_ok_def)
      then have "unat dst \<le> unat x" "unat x < unat dst + length bs" using x by (simp_all add: in_block_iff)
      then show ?thesis using d ib st by (simp add: image_ok_def in_block_iff)
    qed
    have st: "elf_inv (store_image j off bs e1) = elf_inv e1" "user_stacks_at (store_image j off bs e1) = user_stacks_at e1" for j off
      by (simp_all add: elf_inv_def store_image_def)
    show ?thesis
      using r i so blk False mem_write_other [of dst bs _ m]
      by (auto simp: elf_write_to_task_memory_def Let_def st split: option.splits if_splits)
  qed (use inv in auto)
  then show "elf_inv e'" "user_stacks_at e' = user_stacks_at e" "m' x \<noteq> m x \<Longrightarrow> in_block (user_stacks_at e) stacks_size x" by blast+
qed

text \<open>What the message operations need of the kernel, and keep.\<close>

definition core_ok :: "u32 set \<Rightarrow> kcore \<Rightarrow> bool" where
  "core_ok D c \<longleftrightarrow> sched_inv (k_sched c) \<and> elf_inv (k_elf c) \<and> ipc_inv (k_ipc c) \<and> images_ok (user_stacks_at (k_elf c)) D (k_procs c) \<and>
     unat (user_stacks_at (k_elf c)) + stacks_size < 2 ^ 32"

definition core_step :: "u32 set \<Rightarrow> kcore \<Rightarrow> kcore \<Rightarrow> bool" where
  "core_step D c c' \<longleftrightarrow> core_ok D c' \<and> heap c' = heap c \<and> map tk_pid (tasks (k_sched c')) = map tk_pid (tasks (k_sched c)) \<and> user_stacks_at (k_elf c') = user_stacks_at (k_elf c) \<and>
     (\<forall>x. mem c' x \<noteq> mem c x \<longrightarrow> in_block (user_stacks_at (k_elf c)) stacks_size x)"

lemma core_step_refl [simp]: "core_ok D c \<Longrightarrow> core_step D c c"
  by (simp add: core_step_def)

lemma images_ok_put:
  assumes "images_ok st D pt" and "proc_map pt' = (proc_map pt)(pid \<mapsto> (p, img))" and "im_loaded img \<longrightarrow> image_ok st D img"
  shows "images_ok st D pt'"
  using assms by (auto simp: images_ok_def split: if_splits)

lemma deliver_frame:
  assumes ok: "core_ok D c" and r: "ipc_unblock_deliver pid (Some ms) c = (res, c')"
  shows "core_step D c c'"
proof -
  have inv: "sched_inv (k_sched c)" "elf_inv (k_elf c)" "ipc_inv (k_ipc c)" "images_ok (user_stacks_at (k_elf c)) D (k_procs c)"
    "unat (user_stacks_at (k_elf c)) + stacks_size < 2 ^ 32" using ok by (simp_all add: core_ok_def)
  note pinv = sched_inv_procs [OF inv(1)]
  show ?thesis
  proof (cases "pid < 0 \<or> ipc_find_waiter (k_ipc c) pid = None")
    case True
    then have "c' = c" using r by (cases "pid < 0") (simp_all add: ipc_unblock_deliver_def)
    then show ?thesis using ok by simp
  next
    case False
    then obtain slot where sl: "\<not> pid < 0" "ipc_find_waiter (k_ipc c) pid = Some slot" by auto
    have clear: "ipc_inv (clear_waiter slot (k_ipc c))" by (rule clear_waiter_ok(1) [OF inv(3) sl(2)])
    obtain ok1 m e where w: "elf_write_to_task_memory (k_procs c) pid (wt_user_msg_ptr (waiters (k_ipc c) ! slot)) (message_bytes ms) (mem c) (k_elf c) = (ok1, m, e)"
      by (cases "elf_write_to_task_memory (k_procs c) pid (wt_user_msg_ptr (waiters (k_ipc c) ! slot)) (message_bytes ms) (mem c) (k_elf c)")
    have img: "image_ok (user_stacks_at (k_elf c)) D img" if "proc_get_image (k_procs c) pid = Some img" "im_loaded img" for img
      using that inv(4) by (auto simp: images_ok_def proc_get_image_map [OF pinv])
    have "length (message_bytes ms) < 2 ^ 32" by simp
    note f = task_memory_frame [OF inv(2) img inv(5) this w]
    let ?c1 = "c\<lparr>mem := m, k_elf := e\<rparr>"
    have s1: "core_step D c ?c1" using inv f by (simp add: core_step_def core_ok_def)
    show ?thesis
    proof (cases "proc_state_of (k_procs c) pid = PROC_UNUSED")
      case True
      then have "c' = c\<lparr>k_ipc := clear_waiter slot (k_ipc c)\<rparr>" using r sl by (simp add: ipc_unblock_deliver_def)
      then show ?thesis using inv clear by (simp add: core_step_def core_ok_def)
    next
      case live: False
      show ?thesis
      proof (cases "\<exists>im. proc_get_image (k_procs c) pid = Some im \<and> im_loaded im \<and> im_context_valid im \<and> ok1")
        case False
        then have "c' = ?c1" using r sl live w by (auto simp: ipc_unblock_deliver_def Let_def split: option.splits if_splits)
        then show ?thesis using s1 by simp
      next
        case True
        then obtain im where im: "proc_get_image (k_procs c) pid = Some im" "im_loaded im" "im_context_valid im" "ok1" by blast
        then obtain p where p: "proc_map (k_procs c) pid = Some (p, im)" by (auto simp: proc_get_image_map [OF pinv])
        let ?im = "im\<lparr>im_context := (im_context im)\<lparr>uc_eax := 0\<rparr>\<rparr>"
        note wk = wake_ok [OF inv(1) p, of ?im]
        have c': "c' = ?c1\<lparr>k_sched := wake pid ?im (k_sched c), k_ipc := clear_waiter slot (k_ipc c)\<rparr>"
          using r sl live w im by (auto simp: ipc_unblock_deliver_def Let_def wake_def)
        have "image_ok (user_stacks_at (k_elf c)) D ?im" using img [OF im(1,2)] by (simp add: image_ok_def)
        then have "images_ok (user_stacks_at (k_elf c)) D (sc_procs (wake pid ?im (k_sched c)))"
          using images_ok_put [OF inv(4) wk(2)] by blast
        then show ?thesis using c' wk(1) clear f inv(5) by (simp add: core_step_def core_ok_def)
      qed
    qed
  qed
qed

lemma send_frame:
  assumes ok: "core_ok D c" and r: "ipc_send src dst (Some ms) c = (res, c')"
  shows "core_step D c c'"
proof (cases "dst < 0 \<or> proc_state_of (k_procs c) dst = PROC_UNUSED")
  case True
  then show ?thesis using r ok by (simp add: ipc_send_def split: if_splits)
next
  case False
  let ?d = "ms\<lparr>ms_src_pid := src, ms_dst_pid := dst\<rparr>"
  obtain ok1 c1 where d: "ipc_unblock_deliver dst (Some ?d) c = (ok1, c1)" by fastforce
  obtain ok2 s where po: "ipc_post dst ?d (k_ipc c1) = (ok2, s)" by fastforce
  note s1 = deliver_frame [OF ok d]
  have "ipc_inv s" using s1 by (intro ipc_post_ok(1) [OF _ po]) (simp add: core_step_def core_ok_def)
  then show ?thesis using r False d po s1 by (auto simp: ipc_send_def core_step_def core_ok_def split: if_splits)
qed

lemma core_call_safe:
  assumes inv: "kn_inv k" and st: "core_step (kn_dirs k) (core_of k) c"
  shows "safe_call True k (Some (r, with_core c k))"
proof -
  let ?k1 = "k\<lparr>mem := mem c\<rparr>"
  have c: "heap c = heap k" "user_stacks_at (k_elf c) = user_stacks_at (kn_elf k)" "core_ok (kn_dirs k) c"
    "\<And>x. mem c x \<noteq> mem k x \<Longrightarrow> in_block (user_stacks_at (kn_elf k)) stacks_size x"
    "map tk_pid (tasks (k_sched c)) = kn_pids k"
    using st by (simp_all add: core_step_def core_of_def)
  have own: "own_bytes k x" if "mem c x \<noteq> mem k x" for x
    using c(4) [OF that] by (simp add: own_bytes_def user_space_def)
  note w = own_write_step [OF inv own]
  have i1: "kn_inv ?k1" using inv by simp
  have "tables_inv (with_core c k)" using inv c by (simp add: kn_inv_def tables_inv_def with_core_def core_ok_def)
  note tables_step [OF i1 this]
  then have t: "kn_inv (with_core c k)" "user_step ?k1 (with_core c k)" "vfs_abs (with_core c k) = vfs_abs ?k1"
    by (simp_all add: with_core_def c)
  show ?thesis using t(1) user_step_trans [OF w(1) t(2)] t(3) w(2) by (intro safe_callI) simp_all
qed

lemma core_of_ok:
  assumes "kn_inv k" shows "core_ok (kn_dirs k) (core_of k)"
  using assms unat_u32_bound [of "h_start (heap k)"] by (simp add: kn_inv_def tables_inv_def core_ok_def core_of_def)

lemma send_safe:
  assumes inv: "kn_inv k"
  shows "safe_call True k (Some (ksys_ipc_send p k))" and "safe_call True k (Some (ksys_ipc_reply p k))"
proof -
  have s: "safe_call True k (Some (r, snd (in_core (ipc_send src dst (Some ms)) k)))" for src dst ms r
  proof -
    obtain ok c where e: "ipc_send src dst (Some ms) (core_of k) = (ok, c)" by fastforce
    show ?thesis using core_call_safe [OF inv send_frame [OF core_of_ok [OF inv] e]] by (simp add: in_core_def e)
  qed
  show "safe_call True k (Some (ksys_ipc_send p k))" using inv s by (auto simp: ksys_ipc_send_def Let_def case_prod_beta)
  have "(ipc_reply src dst msg :: kcore \<Rightarrow> bool \<times> kcore) = ipc_send src dst msg" for src dst :: int and msg :: "ipc_message option"
    by (rule ext) (simp add: ipc_reply_def)
  then show "safe_call True k (Some (ksys_ipc_reply p k))" using inv s by (auto simp: ksys_ipc_reply_def Let_def case_prod_beta)
qed

lemma ipc_table_step:
  assumes inv: "kn_inv k" and "ipc_inv s"
  shows "kn_inv (k\<lparr>kn_ipc := s\<rparr>)" "user_step k (k\<lparr>kn_ipc := s\<rparr>)" "vfs_abs (k\<lparr>kn_ipc := s\<rparr>) = vfs_abs k"
proof -
  have "tables_inv (k\<lparr>kn_ipc := s\<rparr>)" using assms by (simp add: kn_inv_def tables_inv_def)
  note t = tables_step [OF inv this]
  show "kn_inv (k\<lparr>kn_ipc := s\<rparr>)" "user_step k (k\<lparr>kn_ipc := s\<rparr>)" "vfs_abs (k\<lparr>kn_ipc := s\<rparr>) = vfs_abs k" by (rule t, simp_all)+
qed

lemma recv_safe:
  assumes inv: "kn_inv k" and act: "ring3_active k \<noteq> 0"
  shows "safe_call True k (Some (ksys_ipc_recv p k))"
proof (cases "p = NULL \<or> \<not> validate_user_ptr k p 28")
  case True
  then show ?thesis using inv by (auto simp: ksys_ipc_recv_def)
next
  case False
  have ii: "ipc_inv (kn_ipc k)" using inv by (simp add: kn_inv_def tables_inv_def)
  obtain r s where r: "ipc_recv (current_pid k) (kn_ipc k) = (r, s)" by fastforce
  have si: "ipc_inv s" by (rule ipc_recv_ok(1) [OF ii r])
  show ?thesis
  proof (cases r)
    case None
    obtain ok s' where b: "ipc_block_recv (kn_procs k) (current_pid k) p s = (ok, s')" by fastforce
    note t = ipc_table_step [OF inv ipc_block_recv_ok(1) [OF si b]]
    show ?thesis using False r None b t by (auto simp: ksys_ipc_recv_def intro: safe_callI)
  next
    case (Some ms)
    note t = ipc_table_step [OF inv si]
    have v: "validate_user_ptr (k\<lparr>kn_ipc := s\<rparr>) p 28" using False validate_cong [of "k\<lparr>kn_ipc := s\<rparr>" k] by simp
    have w: "safe_call True (k\<lparr>kn_ipc := s\<rparr>) (Some (0, k\<lparr>kn_ipc := s\<rparr>\<lparr>mem := mem_write p (message_bytes ms) (mem k)\<rparr>))"
      using safe_user_write [OF t(1) _ v, of "message_bytes ms"] act by simp
    have "ksys_ipc_recv p k = (0, k\<lparr>kn_ipc := s\<rparr>\<lparr>mem := mem_write p (message_bytes ms) (mem k)\<rparr>)"
      using False r Some by (simp add: ksys_ipc_recv_def)
    then show ?thesis using safe_call_trans [OF t(2) t(3) w] by simp
  qed
qed

section \<open>Leaving, and reading from the keyboard\<close>

lemma exit_safe:
  assumes inv: "kn_inv k"
  shows "safe_call True k (Some (0, ksys_exit code k))"
proof -
  let ?pid = "task_current_pid (kn_sched k)"
  let ?k1 = "if ?pid > 0 then k\<lparr>kn_sched := upd_procs (\<lambda>pt. snd (proc_exit ?pid code pt)) (kn_sched k)\<rparr> else k"
  have ti: "sched_inv (kn_sched k)" "images_ok (user_stacks_at (kn_elf k)) (kn_dirs k) (kn_procs k)"
    using inv by (simp_all add: kn_inv_def tables_inv_def)
  have "sched_inv (upd_procs (\<lambda>pt. snd (proc_exit ?pid code pt)) (kn_sched k))"
    by (rule sched_inv_proc_step [OF ti(1) proc_step.exit])
  moreover have "images_ok (user_stacks_at (kn_elf k)) (kn_dirs k) (snd (proc_exit ?pid code (kn_procs k)))"
    using ti(2) proc_exit_ok [OF sched_inv_procs [OF ti(1)], of ?pid code]
    by (fastforce simp: images_ok_def split: option.splits if_splits)
  ultimately have "tables_inv ?k1" using inv by (simp add: kn_inv_def tables_inv_def)
  note tables_step [OF inv this]
  then have t: "kn_inv ?k1" "user_step k ?k1" "vfs_abs ?k1 = vfs_abs k" by simp_all
  show ?thesis
    using safe_call_trans [OF t(2) t(3) safe_emit [OF t(1)]] by (simp add: ksys_exit_def Let_def)
qed

lemma irq_step:
  assumes inv: "kn_inv k"
  shows "kn_inv (k\<lparr>kn_irq := i\<rparr>)" "user_step k (k\<lparr>kn_irq := i\<rparr>)" "vfs_abs (k\<lparr>kn_irq := i\<rparr>) = vfs_abs k"
proof -
  have "tables_inv (k\<lparr>kn_irq := i\<rparr>)" using assms by (simp add: kn_inv_def tables_inv_def)
  note t = tables_step [OF inv this]
  show "kn_inv (k\<lparr>kn_irq := i\<rparr>)" "user_step k (k\<lparr>kn_irq := i\<rparr>)" "vfs_abs (k\<lparr>kn_irq := i\<rparr>) = vfs_abs k" using t by simp_all
qed

lemma stdin_safe:
  assumes "kn_inv k" and "\<And>x. in_block p len x \<Longrightarrow> user_space k x" and "unat i + n \<le> len" and "len < 2 ^ 32"
    and "read_stdin n p i k = Some (r, k')"
  shows "safe_call True k (Some (r, k'))"
  using assms
proof (induction n arbitrary: i k)
  case (Suc n)
  obtain c irq where c: "keyboard_read_char_blocking (kn_irq k) = Some (c, irq)"
    using Suc.prems(5) by (auto split: option.splits)
  let ?k1 = "k\<lparr>kn_irq := irq\<rparr>" and ?m = "(mem k)(p + i := byte_of c)"
  note s1 = irq_step [OF Suc.prems(1), of irq]
  have "in_block p len (p + i)" using Suc.prems(3) by (simp add: in_block_def)
  then have us: "user_space ?k1 (p + i)" using Suc.prems(2) by (simp add: user_space_def)
  then have own: "own_bytes ?k1 x" if "?m x \<noteq> mem ?k1 x" for x using that by (auto simp: own_bytes_def split: if_splits)
  note w = own_write_step [OF s1(1), of ?m, OF own]
  have k2: "k\<lparr>kn_irq := irq, mem := ?m\<rparr> = ?k1\<lparr>mem := ?m\<rparr>" by simp
  have step: "user_step k (?k1\<lparr>mem := ?m\<rparr>)" "vfs_abs (?k1\<lparr>mem := ?m\<rparr>) = vfs_abs k" "kn_inv (?k1\<lparr>mem := ?m\<rparr>)"
    using user_step_trans [OF s1(2) w(1)] w(2) s1(1,3) by simp_all
  show ?case
  proof (cases "c = CHR 0x0A")
    case True
    then show ?thesis using Suc.prems(5) c step k2 by (auto simp: Let_def intro: safe_callI)
  next
    case False
    have "unat (i + 1) = unat i + 1" using Suc.prems(3,4) by (subst unat_add_exact) simp_all
    moreover have "read_stdin n p (i + 1) (?k1\<lparr>mem := ?m\<rparr>) = Some (r, k')" using Suc.prems(5) c False k2 by (simp add: Let_def)
    ultimately have "safe_call True (?k1\<lparr>mem := ?m\<rparr>) (Some (r, k'))"
      using Suc.prems(2,3,4) step(3) by (intro Suc.IH) (simp_all add: user_space_def)
    then show ?thesis using safe_call_trans [OF step(1,2)] by blast
  qed
qed simp

end
