(* ===== verification/SyscallProps.thy ===== *)
theory SyscallProps
  imports SyscallOps
begin

text \<open>
  The properties of \<^verbatim>\<open>kernel/syscall.c\<close>: what a system call can do to the kernel and to other
  processes, and what becomes of the bytes a process writes to a file.
\<close>

section \<open>A running example\<close>

text \<open>
  One process with a 256-byte image and a stack, in a kernel with an empty file tree.  Its memory
  holds the path \<^verbatim>\<open>/a\<close>.
\<close>

definition demo_user_image :: proc_image where
  "demo_user_image = empty_image\<lparr>im_loaded := True, im_entry := 0x300000, im_image_base := 0x300000,
     im_image_size := 256, im_stack_base := 0x1F0000, im_stack_size := 4096, im_context_valid := True\<rparr>"

definition demo_user_sched :: sched_state where
  "demo_user_sched = upd_procs (\<lambda>pt. snd (proc_bind_image 1 (Some demo_user_image) pt)) demo_sched"

definition demo_kernel :: kernel where
  "demo_kernel = (vfs_state.extend demo_vfs (kernel.fields demo_user_sched (demo_elf_state\<lparr>user_stacks_at := 0x1F0000\<rparr>) ipc_init
     service_init demo_fs0 \<lparr>idt = [], tick_count = 0, keyboard_queue = [], keyboard_head = 0, keyboard_tail = 0, shift_down = False,
       code_selector = 8, pic1_mask = 0, pic2_mask = 0, pic_writes = [], kbd_polls = []\<rparr>
     (replicate FD_MAX empty_fd) NULL None 0 1 1 0 0 0x10000 None None []))
     \<lparr>mem := mem_write 0x300000 (map byte_of ''/a'' @ [0]) (mem demo_vfs)\<rparr>"

lemma demo_user_sched_inv: "sched_inv demo_user_sched"
  unfolding demo_user_sched_def by (rule sched_inv_proc_step [OF sched_reachable_inv [OF demo_sched_reachable] proc_step.bind])

lemma demo_images_ok: "images_ok 0x1F0000 D (sc_procs demo_user_sched)"
  unfolding images_ok_def
proof (intro allI impI, elim conjE)
  fix pid p img
  note pinv = sched_inv_procs [OF sched_reachable_inv [OF demo_sched_reachable]]
  assume m: "proc_map (sc_procs demo_user_sched) pid = Some (p, img)" and l: "im_loaded img"
  have "next_pid (sc_procs demo_user_sched) = 2" by code_simp
  then have "pid = 0 \<or> pid = 1" using proc_map_SomeD [OF sched_inv_procs [OF demo_user_sched_inv] m] by auto
  moreover have "map_option im_loaded (proc_get_image (sc_procs demo_sched) 0) = Some False" by code_simp
  ultimately have "img = demo_user_image"
    using m l proc_bind_image_ok(3) [OF pinv, of 1 demo_user_image]
    by (auto simp: demo_user_sched_def proc_get_image_map [OF pinv] split: option.splits if_splits)
  then show "image_ok 0x1F0000 D img" by (simp add: image_ok_def demo_user_image_def empty_image_def stacks_size_def ELF_PROC_SLOTS_def ELF_STACK_SIZE_def)
qed

lemma demo_vfs_tree:
  "h_start (heap demo_vfs) = 0x200000" "heap_inv (heap demo_vfs)" "vfs_nodes demo_vfs a = Some n \<Longrightarrow> vn_size n = 0 \<or> 0x200000 \<le> vn_data n"
proof -
  obtain r s where s: "vfs_alloc_node [] VFS_NODE_DIR NULL demo_vfs0 = Some (r, s)" using root_node_spec [OF demo_vfs0_fresh] by blast
  then have d: "demo_vfs = s\<lparr>vfs_root_node := r\<rparr>" by (simp add: demo_vfs_def)
  have "vfs_frame demo_vfs0 s" using alloc_node_frame [OF _ s] demo_vfs0_fresh(1) by (simp add: vfs_fresh_def)
  then show "h_start (heap demo_vfs) = 0x200000" "heap_inv (heap demo_vfs)"
    "vfs_nodes demo_vfs a = Some n \<Longrightarrow> vn_size n = 0 \<or> 0x200000 \<le> vn_data n"
    by (auto simp: d vfs_frame_def same_arena_def data_from_def demo_vfs0_def demo_heap_def)
qed

lemma demo_kernel_inv: "kn_inv demo_kernel"
proof -
  define k where "k = (vfs_state.extend demo_vfs (kernel.fields demo_user_sched (demo_elf_state\<lparr>user_stacks_at := 0x1F0000\<rparr>) ipc_init
     service_init demo_fs0 \<lparr>idt = [], tick_count = 0, keyboard_queue = [], keyboard_head = 0, keyboard_tail = 0, shift_down = False,
       code_selector = 8, pic1_mask = 0, pic2_mask = 0, pic_writes = [], kbd_polls = []\<rparr>
     (replicate FD_MAX empty_fd) NULL None 0 1 1 0 0 0x10000 None None []))"
  have tree: "heap k = heap demo_vfs" "mem k = mem demo_vfs" "vfs_nodes k = vfs_nodes demo_vfs" "vfs_root_node k = vfs_root_node demo_vfs"
    by (simp_all add: k_def vfs_state.defs)
  have t: "tables_inv k"
    using demo_user_sched_inv demo_images_ok ipc_init_inv service_init_inv demo_vfs_tree(1)
    by (simp add: tables_inv_def k_def vfs_state.defs kernel.defs elf_inv_def demo_elf_state_def stacks_size_def
        ELF_PROC_SLOTS_def ELF_STACK_SIZE_def)
  have fd: "fd_table k = replicate FD_MAX empty_fd" by (simp add: k_def vfs_state.defs kernel.defs)
  have f: "files_inv k"
    using demo_vfs_tree(3) by (auto simp: files_inv_def fd fds_ok_def data_ok_def empty_fd_def tree demo_vfs_tree(1))
  have "cwd_or_root k = vfs_root demo_vfs"
    by (simp add: cwd_or_root_def k_def vfs_state.defs kernel.defs vfs_root_def)
  moreover have "vfs_abs k = vfs_abs demo_vfs" by (rule ext) (simp add: vfs_abs_def tree)
  ultimately have "run_inv (cwd_or_root k, k)"
    using demo_vfs_inv by (auto simp: run_inv_def vfs_inv_def cwd_at_def tree)
  then have "kn_inv k" using t f by (simp add: kn_inv_def)
  then show ?thesis by (simp add: demo_kernel_def flip: k_def del: mem_write.simps)
qed

lemma demo_kernel_runs: "ring3_active demo_kernel \<noteq> 0" "kn_fs demo_kernel = demo_fs0"
  by (simp_all add: demo_kernel_def vfs_state.defs kernel.defs)

lemma demo_fs0_lists: "cd_lists demo_fs0"
proof -
  have "find_mount demo_fs0 (Some CDROM_MOUNT) = None" by code_simp
  then show ?thesis using demo_fs0_cd by (simp add: cd_lists_def fs_list_dir_from_mount_def)
qed

section \<open>Any system call\<close>

lemma stdin_call_safe:
  assumes inv: "kn_inv k" and act: "ring3_active k \<noteq> 0" and r: "ksys_read 0 p len k = Some (r, k')"
  shows "safe_call True k (Some (r, k'))"
proof (cases "p = NULL \<or> \<not> validate_user_ptr k p (if len = 0 then 1 else len)")
  case True
  then show ?thesis using r inv by (auto simp: ksys_read_def split: if_splits)
next
  case False
  then have run: "read_stdin (unat len) p 0 k = Some (r, k')" using r by (simp add: ksys_read_def)
  have "user_space k x" if "in_block p (unat len) x" for x
  proof -
    have "len \<noteq> 0" using that by auto
    then show ?thesis using user_ptr_confined(1) [OF inv act, of p len x] that False by simp
  qed
  then show ?thesis using stdin_safe [OF inv _ _ unat_u32_bound [of len] run] by simp
qed

lemma run_syscall_safe:
  assumes inv: "kn_inv k" and act: "ring3_active k \<noteq> 0" and cd: "cd_lists (kn_fs k)"
  shows "n = SYS_READ \<longrightarrow> sint a1 \<noteq> 0 \<Longrightarrow> safe_call (n \<notin> {SYS_OPEN, SYS_CLOSE, SYS_MKDIR}) k (run_syscall n a1 a2 a3 k)"
proof -
  have cr: "cd_returns (kn_fs k)" using cd by (simp add: cd_lists_def)
  assume "n = SYS_READ \<longrightarrow> sint a1 \<noteq> 0"
  then show ?thesis
    using inv read_safe [OF inv act] write_safe [OF inv act] open_safe [OF inv cr] close_safe [OF inv] mkdir_safe [OF inv]
      getcwd_safe [OF inv act] exit_safe [OF inv] list_safe [OF inv cd] safe_emit [OF inv] meminfo_safe [OF inv act]
      send_safe [OF inv] recv_safe [OF inv act] service_calls_safe [OF inv] stat_safe [OF inv act cr] fstat_safe [OF inv act]
    by (cases n) (simp_all add: ksys_systeminfo_def ksys_ps_def)
qed

lemma syscall_entry_step:
  assumes "kn_inv k" and "ring3_active k \<noteq> 0" and "cd_lists (kn_fs k)" and r: "syscall_entry num a1 a2 a3 k = Some (r, k')"
  shows "safe_call (num \<notin> {2, 3, 83}) k (Some (r, k'))"
proof (cases "map_of syscall_numbers num")
  case None
  then show ?thesis using assms(1) r by (simp add: syscall_entry_def)
next
  case (Some n)
  then have n: "(n = SYS_READ \<longleftrightarrow> num = 0) \<and> (n \<in> {SYS_OPEN, SYS_CLOSE, SYS_MKDIR} \<longleftrightarrow> num \<in> {2, 3, 83})"
    by (auto simp: syscall_numbers_def split: if_splits)
  show ?thesis
  proof (cases "n = SYS_READ \<and> sint a1 = 0")
    case True
    then show ?thesis using stdin_call_safe [OF assms(1,2)] r Some n by (simp add: syscall_entry_def)
  next
    case False
    moreover have "(n \<notin> {SYS_OPEN, SYS_CLOSE, SYS_MKDIR}) = (num \<notin> {2, 3, 83})" using n by blast
    ultimately show ?thesis using run_syscall_safe [OF assms(1-3), of n a1 a2 a3] r Some by (simp only: syscall_entry_def) auto
  qed
qed

lemma syscall_entry_returns:
  assumes "kn_inv k" and "ring3_active k \<noteq> 0" and "cd_lists (kn_fs k)" and "num \<noteq> 0 \<or> a1 \<noteq> 0"
  shows "syscall_entry num a1 a2 a3 k \<noteq> None"
proof (cases "map_of syscall_numbers num")
  case (Some n)
  then have "n = SYS_READ \<longrightarrow> num = 0" by (auto simp: syscall_numbers_def split: if_splits)
  then show ?thesis
    using run_syscall_safe [OF assms(1-3), of n a1 a2 a3] assms(4) Some signed_eq_0_iff [of a1]
    by (auto simp: syscall_entry_def safe_call_def)
qed (simp add: syscall_entry_def)

text \<open>
  C3: no system call breaks the kernel.  From a state that satisfies the invariant, a process in
  user mode may make any system call with any arguments: the call returns (a read from the
  keyboard, if a line is typed), the invariant holds again, no byte of the kernel is changed
  outside the heap and the memory of user programs, and the open files of other processes and
  the bytes buffered for them are untouched.  Only \<^verbatim>\<open>open\<close>, \<^verbatim>\<open>close\<close> and \<^verbatim>\<open>mkdir\<close> change the file
  tree.
\<close>

theorem syscall_safe:
  assumes "kn_inv k" and "ring3_active k \<noteq> 0" and "cd_lists (kn_fs k)"
  shows "(num = 0 \<and> a1 = 0 \<or> syscall_entry num a1 a2 a3 k \<noteq> None) \<and>
    (\<forall>r k'. syscall_entry num a1 a2 a3 k = Some (r, k') \<longrightarrow>
       kn_inv k' \<and>
       (\<forall>x. mem k' x \<noteq> mem k x \<longrightarrow> user_space k x \<or> h_start (heap k) \<le> x \<and> x < h_limit (heap k)) \<and>
       (\<forall>i < FD_MAX. fd_used (fd_table k ! i) \<and> fd_pid (fd_table k ! i) \<noteq> current_pid k \<longrightarrow>
          fd_table k' ! i = fd_table k ! i \<and> buffered (mem k') (fd_table k ! i) = buffered (mem k) (fd_table k ! i)) \<and>
       (num \<notin> {2, 3, 83} \<longrightarrow> vfs_abs k' = vfs_abs k))"
  using syscall_entry_returns [OF assms, of num a1 a2 a3] syscall_entry_step [OF assms, of num a1 a2 a3]
  by (fastforce simp: safe_call_def user_step_def)

theorem syscall_safe_witness:
  "\<exists>r k'. syscall_entry 2 0x300000 0x241 0 demo_kernel = Some (r, k') \<and> kn_inv k'"
proof -
  note demo_kernel_runs
  moreover note demo_fs0_lists
  ultimately show ?thesis using syscall_safe [OF demo_kernel_inv, of 2 "0x300000" "0x241" 0] by auto
qed

section \<open>Writing a file\<close>

text \<open>
  What can happen between the moment process \<open>pid\<close> has opened a file for writing and the moment
  it closes it: it writes to the file, any other process makes system calls, programs change
  user memory, and the running process changes.  The list is what \<open>pid\<close> has written.
\<close>

inductive session :: "int \<Rightarrow> int \<Rightarrow> u8 list \<Rightarrow> 'a kernel_scheme \<Rightarrow> 'a kernel_scheme \<Rightarrow> bool" for pid fd where
  start: "session pid fd [] k k"
| own_write: "session pid fd bs k k1 \<Longrightarrow> current_pid k1 = pid \<Longrightarrow> ksys_write fd p len k1 = Some (r, k2) \<Longrightarrow> 0 \<le> r \<Longrightarrow>
    session pid fd (bs @ mem_read (mem k1) p (nat r)) k k2"
| other_call: "session pid fd bs k k1 \<Longrightarrow> current_pid k1 \<noteq> pid \<Longrightarrow> syscall_entry num a1 a2 a3 k1 = Some (r, k2) \<Longrightarrow>
    session pid fd bs k k2"
| user_code: "session pid fd bs k k1 \<Longrightarrow> (\<And>x. m x \<noteq> mem k1 x \<Longrightarrow> user_space k1 x) \<Longrightarrow> session pid fd bs k (k1\<lparr>mem := m\<rparr>)"
| switch: "session pid fd bs k k1 \<Longrightarrow> session pid fd bs k (k1\<lparr>ring3_current_pid := q\<rparr>)"

definition session_inv :: "int \<Rightarrow> nat \<Rightarrow> string \<Rightarrow> u8 list \<Rightarrow> 'a kernel_scheme \<Rightarrow> bool" where
  "session_inv pid slot path bs k \<longleftrightarrow> kn_inv k \<and> ring3_active k \<noteq> 0 \<and> cd_lists (kn_fs k) \<and>
     (let e = fd_table k ! slot in fd_used e \<and> fd_pid e = pid \<and> fd_writable e \<and> fd_dirty e \<and> fd_path e = path \<and>
        buffered (mem k) e = bs \<and> unat (fd_offset e) = length bs)"

lemma splice_end: "splice (length bs) xs bs = bs @ xs"
  by (simp add: splice_def)

lemma fd_lookup_own:
  "3 \<le> slot \<Longrightarrow> slot < FD_MAX \<Longrightarrow> fd_used (fds ! slot) \<Longrightarrow> fd_pid (fds ! slot) = pid \<Longrightarrow> fd_lookup fds (int slot) pid = Some slot"
  by (simp add: fd_lookup_def)

lemma session_own_write:
  assumes si: "session_inv pid slot path bs k" and slot: "3 \<le> slot" "slot < FD_MAX" and cur: "current_pid k = pid"
    and w: "ksys_write (int slot) p len k = Some (r, k')" "0 \<le> r"
  shows "session_inv pid slot path (bs @ mem_read (mem k) p (nat r)) k'"
proof -
  let ?e = "fd_table k ! slot"
  have inv: "kn_inv k" "ring3_active k \<noteq> 0" "cd_lists (kn_fs k)" and e: "fd_used ?e" "fd_pid ?e = pid" "fd_writable ?e" "fd_path ?e = path"
    "buffered (mem k) ?e = bs" "unat (fd_offset ?e) = length bs"
    using si by (simp_all add: session_inv_def Let_def)
  have lk: "fd_lookup (fd_table k) (int slot) (current_pid k) = Some slot" using fd_lookup_own [OF slot] e cur by simp
  have v: "p \<noteq> NULL" "validate_user_ptr k p (if len = 0 then 1 else len)"
    using w by (auto simp: ksys_write_def err_defs split: if_splits)
  obtain e' where e': "r = sint len" "kn_inv k'" "user_step k k'" "fd_table k' = (fd_table k)[slot := e']" "fd_used e'" "fd_writable e'"
    "fd_pid e' = current_pid k" "fd_path e' = fd_path ?e" "fd_dirty e'" "unat (fd_offset e') = unat (fd_offset ?e) + unat len"
    "buffered (mem k') e' = splice (unat (fd_offset ?e)) (mem_read (mem k) p (unat len)) (buffered (mem k) ?e)"
    using write_step [OF inv(1,2) v(2,1) lk e(3)] w by (auto simp: err_defs)
  have "unat len < 2 ^ 31"
  proof (rule ccontr)
    assume big: "\<not> unat len < 2 ^ 31"
    then have "len \<noteq> 0" by auto
    then have "unat p + unat len \<le> unat (h_start (heap k)) \<or> unat p + unat len \<le> 0x320000"
      using user_ptr_confined(2) [OF inv(1,2) v(2)] by (auto split: if_splits)
    moreover have "unat (h_start (heap k)) \<le> 0x300000"
    proof -
      have "fd_ok (heap k) ?e" using inv(1) slot(2) e(1) by (simp add: kn_inv_def files_inv_def fds_ok_def)
      then have "in_arena (heap k) ?e" "0 < unat (fd_write_capacity ?e)" using e(3) by (simp_all add: fd_ok_def in_arena_def)
      then show ?thesis using arena_bound(2) [OF kn_inv_heap [OF inv(1)]] by blast
    qed
    ultimately show False using big by simp
  qed
  then have n: "nat r = unat len" using sint_small [of len] e'(1) by (simp add: nat_uint_eq)
  have "length (fd_table k) = FD_MAX" using inv(1) by (simp add: kn_inv_def files_inv_def fds_ok_def)
  then have "fd_table k' ! slot = e'" using e'(4) slot(2) by simp
  moreover have "ring3_active k' \<noteq> 0" "cd_lists (kn_fs k')" using e'(3) inv(2,3) by (simp_all add: user_step_def)
  ultimately show ?thesis using e' e cur n by (simp add: session_inv_def splice_end)
qed

lemma session_keeps:
  assumes "session pid (int slot) bs k k'" and "session_inv pid slot path [] k" and slot: "3 \<le> slot" "slot < FD_MAX"
  shows "session_inv pid slot path bs k'"
  using assms(1,2)
proof (induction rule: session.induct)
  case (own_write bs k k1 p len r k2)
  then show ?case using session_own_write [OF _ slot] by blast
next
  case (other_call bs k k1 num a1 a2 a3 r k2)
  then have si: "session_inv pid slot path bs k1" by simp
  then have inv: "kn_inv k1" "ring3_active k1 \<noteq> 0" "cd_lists (kn_fs k1)"
    "fd_used (fd_table k1 ! slot)" "fd_pid (fd_table k1 ! slot) \<noteq> current_pid k1"
    using other_call.hyps(2) by (auto simp: session_inv_def Let_def)
  have st: "safe_call (num \<notin> {2, 3, 83}) k1 (Some (r, k2))" using syscall_entry_step [OF inv(1-3) other_call.hyps(3)] .
  then have "fd_table k2 ! slot = fd_table k1 ! slot" "buffered (mem k2) (fd_table k1 ! slot) = buffered (mem k1) (fd_table k1 ! slot)"
    "kn_inv k2" "ring3_active k2 \<noteq> 0" "cd_lists (kn_fs k2)"
    using inv slot(2) by (simp_all add: safe_call_def user_step_def)
  then show ?case using si by (simp add: session_inv_def)
next
  case (user_code bs k k1 m)
  then have si: "session_inv pid slot path bs k1" by simp
  then have inv: "kn_inv k1" "fd_used (fd_table k1 ! slot)" by (auto simp: session_inv_def Let_def)
  have "buffered m (fd_table k1 ! slot) = buffered (mem k1) (fd_table k1 ! slot)"
  proof (rule buffered_below [of "heap k1"])
    show "fd_ok (heap k1) (fd_table k1 ! slot)" using inv slot(2) by (simp add: kn_inv_def files_inv_def fds_ok_def)
    fix x :: u32 assume "unat (h_start (heap k1)) \<le> unat x" "unat x < unat (h_current (heap k1))"
    moreover have "unat (h_current (heap k1)) \<le> unat (h_limit (heap k1))"
      using kn_inv_heap [OF inv(1)] by (simp add: heap_inv_def word_le_nat_alt)
    ultimately show "m x = mem k1 x" using user_space_outside [OF inv(1) user_code.hyps(2)] by fastforce
  qed
  then show ?case using si by (simp add: session_inv_def)
next
  case (switch bs k k1 q)
  then have si: "session_inv pid slot path bs k1" by simp
  then have inv: "kn_inv k1" by (simp add: session_inv_def)
  then have "tables_inv (k1\<lparr>ring3_current_pid := q\<rparr>)" "files_inv (k1\<lparr>ring3_current_pid := q\<rparr>)"
    by (simp_all add: kn_inv_def tables_inv_def files_inv_def)
  then have "kn_inv (k1\<lparr>ring3_current_pid := q\<rparr>)" by (intro kn_inv_tree [OF inv]) simp_all
  then show ?case using si by (simp add: session_inv_def)
qed simp

text \<open>
  C5: what a process writes to a file reaches the file.  A process opens a path for writing,
  creating and truncating it, writes to the descriptor as often as it likes, and closes it,
  while other processes run and make any system calls.  If the close succeeds, the file holds
  exactly the bytes the writes delivered, in their order, and nothing else in the tree is
  changed by the close.
\<close>

theorem write_session_reaches_file:
  assumes "kn_inv k" and "ring3_active k \<noteq> 0" and "cd_lists (kn_fs k)"
    and "flags AND O_ACCMODE = O_WRONLY \<or> flags AND O_ACCMODE = O_RDWR" and "flags AND O_TRUNC \<noteq> 0"
    and "ksys_open path flags k = Some (fd, k1)" and "0 \<le> fd"
    and "session (current_pid k) fd bs k1 k2" and "current_pid k2 = current_pid k" and "ksys_close fd k2 = Some (0, k3)"
    and "copy_user_cstr k path 128 = Some p" and "make_abs_path k (cwd_or_root k) p 128 = Some (Some f)" and "plain_path (Some f)"
  shows "\<exists>ps qs nm. cwd_at k2 (cwd_or_root k2) ps \<and> target k2 ps (Some f) = Some (qs, nm) \<and>
    vfs_abs k3 = (vfs_abs k2)(qs @ [nm] \<mapsto> Contents bs) \<and> kn_inv k3"
proof -
  have cr: "cd_returns (kn_fs k)" using assms(3) by (simp add: cd_lists_def)
  obtain slot kpath f' e where o: "fd = int slot" "3 \<le> slot" "slot < FD_MAX" "copy_user_cstr k path 128 = Some kpath"
    "make_abs_path k (cwd_or_root k) kpath 128 = Some (Some f')" "kn_inv k1" "user_step k k1" "fd_table k1 ! slot = e"
    "fd_used e" "fd_pid e = current_pid k" "fd_writable e" "fd_dirty e" "fd_path e = str_copy [] f' 128"
    "buffered (mem k1) e = []" "fd_offset e = 0"
    using open_truncated [OF assms(1) cr assms(6,7,4,5)] .
  have f: "f' = f" using o(4,5) assms(11,12) by simp
  have "session_inv (current_pid k) slot (str_copy [] f 128) [] k1"
    using o assms(2,3) f by (simp add: session_inv_def user_step_def)
  then have si: "session_inv (current_pid k) slot (str_copy [] f 128) bs k2"
    using session_keeps assms(8) o(1-3) by blast
  let ?e = "fd_table k2 ! slot"
  note t = abs_path_text [OF assms(1,12)]
  have inv2: "kn_inv k2" and e: "fd_used ?e" "fd_pid ?e = current_pid k" "fd_writable ?e" "fd_dirty ?e" "fd_path ?e = f" "buffered (mem k2) ?e = bs"
    using si t(1) by (simp_all add: session_inv_def Let_def)
  obtain ps where cwd: "cwd_at k2 (cwd_or_root k2) ps" using kn_inv_cwd [OF inv2] .
  have ok: "fd_ok (heap k2) ?e" using inv2 o(3) e(1) by (simp add: kn_inv_def files_inv_def fds_ok_def)
  have lk: "fd_lookup (fd_table k2) fd (current_pid k2) = Some slot" using fd_lookup_own [OF o(2,3)] e assms(9) o(1) by simp
  have nz: "fd_write_buf ?e \<noteq> NULL" using ok e(3) by (simp add: fd_ok_def)
  obtain ok1 k4 where w: "vfs_write_file (cwd_or_root k2) (Some f) (fd_write_buf ?e) (fd_write_size ?e) k2 = Some (ok1, k4)" and
    ws: "vfs_ext k2 k4 \<and> (on_cdrom ps (Some f) \<or> target k2 ps (Some f) = None \<longrightarrow> \<not> ok1 \<and> k4 = k2) \<and>
      (\<forall>qs nm. target k2 ps (Some f) = Some (qs, nm) \<and> plain_path (Some f) \<and> source_ok k2 (fd_write_buf ?e) (fd_write_size ?e) \<longrightarrow>
        (if ok1 then vfs_abs k4 = (vfs_abs k2)(qs @ [nm] \<mapsto> Contents (mem_read (mem k2) (fd_write_buf ?e) (unat (fd_write_size ?e))))
         else vfs_abs k4 = vfs_abs k2 \<or> vfs_abs k2 (qs @ [nm]) = None \<and> vfs_abs k4 = (vfs_abs k2)(qs @ [nm] \<mapsto> Contents [])))"
    using write_file_spec [OF kn_inv_vfs [OF inv2] cwd t(3), of "fd_write_buf ?e" "fd_write_size ?e"]
    by (elim exE) (frule conjunct1, drule conjunct2, rule that)
  have run: "ksys_close fd k2 = Some (if \<not> ok1 then (ERR_INVAL, k4) else (0, fd_reset_slot slot k4))"
    using lk e(3,4,5) nz w by (simp add: ksys_close_def Let_def)
  then have ok1 and k3: "k3 = fd_reset_slot slot k4" using assms(10) by (auto simp: err_defs split: if_splits)
  have "target k2 ps (Some f) \<noteq> None" using ws \<open>ok1\<close> by blast
  then obtain qs nm where tg: "target k2 ps (Some f) = Some (qs, nm)" by auto
  have src: "source_ok k2 (fd_write_buf ?e) (fd_write_size ?e)"
    unfolding source_ok_def
  proof (intro allI impI disjI1)
    fix x assume "in_block (fd_write_buf ?e) (unat (fd_write_size ?e)) x"
    then show "x < h_current (heap k2)"
      using ok e(3) unat_u32_bound [of "h_current (heap k2)"] by (auto simp: fd_ok_def in_block_iff word_less_nat_alt)
  qed
  have "vfs_abs k4 = (vfs_abs k2)(qs @ [nm] \<mapsto> Contents bs)"
    using ws tg src assms(13) \<open>ok1\<close> e(6) by (simp add: buffered_def)
  moreover have "vfs_abs k3 = vfs_abs k4" unfolding k3 by (rule tree_cong(1)) (simp_all add: fd_reset_slot_def put_fd_def)
  moreover have "kn_inv k3" using close_safe [OF inv2, of fd] assms(10) by (simp add: safe_call_def)
  ultimately show ?thesis using cwd tg by auto
qed

lemma demo_session_run:
  "Option.bind (ksys_open 0x300000 0x241 demo_kernel) (\<lambda>(fd, k1). Option.bind (ksys_write fd 0x300000 3 k1) (\<lambda>(r, k2).
     map_option (\<lambda>(c, k3). (fd, r, c, mem_read (mem k1) 0x300000 3, ring3_current_pid k2)) (ksys_close fd k2))) =
   Some (3, 3, 0, [47, 97, 0], 1)"
  by code_simp

theorem write_session_reaches_file_witness:
  "\<exists>k1 k2 k3 qs nm. ksys_open 0x300000 0x241 demo_kernel = Some (3, k1) \<and> ksys_write 3 0x300000 3 k1 = Some (3, k2) \<and>
     ksys_close 3 k2 = Some (0, k3) \<and> vfs_abs k3 (qs @ [nm]) = Some (Contents [47, 97, 0])"
proof -
  obtain k1 k2 k3 where r: "ksys_open 0x300000 0x241 demo_kernel = Some (3, k1)" "ksys_write 3 0x300000 3 k1 = Some (3, k2)"
    "ksys_close 3 k2 = Some (0, k3)" "mem_read (mem k1) 0x300000 3 = [47, 97, 0]" "ring3_current_pid k2 = 1"
    using demo_session_run by (auto simp: bind_eq_Some_conv)
  have cur: "ring3_current_pid demo_kernel = 1" by (simp add: demo_kernel_def vfs_state.defs kernel.defs)
  have "ring3_current_pid k1 = 1"
    using open_safe [OF demo_kernel_inv, of "0x300000" "0x241"] demo_fs0_cd demo_kernel_runs(2) r(1) cur
    by (simp add: safe_call_def user_step_def)
  then have "session 1 3 ([] @ mem_read (mem k1) 0x300000 (nat 3)) k1 k2"
    using r(2) by (intro session.own_write [OF session.start]) simp_all
  then have s: "session (current_pid demo_kernel) 3 [47, 97, 0] k1 k2" using r(4) cur by simp
  have path: "copy_user_cstr demo_kernel 0x300000 128 = Some ''/a'' \<and> make_abs_path demo_kernel (cwd_or_root demo_kernel) ''/a'' 128 = Some (Some ''/a'')"
    by code_simp
  have "comps ''/a'' = [''a'']" by code_simp
  then have "plain_path (Some ''/a'')" by (simp add: plain_path_def VFS_NAME_MAX_def)
  moreover have "(0x241 :: u32) AND O_ACCMODE = O_WRONLY" "(0x241 :: u32) AND O_TRUNC \<noteq> 0" by code_simp+
  ultimately obtain qs nm where "vfs_abs k3 = (vfs_abs k2)(qs @ [nm] \<mapsto> Contents [47, 97, 0])"
    using write_session_reaches_file [OF demo_kernel_inv demo_kernel_runs(1), of "0x241" "0x300000" 3 k1 "[47, 97, 0]" k2 k3 "''/a''" "''/a''"]
      demo_fs0_lists demo_kernel_runs(2) r s path cur by auto
  then have "vfs_abs k3 (qs @ [nm]) = Some (Contents [47, 97, 0])" by simp
  then show ?thesis using r(1-3) by blast
qed

end
