(* ===== verification/ExecInv.thy ===== *)
theory ExecInv
  imports Exec SyscallProps
begin

text \<open>
  Running a program keeps the invariant of the kernel, as long as the program itself writes only
  to user memory: the lemmas for interrupts, the trap, the way through user mode and the
  functions that start and park programs.
\<close>

section \<open>Images while states change\<close>

text \<open>Every process of \<open>pt'\<close> is one of \<open>pt\<close>, with the same image.\<close>

definition images_from :: "proc_table \<Rightarrow> proc_table \<Rightarrow> bool" where
  "images_from pt pt' \<longleftrightarrow> (\<forall>pid p img. proc_map pt' pid = Some (p, img) \<longrightarrow> (\<exists>p'. proc_map pt pid = Some (p', img)))"

lemma images_from_refl [simp]: "images_from pt pt"
  by (simp add: images_from_def)

lemma images_from_trans: "images_from pt pt1 \<Longrightarrow> images_from pt1 pt2 \<Longrightarrow> images_from pt pt2"
  by (meson images_from_def)

lemma images_from_ok: "images_from pt pt' \<Longrightarrow> images_ok st D pt \<Longrightarrow> images_ok st D pt'"
  unfolding images_from_def images_ok_def by blast

lemma set_state_images: "proc_inv t \<Longrightarrow> st \<noteq> PROC_UNUSED \<Longrightarrow> images_from t (proc_set_state pid st t)"
  by (auto simp: images_from_def proc_set_state_ok(2) split: option.splits if_splits)

lemma upd_state_images:
  assumes "sched_inv s" "st \<noteq> PROC_UNUSED"
  shows "images_from (sc_procs s) (sc_procs (upd_procs (proc_set_state pid st) s))"
  using set_state_images [OF sched_inv_procs [OF assms(1)] assms(2)] by simp

lemma upd_state_inv: "sched_inv s \<Longrightarrow> st \<noteq> PROC_UNUSED \<Longrightarrow> sched_inv (upd_procs (proc_set_state pid st) s)"
  by (rule sched_inv_proc_step [OF _ proc_step.set_state])

lemma demote_images: "proc_inv (sc_procs s) \<Longrightarrow> images_from (sc_procs s) (sc_procs (demote_current slot s))"
  using set_state_images by (auto simp: demote_current_def split: option.split)

lemma demote_procs_inv: "proc_inv (sc_procs s) \<Longrightarrow> proc_inv (sc_procs (demote_current slot s))"
  using proc_set_state_ok(1) by (auto simp: demote_current_def split: option.split)

lemma return_main_images:
  assumes inv: "proc_inv (sc_procs s)" shows "images_from (sc_procs s) (sc_procs (task_return_to_kernel_main s))"
proof -
  have "images_from (sc_procs s) (proc_set_state p PROC_RUNNING (sc_procs (demote_current slot s)))" for p slot
    by (rule images_from_trans [OF demote_images [OF inv] set_state_images [OF demote_procs_inv [OF inv]]]) simp
  then show ?thesis by (auto simp: task_return_to_kernel_main_def Let_def split: option.split)
qed

lemma reap_images:
  assumes inv: "proc_inv (sc_procs s)" shows "images_from (sc_procs s) (sc_procs (snd (task_reap_pid pid s)))"
proof -
  have "images_from (sc_procs s) (sc_procs (task_return_to_kernel_main ((put_task slot empty_task s)\<lparr>tasks_used := n\<rparr>)))" for slot n
    using return_main_images [of "(put_task slot empty_task s)\<lparr>tasks_used := n\<rparr>"] inv by simp
  then show ?thesis by (auto simp: task_reap_pid_def Let_def split: option.split)
qed

lemma task_state_images:
  assumes "sched_inv s" shows "images_from (sc_procs s) (sc_procs (task_set_state pid st s))"
proof -
  have "images_from (sc_procs s) (proc_set_state pid PROC_RUNNING (sc_procs (demote_current slot s)))" for slot
    by (rule images_from_trans [OF demote_images set_state_images [OF demote_procs_inv]]) (simp_all add: sched_inv_procs [OF assms])
  then show ?thesis by (auto simp: task_set_state_def Let_def split: option.split)
qed

lemma tick_images:
  assumes "sched_inv s" shows "images_from (sc_procs s) (sc_procs (scheduler_on_timer_tick s))"
proof -
  note pinv = sched_inv_procs [OF assms]
  have sw: "images_from (sc_procs s) (sc_procs (sched_switch a b t))" if "sc_procs t = sc_procs s" for a b t
  proof -
    have "images_from (sc_procs s) (proc_set_state p PROC_READY (sc_procs s))"
      "images_from (proc_set_state p PROC_READY (sc_procs s)) (proc_set_state q PROC_RUNNING (proc_set_state p PROC_READY (sc_procs s)))" for p q
      using set_state_images pinv proc_set_state_ok(1) [OF pinv] by auto
    then show ?thesis using images_from_trans that by (simp add: sched_switch_def Let_def) blast
  qed
  show ?thesis by (auto simp: scheduler_on_timer_tick_def Let_def sw split: option.split)
qed

section \<open>What running a program may change\<close>

text \<open>
  Like \<open>user_step\<close>, for the kernel code around user mode: the heap, user memory, and the open
  files of the processes in \<open>P\<close>.
\<close>

definition ran :: "int set \<Rightarrow> kernel \<Rightarrow> kernel \<Rightarrow> bool" where
  "ran P k k' \<longleftrightarrow> same_arena (heap k) (heap k') \<and> user_stacks_at (kn_elf k') = user_stacks_at (kn_elf k) \<and>
     kn_fs k' = kn_fs k \<and> kn_dirs k \<subseteq> kn_dirs k' \<and>
     (\<forall>x. mem k' x \<noteq> mem k x \<longrightarrow> user_space k x \<or> h_start (heap k) \<le> x \<and> x < h_limit (heap k)) \<and>
     (\<forall>i < FD_MAX. fd_used (fd_table k ! i) \<and> fd_pid (fd_table k ! i) \<notin> P \<longrightarrow>
        fd_table k' ! i = fd_table k ! i \<and> buffered (mem k') (fd_table k ! i) = buffered (mem k) (fd_table k ! i))"

lemma ran_refl [simp]: "kn_inv k \<Longrightarrow> ran P k k"
  by (simp add: ran_def kn_inv_heap)

lemma ran_mono: "ran P k k' \<Longrightarrow> P \<subseteq> Q \<Longrightarrow> ran Q k k'"
  by (auto simp: ran_def)

lemma ran_trans:
  assumes "ran P k k1" and "ran P k1 k2" shows "ran P k k2"
proof -
  have "user_space k x \<or> h_start (heap k) \<le> x \<and> x < h_limit (heap k)" if "mem k2 x \<noteq> mem k x" for x
  proof (cases "mem k1 x = mem k x")
    case True
    then show ?thesis using assms that by (auto simp: ran_def user_space_def same_arena_def)
  next
    case False
    then show ?thesis using assms(1) by (auto simp: ran_def)
  qed
  moreover have "fd_table k2 ! i = fd_table k ! i \<and> buffered (mem k2) (fd_table k ! i) = buffered (mem k) (fd_table k ! i)"
    if "i < FD_MAX" "fd_used (fd_table k ! i)" "fd_pid (fd_table k ! i) \<notin> P" for i
  proof -
    have "fd_table k1 ! i = fd_table k ! i" "buffered (mem k1) (fd_table k ! i) = buffered (mem k) (fd_table k ! i)"
      using assms(1) that by (simp_all add: ran_def)
    then show ?thesis using assms(2) that unfolding ran_def by metis
  qed
  ultimately show ?thesis using assms same_arena_trans [of "heap k" "heap k1"] by (auto simp: ran_def)
qed

lemma user_step_ran: "user_step k k' \<Longrightarrow> current_pid k \<in> P \<Longrightarrow> ran P k k'"
  unfolding user_step_def ran_def by metis

text \<open>Within one run no task comes or goes.\<close>

definition ran_in :: "int set \<Rightarrow> kernel \<Rightarrow> kernel \<Rightarrow> bool" where
  "ran_in P k k' \<longleftrightarrow> ran P k k' \<and> kn_pids k' = kn_pids k"

lemma ran_in_trans: "ran_in P k k1 \<Longrightarrow> ran_in P k1 k2 \<Longrightarrow> ran_in P k k2"
  using ran_trans by (auto simp: ran_in_def)

lemma user_step_in: "user_step k k' \<Longrightarrow> current_pid k \<in> P \<Longrightarrow> ran_in P k k'"
  using user_step_ran by (simp add: ran_in_def user_step_def)

lemma kn_inv_dirs:
  assumes "kn_inv k" shows "vfs_inv k" "cwd_or_root k \<in> kn_dirs k" "vfs_root_node k \<in> kn_dirs k"
proof -
  show d: "vfs_inv k" "cwd_or_root k \<in> kn_dirs k" using assms by (simp_all add: kn_inv_def run_inv_dirs)
  obtain ps where "cwd_at k (cwd_or_root k) ps" using kn_inv_cwd [OF assms] .
  then have "vfs_root_node k \<noteq> NULL" by (simp add: cwd_at_def)
  note root_directory [OF d(1) this]
  then have "run_inv (vfs_root_node k, k)" using d(1) by (auto simp: run_inv_def)
  then show "vfs_root_node k \<in> kn_dirs k" by (simp add: run_inv_dirs)
qed

text \<open>Changes of the tables by the kernel, which may also set the directory of the next program.\<close>

lemma kernel_step:
  assumes inv: "kn_inv k" and t: "tables_inv k'"
    and same: "heap k' = heap k" "mem k' = mem k" "vfs_nodes k' = vfs_nodes k" "vfs_root_node k' = vfs_root_node k"
      "fd_table k' = fd_table k" "user_stacks_at (kn_elf k') = user_stacks_at (kn_elf k)" "kn_fs k' = kn_fs k"
    and cwd: "user_cwd k' = user_cwd k \<or> user_cwd k' = NULL \<or> user_cwd k' \<in> kn_dirs k"
  shows "kn_inv k'" "ran P k k'" "vfs_abs k' = vfs_abs k"
proof -
  have f: "files_inv k'" using inv by (simp add: kn_inv_def files_inv_def same)
  have "cwd_or_root k' \<in> kn_dirs k"
    using cwd kn_inv_dirs(2,3) [OF inv] by (auto simp: cwd_or_root_def vfs_root_def same split: if_splits)
  then have "run_inv (cwd_or_root k', k)" using kn_inv_dirs(1) [OF inv] by (simp add: run_inv_dirs)
  then have "run_inv (cwd_or_root k', k')" using tree_cong(2) [OF same(1-4)] by blast
  then show "kn_inv k'" using t f by (simp add: kn_inv_def)
  show "ran P k k'" using kn_inv_heap [OF inv] by (simp add: ran_def same)
  show "vfs_abs k' = vfs_abs k" by (rule tree_cong(1) [OF same(1-4)])
qed

lemma sched_step_kernel:
  assumes inv: "kn_inv k" and s: "sched_inv s" "images_ok (user_stacks_at (kn_elf k)) (kn_dirs k) (sc_procs s)"
  shows "kn_inv (k\<lparr>kn_sched := s\<rparr>)" "ran P k (k\<lparr>kn_sched := s\<rparr>)" "vfs_abs (k\<lparr>kn_sched := s\<rparr>) = vfs_abs k"
proof -
  have "tables_inv (k\<lparr>kn_sched := s\<rparr>)" using inv s by (simp add: kn_inv_def tables_inv_def)
  note kernel_step [OF inv this]
  then show "kn_inv (k\<lparr>kn_sched := s\<rparr>)" "ran P k (k\<lparr>kn_sched := s\<rparr>)" "vfs_abs (k\<lparr>kn_sched := s\<rparr>) = vfs_abs k" by simp_all
qed

lemma kn_inv_tables:
  assumes "kn_inv k"
  shows "sched_inv (kn_sched k)" "elf_inv (kn_elf k)" "images_ok (user_stacks_at (kn_elf k)) (kn_dirs k) (kn_procs k)"
    "unat (user_stacks_at (kn_elf k)) + stacks_size \<le> unat (h_start (heap k))"
  using assms by (simp_all add: kn_inv_def tables_inv_def)

section \<open>User mode\<close>

text \<open>What is asked of a program: it writes only to the region for images and to the stacks.\<close>

definition confined :: "machine \<Rightarrow> u32 \<Rightarrow> bool" where
  "confined M stacks \<longleftrightarrow> (\<forall>r m m' irqs r' x. user_code M r m = Some (m', irqs, r') \<longrightarrow> m' x \<noteq> m x \<longrightarrow>
     in_region x \<or> in_block stacks stacks_size x)"

lemma interrupt_step:
  assumes inv: "kn_inv k" and i: "take_interrupt i k = Some k'"
  shows "kn_inv k' \<and> user_step k k' \<and> vfs_abs k' = vfs_abs k"
proof -
  obtain vector data where iv: "i = (vector, data)" by fastforce
  obtain irq sc where d: "interrupt_dispatch vector data (kn_irq k, kn_sched k) = Some (irq, sc)" and k': "k' = k\<lparr>kn_irq := irq, kn_sched := sc\<rparr>"
    using i by (auto simp: take_interrupt_def iv)
  note t = kn_inv_tables [OF inv]
  have "sc = kn_sched k \<or> sc = scheduler_on_timer_tick (kn_sched k)"
    using d by (auto simp: interrupt_dispatch_def Let_def split: if_splits prod.splits)
  then have pids: "map tk_pid (tasks sc) = kn_pids k" and "sched_inv sc" "images_ok (user_stacks_at (kn_elf k)) (kn_dirs k) (sc_procs sc)"
    using t tick_inv [OF t(1)] images_from_ok [OF tick_images [OF t(1)] t(3)] by auto
  then have "tables_inv k'" using inv by (simp add: k' kn_inv_def tables_inv_def)
  note tables_step [OF inv this]
  then show ?thesis using pids by (simp add: k')
qed

lemma interrupts_step:
  "kn_inv k \<Longrightarrow> take_interrupts is k = Some k' \<Longrightarrow> kn_inv k' \<and> user_step k k' \<and> vfs_abs k' = vfs_abs k"
proof (induction "is" arbitrary: k)
  case (Cons i "is")
  then obtain k1 where k1: "take_interrupt i k = Some k1" "take_interrupts is k1 = Some k'" by (auto simp: bind_eq_Some_conv)
  note s = interrupt_step [OF Cons.prems(1) k1(1)]
  then show ?case using Cons.IH [of k1] k1(2) user_step_trans [of k k1 k'] by auto
qed simp

lemma save_context_step:
  assumes inv: "kn_inv k"
  shows "kn_inv (syscall_save_yield_context frame k) \<and> user_step k (syscall_save_yield_context frame k)"
proof -
  note t = kn_inv_tables [OF inv]
  note pinv = sched_inv_procs [OF t(1)]
  show ?thesis
  proof (cases "current_pid k \<le> 0 \<or> (case proc_get_image (kn_procs k) (current_pid k) of None \<Rightarrow> True | Some img \<Rightarrow> \<not> im_loaded img)")
    case True
    then have "syscall_save_yield_context frame k = k"
      by (auto simp: syscall_save_yield_context_def Let_def split: option.splits)
    then show ?thesis using inv by simp
  next
    case False
    then obtain img where img: "\<not> current_pid k \<le> 0" "proc_get_image (kn_procs k) (current_pid k) = Some img" "im_loaded img"
      by (auto split: option.splits)
    then obtain ctx where k': "syscall_save_yield_context frame k =
        k\<lparr>kn_sched := upd_procs (\<lambda>pt. snd (proc_bind_image (current_pid k) (Some (img\<lparr>im_context := ctx, im_context_valid := True\<rparr>)) pt)) (kn_sched k)\<rparr>"
      by (simp add: syscall_save_yield_context_def)
    let ?img = "img\<lparr>im_context := ctx, im_context_valid := True\<rparr>"
    let ?pt = "snd (proc_bind_image (current_pid k) (Some ?img) (kn_procs k))"
    obtain p where p: "proc_map (kn_procs k) (current_pid k) = Some (p, img)"
      using img(2) by (auto simp: proc_get_image_map [OF pinv])
    have "image_ok (user_stacks_at (kn_elf k)) (kn_dirs k) ?img"
      using t(3) p img(3) by (auto simp: images_ok_def image_ok_def)
    moreover have "proc_map ?pt = (proc_map (kn_procs k))(current_pid k \<mapsto> (p, ?img))"
      using proc_bind_image_ok(3) [OF pinv] p by simp
    ultimately have "images_ok (user_stacks_at (kn_elf k)) (kn_dirs k) ?pt" using images_ok_put [OF t(3)] by blast
    moreover have "sched_inv (upd_procs (\<lambda>pt. snd (proc_bind_image (current_pid k) (Some ?img) pt)) (kn_sched k))"
      by (rule sched_inv_proc_step [OF t(1) proc_step.bind])
    ultimately have "tables_inv (syscall_save_yield_context frame k)" using inv by (simp add: k' kn_inv_def tables_inv_def)
    note tables_step [OF inv this]
    then show ?thesis by (simp add: k')
  qed
qed

lemma return_step:
  assumes inv: "kn_inv k"
  shows "kn_inv (return_to_kernel (k\<lparr>ring3_exit_code := c, ring3_stop_reason := r\<rparr>)) \<and>
    ran_in P k (return_to_kernel (k\<lparr>ring3_exit_code := c, ring3_stop_reason := r\<rparr>))"
proof -
  let ?k = "return_to_kernel (k\<lparr>ring3_exit_code := c, ring3_stop_reason := r\<rparr>)"
  have "tables_inv ?k" using inv by (simp add: kn_inv_def tables_inv_def return_to_kernel_def)
  note kernel_step [OF inv this]
  then show ?thesis by (simp add: return_to_kernel_def ran_in_def)
qed

lemma park_step:
  assumes inv: "kn_inv k" and pid: "current_pid k \<in> P"
  shows "kn_inv (return_to_kernel ((syscall_save_yield_context frame k)\<lparr>ring3_exit_code := c, ring3_stop_reason := r\<rparr>)) \<and>
    ran_in P k (return_to_kernel ((syscall_save_yield_context frame k)\<lparr>ring3_exit_code := c, ring3_stop_reason := r\<rparr>))"
proof -
  let ?k = "syscall_save_yield_context frame k"
  have s: "kn_inv ?k" "ran_in P k ?k" using save_context_step [OF inv] user_step_in [OF _ pid] by simp_all
  show ?thesis using return_step [OF s(1), where c = c and r = r] ran_in_trans [OF s(2)] by blast
qed

text \<open>A trap that continues the program is a system call, one that does not leaves user mode.\<close>

lemma trap_step:
  assumes inv: "kn_inv k" and act: "ring3_active k \<noteq> 0" and cd: "cd_lists (kn_fs k)" and t: "user_trap r k = Some (cont, k')"
    and pid: "current_pid k \<in> P"
  shows "kn_inv k' \<and> ran_in P k k' \<and> (if cont = None then ring3_active k' = 0 \<and> ring3_current_pid k' = 0 else user_step k k')"
proof -
  have stop: "ring3_active (return_to_kernel x) = 0 \<and> ring3_current_pid (return_to_kernel x) = 0" for x
    by (simp add: return_to_kernel_def)
  have ex: "kn_inv (return_to_kernel (k\<lparr>ring3_exit_code := c\<rparr>)) \<and> ran_in P k (return_to_kernel (k\<lparr>ring3_exit_code := c\<rparr>))" for c
    using return_step [OF inv, where c = c and r = "ring3_stop_reason k" and P = P] by simp
  show ?thesis
  proof (cases "(uc_cs r AND 0x3 = 0x3 \<or> ring3_active k = 1) \<and> uc_eax r \<in> {60, 240, 248}")
    case True
    then show ?thesis
      using t ex [of "uc_ebx r"] return_step [OF inv, where c = 0 and r = 2 and P = P] park_step [OF inv pid, where frame = "trap_frame r" and c = 0 and r = 1] stop
      by (elim conjE insertE) (auto simp: user_trap_def)
  next
    case False
    then obtain ret k1 where s: "syscall_entry (uc_eax r) (uc_ebx r) (uc_ecx r) (uc_edx r) k = Some (ret, k1)"
      and c: "(cont, k') = (if ret = ERR_BLOCKED then (None, return_to_kernel ((syscall_save_yield_context (trap_frame r) k1)
          \<lparr>ring3_exit_code := 0, ring3_stop_reason := 3\<rparr>)) else (Some (r\<lparr>uc_eax := word_of_int ret\<rparr>), k1))"
      using t by (auto simp: user_trap_def bind_eq_Some_conv)
    have st: "kn_inv k1" "user_step k k1" using syscall_entry_step [OF inv act cd s] by (simp_all add: safe_call_def)
    then have r1: "ran_in P k k1" "current_pid k1 \<in> P" using user_step_in [OF _ pid] pid same_pid [OF st(2)] by simp_all
    show ?thesis using c st r1 park_step [OF st(1) r1(2)] ran_in_trans [OF r1(1)] stop by (auto split: if_splits)
  qed
qed

lemma user_code_step:
  assumes inv: "kn_inv k" and conf: "confined M (user_stacks_at (kn_elf k))" and c: "user_code M r (mem k) = Some (m, irqs, r')"
  shows "user_step k (k\<lparr>mem := m\<rparr>)" "vfs_abs (k\<lparr>mem := m\<rparr>) = vfs_abs k"
proof -
  have own: "own_bytes k x" if "m x \<noteq> mem k x" for x
    using conf c that unfolding confined_def own_bytes_def user_space_def by blast
  show "user_step k (k\<lparr>mem := m\<rparr>)" by (rule own_write_step(1) [OF inv own])
  show "vfs_abs (k\<lparr>mem := m\<rparr>) = vfs_abs k" by (rule own_write_step(2) [OF inv own])
qed

text \<open>Until the trap: the code runs and interrupts arrive.\<close>

lemma until_trap_step:
  assumes inv: "kn_inv k" and conf: "confined M (user_stacks_at (kn_elf k))" and c: "user_code M r (mem k) = Some (m, irqs, r')"
    and i: "take_interrupts irqs (k\<lparr>mem := m\<rparr>) = Some k1"
  shows "kn_inv k1" "user_step k k1"
proof -
  have "kn_inv (k\<lparr>mem := m\<rparr>)" using inv by simp
  note s = interrupts_step [OF this i]
  then show "kn_inv k1" "user_step k k1" using user_step_trans [OF user_code_step(1) [OF inv conf c]] by blast+
qed

lemma user_run_step:
  assumes "user_run M r k = Some k'"
  shows "kn_inv k \<longrightarrow> ring3_active k \<noteq> 0 \<longrightarrow> cd_lists (kn_fs k) \<longrightarrow> confined M (user_stacks_at (kn_elf k)) \<longrightarrow> current_pid k \<in> P \<longrightarrow>
    kn_inv k' \<and> ran_in P k k' \<and> ring3_active k' = 0 \<and> ring3_current_pid k' = 0"
proof (rule user_run.raw_induct [OF _ assms])
  fix run M r k k'
  assume IH: "\<And>M r k k'. run M r k = Some k' \<Longrightarrow>
      kn_inv k \<longrightarrow> ring3_active k \<noteq> 0 \<longrightarrow> cd_lists (kn_fs k) \<longrightarrow> confined M (user_stacks_at (kn_elf k)) \<longrightarrow> current_pid k \<in> P \<longrightarrow>
      kn_inv k' \<and> ran_in P k k' \<and> ring3_active k' = 0 \<and> ring3_current_pid k' = 0"
    and run: "user_code M r (mem k) \<bind> (\<lambda>(m, irqs, r). take_interrupts irqs (k\<lparr>mem := m\<rparr>) \<bind> (\<lambda>k. user_trap r k \<bind>
      (\<lambda>(cont, k). case cont of None \<Rightarrow> Some k | Some r \<Rightarrow> run M r k))) = Some k'"
  show "kn_inv k \<longrightarrow> ring3_active k \<noteq> 0 \<longrightarrow> cd_lists (kn_fs k) \<longrightarrow> confined M (user_stacks_at (kn_elf k)) \<longrightarrow> current_pid k \<in> P \<longrightarrow>
      kn_inv k' \<and> ran_in P k k' \<and> ring3_active k' = 0 \<and> ring3_current_pid k' = 0"
  proof (intro impI)
    assume inv: "kn_inv k" and act: "ring3_active k \<noteq> 0" and cd: "cd_lists (kn_fs k)"
      and conf: "confined M (user_stacks_at (kn_elf k))" and pid: "current_pid k \<in> P"
    obtain m irqs r1 k1 cont k2 where c: "user_code M r (mem k) = Some (m, irqs, r1)" "take_interrupts irqs (k\<lparr>mem := m\<rparr>) = Some k1"
      "user_trap r1 k1 = Some (cont, k2)" "(case cont of None \<Rightarrow> Some k2 | Some r \<Rightarrow> run M r k2) = Some k'"
      using run by (auto simp: bind_eq_Some_conv)
    note s1 = until_trap_step [OF inv conf c(1,2)]
    have a1: "ring3_active k1 \<noteq> 0" "cd_lists (kn_fs k1)" "current_pid k1 \<in> P" "user_stacks_at (kn_elf k1) = user_stacks_at (kn_elf k)"
      using s1(2) act cd pid by (simp_all add: user_step_def)
    note s2 = trap_step [OF s1(1) a1(1,2) c(3) a1(3)]
    have r2: "ran_in P k k2" using s2 user_step_in [OF s1(2) pid] ran_in_trans by blast
    show "kn_inv k' \<and> ran_in P k k' \<and> ring3_active k' = 0 \<and> ring3_current_pid k' = 0"
    proof (cases cont)
      case None
      then show ?thesis using c(4) s2 r2 by simp
    next
      case (Some r2)
      then have "ring3_active k2 \<noteq> 0" "cd_lists (kn_fs k2)" "current_pid k2 \<in> P" "user_stacks_at (kn_elf k2) = user_stacks_at (kn_elf k)"
        using s2 a1 by (simp_all add: user_step_def)
      then show ?thesis using IH [of M r2 k2 k'] c(4) s2 Some conf ran_in_trans [OF r2] by auto
    qed
  qed
qed

end
