(* ===== verification/ExecRun.thy ===== *)
theory ExecRun
  imports ExecInv
begin

text \<open>
  Starting, resuming and parking a program, and running one from a file, keep the invariant of
  the kernel.
\<close>

section \<open>The argument block stays on the stack\<close>

abbreviation on_stack :: "proc_image \<Rightarrow> u32 \<Rightarrow> bool" where
  "on_stack img x \<equiv> unat (im_stack_base img) \<le> unat x \<and> unat x < unat (im_stack_base img) + 4096"

lemma push_args_frame:
  assumes ok: "stack_ok img argv"
    and "push_args img argv n sp m addrs = (r, m')"
    and "unat (im_stack_base img) \<le> unat sp" "unat sp \<le> unat (im_stack_base img) + 4096"
  shows "m' x \<noteq> m x \<Longrightarrow> on_stack img x"
  using assms(2-)
proof (induction n arbitrary: sp m addrs)
  case (Suc i)
  let ?B = "unat (im_stack_base img)" and ?bs = "arg_bytes argv i" and ?len = "str_len (arg_at argv i) + 1"
  let ?sp = "sp - ?len"
  have B: "?B + 4096 < 2 ^ 32" and sz: "im_stack_size img = 4096"
    using ok by (simp_all add: stack_ok_def ELF_STACK_SIZE_def)
  show ?case
  proof (cases "?len > im_stack_size img - 64 \<or> sp < im_stack_base img + ?len + 16")
    case True
    then have "m' = m" using Suc.prems(2) by (auto simp: Let_def split: if_splits)
    then show ?thesis using Suc.prems(1) by simp
  next
    case False
    have al: "length (cstr (arg_at argv i)) < 2 ^ 31"
      using arg_at_length [OF ok] length_cstr_le le_less_trans by blast
    have "unat (str_len (arg_at argv i)) = length (cstr (arg_at argv i))" using al by (simp add: str_len_eq unat_of_nat_exact)
    then have len: "unat ?len = length ?bs" using al by (subst unat_add_exact) simp_all
    have l4: "length ?bs \<le> 4032" using False len by (simp add: sz word_le_nat_alt not_less)
    have "unat (im_stack_base img + ?len) = ?B + length ?bs" using B l4 len by (subst unat_add_exact) simp_all
    then have "unat (im_stack_base img + ?len + 16) = ?B + length ?bs + 16" using B l4 by (subst unat_add_exact) simp_all
    then have lo: "?B + length ?bs + 16 \<le> unat sp" using False by (simp add: word_less_nat_alt not_less)
    have usp: "unat ?sp = unat sp - length ?bs" using lo len by (subst unat_sub_exact) (simp_all add: word_le_nat_alt)
    have run: "push_args img argv i ?sp (mem_write ?sp ?bs m) (?sp # addrs) = (r, m')"
      using Suc.prems(2) False by (auto simp: Let_def)
    have b: "?B \<le> unat ?sp" "unat ?sp \<le> ?B + 4096" using usp lo Suc.prems(3,4) by auto
    show ?thesis
    proof (cases "m' x = mem_write ?sp ?bs m x")
      case True
      then have "in_block ?sp (length ?bs) x" using Suc.prems(1) mem_write_other [of ?sp ?bs x m] by auto
      then show ?thesis using usp lo Suc.prems(4) B by (subst (asm) in_block_iff) auto
    next
      case ne: False
      show ?thesis by (rule Suc.IH [OF ne run b])
    qed
  qed
qed simp

lemma build_stack_frame:
  assumes ok: "stack_ok img argv" and r: "elf_build_stack img pid argc argv m = (r, m')"
  shows "m' x \<noteq> m x \<Longrightarrow> on_stack img x"
proof -
  let ?B = "unat (im_stack_base img)"
  define n where "n = min (nat argc) ELF_ARG_MAX"
  assume ne: "m' x \<noteq> m x"
  have B: "?B + 4096 < 2 ^ 32" and sz: "im_stack_size img = 4096"
    using ok by (simp_all add: stack_ok_def ELF_STACK_SIZE_def)
  have top: "unat (im_stack_base img + im_stack_size img) = ?B + 4096" using B by (subst unat_add_exact) (simp_all add: sz)
  obtain r1 m1 where p: "push_args img argv n (im_stack_base img + im_stack_size img) m [] = (r1, m1)" by fastforce
  have f1: "on_stack img x" if "m1 x \<noteq> m x" for x using push_args_frame [OF ok p] that top by simp
  show ?thesis
  proof (cases "m' x = m1 x \<or> m' = m")
    case True
    then show ?thesis using f1 ne by auto
  next
    case False
    then obtain sp0 addrs where r1: "r1 = Inr (sp0, addrs)"
      using r p by (cases r1) (auto simp: elf_build_stack_def Let_def n_def split: if_splits)
    note po = push_args_ok [OF ok p [unfolded r1], unfolded top]
    have a: "length addrs = n" "unat sp0 \<le> ?B + 4096" using po by auto
    let ?al = "sp0 AND NOT 3 :: u32" and ?table = "(of_nat n + 1) * 4 :: u32"
    have n16: "n \<le> 16" by (simp add: n_def ELF_ARG_MAX_def)
    have tab: "unat ?table = 4 * n + 4" using unat_of_nat_exact [of "4 * n + 4"] n16 by (simp add: algebra_simps)
    have chk: "\<not> ?al < im_stack_base img + ?table + 8"
      using r p r1 False by (auto simp: elf_build_stack_def Let_def n_def split: if_splits)
    have "(3 :: u32) = mask 2" by (simp add: mask_eq_exp_minus_1)
    then have al: "unat ?al \<le> unat sp0" using unat_and_not_mask [of sp0 2] by simp
    have "unat (im_stack_base img + ?table) = ?B + (4 * n + 4)" using B n16 tab by (subst unat_add_exact) simp_all
    then have "unat (im_stack_base img + ?table + 8) = ?B + 4 * n + 12" using B n16 by (subst unat_add_exact) simp_all
    then have lo: "?B + 4 * n + 12 \<le> unat ?al" using chk by (simp add: word_less_nat_alt not_less)
    then have s1: "unat (?al - ?table) = unat ?al - (4 * n + 4)"
      using tab by (subst unat_sub_exact) (simp_all add: word_le_nat_alt)
    then have s2: "unat (?al - ?table - 8) = unat ?al - (4 * n + 12)"
      using lo by (subst unat_sub_exact) (simp_all add: word_le_nat_alt)
    have "m' = write_words (?al - ?table) (addrs @ [0]) m1 \<or>
        m' = write_words (?al - ?table - 8) [of_nat n, ?al - ?table] (write_words (?al - ?table) (addrs @ [0]) m1)"
      using r p r1 False by (auto simp: elf_build_stack_def Let_def n_def split: if_splits)
    moreover have "write_words (?al - ?table) (addrs @ [0]) m1 x = m1 x" if "\<not> on_stack img x"
      using that s1 lo al a B by (intro write_words_other) auto
    moreover have "write_words (?al - ?table - 8) [of_nat n, ?al - ?table] w x = w x" if "\<not> on_stack img x" for w
      using that s2 lo al a B by (intro write_words_other) auto
    ultimately show ?thesis using False by metis
  qed
qed

section \<open>Running an image\<close>

text \<open>The kernel is not in user mode.\<close>

definition idle :: "kernel \<Rightarrow> bool" where
  "idle k \<longleftrightarrow> ring3_active k = 0 \<and> ring3_current_pid k = 0"

definition ran_ok :: "int set \<Rightarrow> kernel \<Rightarrow> kernel \<Rightarrow> bool" where
  "ran_ok P k k' \<longleftrightarrow> kn_inv k' \<and> ran_in P k k' \<and> idle k'"

lemma ran_ok_refl [simp]: "kn_inv k \<Longrightarrow> idle k \<Longrightarrow> ran_ok P k k"
  by (simp add: ran_ok_def ran_in_def)

lemma ran_ok_trans: "ran_ok P k k1 \<Longrightarrow> ran_ok P k1 k2 \<Longrightarrow> ran_ok P k k2"
  using ran_in_trans by (auto simp: ran_ok_def)

lemma ran_ok_inv: "ran_ok P k k' \<Longrightarrow> kn_inv k'" "ran_ok P k k' \<Longrightarrow> idle k'"
  by (simp_all add: ran_ok_def)

lemma emit_ran:
  assumes "kn_inv k" and "idle k" shows "ran_ok P k (emit out s k)"
proof -
  have "tables_inv (emit out s k)" using assms by (simp add: kn_inv_def tables_inv_def emit_def)
  note kernel_step [OF assms(1) this]
  then show ?thesis using assms(2) by (simp add: emit_def ran_ok_def ran_in_def idle_def)
qed

lemma elf_ran:
  assumes "kn_inv k" and "idle k" and "elf_inv e" and "user_stacks_at e = user_stacks_at (kn_elf k)"
  shows "ran_ok P k (k\<lparr>kn_elf := e\<rparr>)"
proof -
  have "tables_inv (k\<lparr>kn_elf := e\<rparr>)" using assms by (simp add: kn_inv_def tables_inv_def)
  note kernel_step [OF assms(1) this]
  then show ?thesis using assms(2,4) by (simp add: ran_ok_def ran_in_def idle_def)
qed

lemma sched_ran:
  assumes "kn_inv k" and "idle k" and "sched_inv s" and "images_ok (user_stacks_at (kn_elf k)) (kn_dirs k) (sc_procs s)"
    and "map tk_pid (tasks s) = kn_pids k"
  shows "ran_ok P k (k\<lparr>kn_sched := s\<rparr>)"
  using sched_step_kernel [OF assms(1,3,4)] assms(2,5) by (simp add: ran_ok_def ran_in_def idle_def)

lemma memory_ran:
  assumes inv: "kn_inv k" and "idle k" and "0 \<in> P" and m: "\<And>x. m x \<noteq> mem k x \<Longrightarrow> user_space k x"
  shows "ran_ok P k (k\<lparr>mem := m\<rparr>)"
proof -
  have "own_bytes k x" if "m x \<noteq> mem k x" for x using m [OF that] by (simp add: own_bytes_def)
  then have "user_step k (k\<lparr>mem := m\<rparr>)" by (rule own_write_step(1) [OF inv])
  then show ?thesis using inv assms(2,3) user_step_in [of k _ P] by (simp add: ran_ok_def idle_def)
qed

lemma user_mode_step:
  assumes inv: "kn_inv k" and cd: "cd_lists (kn_fs k)" and conf: "confined M (user_stacks_at (kn_elf k))"
    and pid: "current_pid k \<in> P" and run: "in_user_mode M r k = Some (rc, k')"
  shows "kn_inv k' \<and> ran_in P k k' \<and> idle k'"
proof -
  let ?k = "k\<lparr>ring3_active := 1, ring3_stop_reason := 0\<rparr>"
  have "tables_inv ?k" using inv by (simp add: kn_inv_def tables_inv_def)
  note kernel_step [OF inv this]
  then have s: "kn_inv ?k" "ran_in P k ?k" by (simp_all add: ran_in_def)
  have "user_run M r ?k = Some k'" using run by (auto simp: in_user_mode_def)
  note u = user_run_step [OF this, of P]
  show ?thesis using u s cd conf pid ran_in_trans [OF s(2)] by (simp add: idle_def)
qed

text \<open>Setting the process that runs, and resetting it.\<close>

lemma pid_step:
  assumes "kn_inv k" shows "kn_inv (k\<lparr>ring3_current_pid := p\<rparr>)" "ran_in P k (k\<lparr>ring3_current_pid := p\<rparr>)"
proof -
  have "tables_inv (k\<lparr>ring3_current_pid := p\<rparr>)" using assms by (simp add: kn_inv_def tables_inv_def)
  note kernel_step [OF assms this]
  then show "kn_inv (k\<lparr>ring3_current_pid := p\<rparr>)" "ran_in P k (k\<lparr>ring3_current_pid := p\<rparr>)" by (simp_all add: ran_in_def)
qed

lemma run_as_step:
  assumes inv: "kn_inv k" and cd: "cd_lists (kn_fs k)" and conf: "confined M (user_stacks_at (kn_elf k))"
    and pid: "sint p \<in> P" and run: "in_user_mode M r (k\<lparr>ring3_current_pid := p\<rparr>) = Some (rc, k')"
  shows "ran_ok P k (k'\<lparr>ring3_current_pid := 0\<rparr>)"
proof -
  note s = pid_step [OF inv, where p = p]
  have u: "kn_inv k' \<and> ran_in P (k\<lparr>ring3_current_pid := p\<rparr>) k' \<and> idle k'"
    by (rule user_mode_step [OF s(1) _ _ _ run]) (use cd conf pid in simp_all)
  then have "k'\<lparr>ring3_current_pid := 0\<rparr> = k'" by (simp add: idle_def)
  then show ?thesis using u ran_in_trans [OF s(2)] by (auto simp: ran_ok_def)
qed

definition args_ok :: "string option list \<Rightarrow> bool" where
  "args_ok argv \<longleftrightarrow> (\<forall>s. Some s \<in> set argv \<longrightarrow> length s < 2 ^ 31)"

lemma image_stack:
  assumes inv: "kn_inv k" and img: "image_ok (user_stacks_at (kn_elf k)) D img" and "args_ok argv"
  shows "stack_ok img argv" and "on_stack img x \<Longrightarrow> user_space k x"
proof -
  note t = kn_inv_tables(4) [OF inv]
  have b: "unat (im_stack_base img) + 4096 < 2 ^ 32"
    using img t unat_u32_bound [of "h_start (heap k)"] by (simp add: image_ok_def ELF_STACK_SIZE_def)
  then show "stack_ok img argv" using img assms(3) by (simp add: stack_ok_def args_ok_def image_ok_def)
  show "on_stack img x \<Longrightarrow> user_space k x"
    using img t unat_u32_bound [of "h_start (heap k)"] by (simp add: user_space_def image_ok_def in_block_iff ELF_STACK_SIZE_def)
qed

lemma execute_step:
  assumes inv: "kn_inv k" "idle k" and cd: "cd_lists (kn_fs k)" and conf: "confined M (user_stacks_at (kn_elf k))"
    and P: "0 \<in> P" "sint (word_of_int pid :: u32) \<in> P" and img: "image_ok (user_stacks_at (kn_elf k)) D img" and args: "args_ok argv"
    and run: "elf_execute_image M img pid argc argv out k = Some (rc, k')"
  shows "ran_ok P k k'"
proof -
  obtain r m where b: "elf_build_stack img pid argc argv (mem k) = (r, m)" by fastforce
  note st = image_stack [OF inv(1) img args]
  have k1: "ran_ok P k (k\<lparr>mem := m\<rparr>)"
    by (rule memory_ran [OF inv P(1)]) (use build_stack_frame [OF st(1) b] st(2) in blast)
  then have i1: "kn_inv (k\<lparr>mem := m\<rparr>)" "idle (k\<lparr>mem := m\<rparr>)" by (simp_all add: ran_ok_def)
  show ?thesis
  proof (cases r)
    case (Inl err)
    then show ?thesis using run b ran_ok_trans [OF k1 emit_ran [OF i1]] by (auto simp: elf_execute_image_def)
  next
    case (Inr sp)
    then obtain rc k2 r where u: "in_user_mode M r (k\<lparr>mem := m, ring3_current_pid := word_of_int pid\<rparr>) = Some (rc, k2)" "k' = k2\<lparr>ring3_current_pid := 0\<rparr>"
      using run b by (auto simp: elf_execute_image_def enter_user_mode_def bind_eq_Some_conv)
    have "ran_ok P (k\<lparr>mem := m\<rparr>) k'"
      using run_as_step [OF i1(1) _ _ P(2), of M r rc k2] u cd conf by simp
    then show ?thesis by (rule ran_ok_trans [OF k1])
  qed
qed

lemma restore_frame:
  assumes inv: "elf_inv e" and img: "image_ok st D img" and r: "elf_restore_image pt pid img m e = (r, e')"
  shows "elf_inv e'" "user_stacks_at e' = user_stacks_at e" and "r = Inr m' \<Longrightarrow> m' x \<noteq> m x \<Longrightarrow> in_region x"
proof -
  have e: "elf_inv e' \<and> user_stacks_at e' = user_stacks_at e"
    using r inv elf_slot_for_pid_ok(1,3) [OF inv, of pid pt] by (auto simp: elf_restore_image_def split: if_splits prod.splits option.splits)
  then show "elf_inv e'" "user_stacks_at e' = user_stacks_at e" by simp_all
  assume m: "r = Inr m'" and ne: "m' x \<noteq> m x"
  then obtain bs where bs: "m' = mem_write (im_image_base img) bs (mem_zero ELF_USER_IMAGE_BASE ELF_USER_IMAGE_MAX m)"
    "length bs = unat (im_image_size img)"
    using r by (auto simp: elf_restore_image_def split: if_splits prod.splits option.splits)
  show "in_region x"
  proof (rule ccontr)
    assume o: "\<not> in_region x"
    then have "\<not> in_block (im_image_base img) (length bs) x" using img by (auto simp: image_ok_def in_region_iff in_block_iff bs(2))
    then show False using ne o by (simp add: bs(1) mem_write_other mem_zero_eq)
  qed
qed

lemma resume_step:
  assumes inv: "kn_inv k" "idle k" and cd: "cd_lists (kn_fs k)" and conf: "confined M (user_stacks_at (kn_elf k))"
    and P: "0 \<in> P" "sint (word_of_int pid :: u32) \<in> P" and img: "image_ok (user_stacks_at (kn_elf k)) D img"
    and run: "elf_resume_image M img pid out k = Some (rc, k')"
  shows "ran_ok P k k'"
proof -
  obtain r e where b: "elf_restore_image (kn_procs k) pid img (mem k) (kn_elf k) = (r, e)" by fastforce
  note f = restore_frame [OF kn_inv_tables(2) [OF inv(1)] img b]
  have k1: "ran_ok P k (k\<lparr>kn_elf := e\<rparr>)" by (rule elf_ran [OF inv f(1,2)])
  then have i1: "kn_inv (k\<lparr>kn_elf := e\<rparr>)" "idle (k\<lparr>kn_elf := e\<rparr>)" by (simp_all add: ran_ok_def)
  show ?thesis
  proof (cases r)
    case (Inl err)
    then show ?thesis using run b ran_ok_trans [OF k1 emit_ran [OF i1]] by (auto simp: elf_resume_image_def)
  next
    case (Inr m)
    have "ran_ok P (k\<lparr>kn_elf := e\<rparr>) (k\<lparr>kn_elf := e\<rparr>\<lparr>mem := m\<rparr>)"
      by (rule memory_ran [OF i1 P(1)]) (use f(3) [OF Inr] in \<open>auto simp: user_space_def\<close>)
    then have k2: "ran_ok P k (k\<lparr>kn_elf := e, mem := m\<rparr>)" using ran_ok_trans [OF k1] by simp
    then have i2: "kn_inv (k\<lparr>kn_elf := e, mem := m\<rparr>)" by (simp add: ran_ok_def)
    obtain rc k3 where u: "in_user_mode M (im_context img) (k\<lparr>kn_elf := e, mem := m, ring3_current_pid := word_of_int pid\<rparr>) = Some (rc, k3)"
        "k' = k3\<lparr>ring3_current_pid := 0\<rparr>"
      using run b Inr by (auto simp: elf_resume_image_def resume_user_mode_def bind_eq_Some_conv)
    have "ran_ok P (k\<lparr>kn_elf := e, mem := m\<rparr>) k'"
      using run_as_step [OF i2 _ _ P(2), of M "im_context img" rc k3] u cd conf f(2) by simp
    then show ?thesis by (rule ran_ok_trans [OF k2])
  qed
qed

section \<open>Running a task\<close>

text \<open>The sequence of state changes that ends in the kernel's own task.\<close>

lemma stop_task_ran:
  assumes inv: "kn_inv k" "idle k" and pid: "0 < pid" and ts: "ts \<noteq> TASK_UNUSED" and ps: "ps \<noteq> PROC_UNUSED"
  shows "ran_ok P k (in_sched (\<lambda>s. task_return_to_kernel_main (upd_procs (proc_set_state pid ps) (task_set_state pid ts s))) k)"
proof -
  note t = kn_inv_tables [OF inv(1)]
  let ?s1 = "task_set_state pid ts (kn_sched k)"
  let ?s2 = "upd_procs (proc_set_state pid ps) ?s1"
  have i1: "sched_inv ?s1" by (rule task_set_state_ok [OF t(1) ts]) (use pid in simp)
  note i2 = upd_state_inv [OF i1 ps, of pid]
  have "images_from (kn_procs k) (sc_procs (task_return_to_kernel_main ?s2))"
    using task_state_images [OF t(1)] upd_state_images [OF i1 ps] return_main_images [OF sched_inv_procs [OF i2]] images_from_trans by blast
  then have "ran_ok P k (k\<lparr>kn_sched := task_return_to_kernel_main ?s2\<rparr>)"
    by (intro sched_ran [OF inv task_return_to_kernel_main_ok(1) [OF i2]]) (simp_all add: images_from_ok [OF _ t(3)])
  then show ?thesis by (simp add: in_sched_def)
qed

lemma start_task_ran:
  assumes inv: "kn_inv k" "idle k" and pid: "0 < pid"
  shows "ran_ok P k (in_sched (\<lambda>s. upd_procs (proc_set_state pid PROC_RUNNING) (task_set_state pid TASK_RUNNING s)) k)"
proof -
  note t = kn_inv_tables [OF inv(1)]
  let ?s1 = "task_set_state pid TASK_RUNNING (kn_sched k)"
  have i1: "sched_inv ?s1" by (rule task_set_state_ok [OF t(1)]) simp_all
  have i2: "sched_inv (upd_procs (proc_set_state pid PROC_RUNNING) ?s1)" by (rule upd_state_inv [OF i1]) simp
  have "images_from (kn_procs k) (sc_procs (upd_procs (proc_set_state pid PROC_RUNNING) ?s1))"
    by (rule images_from_trans [OF task_state_images [OF t(1)] upd_state_images [OF i1]]) simp
  then have "ran_ok P k (k\<lparr>kn_sched := upd_procs (proc_set_state pid PROC_RUNNING) ?s1\<rparr>)"
    by (intro sched_ran [OF inv i2]) (simp_all add: images_from_ok [OF _ t(3)])
  then show ?thesis by (simp add: in_sched_def)
qed

lemma snapshot_frame:
  assumes inv: "elf_inv e" and r: "elf_snapshot_image pt pid img m e = (ok, e')"
  shows "elf_inv e'" "user_stacks_at e' = user_stacks_at e"
proof -
  show "elf_inv e'" by (rule elf_snapshot_ok(1) [OF inv r])
  have "user_stacks_at (store_image i off bs x) = user_stacks_at x" for i off bs x by (simp add: store_image_def)
  then show "user_stacks_at e' = user_stacks_at e"
    using r elf_slot_for_pid_ok(3) [OF inv, of pid pt]
    by (auto simp: elf_snapshot_image_def split: if_splits prod.splits option.splits)
qed

lemma park_task_ran:
  assumes inv: "kn_inv k" "idle k" and pid: "0 < pid" and ts: "ts \<noteq> TASK_UNUSED" and ps: "ps \<noteq> PROC_UNUSED"
    and run: "park_task pid ts ps reason k = (r, k')"
  shows "ran_ok P k k'"
proof (cases "proc_get_image (kn_procs k) pid")
  case None
  then show ?thesis using run inv by (simp add: park_task_def)
next
  case (Some img)
  obtain ok e where e: "elf_snapshot_image (kn_procs k) pid img (mem k) (kn_elf k) = (ok, e)" by fastforce
  note f = snapshot_frame [OF kn_inv_tables(2) [OF inv(1)] e]
  have k1: "ran_ok P k (k\<lparr>kn_elf := e\<rparr>)" by (rule elf_ran [OF inv f])
  show ?thesis
    using run Some e k1 ran_ok_trans [OF k1 stop_task_ran [OF ran_ok_inv [OF k1] pid ts ps]]
    by (cases ok) (auto simp: park_task_def)
qed

lemma prepare_ran:
  assumes inv: "kn_inv k" "idle k" and "cwd = NULL \<or> cwd \<in> kn_dirs k"
  shows "ran_ok P k (syscall_set_bootinfo mbi magic (syscall_set_user_cwd cwd k))"
proof -
  let ?k = "syscall_set_bootinfo mbi magic (syscall_set_user_cwd cwd k)"
  have "tables_inv ?k" using inv by (simp add: kn_inv_def tables_inv_def syscall_set_bootinfo_def syscall_set_user_cwd_def)
  note kernel_step [OF inv(1) this]
  then show ?thesis using assms by (simp add: ran_ok_def ran_in_def idle_def syscall_set_bootinfo_def syscall_set_user_cwd_def)
qed

text \<open>What stays fixed over a run.\<close>

lemma ran_ok_fixed:
  assumes "ran_ok P k k'"
  shows "kn_fs k' = kn_fs k" "user_stacks_at (kn_elf k') = user_stacks_at (kn_elf k)" "kn_dirs k \<subseteq> kn_dirs k'"
  using assms by (simp_all add: ran_ok_def ran_in_def ran_def)

text \<open>The same for functions that start and remove tasks.\<close>

definition did :: "int set \<Rightarrow> kernel \<Rightarrow> kernel \<Rightarrow> bool" where
  "did P k k' \<longleftrightarrow> kn_inv k' \<and> ran P k k' \<and> idle k'"

lemma did_inv: "did P k k' \<Longrightarrow> kn_inv k'" "did P k k' \<Longrightarrow> idle k'"
  by (simp_all add: did_def)

lemma ran_ok_did: "ran_ok P k k' \<Longrightarrow> did P k k'"
  by (simp add: did_def ran_ok_def ran_in_def)

lemma did_refl [simp]: "kn_inv k \<Longrightarrow> idle k \<Longrightarrow> did P k k"
  by (simp add: did_def)

lemma did_trans: "did P k k1 \<Longrightarrow> did P k1 k2 \<Longrightarrow> did P k k2"
  using ran_trans by (auto simp: did_def)

lemma did_fixed:
  assumes "did P k k'"
  shows "kn_fs k' = kn_fs k" "user_stacks_at (kn_elf k') = user_stacks_at (kn_elf k)" "kn_dirs k \<subseteq> kn_dirs k'"
  using assms by (simp_all add: did_def ran_def)

lemma did_sched:
  assumes "kn_inv k" and "idle k" and "sched_inv s" and "images_ok (user_stacks_at (kn_elf k)) (kn_dirs k) (sc_procs s)"
  shows "did P k (k\<lparr>kn_sched := s\<rparr>)"
  using sched_step_kernel [OF assms(1,3,4)] assms(2) by (simp add: did_def idle_def)

lemmas did_emit = emit_ran [THEN ran_ok_did]

lemma run_until_stop_ran:
  assumes inv: "kn_inv k" "idle k" and cd: "cd_lists (kn_fs k)" and conf: "confined M (user_stacks_at (kn_elf k))"
    and P: "0 \<in> P" "sint (word_of_int pid :: u32) \<in> P" and cwd: "ec_cwd ctx = NULL \<or> ec_cwd ctx \<in> kn_dirs k" and args: "args_ok argv"
    and run: "task_run_user_until_stop M pid argc argv ctx k = Some (r, k')"
  shows "ran_ok P k k'"
proof (cases "pid \<le> 0 \<or> (case proc_get_image (kn_procs k) pid of None \<Rightarrow> True | Some img \<Rightarrow> \<not> im_loaded img)")
  case True
  then have "k' = k" using run by (auto simp: task_run_user_until_stop_def split: option.splits if_splits)
  then show ?thesis using inv by simp
next
  case False
  note t = kn_inv_tables [OF inv(1)]
  obtain img where img: "0 < pid" "proc_get_image (kn_procs k) pid = Some img" "im_loaded img"
    using False by (auto split: option.splits)
  have ok: "image_ok (user_stacks_at (kn_elf k)) (kn_dirs k) img"
    using t(3) img(2,3) by (auto simp: images_ok_def proc_get_image_map [OF sched_inv_procs [OF t(1)]])
  define k1 where "k1 = syscall_set_bootinfo (ec_mbi ctx) (ec_magic ctx) (syscall_set_user_cwd (if im_cwd img \<noteq> NULL then im_cwd img else ec_cwd ctx) k)"
  define k2 where "k2 = in_sched (\<lambda>s. upd_procs (proc_set_state pid PROC_RUNNING) (task_set_state pid TASK_RUNNING s)) k1"
  define stopped where "stopped = (\<lambda>rc k. case rc of None \<Rightarrow> (None, k) | Some rc \<Rightarrow>
          if ring3_stop_reason k = 1 then park_task pid TASK_READY PROC_READY EXEC_STOP_YIELDED k
          else if ring3_stop_reason k = 3 then park_task pid TASK_BLOCKED PROC_BLOCKED EXEC_STOP_BLOCKED k
          else (Some (rc, EXEC_STOP_EXITED), in_sched (\<lambda>s. task_return_to_kernel_main
            (upd_procs (proc_set_state pid PROC_ZOMBIE) (task_set_state pid TASK_ZOMBIE s))) k))"
  have "(if im_context_valid img then elf_resume_image M img pid (im_output img) k2
      else elf_execute_image M img pid argc argv (im_output img) k2) \<bind> (\<lambda>(rc, k). Some (stopped rc k)) = Some (r, k')"
    unfolding k2_def k1_def stopped_def using run img by (simp add: task_run_user_until_stop_def Let_def split del: if_split)
  then obtain y where y: "(if im_context_valid img then elf_resume_image M img pid (im_output img) k2
      else elf_execute_image M img pid argc argv (im_output img) k2) = Some y" "(case y of (rc, k) \<Rightarrow> Some (stopped rc k)) = Some (r, k')"
    unfolding bind_eq_Some_conv by blast
  obtain rc k3 where "y = (rc, k3)" by fastforce
  then have x: "(if im_context_valid img then elf_resume_image M img pid (im_output img) k2
      else elf_execute_image M img pid argc argv (im_output img) k2) = Some (rc, k3)" and e: "stopped rc k3 = (r, k')"
    using y by simp_all
  have r1: "ran_ok P k k1" unfolding k1_def by (rule prepare_ran [OF inv]) (use ok cwd in \<open>auto simp: image_ok_def\<close>)
  have r2: "ran_ok P k k2" unfolding k2_def by (rule ran_ok_trans [OF r1 start_task_ran [OF ran_ok_inv [OF r1] img(1)]])
  note i2 = ran_ok_inv [OF r2] and f2 = ran_ok_fixed [OF r2]
  have "ran_ok P k2 k3"
    using x resume_step [OF i2 _ _ P, of M "kn_dirs k" img] execute_step [OF i2 _ _ P _ args, of M "kn_dirs k" img] cd conf ok f2
    by (auto split: if_splits)
  then have r3: "ran_ok P k k3" by (rule ran_ok_trans [OF r2])
  note i3 = ran_ok_inv [OF r3]
  have park: "ran_ok P k k'" if "park_task pid ts ps reason k3 = (r, k')" "ts \<noteq> TASK_UNUSED" "ps \<noteq> PROC_UNUSED" for ts ps reason
    by (rule ran_ok_trans [OF r3 park_task_ran [OF i3 img(1) that(2,3,1)]])
  have stop: "ran_ok P k (in_sched (\<lambda>s. task_return_to_kernel_main (upd_procs (proc_set_state pid PROC_ZOMBIE) (task_set_state pid TASK_ZOMBIE s))) k3)"
    by (rule ran_ok_trans [OF r3 stop_task_ran [OF i3 img(1)]]) simp_all
  show ?thesis
  proof (cases rc)
    case (Some c)
    then show ?thesis
      using e stop park [of TASK_READY PROC_READY EXEC_STOP_YIELDED] park [of TASK_BLOCKED PROC_BLOCKED EXEC_STOP_BLOCKED]
      by (auto simp: stopped_def split: if_splits)
  qed (use e r3 in \<open>simp add: stopped_def\<close>)
qed

lemma did_exit_and_reap:
  assumes inv: "kn_inv k" "idle k" and pid: "0 < pid"
  shows "did P k (exit_and_reap pid code k)"
proof -
  note t = kn_inv_tables [OF inv(1)]
  let ?s1 = "upd_procs (\<lambda>pt. snd (proc_reap_pid pid (snd (proc_exit pid code pt)))) (kn_sched k)"
  let ?pt1 = "snd (proc_exit pid code (kn_procs k))"
  note pinv = sched_inv_procs [OF t(1)]
  have "sched_inv ((kn_sched k)\<lparr>sc_procs := ?pt1\<rparr>)" by (rule sched_inv_proc_step [OF t(1) proc_step.exit])
  from sched_inv_proc_step [OF this] have i1: "sched_inv ?s1" by (simp add: proc_step.reap)
  have p1: "images_from (kn_procs k) ?pt1"
    by (auto simp: images_from_def proc_exit_ok(3) [OF pinv] split: option.splits if_splits)
  have "images_from ?pt1 (snd (proc_reap_pid pid ?pt1))"
    by (auto simp: images_from_def proc_reap_pid_ok(3) [OF proc_exit_ok(1) [OF pinv]] split: if_splits)
  then have p2: "images_from (kn_procs k) (sc_procs ?s1)" using images_from_trans [OF p1] by simp
  have p3: "images_from (sc_procs ?s1) (sc_procs (snd (task_reap_pid pid ?s1)))"
    by (rule reap_images [OF sched_inv_procs [OF i1]])
  have "did P k (k\<lparr>kn_sched := snd (task_reap_pid pid ?s1)\<rparr>)"
    by (rule did_sched [OF inv task_reap_pid_ok [OF i1]]) (use pid images_from_ok [OF images_from_trans [OF p2 p3] t(3)] in simp_all)
  then show ?thesis by (simp add: exit_and_reap_def in_sched_def)
qed

end
