(* ===== verification/ExecProps.thy ===== *)
theory ExecProps
  imports ExecRun
begin

text \<open>
  Running a program by its path, and resuming one: for every program that keeps to its memory,
  the kernel keeps its invariant.
\<close>

section \<open>Files and loading\<close>

lemma read_ran:
  assumes inv: "kn_inv k" "idle k" and P: "0 \<in> P" and cwd: "cwd \<in> kn_dirs k"
    and r: "vfs_read_file (kn_fs k) cwd path k = Some (r, k')"
  shows "did P k k'" and "vfs_abs k' = vfs_abs k" and "vfs_state.more k' = vfs_state.more k"
proof -
  have "run_inv (cwd, k)" using cwd kn_inv_vfs [OF inv(1)] by (simp add: run_inv_dirs)
  then obtain ps where ps: "cwd_at k cwd ps" by (auto simp: run_inv_def)
  have q: "quiet k k'" by (rule read_file_quiet [OF kn_inv_vfs [OF inv(1)] ps r])
  have f: "vfs_frame k k'" by (rule read_file_frame [OF kn_inv_heap [OF inv(1)] r])
  show "vfs_abs k' = vfs_abs k" using q by (simp add: quiet_def)
  show m: "vfs_state.more k' = vfs_state.more k" using f by (simp add: vfs_frame_def)
  have "kn_inv k'" "user_step k k'" using fs_call_step [OF inv(1) _ f] q by (simp_all add: quiet_def)
  moreover from this(2) have "idle k'" using inv(2) by (simp add: user_step_def idle_def)
  ultimately show "did P k k'" using user_step_ran [of k k' P] inv(2) P by (simp add: did_def idle_def)
qed

lemma read_returns:
  assumes inv: "kn_inv k" and cd: "cd_lists (kn_fs k)" and cwd: "cwd \<in> kn_dirs k"
  shows "vfs_read_file (kn_fs k) cwd path k \<noteq> None"
proof -
  have "run_inv (cwd, k)" using cwd kn_inv_vfs [OF inv] by (simp add: run_inv_dirs)
  then obtain ps where ps: "cwd_at k cwd ps" by (auto simp: run_inv_def)
  show ?thesis using read_file_returns [OF kn_inv_vfs [OF inv] ps] cd by (simp add: cd_lists_def)
qed

text \<open>
  No file of the tree that the loader accepts has a segment whose bounds overflow, whatever the
  rest of the memory holds.
\<close>

definition programs_ok :: "kernel \<Rightarrow> bool" where
  "programs_ok k \<longleftrightarrow> (\<forall>k1 cwd path out plan k2. kn_inv k1 \<and> vfs_abs k1 = vfs_abs k \<and> kn_fs k1 = kn_fs k \<and> cwd \<in> kn_dirs k1 \<and>
     elf_prepare_load_plan_from_vfs cwd path out k1 = Some (Some plan, k2) \<longrightarrow> (\<forall>sg \<in> set (pl_segments plan). no_wrap_segment sg))"

lemma load_frame:
  assumes "elf_prepare_load_plan m data sz = Inr plan" and "\<forall>sg \<in> set (pl_segments plan). no_wrap_segment sg"
    and "elf_load_from_plan pt pid plan fd fs e m1 = (r, e', m2)" and "m2 x \<noteq> m1 x"
  shows "in_region x"
proof (rule ccontr)
  note p = elf_prepare_ok [OF assms(1)]
  assume x: "\<not> in_region x"
  have "\<forall>sg \<in> set (pl_segments plan). \<not> seg_block sg x"
    using segment_in_region [OF p(7) _ p(5,6)] assms(2) x by blast
  then show False using elf_load_other [OF assms(3) x] assms(4) by simp
qed

lemma load_image:
  assumes inv: "elf_inv e" and pid: "0 \<le> pid" and plan: "elf_prepare_load_plan m data sz = Inr plan"
    and st: "unat (user_stacks_at e) + stacks_size < 2 ^ 32"
    and r: "elf_load_from_plan pt pid plan fd fs e m1 = (r, e', m2)"
  shows "elf_inv e'" "user_stacks_at e' = user_stacks_at e"
    and "r = Inr img \<Longrightarrow> cwd \<in> D \<Longrightarrow> image_ok (user_stacks_at e) D (img\<lparr>im_cwd := cwd, im_output := out\<rparr>)"
proof -
  note p = elf_prepare_ok [OF plan]
  obtain s e1 where s: "elf_slot_for_pid pt pid e = (s, e1)" by fastforce
  note so = elf_slot_for_pid_ok [OF inv pid s]
  have e: "e' = e \<or> e' = e1"
    using r s by (auto simp: elf_load_from_plan_def split: if_splits option.splits prod.splits bool.splits)
  then show "elf_inv e'" "user_stacks_at e' = user_stacks_at e" using inv so(1,3) by auto
  assume img: "r = Inr img" and cwd: "cwd \<in> D"
  then obtain slot where sl: "s = Some slot" and i: "im_image_base img = pl_image_base plan" "im_image_size img = pl_image_size plan"
    "im_stack_base img = user_stacks_at e1 + of_nat slot * ELF_STACK_SIZE" "im_stack_size img = ELF_STACK_SIZE"
    using r s by (auto simp: elf_load_from_plan_def split: if_splits option.splits prod.splits bool.splits)
  have lt: "slot < 8" using so(5) [OF sl] by (simp add: ELF_PROC_SLOTS_def)
  then have "unat (of_nat slot * ELF_STACK_SIZE) = slot * 4096"
    using unat_of_nat_exact [of "slot * 4096"] by (simp add: ELF_STACK_SIZE_def)
  moreover have "slot * 4096 + 4096 \<le> stacks_size" using lt by (simp add: stacks_size_def ELF_PROC_SLOTS_def ELF_STACK_SIZE_def)
  ultimately have "unat (im_stack_base img) = unat (user_stacks_at e) + slot * 4096"
    using st so(3) i(3) by (simp add: unat_add_exact)
  then show "image_ok (user_stacks_at e) D (img\<lparr>im_cwd := cwd, im_output := out\<rparr>)"
    using cwd p(5,6) i \<open>slot * 4096 + 4096 \<le> stacks_size\<close> by (simp add: image_ok_def ELF_STACK_SIZE_def)
qed

lemma spawn_ran:
  assumes inv: "kn_inv k" "idle k" and s: "task_spawn_user name ppid (kn_sched k) = (pid, sc)"
  shows "did P k (k\<lparr>kn_sched := sc\<rparr>)" and "pid < 0 \<or> 0 < pid \<and> pid = next_pid (kn_procs k)"
proof -
  note t = kn_inv_tables [OF inv(1)]
  note pinv = sched_inv_procs [OF t(1)]
  have si: "sched_inv sc" using task_spawn_ok [OF t(1), of "''uproc''" name ppid] s by (simp add: task_spawn_user_def)
  have np: "0 < next_pid (kn_procs k)" using pinv by (simp add: proc_inv_def)
  have cases: "sc_procs sc = kn_procs k \<and> pid < 0 \<or> pid = next_pid (kn_procs k) \<and>
      proc_map (sc_procs sc) = (proc_map (kn_procs k))(pid \<mapsto> (spawned name ppid pid, empty_image))"
    using s proc_spawn_ok [OF pinv, of _ name ppid] proc_spawn_full [of "kn_procs k" name ppid] np
    by (cases "alloc_slot (kn_procs k)") (auto simp: task_spawn_user_def task_spawn_def Let_def split: option.splits if_splits prod.splits)
  have "images_ok (user_stacks_at (kn_elf k)) (kn_dirs k) (sc_procs sc)"
  proof (cases "sc_procs sc = kn_procs k")
    case False
    then have "proc_map (sc_procs sc) = (proc_map (kn_procs k))(pid \<mapsto> (spawned name ppid pid, empty_image))" using cases by auto
    from images_ok_put [OF t(3) this] show ?thesis by (simp add: empty_image_def)
  qed (use t(3) in simp)
  then show "did P k (k\<lparr>kn_sched := sc\<rparr>)" by (rule did_sched [OF inv si])
  show "pid < 0 \<or> 0 < pid \<and> pid = next_pid (kn_procs k)" using cases np by auto
qed

section \<open>Running a file\<close>

lemma run_loaded_ran:
  assumes inv: "kn_inv k" "idle k" and cd: "cd_lists (kn_fs k)" and conf: "confined M (user_stacks_at (kn_elf k))"
    and P: "0 \<in> P" "sint (word_of_int pid :: u32) \<in> P" and pid: "0 < pid"
    and cwd: "ec_cwd ctx \<in> kn_dirs k" and args: "args_ok argv"
    and plan: "elf_prepare_load_plan m data sz = Inr plan" "\<forall>sg \<in> set (pl_segments plan). no_wrap_segment sg"
    and run: "exec_run_loaded M pid plan fd fs argc argv ctx k = Some (r, k')"
  shows "did P k k'"
proof -
  note t = kn_inv_tables [OF inv(1)]
  have st: "unat (user_stacks_at (kn_elf k)) + stacks_size < 2 ^ 32" using t(4) unat_u32_bound [of "h_start (heap k)"] by simp
  obtain res e m2 where l: "elf_load_from_plan (kn_procs k) pid plan fd fs (kn_elf k) (mem k) = (res, e, m2)"
    by (cases "elf_load_from_plan (kn_procs k) pid plan fd fs (kn_elf k) (mem k)")
  note li = load_image [OF t(2) _ plan(1) st l]
  have e: "elf_inv e" "user_stacks_at e = user_stacks_at (kn_elf k)" using li(1,2) pid by simp_all
  have r0: "did P k (k\<lparr>kn_elf := e\<rparr>)" by (rule elf_ran [OF inv e, THEN ran_ok_did])
  have "did P (k\<lparr>kn_elf := e\<rparr>) (k\<lparr>kn_elf := e\<rparr>\<lparr>mem := m2\<rparr>)"
    by (rule memory_ran [OF did_inv [OF r0] P(1), THEN ran_ok_did]) (use load_frame [OF plan l] in \<open>auto simp: user_space_def\<close>)
  then have r1: "did P k (k\<lparr>kn_elf := e, mem := m2\<rparr>)" using did_trans [OF r0] by simp
  let ?k1 = "k\<lparr>kn_elf := e, mem := m2\<rparr>"
  note i1 = did_inv [OF r1]
  show ?thesis
  proof (cases res)
    case (Inl err)
    have "did P k (emit (ec_output ctx) (elf_error_text err) ?k1)" by (rule did_trans [OF r1 did_emit [OF i1]])
    then show ?thesis
      using run l Inl did_trans did_exit_and_reap [OF did_inv pid] by (auto simp: exec_run_loaded_def)
  next
    case (Inr img)
    let ?img = "img\<lparr>im_cwd := ec_cwd ctx, im_output := ec_output ctx\<rparr>"
    let ?pt = "snd (proc_bind_image pid (Some ?img) (kn_procs k))"
    note pinv = sched_inv_procs [OF t(1)]
    have iok: "image_ok (user_stacks_at (kn_elf k)) (kn_dirs k) ?img" using li(3) [OF _ Inr cwd] pid by simp
    have "images_ok (user_stacks_at (kn_elf k)) (kn_dirs k) ?pt"
      using t(3) iok images_ok_put [OF t(3), of ?pt pid] proc_bind_image_ok(3) [OF pinv, of pid ?img]
      by (cases "proc_map (kn_procs k) pid") (auto simp: images_ok_def)
    moreover have "sched_inv (upd_procs (\<lambda>pt. snd (proc_bind_image pid (Some ?img) pt)) (kn_sched k))"
      by (rule sched_inv_proc_step [OF t(1) proc_step.bind])
    ultimately have "did P ?k1 (?k1\<lparr>kn_sched := upd_procs (\<lambda>pt. snd (proc_bind_image pid (Some ?img) pt)) (kn_sched k)\<rparr>)"
      by (intro did_sched [OF i1]) (simp_all add: e(2))
    then have r2: "did P k (in_sched (upd_procs (\<lambda>pt. snd (proc_bind_image pid (Some ?img) pt))) ?k1)"
      using did_trans [OF r1] by (simp add: in_sched_def)
    define k2 where "k2 = in_sched (upd_procs (\<lambda>pt. snd (proc_bind_image pid (Some ?img) pt))) ?k1"
    note i2 = did_inv [OF r2 [folded k2_def]] and f2 = did_fixed [OF r2 [folded k2_def]]
    obtain x k3 where x: "task_run_user_until_stop M pid argc argv ctx k2 = Some (x, k3)" and
      k': "k' \<in> {k3, exit_and_reap pid (- 1) k3} \<or> (\<exists>s. k' = emit (ec_output ctx) s k3) \<or> (\<exists>rc. k' = exit_and_reap pid rc k3)"
      using run l Inr unfolding k2_def
      by (fastforce simp: exec_run_loaded_def bind_eq_Some_conv Let_def report_pid_def split: option.splits if_splits)
    have "did P k2 k3"
      by (rule run_until_stop_ran [OF i2 _ _ P _ args x, THEN ran_ok_did]) (use cd conf cwd f2 in auto)
    then have r3: "did P k k3" using did_trans r2 [folded k2_def] by blast
    note i3 = did_inv [OF r3]
    show ?thesis using k' r3 did_trans [OF r3 did_exit_and_reap [OF i3 pid]] did_trans [OF r3 did_emit [OF i3]] by auto
  qed
qed

lemma prepare_plan_ran:
  assumes inv: "kn_inv k" "idle k" and P: "0 \<in> P" and cwd: "cwd \<in> kn_dirs k"
    and r: "elf_prepare_load_plan_from_vfs cwd path out k = Some (plan, k')"
  shows "did P k k'" and "kn_sched k' = kn_sched k" and "plan = Some p \<Longrightarrow> \<exists>m data sz. elf_prepare_load_plan m data sz = Inr p"
proof -
  obtain x k1 where x: "vfs_read_file (kn_fs k) cwd (Some path) k = Some (x, k1)"
    using r by (auto simp: elf_prepare_load_plan_from_vfs_def bind_eq_Some_conv)
  note s = read_ran [OF inv P cwd x]
  have e: "did P k (emit out msg k1)" for msg by (rule did_trans [OF s(1) did_emit [OF did_inv [OF s(1)]]])
  have c: "k' = k1 \<or> (\<exists>msg. k' = emit out msg k1)"
    using r x by (auto simp: elf_prepare_load_plan_from_vfs_def Let_def split: option.splits if_splits sum.splits)
  then show "did P k k'" using s(1) e by auto
  show "kn_sched k' = kn_sched k" using c same_more(1) [OF s(3)] by (auto simp: emit_def)
  show "plan = Some p \<Longrightarrow> \<exists>m data sz. elf_prepare_load_plan m data sz = Inr p"
    using r x by (fastforce simp: elf_prepare_load_plan_from_vfs_def Let_def split: option.splits if_splits sum.splits)
qed

text \<open>The states in which a program can be started.\<close>

definition may_run :: "machine \<Rightarrow> kernel \<Rightarrow> bool" where
  "may_run M k \<longleftrightarrow> kn_inv k \<and> idle k \<and> cd_lists (kn_fs k) \<and> programs_ok k \<and> confined M (user_stacks_at (kn_elf k))"

lemma may_run_quiet:
  assumes "may_run M k" and "did P k k'" and "vfs_abs k' = vfs_abs k"
  shows "may_run M k'"
  using assms did_fixed [OF assms(2)] did_inv [OF assms(2)] by (simp add: may_run_def programs_ok_def)

lemma may_run_read:
  assumes "may_run M k" and "cwd \<in> kn_dirs k" and "vfs_read_file (kn_fs k) cwd path k = Some (x, k1)"
  shows "may_run M k1" "kn_dirs k \<subseteq> kn_dirs k1" "kn_sched k1 = kn_sched k" "0 \<in> P \<Longrightarrow> did P k k1"
proof -
  have i: "kn_inv k" "idle k" using assms(1) by (simp_all add: may_run_def)
  have r0: "did {0} k k1" by (rule read_ran(1) [OF i _ assms(2,3)]) simp
  show "may_run M k1" using may_run_quiet [OF assms(1) r0] read_ran(2) [OF i _ assms(2,3)] by blast
  show "kn_dirs k \<subseteq> kn_dirs k1" using did_fixed(3) [OF r0] .
  have "vfs_state.more k1 = vfs_state.more k" using read_ran(3) [OF i _ assms(2,3)] by blast
  then show "kn_sched k1 = kn_sched k" by (rule same_more(1))
  show "0 \<in> P \<Longrightarrow> did P k k1" using read_ran(1) [OF i _ assms(2,3)] by blast
qed

lemma run_elf_ran:
  assumes m: "may_run M k" and P: "0 \<in> P" "sint (word_of_int (next_pid (kn_procs k)) :: u32) \<in> P"
    and cwd: "ec_cwd ctx \<in> kn_dirs k" and args: "args_ok argv"
    and run: "exec_run_elf_path M path argc argv ctx k = Some (r, k')"
  shows "did P k k'"
proof -
  obtain x k1 where x: "vfs_read_file (kn_fs k) (ec_cwd ctx) (Some path) k = Some (x, k1)"
    using run by (auto simp: exec_run_elf_path_def Let_def bind_eq_Some_conv)
  note s1 = may_run_read [OF m cwd x]
  have r1: "did P k k1" using s1(4) P(1) .
  have miss: "did P k (emit (ec_output ctx) msg k1)" for msg by (rule did_trans [OF r1 did_emit [OF did_inv [OF r1]]])
  show ?thesis
  proof (cases "x = None \<or> (\<exists>sz. x = Some (NULL, sz))")
    case True
    then show ?thesis using run x miss by (auto simp: exec_run_elf_path_def)
  next
    case False
    then obtain data sz where d: "x = Some (data, sz)" "data \<noteq> NULL" by (cases x) auto
    obtain plan k2 where p: "elf_prepare_load_plan_from_vfs (ec_cwd ctx) path (ec_output ctx) k1 = Some (plan, k2)"
      using run x d by (auto simp: exec_run_elf_path_def Let_def bind_eq_Some_conv)
    have cwd1: "ec_cwd ctx \<in> kn_dirs k1" using cwd s1(2) by blast
    note s2 = prepare_plan_ran [OF did_inv [OF r1] P(1) cwd1 p]
    have r2: "did P k k2" by (rule did_trans [OF r1 s2(1)])
    show ?thesis
    proof (cases plan)
      case None
      then show ?thesis using run x d p r2 by (simp add: exec_run_elf_path_def)
    next
      case (Some pl)
      obtain mm dd ss where pl: "elf_prepare_load_plan mm dd ss = Inr pl" using s2(3) [OF Some] by blast
      have nw: "\<forall>sg \<in> set (pl_segments pl). no_wrap_segment sg"
        using s1(1) p Some cwd1 unfolding may_run_def programs_ok_def by blast
      define ppid where "ppid = (if task_current_pid (kn_sched k) < 0 then 0 else task_current_pid (kn_sched k))"
      obtain pid sc where sp: "task_spawn_user (Some (exec_program_name_from_path (Some path) 16 [])) ppid (kn_sched k2) = (pid, sc)" by fastforce
      have e: "(if pid < 0 then Some (False, emit (ec_output ctx) (''run: failed to allocate process'' @ newline) (k2\<lparr>kn_sched := sc\<rparr>))
          else exec_run_loaded M pid pl data sz argc argv ctx (k2\<lparr>kn_sched := sc\<rparr>)) = Some (r, k')"
        using run x d p Some sp by (simp add: exec_run_elf_path_def Let_def ppid_def split: if_splits)
      note s3 = spawn_ran [OF did_inv [OF r2] sp]
      have r3: "did P k (k2\<lparr>kn_sched := sc\<rparr>)" by (rule did_trans [OF r2 s3(1)])
      show ?thesis
      proof (cases "pid < 0")
        case True
        then show ?thesis using e did_trans [OF r3 did_emit [OF did_inv [OF r3]]] by auto
      next
        case False
        have pid: "0 < pid" "pid = next_pid (kn_procs k)" using s3(2) False s2(2) s1(3) by auto
        have "did P (k2\<lparr>kn_sched := sc\<rparr>) k'"
          by (rule run_loaded_ran [OF did_inv [OF r3] _ _ P(1) _ pid(1) _ args pl nw])
            (use False e m did_fixed [OF r3] cwd P(2) pid(2) in \<open>auto simp: may_run_def\<close>)
        then show ?thesis by (rule did_trans [OF r3])
      qed
    qed
  qed
qed

lemma exec_try_ran:
  assumes "may_run M k" and "0 \<in> P" and "sint (word_of_int (next_pid (kn_procs k)) :: u32) \<in> P"
    and "ec_cwd ctx \<in> kn_dirs k" and args: "args_ok argv" and "exec_try M paths argc argv ctx k = Some (r, k')"
  shows "did P k k'"
  using assms(1-4,6)
proof (induction paths arbitrary: k)
  case Nil
  then show ?case by (simp add: may_run_def)
next
  case (Cons path paths)
  obtain ie k1 where i: "exec_is_elf_path (ec_cwd ctx) path k = Some (ie, k1)"
    using Cons.prems(5) by (auto simp: bind_eq_Some_conv)
  then obtain x where x: "vfs_read_file (kn_fs k) (ec_cwd ctx) (Some path) k = Some (x, k1)"
    by (auto simp: exec_is_elf_path_def bind_eq_Some_conv split: option.splits)
  note s = may_run_read [OF Cons.prems(1,4) x]
  have s4: "did P k k1" using s(4) Cons.prems(2) .
  have c: "ec_cwd ctx \<in> kn_dirs k1" using Cons.prems(4) s(2) by blast
  show ?case
  proof (cases ie)
    case False
    have "did P k1 k'" using Cons.IH [OF s(1) Cons.prems(2) _ c] Cons.prems(3,5) i False s(3) by simp
    then show ?thesis by (rule did_trans [OF s4])
  next
    case True
    then obtain ok where "exec_run_elf_path M path argc argv ctx k1 = Some (ok, k')"
      using Cons.prems(5) i by (auto simp: bind_eq_Some_conv)
    then have "did P k1 k'" using run_elf_ran [OF s(1) Cons.prems(2) _ c args] Cons.prems(3) s(3) by simp
    then show ?thesis by (rule did_trans [OF s4])
  qed
qed

lemma ring3_test_ran:
  assumes inv: "kn_inv k" "idle k" and cd: "cd_lists (kn_fs k)" and conf: "confined M (user_stacks_at (kn_elf k))" and P: "0 \<in> P"
    and run: "ring3_test M out k = Some (ok, k')"
  shows "did P k k'"
proof -
  let ?k = "emit out (''ring3: enter test'' @ newline) k"
  have r1: "did P k ?k" by (rule did_emit [OF inv])
  obtain r rc k2 where u: "in_user_mode M r ?k = Some (rc, k2)" "k' = emit out (''ring3: returned to kernel'' @ newline) k2"
    using run by (auto simp: ring3_test_def Let_def enter_user_mode_def bind_eq_Some_conv)
  note f = did_fixed [OF r1]
  have "current_pid ?k \<in> P" using did_inv(2) [OF r1] P by (simp add: idle_def)
  then have "did P ?k k2" using user_mode_step [OF did_inv(1) [OF r1] _ _ _ u(1), of P] cd conf f by (simp add: did_def ran_in_def)
  then have r2: "did P k k2" by (rule did_trans [OF r1])
  show ?thesis unfolding u(2) by (rule did_trans [OF r2 did_emit [OF did_inv [OF r2]]])
qed

lemma exec_run_path_ran:
  assumes m: "may_run M k" and P: "0 \<in> P" "sint (word_of_int (next_pid (kn_procs k)) :: u32) \<in> P"
    and cwd: "ec_cwd ctx \<in> kn_dirs k" and args: "args_ok argv" and run: "exec_run_path M path argc argv ctx k = Some (r, k')"
  shows "did P k k'"
proof -
  have inv: "kn_inv k" "idle k" and h: "cd_lists (kn_fs k)" "confined M (user_stacks_at (kn_elf k))" using m by (simp_all add: may_run_def)
  consider (mounts) "str_eq path ''/bin/mounts''" | (ring3) "\<not> str_eq path ''/bin/mounts''" "str_eq path ''/bin/ring3test''"
    | (file_path) "\<not> str_eq path ''/bin/mounts''" "\<not> str_eq path ''/bin/ring3test''" by blast
  then show ?thesis
  proof cases
    case mounts
    then show ?thesis using run did_emit [OF inv] by (auto simp: exec_run_path_def prog_mounts_def)
  next
    case ring3
    then obtain ok k1 where t: "ring3_test M (ec_output ctx) k = Some (ok, k1)" "k' = k1 \<or> (\<exists>s. k' = emit (ec_output ctx) s k1)"
      using run by (auto simp: exec_run_path_def prog_ring3test_def bind_eq_Some_conv split: if_splits)
    have r1: "did P k k1" by (rule ring3_test_ran [OF inv h P(1) t(1)])
    then show ?thesis using t(2) did_trans [OF r1 did_emit [OF did_inv [OF r1]]] by auto
  next
    case file_path
    then show ?thesis using run exec_try_ran [OF m P cwd args] by (simp add: exec_run_path_def)
  qed
qed

section \<open>Resuming\<close>

lemma exec_resume_ran:
  assumes inv: "kn_inv k" "idle k" and h: "cd_lists (kn_fs k)" "confined M (user_stacks_at (kn_elf k))" and P: "0 \<in> P" "sint (word_of_int pid :: u32) \<in> P"
    and cwd: "ec_cwd ctx \<in> kn_dirs k" and run: "exec_resume_pid M pid ctx k = Some (r, k')"
  shows "did P k k'"
proof -
  show ?thesis
  proof (cases "pid \<le> 0 \<or> (case proc_get_image (kn_procs k) pid of None \<Rightarrow> True | Some img \<Rightarrow> \<not> im_loaded img \<or> \<not> im_context_valid img)")
    case True
    then have "k' = k \<or> (\<exists>s. k' = emit (ec_output ctx) s k)"
      using run by (auto simp: exec_resume_pid_def Let_def split: option.splits if_splits)
    then show ?thesis using inv did_emit [OF inv] by auto
  next
    case False
    then obtain img where pid: "0 < pid" and img: "proc_get_image (kn_procs k) pid = Some img" "im_loaded img" "im_context_valid img"
      by (auto split: option.splits)
    then obtain x k1 where x: "task_run_user_until_stop M pid 0 [] ctx k = Some (x, k1)" and
      k': "k' = k1 \<or> (\<exists>s. k' = emit (ec_output ctx) s k1) \<or> (\<exists>rc. k' = exit_and_reap pid rc k1)"
      using run by (fastforce simp: exec_resume_pid_def bind_eq_Some_conv Let_def report_pid_def split: option.splits if_splits)
    have r1: "did P k k1" by (rule run_until_stop_ran [OF inv h P _ _ x, THEN ran_ok_did]) (use cwd in \<open>auto simp: args_ok_def\<close>)
    note i1 = did_inv [OF r1]
    show ?thesis using k' r1 did_trans [OF r1 did_exit_and_reap [OF i1 pid]] did_trans [OF r1 did_emit [OF i1]] by auto
  qed
qed

text \<open>The task that is resumed keeps its slot and its pid while it runs.\<close>

definition ready_pids :: "kernel \<Rightarrow> int set" where
  "ready_pids k = {tk_pid t |t. t \<in> set (tasks (kn_sched k)) \<and> tk_state t = TASK_READY}"

lemma resume_next_ran:
  assumes inv: "kn_inv k" "idle k" and h: "cd_lists (kn_fs k)" "confined M (user_stacks_at (kn_elf k))" and P: "0 \<in> P" "\<forall>pid \<in> ready_pids k. sint (word_of_int pid :: u32) \<in> P"
    and run: "task_resume_next_ready_user M mbi magic k = Some (r, k')"
  shows "did P k k'"
proof (cases "find_index (resumable (kn_sched k)) (tasks (kn_sched k))")
  case None
  then show ?thesis using run inv by (simp add: task_resume_next_ready_user_def)
next
  case (Some i)
  note t = kn_inv_tables [OF inv(1)]
  let ?pid = "tk_pid (tasks (kn_sched k) ! i)"
  have i: "i < length (tasks (kn_sched k))" "resumable (kn_sched k) (tasks (kn_sched k) ! i)" using find_index_SomeD(1,2) [OF Some] by simp_all
  then obtain img where img: "proc_get_image (kn_procs k) ?pid = Some img" "im_loaded img" "0 < ?pid" and st: "tk_state (tasks (kn_sched k) ! i) = TASK_READY"
    by (auto simp: resumable_def split: option.splits)
  have "?pid \<in> ready_pids k" using i(1) st by (auto simp: ready_pids_def intro: nth_mem)
  then have p: "sint (word_of_int ?pid :: u32) \<in> P" using P(2) by blast
  let ?ctx = "\<lparr>ec_output = im_output img, ec_cwd = im_cwd img, ec_mbi = mbi, ec_magic = magic\<rparr>"
  define rest where "rest = (\<lambda>(r, k). Some (case r of None \<Rightarrow> (False, k) | Some (code, reason) \<Rightarrow>
      (True, if reason = EXEC_STOP_EXITED then exit_and_reap (tk_pid (tasks (kn_sched k) ! i)) code k else k)))"
  have "task_run_user_until_stop M ?pid 0 [] ?ctx k \<bind> rest = Some (r, k')"
    unfolding rest_def using run Some img(1) by (simp add: task_resume_next_ready_user_def Let_def split del: if_split)
  then obtain x k1 where x: "task_run_user_until_stop M ?pid 0 [] ?ctx k = Some (x, k1)" and rest: "rest (x, k1) = Some (r, k')"
    unfolding bind_eq_Some_conv by (metis surj_pair)
  have "image_ok (user_stacks_at (kn_elf k)) (kn_dirs k) img"
    using t(3) img by (auto simp: images_ok_def proc_get_image_map [OF sched_inv_procs [OF t(1)]])
  then have r1: "ran_ok P k k1"
    by (intro run_until_stop_ran [OF inv h P(1) p _ _ x]) (auto simp: args_ok_def image_ok_def)
  then have "kn_pids k1 = kn_pids k" by (simp add: ran_ok_def ran_in_def)
  then have pid: "tk_pid (tasks (kn_sched k1) ! i) = ?pid" using i(1) by (metis length_map nth_map)
  have "did P k (exit_and_reap ?pid c k1)" for c
    by (rule did_trans [OF ran_ok_did [OF r1] did_exit_and_reap [OF ran_ok_inv [OF r1] img(3)]])
  then show ?thesis using rest ran_ok_did [OF r1] by (auto simp: rest_def pid split: option.splits prod.splits if_splits)
qed

section \<open>Returning\<close>

text \<open>Every run of the user code ends: by an exit, a yield or a wait that is not over.\<close>

definition stops :: "machine \<Rightarrow> bool" where
  "stops M \<longleftrightarrow> (\<forall>r k. user_run M r k \<noteq> None)"

definition ends :: "'a option \<Rightarrow> bool" where "ends m \<longleftrightarrow> m \<noteq> None"

lemma ends_simps [simp]: "ends (Some x)" "ends (map_option f m) \<longleftrightarrow> ends m"
  by (simp_all add: ends_def)

lemma bind_ends: "ends m \<Longrightarrow> (\<And>x k. m = Some (x, k) \<Longrightarrow> ends (f (x, k))) \<Longrightarrow> ends (m \<bind> f)"
  by (cases m) (auto simp: ends_def)

lemma read_ends: "kn_inv k \<Longrightarrow> cd_lists (kn_fs k) \<Longrightarrow> cwd \<in> kn_dirs k \<Longrightarrow> ends (vfs_read_file (kn_fs k) cwd path k)"
  using read_returns by (simp add: ends_def)

lemma user_mode_returns:
  assumes "stops M"
  shows "ends (in_user_mode M r k)" "ends (enter_user_mode M eip esp k)" "ends (resume_user_mode M r k)"
  using assms by (auto simp: ends_def stops_def in_user_mode_def enter_user_mode_def resume_user_mode_def)

lemma run_image_returns:
  assumes "stops M"
  shows "ends (elf_execute_image M img pid argc argv out k)" "ends (elf_resume_image M img pid out k)"
  unfolding elf_execute_image_def elf_resume_image_def using user_mode_returns [OF assms]
  by (auto intro!: bind_ends split: prod.split sum.split)

lemma run_until_stop_returns:
  assumes "stops M" shows "ends (task_run_user_until_stop M pid argc argv ctx k)"
  unfolding task_run_user_until_stop_def Let_def using run_image_returns [OF assms]
  by (auto intro!: bind_ends split: option.split)

lemma run_loaded_returns:
  assumes "stops M" shows "ends (exec_run_loaded M pid plan data sz argc argv ctx k)"
  unfolding exec_run_loaded_def Let_def using run_until_stop_returns [OF assms]
  by (auto intro!: bind_ends split: prod.split sum.split)

lemma run_elf_returns:
  assumes s: "stops M" and m: "may_run M k" and cwd: "ec_cwd ctx \<in> kn_dirs k"
  shows "ends (exec_run_elf_path M path argc argv ctx k)"
proof -
  have i: "kn_inv k" "cd_lists (kn_fs k)" using m by (simp_all add: may_run_def)
  obtain x k1 where x: "vfs_read_file (kn_fs k) (ec_cwd ctx) (Some path) k = Some (x, k1)" using read_returns [OF i cwd, of "Some path"] by auto
  note s1 = may_run_read [OF m cwd x]
  have i1: "kn_inv k1" "cd_lists (kn_fs k1)" "ec_cwd ctx \<in> kn_dirs k1" using s1 cwd by (auto simp: may_run_def)
  have "ends (elf_prepare_load_plan_from_vfs (ec_cwd ctx) path (ec_output ctx) k1)"
    unfolding elf_prepare_load_plan_from_vfs_def Let_def using read_ends [OF i1]
    by (auto intro!: bind_ends split: option.split)
  then show ?thesis unfolding exec_run_elf_path_def Let_def x using run_loaded_returns [OF s]
    by (auto intro!: bind_ends split: option.split prod.split)
qed

lemma exec_try_returns:
  assumes s: "stops M" and "may_run M k" and "ec_cwd ctx \<in> kn_dirs k"
  shows "ends (exec_try M paths argc argv ctx k)"
  using assms(2-)
proof (induction paths arbitrary: k)
  case (Cons path paths)
  have i: "kn_inv k" "cd_lists (kn_fs k)" using Cons.prems by (simp_all add: may_run_def)
  obtain x k1 where x: "vfs_read_file (kn_fs k) (ec_cwd ctx) (Some path) k = Some (x, k1)"
    using read_returns [OF i Cons.prems(2), of "Some path"] by auto
  note s1 = may_run_read [OF Cons.prems x]
  have c: "ec_cwd ctx \<in> kn_dirs k1" using s1(2) Cons.prems(2) by blast
  obtain b where "exec_is_elf_path (ec_cwd ctx) path k = Some (b, k1)" using x by (cases x) (auto simp: exec_is_elf_path_def)
  then show ?case using Cons.IH [OF s1(1) c] run_elf_returns [OF s s1(1) c] by (auto intro!: bind_ends split: option.split)
qed simp

lemma exec_run_path_returns:
  assumes s: "stops M" and "may_run M k" and "ec_cwd ctx \<in> kn_dirs k"
  shows "ends (exec_run_path M path argc argv ctx k)"
  using exec_try_returns [OF assms] user_mode_returns(2) [OF s]
  unfolding exec_run_path_def prog_ring3test_def ring3_test_def Let_def
  by (auto intro!: bind_ends split: option.split)

section \<open>Any program\<close>


text \<open>A program that exits at once, and a kernel without files.\<close>

definition demo_machine :: machine where
  "demo_machine = \<lparr>user_code = (\<lambda>r m. Some (m, [], r\<lparr>uc_eax := 60, uc_ebx := 7, uc_cs := 0x1B\<rparr>)), entry_regs = im_context demo_user_image,
     ring3_user_stub = 0x400000, ring3_user_stack = 0x500000\<rparr>"

definition demo_idle :: kernel where
  "demo_idle = return_to_kernel (demo_kernel\<lparr>mem := mem demo_vfs\<rparr>)"

lemma demo_machine_stops: "stops demo_machine"
proof -
  have "(0x1B :: u32) AND 3 = 3" by code_simp
  then show ?thesis unfolding stops_def by (subst user_run.simps) (simp add: demo_machine_def user_trap_def Let_def)
qed

lemma demo_machine_confined: "confined demo_machine st"
  by (simp add: confined_def demo_machine_def)

lemma demo_idle_inv: "kn_inv demo_idle" "idle demo_idle" "kn_fs demo_idle = demo_fs0" "vfs_abs demo_idle = [[] \<mapsto> Directory]"
proof -
  have i: "kn_inv (demo_kernel\<lparr>mem := mem demo_vfs\<rparr>)" using demo_kernel_inv by simp
  then have t: "tables_inv demo_idle" by (simp add: kn_inv_def tables_inv_def demo_idle_def return_to_kernel_def)
  note kernel_step [OF i this]
  then show "kn_inv demo_idle" by (simp add: demo_idle_def return_to_kernel_def)
  show "idle demo_idle" "kn_fs demo_idle = demo_fs0" by (simp_all add: demo_idle_def return_to_kernel_def idle_def demo_kernel_runs(2))
  have "vfs_abs demo_idle = vfs_abs demo_vfs"
    by (rule tree_cong(1)) (simp_all add: demo_idle_def return_to_kernel_def demo_kernel_def vfs_state.defs del: mem_write.simps)
  then show "vfs_abs demo_idle = [[] \<mapsto> Directory]" by (simp add: demo_vfs_inv(3))
qed

lemma demo_fs0_unmounted: "find_mount demo_fs0 (Some CDROM_MOUNT) = None"
  by code_simp

lemma demo_programs_ok: "programs_ok demo_idle"
  unfolding programs_ok_def
proof (intro allI impI, elim conjE)
  fix k1 cwd path out plan k2
  assume a: "kn_inv k1" "vfs_abs k1 = vfs_abs demo_idle" "kn_fs k1 = kn_fs demo_idle" "cwd \<in> kn_dirs k1"
    and e: "elf_prepare_load_plan_from_vfs cwd path out k1 = Some (Some plan, k2)"
  obtain x k3 where x: "vfs_read_file demo_fs0 cwd (Some path) k1 = Some (x, k3)" "x \<noteq> None"
    using e by (fastforce simp: elf_prepare_load_plan_from_vfs_def a(3) demo_idle_inv(3) Let_def bind_eq_Some_conv split: option.splits)
  have "run_inv (cwd, k1)" using a(1,4) kn_inv_vfs by (simp add: run_inv_dirs)
  then obtain ps where ps: "vfs_inv k1" "cwd_at k1 cwd ps" by (auto simp: run_inv_def)
  have m: "read_mounted demo_fs0 sub s = Some (None, s)" for sub and s :: kernel
    using demo_fs0_unmounted by (simp add: read_mounted_def fs_read_file_from_mount_def)
  show "\<forall>sg \<in> set (pl_segments plan). no_wrap_segment sg"
  proof (cases "on_cdrom ps (Some path)")
    case True
    then show ?thesis
      using x check_path_spec [OF ps, of "Some path"] m by (auto simp: vfs_read_file_def on_cdrom_def split: option.splits)
  next
    case False
    then show ?thesis using x read_file_spec [OF ps False, of demo_fs0] a(2)
      by (auto simp: demo_idle_inv(4) split: option.splits if_splits)
  qed
qed


end
