(* ===== verification/ShellInv.thy ===== *)
theory ShellInv
  imports Shell ExecProps
begin

text \<open>
  What the shell keeps of the state: the invariant of the kernel and of the console, and its own
  input buffer and current directory.
\<close>

section \<open>Steps that keep an invariant\<close>

text \<open>
  Functions over a state that may fail: \<open>good s r\<close> says that \<open>r\<close> has not failed and that its
  state satisfies the invariant and is related to \<open>s\<close>; \<open>gives\<close> is the same with a value.
\<close>

locale guarded_steps =
  fixes inv :: "'s \<Rightarrow> bool" and step :: "'s \<Rightarrow> 's \<Rightarrow> bool"
  assumes step_refl: "step s s"
    and step_trans: "step s s1 \<Longrightarrow> step s1 s2 \<Longrightarrow> step s s2"
begin

definition good :: "'s \<Rightarrow> 's option \<Rightarrow> bool" where
  "good s r \<longleftrightarrow> (\<exists>s'. r = Some s' \<and> inv s' \<and> step s s')"

definition gives :: "('a \<Rightarrow> 's \<Rightarrow> bool) \<Rightarrow> 's \<Rightarrow> ('a \<times> 's) option \<Rightarrow> bool" where
  "gives Q s r \<longleftrightarrow> (\<exists>x s'. r = Some (x, s') \<and> inv s' \<and> step s s' \<and> Q x s')"

lemma good_self [simp]: "inv s \<Longrightarrow> good s (Some s)"
  by (simp add: good_def step_refl)

lemma good_trans: "step s s1 \<Longrightarrow> good s1 r \<Longrightarrow> good s r"
  using step_trans by (auto simp: good_def)

lemma gives_trans: "step s s1 \<Longrightarrow> gives Q s1 r \<Longrightarrow> gives Q s r"
  unfolding gives_def using step_trans by blast

lemma good_bind: "good s r \<Longrightarrow> (\<And>s'. inv s' \<Longrightarrow> step s s' \<Longrightarrow> good s' (f s')) \<Longrightarrow> good s (r \<bind> f)"
  by (auto simp: good_def [of s r] intro: good_trans)

lemma gives_bind: "gives Q s r \<Longrightarrow> (\<And>x s'. inv s' \<Longrightarrow> step s s' \<Longrightarrow> Q x s' \<Longrightarrow> good s' (f (x, s'))) \<Longrightarrow> good s (r \<bind> f)"
  by (auto simp: gives_def [of Q s r] intro: good_trans)

lemma gives_ret: "good s r \<Longrightarrow> (\<And>s'. step s s' \<Longrightarrow> inv s' \<Longrightarrow> Q x s') \<Longrightarrow> gives Q s (map_option (Pair x) r)"
  by (auto simp: good_def gives_def)

lemma gives_self [simp]: "inv s \<Longrightarrow> Q x s \<Longrightarrow> gives Q s (Some (x, s))"
  by (simp add: gives_def step_refl)

lemma good_snd: "gives Q s r \<Longrightarrow> good s (map_option snd r)"
  by (auto simp: good_def gives_def)

lemma gives_chain: "gives Q s r \<Longrightarrow> (\<And>x s'. inv s' \<Longrightarrow> step s s' \<Longrightarrow> Q x s' \<Longrightarrow> gives R s' (f (x, s'))) \<Longrightarrow> gives R s (r \<bind> f)"
  by (auto simp: gives_def [of Q s r] intro: gives_trans)

end

definition world_ok :: "shell_env \<Rightarrow> world \<Rightarrow> bool" where
  "world_ok env w \<longleftrightarrow> (let k = w_kernel w in kn_inv k \<and> idle k \<and> cd_lists (kn_fs k) \<and>
     confined (se_machine env) (user_stacks_at (kn_elf k)) \<and> kn_output k = []) \<and> con_inv (w_console w)"

definition kept :: "kernel \<Rightarrow> kernel \<Rightarrow> bool" where
  "kept k k' \<longleftrightarrow> kn_fs k' = kn_fs k \<and> user_stacks_at (kn_elf k') = user_stacks_at (kn_elf k) \<and> kn_dirs k \<subseteq> kn_dirs k'"

definition went :: "world \<Rightarrow> world \<Rightarrow> bool" where
  "went w w' \<longleftrightarrow> kept (w_kernel w) (w_kernel w')"

interpretation sh: guarded_steps "world_ok env" went for env
  by unfold_locales (auto simp: went_def kept_def)

definition ctx_ok :: "kernel \<Rightarrow> shell_context \<Rightarrow> bool" where
  "ctx_ok k ctx \<longleftrightarrow> length (sh_input ctx) = 128 \<and> unat (sh_len ctx) \<le> 127 \<and> sh_cwd ctx \<in> kn_dirs k"

lemma ctx_ok_went: "ctx_ok (w_kernel w) ctx \<Longrightarrow> went w w' \<Longrightarrow> ctx_ok (w_kernel w') ctx"
  by (auto simp: ctx_ok_def went_def kept_def)

lemma world_okD:
  assumes "world_ok env w"
  shows "kn_inv (w_kernel w)" "idle (w_kernel w)" "cd_lists (kn_fs (w_kernel w))"
    "confined (se_machine env) (user_stacks_at (kn_elf (w_kernel w)))" "kn_output (w_kernel w) = []" "con_inv (w_console w)"
  using assms by (simp_all add: world_ok_def Let_def)

section \<open>Printing\<close>

lemma print_all_safe: "con_inv c \<Longrightarrow> con_safe c (print_all ps c)"
proof (induction ps arbitrary: c)
  case (Cons p ps)
  then show ?case by (cases p) (auto intro!: con_safe_bind console_print_safe)
qed (simp add: con_safe_self)

lemma in_console_good:
  assumes w: "world_ok env w" and f: "\<And>c. con_inv c \<Longrightarrow> con_safe c (f c)"
  shows "sh.good env w (in_console f w)"
proof -
  obtain c where "f (w_console w) = Some c" "con_inv c" using f [OF world_okD(6) [OF w]] by (auto simp: con_safe_def)
  then show ?thesis using w by (simp add: sh.good_def in_console_def world_ok_def went_def kept_def)
qed

lemmas print_safe = console_print_safe console_putchar_safe print_all_safe term_clear_safe
  console_print_safe [of _ CONSOLE_BOTH, folded term_print_def]

lemma number_safe:
  assumes "con_inv c" shows "con_safe c (console_print_u32_dec out v c)" "con_safe c (console_print_hex_u32 out v c)"
    "con_safe c (term_print_u32_dec v c)" "con_safe c (term_print_hex_u32 v c)"
  using console_print_safe [OF assms]
  by (simp_all add: console_print_u32_dec_def console_print_hex_u32_def term_print_u32_dec_def term_print_hex_u32_def)

lemma say_good:
  assumes "world_ok env w"
  shows "sh.good env w (say out s w)" "sh.good env w (say_char out ch w)" "sh.good env w (say_dec out v w)"
    "sh.good env w (say_hex out v w)" "sh.good env w (in_console term_clear w)" "sh.good env w (in_console (print_all ps) w)"
  by (rule in_console_good [OF assms], rule print_safe number_safe, assumption)+

lemma panic_header_safe: "con_inv c \<Longrightarrow> con_safe c (panic_header c)"
proof -
  assume "con_inv c"
  then have "con_safe c (Some (term_set_color 15 4 c) \<bind> (\<lambda>c. term_clear c \<bind> (\<lambda>c.
      term_print (''A problem has been detected and SLOP OS has been shut down'' @ newline) c \<bind>
      term_print (''to prevent damage to your computer.'' @ newline @ newline))))"
    by (intro con_safe_bind term_set_color_safe print_safe) auto
  then show ?thesis by (simp add: panic_header_def)
qed

lemma panic_message_good:
  assumes w: "world_ok env w" shows "\<exists>w'. kernel_panic_message msg w = Some (Halted w') \<and> world_ok env w' \<and> went w w'"
proof -
  have "sh.good env w (in_console (\<lambda>c. panic_header c \<bind> (\<lambda>c. term_print (''EXCEPTION DETAILS'' @ newline) c \<bind> (\<lambda>c.
      term_print ''  manual panic requested'' c \<bind> (\<lambda>c.
      (case msg of None \<Rightarrow> Some c | Some s \<Rightarrow> if deref s \<noteq> NUL then term_print '': '' c \<bind> term_print s else Some c) \<bind>
      term_print newline)))) w)"
    by (intro in_console_good [OF w] con_safe_bind print_safe panic_header_safe)
      (auto intro!: con_safe_self con_safe_bind print_safe split: option.split)
  then obtain w' where r: "in_console (\<lambda>c. panic_header c \<bind> (\<lambda>c. term_print (''EXCEPTION DETAILS'' @ newline) c \<bind> (\<lambda>c.
      term_print ''  manual panic requested'' c \<bind> (\<lambda>c.
      (case msg of None \<Rightarrow> Some c | Some s \<Rightarrow> if deref s \<noteq> NUL then term_print '': '' c \<bind> term_print s else Some c) \<bind>
      term_print newline)))) w = Some w'" "world_ok env w'" "went w w'" by (auto simp: sh.good_def)
  then show ?thesis by (auto simp: kernel_panic_message_def in_console_def bind_eq_Some_conv)
qed

section \<open>Calls of the kernel\<close>

lemma did_kept: "did P k k' \<Longrightarrow> kept k k'"
  using did_fixed by (simp add: kept_def)

lemma forget_output: "kn_inv k \<Longrightarrow> kn_inv (k\<lparr>kn_output := []\<rparr>)"
  by (rule kn_inv_tree) (simp_all add: kn_inv_def tables_inv_def files_inv_def)

text \<open>A call that returns and keeps what the shell relies on; its output can be printed.\<close>

lemma in_kernel_gives:
  assumes w: "world_ok env w" and f: "f (w_kernel w) = Some (r, k)" and k: "kn_inv k" "idle k" "kept (w_kernel w) k"
    and Q: "\<And>w'. w_kernel w' = k\<lparr>kn_output := []\<rparr> \<Longrightarrow> Q r w'"
  shows "sh.gives env Q w (in_kernel f w)"
proof -
  obtain c where c: "print_all (kn_output k) (w_console w) = Some c" "con_inv c"
    using print_all_safe [OF world_okD(6) [OF w], of "kn_output k"] by (auto simp: con_safe_def)
  let ?w = "w\<lparr>w_kernel := k\<lparr>kn_output := []\<rparr>, w_console := c\<rparr>"
  have "world_ok env ?w"
    using w k c(2) by (simp add: world_ok_def Let_def kept_def idle_def forget_output)
  moreover have "went w ?w" using k(3) by (simp add: went_def kept_def)
  ultimately show ?thesis using f c(1) Q by (simp add: sh.gives_def in_kernel_def)
qed

lemma in_kernel_did:
  assumes "world_ok env w" and "f (w_kernel w) = Some (r, k)" and "did P (w_kernel w) k"
  shows "sh.gives env (\<lambda>x w'. x = r) w (in_kernel f w)"
  by (rule in_kernel_gives [where f = f, OF assms(1,2)]) (use assms(3) did_inv did_kept in auto)

lemma fs_did:
  assumes "kn_inv k" and "idle k" and "vfs_ext k k'" and "vfs_frame k k'"
  shows "kn_inv k' \<and> idle k' \<and> kept k k'"
proof -
  note s = fs_call_step [OF assms(1,3,4)]
  then show ?thesis using assms(2) by (simp add: user_step_def idle_def kept_def)
qed

section \<open>Directories and files\<close>

lemma ensure_loop_frame:
  "heap_inv (heap s) \<Longrightarrow> ensure_loop node p s = Some (ok, s') \<Longrightarrow> vfs_frame s s'"
proof (induction node p s rule: ensure_loop.induct)
  case (1 node p s)
  show ?case
  proof (cases "s' = s")
    case False
    then obtain cmp rest found child s1 where c: "component_loop p (VFS_NAME_MAX + 1) [] = Some (cmp, rest)" "cmp \<noteq> []" "deref p \<noteq> NUL"
      "vfs_find_child (vfs_nodes s) node cmp = Some found"
      "(if found = NULL then vfs_alloc_node cmp VFS_NODE_DIR node s else Some (found, s)) = Some (child, s1)"
      and rest: "s' = s1 \<or> child \<noteq> NULL \<and> (\<exists>c. vfs_nodes s1 child = Some c \<and> vn_type c = VFS_NODE_DIR) \<and> ensure_loop child (skip_slashes rest) s1 = Some (ok, s')"
      using "1.prems"(2) by (subst (asm) ensure_loop.simps) (auto simp: bind_eq_Some_conv split: if_splits option.splits)
    have f: "vfs_frame s s1" using c(5) alloc_node_frame [OF "1.prems"(1)] "1.prems"(1) by (auto split: if_splits)
    show ?thesis
    proof (cases "s' = s1")
      case False
      then obtain d where d: "child \<noteq> NULL" "vfs_nodes s1 child = Some d" "vn_type d = VFS_NODE_DIR" "ensure_loop child (skip_slashes rest) s1 = Some (ok, s')"
        using rest by blast
      have "vfs_frame s1 s'" using "1.IH" [OF _ c(1) refl _ c(4) c(5) refl] c(2,3) d vfs_frame_inv [OF f] by simp
      then show ?thesis by (rule vfs_frame_trans [OF f])
    qed (use f in simp)
  qed (use "1.prems"(1) in simp)
qed

lemma change_dir_frame:
  assumes inv: "heap_inv (heap s)" and r: "vfs_change_dir fs cwd path s = Some (ok, cwd', s')"
  shows "vfs_frame s s'"
proof -
  have e: "vfs_frame s s2" if "enter_mounted cwd check s = Some (b, c, s2)" for check b c s2
    using that ensure_loop_frame [OF inv] inv
    by (auto simp: enter_mounted_def vfs_ensure_dir_abs_def bind_eq_Some_conv split: if_splits option.splits)
  show ?thesis using r e inv by (auto simp: vfs_change_dir_def bind_eq_Some_conv split: if_splits option.splits)
qed

lemma kernel_cwd:
  assumes "kn_inv k" and "cwd \<in> kn_dirs k" obtains ps where "cwd_at k cwd ps"
proof -
  have "run_inv (cwd, k)" using assms kn_inv_vfs by (simp add: run_inv_dirs)
  then show thesis using that by (auto simp: run_inv_def)
qed

lemma change_dir_kept:
  assumes inv: "kn_inv k" "idle k" and cd: "cd_lists (kn_fs k)" and cwd: "cwd \<in> kn_dirs k"
  shows "\<exists>ok cwd' k'. vfs_change_dir (kn_fs k) cwd path k = Some (ok, cwd', k') \<and> kn_inv k' \<and> idle k' \<and> kept k k' \<and> cwd' \<in> kn_dirs k'"
proof -
  obtain ps where ps: "cwd_at k cwd ps" using kernel_cwd [OF inv(1) cwd] .
  obtain ok cwd' k' where r: "vfs_change_dir (kn_fs k) cwd path k = Some (ok, cwd', k')" "adds_dirs k k'" "\<not> ok \<longrightarrow> cwd' = cwd"
    "ok \<longrightarrow> (\<exists>qs. cwd_at k' cwd' qs \<and> vfs_abs k' qs = Some Directory)"
    using change_dir_spec [OF kn_inv_vfs [OF inv(1)] ps, of "kn_fs k" path] cd by (auto simp: good_cd_def cd_lists_def)
  have e: "vfs_ext k k'" using r(2) by (simp add: adds_dirs_def)
  note f = fs_did [OF inv e change_dir_frame [OF kn_inv_heap [OF inv(1)] r(1)]]
  have "cwd' \<in> kn_dirs k'"
  proof (cases ok)
    case True
    then have "run_inv (cwd', k')" using r(4) f kn_inv_vfs by (auto simp: run_inv_def)
    then show ?thesis by (simp add: run_inv_dirs)
  next
    case False
    then show ?thesis using r(3) cwd f by (auto simp: kept_def)
  qed
  then show ?thesis using r(1) f by blast
qed

lemma kmalloc_kept:
  assumes inv: "kn_inv k" "idle k" and m: "kmalloc n k = (p, k')"
  shows "kn_inv k' \<and> idle k' \<and> kept k k'"
proof (cases "p = NULL")
  case True
  then have "k' = k" using m by (intro kmalloc_NULL [OF kn_inv_heap [OF inv(1)]]) simp
  then show ?thesis using inv by (simp add: kept_def)
next
  case False
  have me: "mem k' = mem k" using kmalloc_keeps(4) [OF m] .
  have "vfs_ext k (k'\<lparr>mem := mem k\<rparr>)" by (rule fill_block_ext(1) [OF kn_inv_vfs [OF inv(1)] m False]) simp
  moreover have "k'\<lparr>mem := mem k\<rparr> = k'" using me by simp
  ultimately have e: "vfs_ext k k'" by simp
  have "vfs_frame k (k'\<lparr>mem := mem k\<rparr>)" by (rule vfs_frame_kmalloc [OF kn_inv_heap [OF inv(1)] m])
  then show ?thesis using fs_did [OF inv e] by simp
qed

end
