(* ===== verification/ShellProps.thy ===== *)
theory ShellProps
  imports ShellInv
begin

text \<open>
  The shell under any input: every line and every character keeps the invariant of the whole
  system.
\<close>

section \<open>The commands\<close>

lemma help_good: "world_ok env w \<Longrightarrow> sh.good env w (shell_print_help ctx w)"
  unfolding shell_print_help_def by (rule say_good)

lemma heap_summary_good: "world_ok env w \<Longrightarrow> sh.good env w (shell_print_heap_summary ctx w)"
  unfolding shell_print_heap_summary_def Let_def by (auto intro!: sh.good_bind say_good)

lemma alloc_good:
  assumes w: "world_ok env w" shows "sh.good env w (shell_handle_alloc ctx arg w)"
proof -
  obtain sz ok where p: "parse_u32_dec arg = (sz, ok)" by fastforce
  obtain ptr k where k: "kmalloc sz (w_kernel w) = (ptr, k)" by fastforce
  have "kn_inv k \<and> idle k \<and> kept (w_kernel w) k" by (rule kmalloc_kept [OF world_okD(1,2) [OF w] k])
  then have "sh.gives env (\<lambda>x w'. x = ptr) w (in_kernel (\<lambda>k. Some (kmalloc sz k)) w)"
    by (intro in_kernel_gives [where f = "\<lambda>k. Some (kmalloc sz k)" and k = k, OF w]) (simp_all add: k)
  then show ?thesis unfolding shell_handle_alloc_def Let_def p
    by (auto intro!: say_good [OF w]) (auto intro!: sh.gives_bind sh.good_bind say_good)
qed

lemma cd_gives:
  assumes w: "world_ok env w" and ctx: "ctx_ok (w_kernel w) ctx"
  shows "sh.gives env (\<lambda>ctx' w'. ctx_ok (w_kernel w') ctx') w (shell_handle_cd ctx arg w)"
proof (cases "deref (skip_spaces arg) = NUL")
  case True
  then show ?thesis unfolding shell_handle_cd_def Let_def using ctx_ok_went [OF ctx]
    by (auto intro!: sh.gives_ret say_good w)
next
  case False
  note k = world_okD [OF w]
  obtain ok cwd' k' where r: "vfs_change_dir (kn_fs (w_kernel w)) (sh_cwd ctx) (Some (skip_spaces arg)) (w_kernel w) = Some (ok, cwd', k')"
    "kn_inv k'" "idle k'" "kept (w_kernel w) k'" "cwd' \<in> kn_dirs k'"
    using change_dir_kept [OF k(1-3), of "sh_cwd ctx" "Some (skip_spaces arg)"] ctx by (auto simp: ctx_ok_def)
  let ?f = "\<lambda>k. map_option (\<lambda>(ok, cwd, k). ((ok, cwd), k)) (vfs_change_dir (kn_fs k) (sh_cwd ctx) (Some (skip_spaces arg)) k)"
  have g: "sh.gives env (\<lambda>x w'. ctx_ok (w_kernel w') (ctx\<lparr>sh_cwd := snd x\<rparr>)) w (in_kernel ?f w)"
    by (rule in_kernel_gives [where f = ?f, OF w]) (use r ctx in \<open>auto simp: ctx_ok_def\<close>)
  show ?thesis unfolding shell_handle_cd_def Let_def using False
    by (auto intro!: sh.gives_chain [OF g] sh.gives_ret say_good split: prod.split dest: ctx_ok_went)
qed

lemma dir_good:
  assumes w: "world_ok env w" and ctx: "ctx_ok (w_kernel w) ctx"
  shows "sh.good env w (shell_handle_dir ctx arg w)"
proof -
  note k = world_okD [OF w]
  obtain ps where ps: "cwd_at (w_kernel w) (sh_cwd ctx) ps" using kernel_cwd [OF k(1)] ctx by (auto simp: ctx_ok_def)
  let ?path = "Some (if deref (skip_spaces arg) = NUL then [] else skip_spaces arg)"
  obtain ls where "vfs_list (kn_fs (w_kernel w)) (sh_cwd ctx) ?path (w_kernel w) = Some ls"
    using list_returns [OF kn_inv_vfs [OF k(1)] ps k(3), of ?path] by auto
  then show ?thesis unfolding shell_handle_dir_def Let_def by (simp add: say_good [OF w])
qed

lemma file_good:
  assumes w: "world_ok env w" and ctx: "ctx_ok (w_kernel w) ctx"
  shows "sh.good env w (shell_handle_file ctx arg w)"
proof (cases "deref (skip_spaces arg) = NUL")
  case True
  then show ?thesis unfolding shell_handle_file_def Let_def by (simp add: say_good [OF w])
next
  case False
  note k = world_okD [OF w]
  have cwd: "sh_cwd ctx \<in> kn_dirs (w_kernel w)" using ctx by (simp add: ctx_ok_def)
  let ?f = "\<lambda>k. vfs_read_file (kn_fs k) (sh_cwd ctx) (Some (skip_spaces arg)) k"
  obtain r k' where r: "?f (w_kernel w) = Some (r, k')" using read_returns [OF k(1,3) cwd, of "Some (skip_spaces arg)"] by auto
  have "did UNIV (w_kernel w) k'" by (rule read_ran(1) [OF k(1,2) _ cwd r]) simp
  note g = in_kernel_did [where f = ?f, OF w r this]
  show ?thesis unfolding shell_handle_file_def Let_def using False
    by (auto intro!: sh.gives_bind [OF g] sh.good_bind say_good split: option.split prod.split)
qed

lemma split_args_length:
  assumes "a \<in> set (shell_split_args p n)" shows "length a \<le> length p + 1"
proof -
  have skip: "length (skip_spaces p) \<le> length p" for p by (induction p) auto
  have arg: "length (fst (arg_loop s a)) + length (snd (arg_loop s a)) = length s + length a" for s a by (induction s a rule: arg_loop.induct) auto
  show ?thesis using assms
  proof (induction n arbitrary: p)
    case (Suc n)
    let ?p = "skip_spaces p"
    obtain x rest where x: "arg_loop ?p [] = (x, rest)" by fastforce
    have l: "length x + length rest \<le> length p" using arg [of ?p "[]"] skip [of p] x by simp
    have sub: "a \<in> set (shell_split_args q n) \<Longrightarrow> length q \<le> length p \<Longrightarrow> length a \<le> length p + 1" for q
      using Suc.IH [of q] by simp
    consider "a = ''>''" | "a = x" | "a \<in> set (shell_split_args (tl ?p) n)" | "rest \<noteq> []" "a \<in> set (shell_split_args (NUL # tl rest) n)"
      | "a \<in> set (shell_split_args rest n)" | "a \<in> set (shell_split_args (tl rest) n)"
      using Suc.prems x by (cases rest) (auto simp: Let_def split: if_splits)
    then show ?case
    proof cases
      case 3
      then show ?thesis using sub [of "tl ?p"] skip [of p] by simp
    next
      case 4
      then show ?thesis using sub [of "NUL # tl rest"] l by simp
    qed (use sub [of rest] sub [of "tl rest"] l in auto)
  qed simp
qed

lemma echo_good:
  assumes w: "world_ok env w" and ctx: "ctx_ok (w_kernel w) ctx" and line: "length line \<le> 128"
  shows "sh.good env w (shell_handle_echo env ctx line w)"
proof -
  let ?argv = "shell_split_args line SHELL_ARG_MAX"
  note k = world_okD [OF w]
  have g: "sh.good env w (in_kernel (\<lambda>k. vfs_write_file (sh_cwd ctx) (Some a) d sz (k\<lparr>mem := mm (mem k)\<rparr>)) w \<bind>
      (\<lambda>(ok, w). if \<not> ok then say (sh_output ctx) s w else Some w))" if a: "a \<in> set ?argv" for a d sz mm s
  proof -
    let ?k = "(w_kernel w)\<lparr>mem := mm (mem (w_kernel w))\<rparr>"
    let ?f = "\<lambda>k. vfs_write_file (sh_cwd ctx) (Some a) d sz (k\<lparr>mem := mm (mem k)\<rparr>)"
    have i: "kn_inv ?k" "idle ?k" using k(1,2) by (simp_all add: idle_def)
    have "sh_cwd ctx \<in> kn_dirs ?k" using ctx by (simp add: ctx_ok_def)
    then obtain ps where ps: "cwd_at ?k (sh_cwd ctx) ps" using kernel_cwd [OF i(1)] by blast
    have "length a \<le> 129" using split_args_length [OF a] line by simp
    then obtain ok k' where r: "vfs_write_file (sh_cwd ctx) (Some a) d sz ?k = Some (ok, k')" and e: "vfs_ext ?k k'"
      using write_file_spec [OF kn_inv_vfs [OF i(1)] ps, of "Some a" d sz] by auto
    have k': "kn_inv k' \<and> idle k' \<and> kept ?k k'" by (rule fs_did [OF i e write_file_frame [OF kn_inv_heap [OF i(1)] r]])
    have "sh.gives env (\<lambda>x w'. x = ok) w (in_kernel ?f w)"
      by (rule in_kernel_gives [where f = ?f and k = k', OF w]) (use r k' in \<open>simp_all add: kept_def\<close>)
    then show ?thesis by (rule sh.gives_bind) (auto intro!: say_good)
  qed
  show ?thesis
  proof (cases "length ?argv < 2")
    case True
    then show ?thesis unfolding shell_handle_echo_def Let_def by (simp add: say_good [OF w])
  next
    case False
    show ?thesis
    proof (cases "find_index (\<lambda>a. str_eq a ''>'') (tl ?argv)")
      case None
      then show ?thesis unfolding shell_handle_echo_def Let_def using False by (auto intro!: sh.good_bind say_good w)
    next
      case (Some i)
      have "tl ?argv ! (i + 1) \<in> set ?argv" if "i + 1 < length (tl ?argv)"
        using nth_mem [OF that] list.set_sel(2) [of ?argv] False by fastforce
      then show ?thesis unfolding shell_handle_echo_def Let_def using False Some by (auto intro!: say_good w g)
    qed
  qed
qed

lemma printf_path_safe: "con_inv c \<Longrightarrow> con_safe c (console_printf out ''%s> '' [Va_str (Some path)] c)"
  unfolding console_printf_def by (auto intro!: con_safe_bind print_safe con_safe_self)

lemma prompt_good:
  assumes w: "world_ok env w" and ctx: "ctx_ok (w_kernel w) ctx"
  shows "sh.good env w (shell_print_prompt ctx w)"
proof -
  note k = world_okD [OF w]
  obtain ps where ps: "cwd_at (w_kernel w) (sh_cwd ctx) ps" using kernel_cwd [OF k(1)] ctx by (auto simp: ctx_ok_def)
  have p: "vfs_get_cwd_path (vfs_nodes (w_kernel w)) (vfs_root_node (w_kernel w)) (sh_cwd ctx) 128 = Some (cwd_text ps)"
    using get_cwd_path_spec [OF vfs_inv_tree [OF kn_inv_vfs [OF k(1)]]] ps by (simp add: cwd_at_def VFS_PATH_MAX_def)
  have c: "con_safe c (console_printf (sh_output ctx) ''%s> '' [Va_str (Some (cwd_text ps))] (term_set_color 10 0 c))" if "con_inv c" for c
    using con_safe_bind [OF term_set_color_safe [OF that, of 10 0] printf_path_safe] by simp
  obtain fg bg where "term_get_color (w_console w) = (fg, bg)" by fastforce
  then show ?thesis unfolding shell_print_prompt_def Let_def p
    by (auto intro!: sh.good_bind in_console_good w c term_set_color_safe)
qed

section \<open>Programs\<close>

lemma may_run_world: "world_ok env w \<Longrightarrow> programs_ok (w_kernel w) \<Longrightarrow> may_run (se_machine env) (w_kernel w)"
  by (simp add: world_ok_def may_run_def Let_def)

lemma did_good:
  assumes w: "world_ok env w" and e: "ends (f (w_kernel w))" and d: "\<And>x k. f (w_kernel w) = Some (x, k) \<Longrightarrow> did UNIV (w_kernel w) k"
  shows "sh.gives env (\<lambda>x w'. True) w (in_kernel f w)"
proof -
  obtain x k where f: "f (w_kernel w) = Some (x, k)" using e by (auto simp: ends_def)
  show ?thesis using in_kernel_did [where f = f, OF w f d [OF f]] by (auto simp: sh.gives_def)
qed

lemma resume_pid_ends: "stops M \<Longrightarrow> ends (exec_resume_pid M pid ctx k)"
  unfolding exec_resume_pid_def Let_def using run_until_stop_returns by (auto intro!: bind_ends split: option.split)

lemma resume_next_ends: "stops M \<Longrightarrow> ends (task_resume_next_ready_user M mbi magic k)"
proof (cases "find_index (resumable (kn_sched k)) (tasks (kn_sched k))")
  case (Some i)
  assume s: "stops M"
  have "resumable (kn_sched k) (tasks (kn_sched k) ! i)" using find_index_SomeD(2) [OF Some] .
  then obtain img where "proc_get_image (kn_procs k) (tk_pid (tasks (kn_sched k) ! i)) = Some img"
    by (auto simp: resumable_def split: option.splits)
  then show ?thesis unfolding task_resume_next_ready_user_def Let_def using Some run_until_stop_returns [OF s]
    by (auto intro!: bind_ends)
qed (simp add: task_resume_next_ready_user_def)

lemma handle_resume_good:
  assumes w: "world_ok env w" "programs_ok (w_kernel w)" "stops (se_machine env)" and ctx: "ctx_ok (w_kernel w) ctx"
  shows "sh.good env w (shell_handle_resume env ctx arg w)"
proof -
  obtain pid ok where p: "parse_u32_dec (skip_spaces arg) = (pid, ok)" by fastforce
  have cwd: "ec_cwd (shell_exec_context env ctx) \<in> kn_dirs (w_kernel w)" using ctx by (simp add: shell_exec_context_def ctx_ok_def)
  have "sh.gives env (\<lambda>x w'. True) w (in_kernel (exec_resume_pid (se_machine env) (sint pid) (shell_exec_context env ctx)) w)"
    by (rule did_good [OF w(1) resume_pid_ends [OF w(3)]]) (use exec_resume_ran [OF world_okD(1-4) [OF w(1)] _ _ cwd] in auto)
  then show ?thesis unfolding shell_handle_resume_def Let_def p by (auto intro!: sh.good_snd say_good w)
qed

lemma run_program_gives:
  assumes w: "world_ok env w" "programs_ok (w_kernel w)" "stops (se_machine env)" and ctx: "ctx_ok (w_kernel w) ctx"
    and line: "length line \<le> 128"
  shows "sh.gives env (\<lambda>x w'. True) w (shell_run_program env ctx line w)"
proof (cases "shell_split_args line SHELL_ARG_MAX")
  case Nil
  then show ?thesis using w(1) by (simp add: shell_run_program_def)
next
  case (Cons arg args)
  let ?ctx = "shell_exec_context env ctx" and ?arg = "if str_eq arg ''about'' then ''systeminfo'' else arg"
  have "length a \<le> 129" if "a \<in> set (?arg # args)" for a
    using that split_args_length [of a line SHELL_ARG_MAX] line Cons by (auto split: if_splits)
  then have a: "args_ok (map Some (?arg # args))" unfolding args_ok_def by fastforce
  have cwd: "ec_cwd ?ctx \<in> kn_dirs (w_kernel w)" using ctx by (simp add: shell_exec_context_def ctx_ok_def)
  note m = may_run_world [OF w(1,2)]
  have "sh.gives env (\<lambda>x w'. True) w (in_kernel (exec_run_path (se_machine env) path n (map Some (?arg # args)) ?ctx) w)" for path n
    using exec_run_path_returns [OF w(3) m cwd] exec_run_path_ran [OF m UNIV_I UNIV_I cwd a]
    by (intro did_good [OF w(1)]) blast+
  then show ?thesis unfolding shell_run_program_def Cons Let_def by simp
qed

section \<open>Lines and characters\<close>

text \<open>The processor has stopped, or the shell goes on in a good state.\<close>

definition shell_ok :: "shell_env \<Rightarrow> world \<Rightarrow> (shell_context \<times> world) outcome option \<Rightarrow> bool" where
  "shell_ok env w r \<longleftrightarrow> (\<exists>w'. r = Some (Halted w') \<and> world_ok env w') \<or>
     (\<exists>ctx w'. r = Some (Returned (ctx, w')) \<and> world_ok env w' \<and> went w w' \<and> ctx_ok (w_kernel w') ctx)"

lemma shell_ok_with: "sh.good env w r \<Longrightarrow> ctx_ok (w_kernel w) ctx \<Longrightarrow> shell_ok env w (with_ctx ctx r)"
  by (auto simp: sh.good_def shell_ok_def with_ctx_def intro: ctx_ok_went)

lemma shell_ok_returned:
  "sh.gives env (\<lambda>ctx w'. ctx_ok (w_kernel w') ctx) w r \<Longrightarrow> shell_ok env w (map_option Returned r)"
  by (auto simp: sh.gives_def shell_ok_def)

lemma shell_ok_halted: "sh.good env w r \<Longrightarrow> shell_ok env w (map_option Halted r)"
  by (auto simp: sh.good_def shell_ok_def)

lemma shell_ok_if: "shell_ok env w a \<Longrightarrow> shell_ok env w b \<Longrightarrow> shell_ok env w (if c then a else b)"
  by simp

lemma execute_line_ok:
  assumes w: "world_ok env w" "programs_ok (w_kernel w)" "stops (se_machine env)" and ctx: "ctx_ok (w_kernel w) ctx"
    and line: "length line \<le> 128"
  shows "shell_ok env w (shell_execute_line env ctx line w)"
proof -
  let ?t = "skip_spaces line"
  have "length (skip_spaces p) \<le> length p" for p by (induction p) auto
  then have t: "length ?t \<le> 128" using line le_trans by blast
  have p: "shell_ok env w (kernel_panic_message msg w)" for msg using panic_message_good [OF w(1), of msg] by (auto simp: shell_ok_def)
  have pr: "sh.good env w (in_console (term_print s) w)" for s
    by (rule in_console_good [OF w(1)]) (simp add: term_print_def console_print_safe)
  obtain r w' where r: "shell_run_program env ctx ?t w = Some (r, w')" "world_ok env w'" "went w w'"
    using run_program_gives [OF w ctx t] by (auto simp: sh.gives_def)
  have "shell_ok env w (with_ctx ctx (if r = 0 then say (sh_output ctx) s w' else Some w'))" for s
    by (rule shell_ok_with [OF _ ctx]) (use r in \<open>auto intro!: sh.good_trans [OF r(3)] say_good\<close>)
  then have run: "shell_ok env w (Some (r, w') \<bind> (\<lambda>(r, w). with_ctx ctx (if r = 0 then say (sh_output ctx) s w else Some w)))" for s
    by simp
  have clear: "sh.good env w (if sh_output ctx = CONSOLE_VGA then in_console term_clear w else say (sh_output ctx) newline w)"
    using say_good(1,5) [OF w(1)] by simp
  show ?thesis unfolding shell_execute_line_def Let_def r(1)
    by (intro shell_ok_if shell_ok_with [OF _ ctx] shell_ok_returned shell_ok_halted p pr clear run sh.good_self [OF w(1)]
        help_good [OF w(1)] heap_summary_good [OF w(1)] alloc_good [OF w(1)] cd_gives [OF w(1) ctx] dir_good [OF w(1) ctx]
        file_good [OF w(1) ctx] handle_resume_good [OF w ctx] echo_good [OF w(1) ctx t])
qed

lemma process_char_ok:
  assumes w: "world_ok env w" "programs_ok (w_kernel w)" "stops (se_machine env)" and ctx: "ctx_ok (w_kernel w) ctx"
  shows "shell_ok env w (shell_process_char env ctx c w)"
proof -
  let ?c = "if c = CHR 0x0D then CHR 0x0A else c"
  have len: "unat (sh_len ctx) < length (sh_input ctx)" using ctx by (simp add: ctx_ok_def)
  consider (line) "?c = CHR 0x0A" | (del) "?c = CHR 0x08 \<or> ?c = CHR 0x7F" | (other) "?c \<noteq> CHR 0x0A" "?c \<noteq> CHR 0x08" "?c \<noteq> CHR 0x7F" by blast
  then show ?thesis
  proof cases
    case line
    let ?ctx = "ctx\<lparr>sh_input := (sh_input ctx)[unat (sh_len ctx) := NUL]\<rparr>"
    have c1: "ctx_ok (w_kernel w) ?ctx" using ctx by (simp add: ctx_ok_def)
    obtain w1 where w1: "say_char (sh_output ctx) CHR 0x0A w = Some w1" "world_ok env w1" "went w w1" "w_kernel w1 = w_kernel w"
      using say_good(2) [OF w(1), of "sh_output ctx" "CHR 0x0A"] by (auto simp: sh.good_def in_console_def)
    have l: "length (sh_input ?ctx) \<le> 128" using ctx by (simp add: ctx_ok_def)
    have "shell_ok env w1 (shell_execute_line env ?ctx (sh_input ?ctx) w1)"
      by (rule execute_line_ok [OF w1(2) _ w(3) _ l]) (use w(2) c1 w1(4) in simp_all)
    then consider (halt) w2 where "shell_execute_line env ?ctx (sh_input ?ctx) w1 = Some (Halted w2)" "world_ok env w2"
      | (cont) ctx2 w2 where "shell_execute_line env ?ctx (sh_input ?ctx) w1 = Some (Returned (ctx2, w2))" "world_ok env w2" "went w1 w2" "ctx_ok (w_kernel w2) ctx2"
      by (auto simp: shell_ok_def)
    then show ?thesis
    proof cases
      case halt
      then show ?thesis using line len w1(1) by (simp add: shell_process_char_def Let_def set_input_def shell_ok_def)
    next
      case cont
      have c2: "ctx_ok (w_kernel w2) (ctx2\<lparr>sh_len := 0\<rparr>)" using cont(4) by (simp add: ctx_ok_def)
      have "shell_ok env w (with_ctx (ctx2\<lparr>sh_len := 0\<rparr>) (shell_print_prompt (ctx2\<lparr>sh_len := 0\<rparr>) w2))"
        using shell_ok_with [OF prompt_good [OF cont(2) c2] c2] sh.step_trans [OF sh.step_trans [OF w1(3) cont(3)]]
        by (auto simp: shell_ok_def)
      then show ?thesis using line len w1(1) cont(1) by (simp add: shell_process_char_def Let_def set_input_def)
    qed
  next
    case del
    have "shell_ok env w (with_ctx (ctx\<lparr>sh_len := sh_len ctx - 1\<rparr>) (say_char (sh_output ctx) CHR 0x08 w))" if "0 < sh_len ctx"
    proof (rule shell_ok_with [OF say_good(2) [OF w(1)]])
      have "unat (sh_len ctx - 1) = unat (sh_len ctx) - 1" using that by (simp add: unat_sub_exact word_le_nat_alt word_less_nat_alt)
      then show "ctx_ok (w_kernel w) (ctx\<lparr>sh_len := sh_len ctx - 1\<rparr>)" using ctx by (auto simp: ctx_ok_def)
    qed
    then show ?thesis using del shell_ok_with [OF sh.good_self [OF w(1)] ctx] by (auto simp: shell_process_char_def Let_def)
  next
    case other
    have "shell_ok env w (with_ctx (ctx\<lparr>sh_input := (sh_input ctx)[unat (sh_len ctx) := ?c], sh_len := sh_len ctx + 1\<rparr>) (say_char (sh_output ctx) ?c w))"
      if "sh_len ctx < SHELL_INPUT_MAX"
    proof (rule shell_ok_with [OF say_good(2) [OF w(1)]])
      have "unat (sh_len ctx + 1) = unat (sh_len ctx) + 1" "unat (sh_len ctx) < 127"
        using that by (simp_all add: unat_add_exact SHELL_INPUT_MAX_def word_less_nat_alt)
      then show "ctx_ok (w_kernel w) (ctx\<lparr>sh_input := (sh_input ctx)[unat (sh_len ctx) := ?c], sh_len := sh_len ctx + 1\<rparr>)"
        using ctx by (simp add: ctx_ok_def)
    qed
    then show ?thesis using other len shell_ok_with [OF sh.good_self [OF w(1)] ctx]
      by (simp add: shell_process_char_def Let_def set_input_def del: One_nat_def)
  qed
qed

section \<open>The loop\<close>

lemma irq_kept:
  assumes w: "world_ok env w"
  shows "world_ok env (w\<lparr>w_kernel := (w_kernel w)\<lparr>kn_irq := irq\<rparr>\<rparr>)" "went w (w\<lparr>w_kernel := (w_kernel w)\<lparr>kn_irq := irq\<rparr>\<rparr>)"
    "programs_ok ((w_kernel w)\<lparr>kn_irq := irq\<rparr>) \<longleftrightarrow> programs_ok (w_kernel w)"
proof -
  let ?k = "(w_kernel w)\<lparr>kn_irq := irq\<rparr>"
  note k = world_okD [OF w]
  have "tables_inv ?k" using k(1) by (simp add: kn_inv_def tables_inv_def)
  note s = kernel_step [OF k(1) this]
  then show "world_ok env (w\<lparr>w_kernel := (w_kernel w)\<lparr>kn_irq := irq\<rparr>\<rparr>)" using w by (simp add: world_ok_def Let_def idle_def)
  show "went w (w\<lparr>w_kernel := (w_kernel w)\<lparr>kn_irq := irq\<rparr>\<rparr>)" by (simp add: went_def kept_def)
  show "programs_ok ?k \<longleftrightarrow> programs_ok (w_kernel w)" using s(3) by (simp add: programs_ok_def)
qed

definition turn_ok :: "shell_env \<Rightarrow> world \<Rightarrow> (bool \<times> shell_context \<times> world) outcome option \<Rightarrow> bool" where
  "turn_ok env w r \<longleftrightarrow> (\<exists>w'. r = Some (Halted w') \<and> world_ok env w') \<or>
     (\<exists>h ctx w'. r = Some (Returned (h, ctx, w')) \<and> world_ok env w' \<and> went w w' \<and> ctx_ok (w_kernel w') ctx)"

lemma input_kept:
  assumes w: "world_ok env w" and i: "shell_try_get_input out w = (c, w')"
  shows "world_ok env w'" "went w w'" "programs_ok (w_kernel w') \<longleftrightarrow> programs_ok (w_kernel w)"
proof -
  consider irq where "w' = w\<lparr>w_kernel := (w_kernel w)\<lparr>kn_irq := irq\<rparr>\<rparr>" | "w' = w" | ps where "w' = w\<lparr>serial_polls := ps\<rparr>"
    using i by (auto simp: shell_try_get_input_def serial_try_read_char_def split: if_splits list.splits prod.splits)
  then have "world_ok env w' \<and> went w w' \<and> programs_ok (w_kernel w') = programs_ok (w_kernel w)"
    using irq_kept [OF w] w by cases (auto simp: world_ok_def went_def kept_def)
  then show "world_ok env w'" "went w w'" "programs_ok (w_kernel w') \<longleftrightarrow> programs_ok (w_kernel w)" by simp_all
qed

lemma shell_turn_ok:
  assumes w: "world_ok env w" "programs_ok (w_kernel w)" "stops (se_machine env)" and ctx: "ctx_ok (w_kernel w) ctx"
  shows "turn_ok env w (shell_turn env ctx w)"
proof -
  obtain c w1 where i: "shell_try_get_input (sh_output ctx) w = (c, w1)" by fastforce
  note k = input_kept [OF w(1) i]
  have ctx1: "ctx_ok (w_kernel w1) ctx" by (rule ctx_ok_went [OF ctx k(2)])
  show ?thesis
  proof (cases c)
    case None
    then show ?thesis using i k ctx1 by (auto simp: shell_turn_def turn_ok_def)
  next
    case (Some ch)
    have "shell_ok env w1 (shell_process_char env ctx ch w1)" by (rule process_char_ok [OF k(1) _ w(3) ctx1]) (simp add: k(3) w(2))
    then show ?thesis using i Some sh.step_trans [OF k(2)] by (auto simp: shell_turn_def turn_ok_def shell_ok_def)
  qed
qed

lemma serial_turn_ok:
  assumes "world_ok env w" "programs_ok (w_kernel w)" "stops (se_machine env)" and "ctx_ok (w_kernel w) ctx"
  shows "turn_ok env w (serial_turn env ctx w)"
  using shell_turn_ok [OF assms] assms(1,4) by (auto simp: serial_turn_def turn_ok_def intro: sh.step_refl)

lemma take_interrupts_ends:
  "\<forall>i \<in> set irqs. 32 \<le> fst i \<Longrightarrow> \<exists>k'. take_interrupts irqs k = Some k'"
proof (induction irqs arbitrary: k)
  case (Cons i irqs)
  obtain v d where i: "i = (v, d)" by fastforce
  have "\<not> v < 32" using Cons.prems i by (simp add: not_less)
  then have "interrupt_dispatch v d (kn_irq k, kn_sched k) \<noteq> None" by (simp add: interrupt_dispatch_def Let_def case_prod_beta del: not_None_eq)
  then obtain k1 where "take_interrupt i k = Some k1" by (auto simp: take_interrupt_def i)
  then show ?case using Cons by simp
qed simp

lemma interrupts_output: "take_interrupts irqs k = Some k' \<Longrightarrow> kn_output k' = kn_output k"
proof (induction irqs arbitrary: k)
  case (Cons i irqs)
  then obtain k1 where "take_interrupt i k = Some k1" "take_interrupts irqs k1 = Some k'" by (auto simp: bind_eq_Some_conv)
  then show ?case using Cons.IH [of k1] by (auto simp: take_interrupt_def split: prod.splits)
qed simp

lemma relax_good:
  assumes w: "world_ok env w" and r: "cpu_relax_wait irqs w = Some w'" shows "world_ok env w' \<and> went w w'"
proof -
  note k = world_okD [OF w]
  obtain k' where t: "take_interrupts irqs (w_kernel w) = Some k'" "w' = w\<lparr>w_kernel := k'\<rparr>" using r by (auto simp: cpu_relax_wait_def)
  note s = interrupts_step [OF k(1) t(1)]
  have out: "kn_output k' = kn_output (w_kernel w)" by (rule interrupts_output [OF t(1)])
  show ?thesis using s w out t(2) by (auto simp: world_ok_def Let_def user_step_def idle_def went_def kept_def)
qed

lemma idle_good:
  assumes w: "world_ok env w" "stops (se_machine env)" and irqs: "\<forall>i \<in> set irqs. 32 \<le> fst i"
  shows "sh.good env w (shell_idle env h irqs w)"
proof -
  have r: "sh.good env w' (cpu_relax_wait irqs w')" if "world_ok env w'" for w'
    using take_interrupts_ends [OF irqs, where k = "w_kernel w'"] relax_good [OF that, of irqs] by (auto simp: sh.good_def cpu_relax_wait_def)
  have g: "sh.gives env (\<lambda>x w'. True) w (in_kernel (task_resume_next_ready_user (se_machine env) (se_mbi env) (se_magic env)) w)"
    by (rule did_good [OF w(1) resume_next_ends [OF w(2)]]) (use resume_next_ran [OF world_okD(1-4) [OF w(1)], of UNIV] in auto)
  show ?thesis unfolding shell_idle_def using r w(1) by (auto intro!: sh.gives_bind [OF g])
qed

section \<open>Any session\<close>

lemma greet_good:
  assumes w: "world_ok env w" and ctx: "ctx_ok (w_kernel w) ctx"
  shows "sh.good env w (shell_greet title ctx w)"
proof -
  have c: "con_safe c (console_print out s (term_set_color fg bg c))" if "con_inv c" for out s fg bg c
    using con_safe_bind [OF term_set_color_safe [OF that] console_print_safe] by simp
  have g: "sh.good env w (in_console (\<lambda>c. console_print out s (term_set_color fg bg c)) w)" if "world_ok env w" for out s fg bg w
    by (rule in_console_good [OF that c])
  show ?thesis unfolding shell_greet_def
  proof (intro sh.good_bind g w)
    fix w1 w2 assume "went w w1" "went w1 w2" "world_ok env w2"
    then show "sh.good env w2 (shell_print_prompt ctx w2)" using ctx_ok_went [OF ctx_ok_went [OF ctx]] by (intro prompt_good) blast+
  qed
qed

text \<open>
  The states of the two shells over the phases of the loop, as long as no file that the loader
  would accept has a segment with overflowing bounds when a character is read.
\<close>

inductive shell_reach :: "shell_env \<Rightarrow> shells \<Rightarrow> bool" for env where
  start: "world_ok env w \<Longrightarrow> length in1 = 128 \<Longrightarrow> length in2 = 128 \<Longrightarrow> shell_start in1 in2 w = Some st \<Longrightarrow> shell_reach env st"
| screen_turn: "shell_reach env (v, s, w) \<Longrightarrow> programs_ok (w_kernel w) \<Longrightarrow> shell_turn env v w = Some (Returned (h, v', w')) \<Longrightarrow>
    shell_reach env (v', s, w')"
| serial_turn: "shell_reach env (v, s, w) \<Longrightarrow> programs_ok (w_kernel w) \<Longrightarrow> serial_turn env s w = Some (Returned (h, s', w')) \<Longrightarrow>
    shell_reach env (v, s', w')"
| idle: "shell_reach env (v, s, w) \<Longrightarrow> \<forall>i \<in> set irqs. 32 \<le> fst i \<Longrightarrow> shell_idle env h irqs w = Some w' \<Longrightarrow> shell_reach env (v, s, w')"

definition shells_ok :: "shell_env \<Rightarrow> shells \<Rightarrow> bool" where
  "shells_ok env st \<longleftrightarrow> (case st of (v, s, w) \<Rightarrow> world_ok env w \<and> ctx_ok (w_kernel w) v \<and> ctx_ok (w_kernel w) s)"

lemma shell_start_ok:
  assumes w: "world_ok env w" and l: "length in1 = 128" "length in2 = 128"
  shows "\<exists>st. shell_start in1 in2 w = Some st \<and> shells_ok env st"
proof -
  note k = world_okD [OF w]
  let ?c1 = "\<lparr>sh_output = CONSOLE_VGA, sh_input = in1, sh_len = 0, sh_cwd = vfs_root (w_kernel w)\<rparr>"
  let ?c2 = "\<lparr>sh_output = CONSOLE_SERIAL, sh_input = in2, sh_len = 0, sh_cwd = vfs_root (w_kernel w)\<rparr>"
  have c: "ctx_ok (w_kernel w) ?c1" "ctx_ok (w_kernel w) ?c2" using l kn_inv_dirs(3) [OF k(1)] by (simp_all add: ctx_ok_def vfs_root_def)
  obtain w1 where w1: "shell_greet ''SLOP OS (microkernel bootstrap)'' ?c1 w = Some w1" "world_ok env w1" "went w w1"
    using greet_good [OF w c(1)] by (auto simp: sh.good_def)
  note c1 = ctx_ok_went [OF c(1) w1(3)] ctx_ok_went [OF c(2) w1(3)]
  obtain w2 where w2: "(if serial_is_ready (w_console w1) then shell_greet ''SLOP serial console'' ?c2 w1 else Some w1) = Some w2" "world_ok env w2" "went w1 w2"
    using greet_good [OF w1(2) c1(2), of "''SLOP serial console''"] w1(2) sh.step_refl [of w1] unfolding sh.good_def by (metis (no_types))
  show ?thesis using w1(1) w2(1,2) ctx_ok_went [OF c1(1) w2(3)] ctx_ok_went [OF c1(2) w2(3)]
    by (simp add: shell_start_def Let_def shells_ok_def)
qed

lemma shell_reach_ok:
  assumes "stops (se_machine env)" shows "shell_reach env st \<Longrightarrow> shells_ok env st"
proof (induction rule: shell_reach.induct)
  case (start w in1 in2 st)
  then show ?case using shell_start_ok by fastforce
next
  case (screen_turn v s w h v' w')
  have "turn_ok env w (shell_turn env v w)" by (rule shell_turn_ok [OF _ screen_turn.hyps(2) assms]) (use screen_turn.IH in \<open>simp_all add: shells_ok_def\<close>)
  then show ?case using screen_turn by (auto simp: turn_ok_def shells_ok_def intro: ctx_ok_went)
next
  case (serial_turn v s w h s' w')
  have "turn_ok env w (serial_turn env s w)" by (rule serial_turn_ok [OF _ serial_turn.hyps(2) assms]) (use serial_turn.IH in \<open>simp_all add: shells_ok_def\<close>)
  then show ?case using serial_turn by (auto simp: turn_ok_def shells_ok_def intro: ctx_ok_went)
next
  case (idle v s w irqs h w')
  have "sh.good env w (shell_idle env h irqs w)" by (rule idle_good [OF _ assms idle.hyps(2)]) (use idle.IH in \<open>simp add: shells_ok_def\<close>)
  then show ?case using idle by (auto simp: sh.good_def shells_ok_def intro: ctx_ok_went)
qed


definition demo_world :: world where
  "demo_world = \<lparr>w_kernel = demo_idle, w_console = term_init demo_console, serial_polls = []\<rparr>"

definition demo_env :: shell_env where
  "demo_env = \<lparr>se_machine = demo_machine, se_mbi = None, se_magic = 0, se_echo_out = 0x10000\<rparr>"

lemma demo_world_ok: "world_ok demo_env demo_world"
proof -
  have "kn_output demo_idle = []" by (simp add: demo_idle_def return_to_kernel_def demo_kernel_def vfs_state.defs kernel.defs)
  then show ?thesis using demo_idle_inv demo_fs0_lists demo_machine_confined term_init_inv [OF demo_console_fresh]
    by (simp add: world_ok_def Let_def demo_env_def demo_world_def)
qed


text \<open>A \<^verbatim>\<open>>\<close> directly after a word ends the line: the redirection is lost.\<close>

lemma redirect_lost: "shell_split_args ''echo hi>f'' SHELL_ARG_MAX = [''echo'', ''hi'']"
  by code_simp

end
