(* ===== verification/ShellLine.thy ===== *)
theory ShellLine
  imports ShellProps
begin

text \<open>
  What the shell makes of the characters of a line: the editing of the line, its arguments, and
  the redirected \<^verbatim>\<open>echo\<close>.
\<close>

section \<open>Editing\<close>

text \<open>The line as a list, without the buffer and its length.\<close>

definition edit_line :: "string \<Rightarrow> char \<Rightarrow> string" where
  "edit_line s c =
     (if c = CHR 0x08 \<or> c = CHR 0x7F then butlast s
      else if 32 \<le> (of_char c :: nat) \<and> (of_char c :: nat) \<le> 126 \<and> length s < 127 then s @ [c] else s)"

definition line_of :: "shell_context \<Rightarrow> string" where
  "line_of ctx = take (unat (sh_len ctx)) (sh_input ctx)"

fun type_keys :: "shell_env \<Rightarrow> string \<Rightarrow> shell_context \<times> world \<Rightarrow> (shell_context \<times> world) outcome option" where
  "type_keys env [] cw = Some (Returned cw)"
| "type_keys env (c # cs) cw =
     (case cw of (ctx, w) \<Rightarrow>
        do { r \<leftarrow> shell_process_char env ctx c w;
             (case r of Halted w \<Rightarrow> Some (Halted w) | Returned cw \<Rightarrow> type_keys env cs cw) })"

lemma take_shorter: "n \<le> length xs \<Longrightarrow> take (n - 1) xs = butlast (take n xs)"
  by (simp add: butlast_take)

lemma cstr_append_NUL: "NUL \<notin> set s \<Longrightarrow> cstr (s @ NUL # t) = s"
  by (induction s) (auto simp: cstr_def)

lemma process_char_edits:
  assumes w: "world_ok env w" and ctx: "ctx_ok (w_kernel w) ctx" and c: "c \<noteq> CHR 0x0A" "c \<noteq> CHR 0x0D"
  shows "\<exists>ctx' w'. shell_process_char env ctx c w = Some (Returned (ctx', w')) \<and> line_of ctx' = edit_line (line_of ctx) c \<and>
    sh_cwd ctx' = sh_cwd ctx \<and> ctx_ok (w_kernel w) ctx' \<and> w_kernel w' = w_kernel w \<and> world_ok env w'"
proof -
  let ?n = "unat (sh_len ctx)"
  have n: "?n \<le> 127" "length (sh_input ctx) = 128" using ctx by (simp_all add: ctx_ok_def)
  have say: "\<exists>w'. say_char (sh_output ctx) ch w = Some w' \<and> w_kernel w' = w_kernel w \<and> world_ok env w'" for ch
    using say_good(2) [OF w, of "sh_output ctx" ch] by (auto simp: sh.good_def in_console_def)
  consider (del) "c = CHR 0x08 \<or> c = CHR 0x7F" "0 < sh_len ctx"
    | (add) "c \<noteq> CHR 0x08" "c \<noteq> CHR 0x7F" "32 \<le> (of_char c :: nat)" "(of_char c :: nat) \<le> 126" "sh_len ctx < SHELL_INPUT_MAX"
    | (none) "(c = CHR 0x08 \<or> c = CHR 0x7F) \<and> \<not> 0 < sh_len ctx \<or>
        c \<noteq> CHR 0x08 \<and> c \<noteq> CHR 0x7F \<and> \<not> (32 \<le> (of_char c :: nat) \<and> (of_char c :: nat) \<le> 126 \<and> sh_len ctx < SHELL_INPUT_MAX)"
    by blast
  then show ?thesis
  proof cases
    case del
    have u: "unat (sh_len ctx - 1) = ?n - 1" using del(2) by (simp add: unat_sub_exact word_le_nat_alt word_less_nat_alt)
    have l: "line_of (ctx\<lparr>sh_len := sh_len ctx - 1\<rparr>) = edit_line (line_of ctx) c"
      using del(1) n take_shorter [of ?n "sh_input ctx"] by (simp add: line_of_def edit_line_def u)
    have "ctx_ok (w_kernel w) (ctx\<lparr>sh_len := sh_len ctx - 1\<rparr>)" using ctx u by (auto simp: ctx_ok_def)
    then show ?thesis using say [of "CHR 0x08"] del c l by (auto simp: shell_process_char_def Let_def with_ctx_def)
  next
    case add
    let ?ctx = "ctx\<lparr>sh_input := (sh_input ctx)[?n := c], sh_len := sh_len ctx + 1\<rparr>"
    have u: "unat (sh_len ctx + 1) = ?n + 1" "?n < 127"
      using add(5) by (simp_all add: unat_add_exact SHELL_INPUT_MAX_def word_less_nat_alt)
    have "line_of ?ctx = line_of ctx @ [c]" using n u by (simp add: line_of_def take_Suc_conv_app_nth)
    moreover have "edit_line (line_of ctx) c = line_of ctx @ [c]" using add u n by (simp add: edit_line_def line_of_def)
    moreover have "ctx_ok (w_kernel w) ?ctx" using ctx u by (simp add: ctx_ok_def)
    ultimately show ?thesis using say [of c] add c n u(2) by (auto simp: shell_process_char_def Let_def with_ctx_def set_input_def)
  next
    case none
    have "edit_line (line_of ctx) c = line_of ctx"
      using none n by (auto simp: edit_line_def line_of_def SHELL_INPUT_MAX_def word_less_nat_alt word_gt_0 unat_eq_zero)
    moreover have "shell_process_char env ctx c w = Some (Returned (ctx, w))" using none c by (auto simp: shell_process_char_def Let_def with_ctx_def)
    ultimately show ?thesis using w ctx by auto
  qed
qed

text \<open>
  C14: typing refines the editing of a list.  Whatever is typed before the end of a line, the
  buffer up to the length of the line holds the printable characters that have not been deleted,
  at most 127 of them; with the null character that the end of the line stores after them, this
  is the line that is executed.  The kernel is not touched.
\<close>

theorem shell_line_refines:
  assumes "world_ok env w" and "ctx_ok (w_kernel w) ctx" and "sh_len ctx = 0" and "CHR 0x0A \<notin> set cs" and "CHR 0x0D \<notin> set cs"
  shows "\<exists>ctx' w'. type_keys env cs (ctx, w) = Some (Returned (ctx', w')) \<and>
    line_of ctx' = foldl edit_line [] cs \<and> length (line_of ctx') \<le> 127 \<and>
    cstr ((sh_input ctx')[unat (sh_len ctx') := NUL]) = foldl edit_line [] cs \<and>
    sh_cwd ctx' = sh_cwd ctx \<and> w_kernel w' = w_kernel w"
proof -
  have "\<exists>ctx' w'. type_keys env cs (ctx, w) = Some (Returned (ctx', w')) \<and> line_of ctx' = foldl edit_line (line_of ctx) cs \<and>
      sh_cwd ctx' = sh_cwd ctx \<and> ctx_ok (w_kernel w) ctx' \<and> w_kernel w' = w_kernel w \<and> NUL \<notin> set (line_of ctx')"
    if "world_ok env w" "ctx_ok (w_kernel w) ctx" "NUL \<notin> set (line_of ctx)" "CHR 0x0A \<notin> set cs" "CHR 0x0D \<notin> set cs" for ctx w
    using that
  proof (induction cs arbitrary: ctx w)
    case (Cons c cs)
    obtain ctx1 w1 where s: "shell_process_char env ctx c w = Some (Returned (ctx1, w1))" "line_of ctx1 = edit_line (line_of ctx) c"
      "sh_cwd ctx1 = sh_cwd ctx" "ctx_ok (w_kernel w) ctx1" "w_kernel w1 = w_kernel w" "world_ok env w1"
      using process_char_edits [OF Cons.prems(1,2), of c] Cons.prems(4,5) by auto
    have "NUL \<notin> set (edit_line s c)" if "NUL \<notin> set s" for s
      using that by (auto simp: edit_line_def dest: in_set_butlastD)
    then show ?case using Cons.IH [of w1 ctx1] Cons.prems s by simp
  qed simp
  moreover have "line_of ctx = []" using assms(3) by (simp add: line_of_def)
  ultimately obtain ctx' w' where r: "type_keys env cs (ctx, w) = Some (Returned (ctx', w'))" "line_of ctx' = foldl edit_line [] cs"
    "sh_cwd ctx' = sh_cwd ctx" "ctx_ok (w_kernel w) ctx'" "w_kernel w' = w_kernel w" "NUL \<notin> set (line_of ctx')"
    using assms by fastforce
  have n: "unat (sh_len ctx') \<le> 127" "length (sh_input ctx') = 128" using r(4) by (simp_all add: ctx_ok_def)
  then have "(sh_input ctx')[unat (sh_len ctx') := NUL] = line_of ctx' @ NUL # drop (Suc (unat (sh_len ctx'))) (sh_input ctx')"
    by (simp add: line_of_def upd_conv_take_nth_drop)
  then have "cstr ((sh_input ctx')[unat (sh_len ctx') := NUL]) = line_of ctx'" using r(6) by (simp add: cstr_append_NUL)
  then show ?thesis using r n by (auto simp: line_of_def)
qed

theorem shell_line_refines_witness:
  "\<exists>ctx' w'. type_keys demo_env (''lx'' @ [CHR 0x08] @ ''s'')
       (\<lparr>sh_output = CONSOLE_VGA, sh_input = replicate 128 NUL, sh_len = 0, sh_cwd = vfs_root demo_idle\<rparr>, demo_world) = Some (Returned (ctx', w')) \<and>
     line_of ctx' = ''ls''"
proof -
  let ?ctx = "\<lparr>sh_output = CONSOLE_VGA, sh_input = replicate 128 NUL, sh_len = 0, sh_cwd = vfs_root demo_idle\<rparr>"
  have "vfs_root demo_idle \<in> kn_dirs demo_idle" using kn_inv_dirs(3) [OF demo_idle_inv(1)] by (simp add: vfs_root_def)
  then have "ctx_ok (w_kernel demo_world) ?ctx" by (simp add: ctx_ok_def demo_world_def)
  moreover have "foldl edit_line [] (''lx'' @ [CHR 0x08] @ ''s'') = ''ls''" by (simp add: edit_line_def)
  ultimately show ?thesis using shell_line_refines [OF demo_world_ok, of ?ctx "''lx'' @ [CHR 0x08] @ ''s''"] by auto
qed

section \<open>Arguments\<close>

definition word_ok :: "string \<Rightarrow> bool" where
  "word_ok a \<longleftrightarrow> a \<noteq> [] \<and> NUL \<notin> set a \<and> CHR '' '' \<notin> set a \<and> CHR ''>'' \<notin> set a"

lemma arg_loop_word:
  "NUL \<notin> set a \<Longrightarrow> CHR '' '' \<notin> set a \<Longrightarrow> CHR ''>'' \<notin> set a \<Longrightarrow> arg_loop (a @ CHR '' '' # s) b = (b @ a, CHR '' '' # s)"
  by (induction a arbitrary: b) auto

lemma split_word:
  assumes "word_ok a"
  shows "shell_split_args (a @ CHR '' '' # s) (Suc n) = a # shell_split_args s n"
proof -
  obtain c a' where a: "a = c # a'" "c \<noteq> NUL" "c \<noteq> CHR '' ''" "c \<noteq> CHR ''>''" using assms by (cases a) (auto simp: word_ok_def)
  have "arg_loop (a @ CHR '' '' # s) [] = (a, CHR '' '' # s)" using arg_loop_word [of a s "[]"] assms by (simp add: word_ok_def)
  then show ?thesis using a by (simp add: Let_def)
qed

lemma split_redirect: "shell_split_args (''> '' @ s) (Suc n) = ''>'' # shell_split_args s n"
proof -
  have "shell_split_args (CHR '' '' # s) n = shell_split_args s n" by (cases n) (cases s; simp)+
  then show ?thesis by (simp add: Let_def)
qed

text \<open>The words of a line, each with a space after it.\<close>

definition spaced :: "string list \<Rightarrow> string" where
  "spaced ws = concat (map (\<lambda>a. a @ '' '') ws)"

lemma split_spaced:
  "(\<And>a. a \<in> set ws \<Longrightarrow> word_ok a) \<Longrightarrow> shell_split_args (spaced ws @ s) (length ws + n) = ws @ shell_split_args s n"
proof (induction ws)
  case (Cons a ws)
  have "shell_split_args (spaced (a # ws) @ s) (length (a # ws) + n) = shell_split_args (a @ CHR '' '' # (spaced ws @ s)) (Suc (length ws + n))"
    by (simp add: spaced_def)
  also have "\<dots> = a # shell_split_args (spaced ws @ s) (length ws + n)" using Cons.prems by (intro split_word) simp
  finally show ?case using Cons by simp
qed (simp add: spaced_def)

lemma split_last:
  assumes "word_ok a" shows "shell_split_args a (Suc n) = [a]"
proof -
  obtain c a' where a: "a = c # a'" "c \<noteq> NUL" "c \<noteq> CHR '' ''" "c \<noteq> CHR ''>''" using assms by (cases a) (auto simp: word_ok_def)
  have "arg_loop b x = (x @ b, [])" if "NUL \<notin> set b" "CHR '' '' \<notin> set b" "CHR ''>'' \<notin> set b" for b x
    using that by (induction b arbitrary: x) auto
  then have "arg_loop a [] = (a, [])" using assms by (simp add: word_ok_def)
  moreover have "shell_split_args [] n = []" by (cases n) simp_all
  ultimately show ?thesis using a by (simp add: Let_def)
qed

section \<open>Redirected output\<close>

lemma copy_whole: "NUL \<notin> set a \<Longrightarrow> length out + length a < sz \<Longrightarrow> copy_bounded a sz out = (out @ a, [])"
  by (induction a arbitrary: out) auto

text \<open>The text of \<^verbatim>\<open>echo\<close>: the words with a space between two of them.\<close>

definition echoed :: "string list \<Rightarrow> string" where
  "echoed ws = (case ws of [] \<Rightarrow> [] | a # ws \<Rightarrow> a @ concat (map (\<lambda>b. CHR '' '' # b) ws))"

lemma echo_text_rest:
  "out \<noteq> [] \<Longrightarrow> (\<And>a. a \<in> set ws \<Longrightarrow> word_ok a) \<Longrightarrow> length out + length (concat (map (\<lambda>b. CHR '' '' # b) ws)) < SHELL_ECHO_MAX \<Longrightarrow>
    echo_text ws out = out @ concat (map (\<lambda>b. CHR '' '' # b) ws)"
proof (induction ws arbitrary: out)
  case (Cons a ws)
  have "copy_bounded a SHELL_ECHO_MAX (out @ '' '') = (out @ '' '' @ a, [])"
    using copy_whole [of a "out @ '' ''" SHELL_ECHO_MAX] Cons.prems by (simp add: word_ok_def)
  then show ?case using Cons.IH [of "out @ '' '' @ a"] Cons.prems by simp
qed simp

lemma echo_text_words:
  assumes "\<And>a. a \<in> set ws \<Longrightarrow> word_ok a" and "length (echoed ws) < SHELL_ECHO_MAX"
  shows "echo_text ws [] = echoed ws"
proof (cases ws)
  case (Cons a bs)
  have "copy_bounded a SHELL_ECHO_MAX [] = (a, [])" using copy_whole [of a "[]" SHELL_ECHO_MAX] assms Cons by (simp add: word_ok_def echoed_def)
  then show ?thesis using echo_text_rest [of a bs] assms Cons by (simp add: echoed_def word_ok_def)
qed (simp add: echoed_def)

lemma forget_abs: "vfs_abs (k\<lparr>kn_output := []\<rparr>) = vfs_abs k" for k :: kernel
  by (rule tree_cong(1)) simp_all

lemma stack_write_abs:
  assumes inv: "kn_inv k" and m: "\<And>x. m x \<noteq> mem k x \<Longrightarrow> x < h_start (heap k) \<or> h_limit (heap k) \<le> x"
  shows "vfs_abs (k\<lparr>mem := m\<rparr>) = vfs_abs k"
proof (rule abs_mem_cong, rule mem_read_cong)
  fix a n x assume n: "vfs_nodes k a = Some n" and x: "in_block (vn_data n) (unat (vn_size n)) x"
  note b = data_block [OF inv n x]
  have "unat (h_current (heap k)) \<le> unat (h_limit (heap k))" using kn_inv_heap [OF inv] by (simp add: heap_inv_def word_le_nat_alt)
  then show "m x = mem k x" using m [of x] b by (auto simp: word_less_nat_alt word_le_nat_alt)
qed

lemma echo_argv:
  assumes "length ws \<le> 13" and ok: "\<forall>a \<in> set (path # ws). word_ok a"
  shows "shell_split_args (''echo '' @ spaced ws @ ''> '' @ path) SHELL_ARG_MAX = ''echo'' # ws @ [''>'', path]"
    and "find_index (\<lambda>a. str_eq a ''>'') (ws @ [''>'', path]) = Some (length ws)"
proof -
  let ?n = "13 - length ws"
  have n: "SHELL_ARG_MAX = Suc (length ws + Suc (Suc ?n))" using assms(1) by (simp add: SHELL_ARG_MAX_def)
  have "shell_split_args (''echo '' @ spaced ws @ ''> '' @ path) SHELL_ARG_MAX = ''echo'' # shell_split_args (spaced ws @ ''> '' @ path) (length ws + Suc (Suc ?n))"
    using split_word [of "''echo''" "spaced ws @ ''> '' @ path" "length ws + Suc (Suc ?n)"] by (simp add: word_ok_def n)
  also have "\<dots> = ''echo'' # ws @ ''>'' # [path]"
    using ok split_spaced [of ws "''> '' @ path" "Suc (Suc ?n)"] split_redirect [of path "Suc ?n"] split_last [of path ?n] by simp
  finally show "shell_split_args (''echo '' @ spaced ws @ ''> '' @ path) SHELL_ARG_MAX = ''echo'' # ws @ [''>'', path]" by simp
  have "\<not> str_eq a ''>''" if "a \<in> set ws" for a
  proof
    assume "str_eq a ''>''"
    then have "cstr a = ''>''" by (simp add: str_eq_iff cstr_def)
    then have "CHR ''>'' \<in> set a" unfolding cstr_def by (metis list.set_intros(1) set_takeWhileD)
    then show False using ok that by (auto simp: word_ok_def)
  qed
  moreover have "str_eq ''>'' ''>''" by (simp add: str_eq_iff)
  ultimately show "find_index (\<lambda>a. str_eq a ''>'') (ws @ [''>'', path]) = Some (length ws)"
    by (auto simp: find_index_Some_iff nth_append)
qed

lemma target_cong: "vfs_abs s' = vfs_abs s \<Longrightarrow> target s' ps path = target s ps path"
  unfolding target_def vfs_path_def by (rule arg_cong [of "vfs_abs s'" "vfs_abs s"])

text \<open>The text is written into the buffer, and from there into the file.\<close>

lemma echo_write:
  fixes bs :: "u8 list"
  assumes inv: "kn_inv k" "idle k" and bs: "length bs < 128" and path: "length path < 2 ^ 32"
    and buf: "\<And>x. in_block d 128 x \<Longrightarrow> x < h_start (heap k) \<or> h_limit (heap k) \<le> x"
    and at: "cwd_at k cwd ps" "target k ps (Some path) = Some (qs, nm)" "plain_path (Some path)"
  defines "k1 \<equiv> k\<lparr>mem := mem_write d (bs @ [0]) (mem k)\<rparr>"
  shows "\<exists>ok k'. vfs_write_file cwd (Some path) d (of_nat (length bs)) k1 = Some (ok, k') \<and> kn_inv k' \<and> idle k' \<and> kept k k' \<and>
    (vfs_abs k' = (vfs_abs k)(qs @ [nm] \<mapsto> Contents bs) \<or>
     vfs_abs k' = vfs_abs k \<or> vfs_abs k (qs @ [nm]) = None \<and> vfs_abs k' = (vfs_abs k)(qs @ [nm] \<mapsto> Contents []))"
proof -
  have l: "unat (of_nat (length bs) :: u32) = length bs" using bs by (simp add: unat_of_nat_exact)
  have i: "kn_inv k1" "idle k1" using inv by (simp_all add: idle_def k1_def)
  have out: "x < h_start (heap k) \<or> h_limit (heap k) \<le> x" if "in_block d n x" "n \<le> 128" for n x
    using buf in_block_mono [OF that] .
  have abs: "vfs_abs k1 = vfs_abs k" unfolding k1_def
  proof (rule stack_write_abs [OF inv(1)])
    fix x assume "mem_write d (bs @ [0]) (mem k) x \<noteq> mem k x"
    then have "in_block d (length (bs @ [0])) x" using mem_write_other by blast
    then show "x < h_start (heap k) \<or> h_limit (heap k) \<le> x" using bs by (intro out) (assumption, simp add: Suc_le_eq)
  qed
  have "h_start (heap k) \<le> h_current (heap k)" using kn_inv_heap [OF inv(1)] by (simp add: heap_inv_def)
  then have src: "source_ok k1 d (of_nat (length bs))" using out [of "length bs"] bs by (fastforce simp: source_ok_def l k1_def)
  have "mem_read (mem k1) d (length (bs @ [0])) = bs @ [0]" using bs mem_write_read [of "bs @ [0]" d "mem k"] unfolding k1_def by simp
  then have "take (length bs) (mem_read (mem k1) d (length (bs @ [0]))) = take (length bs) (bs @ [0])" by simp
  then have rd: "mem_read (mem k1) d (length bs) = bs" by (simp add: mem_read_def take_map)
  have cong: "cwd_at k1 cwd ps" "target k1 ps (Some path) = Some (qs, nm)"
    using at(1) target_cong [OF abs, of ps "Some path"] at(2) by (simp_all add: cwd_at_def k1_def)
  obtain ok k' where r: "vfs_write_file cwd (Some path) d (of_nat (length bs)) k1 = Some (ok, k')" "vfs_ext k1 k'"
    "if ok then vfs_abs k' = (vfs_abs k)(qs @ [nm] \<mapsto> Contents bs)
     else vfs_abs k' = vfs_abs k \<or> vfs_abs k (qs @ [nm]) = None \<and> vfs_abs k' = (vfs_abs k)(qs @ [nm] \<mapsto> Contents [])"
    using write_file_spec [OF kn_inv_vfs [OF i(1)] cong(1), of "Some path" d "of_nat (length bs)", unfolded abs l rd] cong(2) at(3) src path by auto
  have "kn_inv k' \<and> idle k' \<and> kept k1 k'" by (rule fs_did [OF i r(2) write_file_frame [OF kn_inv_heap [OF i(1)] r(1)]])
  then show ?thesis using r(1,3) by (cases ok) (auto simp: kept_def k1_def)
qed



end
