(* ===== verification/Atapi.thy ===== *)
theory Atapi
  imports Storage
begin

text \<open>
  \<^verbatim>\<open>kernel/atapi.c\<close> and \<^verbatim>\<open>storage_init\<close>: finding a CD-ROM drive on the four places of the two
  IDE buses, and reading sectors from it.

  The hardware behind the ports is a parameter: a bus gives, for each of the four port
  instructions of \<^verbatim>\<open>arch/i386/platform.c\<close>, the value read and the new state of the devices.
\<close>

record 'd ata_bus =
  inb :: "u16 \<Rightarrow> 'd \<Rightarrow> u8 \<times> 'd"
  inw :: "u16 \<Rightarrow> 'd \<Rightarrow> u16 \<times> 'd"
  outb :: "u16 \<Rightarrow> u8 \<Rightarrow> 'd \<Rightarrow> 'd"
  outw :: "u16 \<Rightarrow> u16 \<Rightarrow> 'd \<Rightarrow> 'd"

definition ATA_PRIMARY_IO :: u16 where "ATA_PRIMARY_IO = 0x1F0"
definition ATA_PRIMARY_CTRL :: u16 where "ATA_PRIMARY_CTRL = 0x3F6"
definition ATA_SECONDARY_IO :: u16 where "ATA_SECONDARY_IO = 0x170"
definition ATA_SECONDARY_CTRL :: u16 where "ATA_SECONDARY_CTRL = 0x376"

definition ATA_REG_DATA :: u16 where "ATA_REG_DATA = 0"
definition ATA_REG_FEATURES :: u16 where "ATA_REG_FEATURES = 1"
definition ATA_REG_SECCOUNT0 :: u16 where "ATA_REG_SECCOUNT0 = 2"
definition ATA_REG_LBA0 :: u16 where "ATA_REG_LBA0 = 3"
definition ATA_REG_LBA1 :: u16 where "ATA_REG_LBA1 = 4"
definition ATA_REG_LBA2 :: u16 where "ATA_REG_LBA2 = 5"
definition ATA_REG_HDDEVSEL :: u16 where "ATA_REG_HDDEVSEL = 6"
definition ATA_REG_COMMAND :: u16 where "ATA_REG_COMMAND = 7"
definition ATA_REG_STATUS :: u16 where "ATA_REG_STATUS = 7"

definition ATA_SR_ERR :: u8 where "ATA_SR_ERR = 0x01"
definition ATA_SR_DRQ :: u8 where "ATA_SR_DRQ = 0x08"
definition ATA_SR_DF :: u8 where "ATA_SR_DF = 0x20"
definition ATA_SR_BSY :: u8 where "ATA_SR_BSY = 0x80"

definition ATA_CMD_IDENTIFY :: u8 where "ATA_CMD_IDENTIFY = 0xEC"
definition ATA_CMD_IDENTIFY_PACKET :: u8 where "ATA_CMD_IDENTIFY_PACKET = 0xA1"
definition ATA_CMD_PACKET :: u8 where "ATA_CMD_PACKET = 0xA0"

definition ATAPI_SIG_LBA1 :: u8 where "ATAPI_SIG_LBA1 = 0x14"
definition ATAPI_SIG_LBA2 :: u8 where "ATAPI_SIG_LBA2 = 0xEB"
definition ATAPI_SECTOR_SIZE :: u32 where "ATAPI_SECTOR_SIZE = 2048"

record atapi_device =
  io_base :: u16
  ctrl_base :: u16
  slave :: bool

section \<open>Waiting\<close>

definition ata_io_wait :: "'d ata_bus \<Rightarrow> u16 \<Rightarrow> 'd \<Rightarrow> 'd" where
  "ata_io_wait B ctrl d = ((\<lambda>d. snd (inb B ctrl d)) ^^ 4) d"

fun ata_wait_not_busy :: "'d ata_bus \<Rightarrow> u16 \<Rightarrow> nat \<Rightarrow> 'd \<Rightarrow> bool \<times> 'd" where
  "ata_wait_not_busy B io 0 d = (False, d)"
| "ata_wait_not_busy B io (Suc timeout) d =
     (let (s, d) = inb B (io + ATA_REG_STATUS) d in
      if s AND ATA_SR_BSY = 0 then (True, d) else ata_wait_not_busy B io timeout d)"

fun ata_wait_drq :: "'d ata_bus \<Rightarrow> u16 \<Rightarrow> nat \<Rightarrow> 'd \<Rightarrow> bool \<times> 'd" where
  "ata_wait_drq B io 0 d = (False, d)"
| "ata_wait_drq B io (Suc timeout) d =
     (let (s, d) = inb B (io + ATA_REG_STATUS) d in
      if s AND ATA_SR_BSY = 0 \<and> s AND ATA_SR_DRQ \<noteq> 0 then (True, d)
      else if s AND ATA_SR_BSY = 0 \<and> s AND (ATA_SR_ERR OR ATA_SR_DF) \<noteq> 0 then (False, d)
      else ata_wait_drq B io timeout d)"

definition ATA_TIMEOUT :: nat where "ATA_TIMEOUT = 200000"

definition ata_select_drive :: "'d ata_bus \<Rightarrow> u16 \<Rightarrow> bool \<Rightarrow> 'd \<Rightarrow> 'd" where
  "ata_select_drive B io sl d = outb B (io + ATA_REG_HDDEVSEL) (0xA0 OR (if sl then 0x10 else 0)) d"

text \<open>\<open>n\<close> words from the data port, as the bytes they are stored as.\<close>

fun read_words :: "'d ata_bus \<Rightarrow> u16 \<Rightarrow> nat \<Rightarrow> 'd \<Rightarrow> u8 list \<times> 'd" where
  "read_words B io 0 d = ([], d)"
| "read_words B io (Suc n) d =
     (let (w, d) = inw B (io + ATA_REG_DATA) d; (bs, d) = read_words B io n d
      in (ucast (w AND 0xFF) # ucast (drop_bit 8 w AND 0xFF) # bs, d))"

section \<open>Detection\<close>

definition atapi_identify :: "'d ata_bus \<Rightarrow> u16 \<Rightarrow> u16 \<Rightarrow> bool \<Rightarrow> 'd \<Rightarrow> bool \<times> 'd" where
  "atapi_identify B io ctrl sl d =
     (let d = ata_io_wait B ctrl (ata_select_drive B io sl d);
          d = outb B (io + ATA_REG_SECCOUNT0) 0 d;
          d = outb B (io + ATA_REG_LBA0) 0 d;
          d = outb B (io + ATA_REG_LBA1) 0 d;
          d = outb B (io + ATA_REG_LBA2) 0 d;
          d = outb B (io + ATA_REG_COMMAND) ATA_CMD_IDENTIFY d;
          (s, d) = inb B (io + ATA_REG_STATUS) d
      in if s = 0 then (False, d)
         else
           let (ok, d) = ata_wait_not_busy B io ATA_TIMEOUT d in
           if \<not> ok then (False, d)
           else
             let (lba1, d) = inb B (io + ATA_REG_LBA1) d;
                 (lba2, d) = inb B (io + ATA_REG_LBA2) d
             in if lba1 \<noteq> ATAPI_SIG_LBA1 \<or> lba2 \<noteq> ATAPI_SIG_LBA2 then (False, d)
                else
                  let d = outb B (io + ATA_REG_COMMAND) ATA_CMD_IDENTIFY_PACKET d;
                      (ok, d) = ata_wait_drq B io ATA_TIMEOUT d
                  in if \<not> ok then (False, d) else (True, snd (read_words B io 256 d)))"

section \<open>Reading\<close>

definition read_packet :: "u32 \<Rightarrow> u8 list" where
  "read_packet lba =
     [0xA8, 0, ucast (drop_bit 24 lba AND 0xFF), ucast (drop_bit 16 lba AND 0xFF), ucast (drop_bit 8 lba AND 0xFF),
      ucast (lba AND 0xFF), 0, 0, 0, 1, 0, 0]"

fun send_packet :: "'d ata_bus \<Rightarrow> u16 \<Rightarrow> u8 list \<Rightarrow> 'd \<Rightarrow> 'd" where
  "send_packet B io (a # b # bs) d =
     send_packet B io bs (outw B (io + ATA_REG_DATA) (ucast a OR push_bit 8 (ucast b)) d)"
| "send_packet B io bs d = d"

text \<open>One round of the loop of \<^verbatim>\<open>atapi_read_blocks\<close>: the bytes of a block, or \<open>None\<close> where it returns 0.\<close>

definition read_block :: "'d ata_bus \<Rightarrow> atapi_device \<Rightarrow> u32 \<Rightarrow> 'd \<Rightarrow> u8 list option \<times> 'd" where
  "read_block B dev cur_lba d =
     (let io = io_base dev;
          d = ata_io_wait B (ctrl_base dev) (ata_select_drive B io (slave dev) d);
          (ok, d) = ata_wait_not_busy B io ATA_TIMEOUT d
      in if \<not> ok then (None, d)
         else
           let d = outb B (io + ATA_REG_FEATURES) 0 d;
               d = outb B (io + ATA_REG_LBA1) (ucast (ATAPI_SECTOR_SIZE AND 0xFF)) d;
               d = outb B (io + ATA_REG_LBA2) (ucast (drop_bit 8 ATAPI_SECTOR_SIZE AND 0xFF)) d;
               d = outb B (io + ATA_REG_COMMAND) ATA_CMD_PACKET d;
               (ok, d) = ata_wait_drq B io ATA_TIMEOUT d
           in if \<not> ok then (None, d)
              else
                let d = send_packet B io (read_packet cur_lba) d;
                    (ok, d) = ata_wait_drq B io ATA_TIMEOUT d
                in if \<not> ok then (None, d)
                   else
                     let (bs, d) = read_words B io (unat (ATAPI_SECTOR_SIZE div 2)) d;
                         (ok, d) = ata_wait_not_busy B io ATA_TIMEOUT d
                     in if \<not> ok then (None, d)
                        else
                          let (s, d) = inb B (io + ATA_REG_STATUS) d
                          in (if s AND (ATA_SR_ERR OR ATA_SR_DF) \<noteq> 0 then None else Some bs, d))"

fun read_block_loop :: "'d ata_bus \<Rightarrow> atapi_device \<Rightarrow> u32 \<Rightarrow> nat \<Rightarrow> u32 \<Rightarrow> 'd \<Rightarrow> u8 list option \<times> 'd" where
  "read_block_loop B dev lba 0 block d = (Some [], d)"
| "read_block_loop B dev lba (Suc n) block d =
     (case read_block B dev (lba + block) d of
        (None, d) \<Rightarrow> (None, d)
      | (Some bs, d) \<Rightarrow>
          let (r, d) = read_block_loop B dev lba n (block + 1) d in (map_option ((@) bs) r, d))"

definition atapi_read_blocks :: "'d ata_bus \<Rightarrow> atapi_device option \<Rightarrow> u32 \<Rightarrow> u32 \<Rightarrow> 'd \<Rightarrow> u8 list option \<times> 'd" where
  "atapi_read_blocks B ctx lba count d =
     (case ctx of
        None \<Rightarrow> (None, d)
      | Some dev \<Rightarrow> if count = 0 then (None, d) else read_block_loop B dev lba (unat count) 0 d)"

section \<open>The probe\<close>

definition candidates :: "atapi_device list" where
  "candidates =
     [\<lparr>io_base = ATA_PRIMARY_IO, ctrl_base = ATA_PRIMARY_CTRL, slave = False\<rparr>,
      \<lparr>io_base = ATA_PRIMARY_IO, ctrl_base = ATA_PRIMARY_CTRL, slave = True\<rparr>,
      \<lparr>io_base = ATA_SECONDARY_IO, ctrl_base = ATA_SECONDARY_CTRL, slave = False\<rparr>,
      \<lparr>io_base = ATA_SECONDARY_IO, ctrl_base = ATA_SECONDARY_CTRL, slave = True\<rparr>]"

fun find_drive :: "'d ata_bus \<Rightarrow> atapi_device list \<Rightarrow> 'd \<Rightarrow> atapi_device option \<times> 'd" where
  "find_drive B [] d = (None, d)"
| "find_drive B (c # cs) d =
     (let (ok, d) = atapi_identify B (io_base c) (ctrl_base c) (slave c) d
      in if ok then (Some c, d) else find_drive B cs d)"

text \<open>
  The registry keeps a callback as a function of the sectors; it is the one that reads from the
  state in which the probe leaves the bus (\<open>reads_repeat\<close> says that for a drive as below every
  later read gives the same).
\<close>

definition atapi_probe_and_register :: "'d ata_bus \<Rightarrow> 'd \<Rightarrow> storage_state \<Rightarrow> bool \<times> storage_state \<times> 'd" where
  "atapi_probe_and_register B d st =
     (case find_drive B candidates d of
        (None, d) \<Rightarrow> (False, st, d)
      | (Some dev, d) \<Rightarrow>
          let (r, st) = storage_register_device (Some ''cd0'') ATAPI_SECTOR_SIZE
                (Some (\<lambda>lba count. fst (atapi_read_blocks B (Some dev) lba count d))) st
          in (r \<ge> 0, st, d))"

text \<open>\<^verbatim>\<open>storage_init\<close> of \<^verbatim>\<open>kernel/storage.c\<close>\<close>

definition storage_init :: "'d ata_bus \<Rightarrow> 'd \<Rightarrow> storage_state \<Rightarrow> storage_state \<times> 'd" where
  "storage_init B d st = snd (atapi_probe_and_register B d (st\<lparr>device_count := 0\<rparr>))"

end
