(* ===== verification/AtapiProps.thy ===== *)
theory AtapiProps
  imports Atapi
begin

text \<open>
  A CD-ROM drive that follows the packet protocol, and what the driver does with it.
\<close>

section \<open>A drive\<close>

text \<open>
  What the code relies on: after a command or a transfer the drive is busy for some polls of its
  status, asks for the packet of a command, and delivers the words of a sector.  It answers only
  while it is the selected drive of its bus; nothing answers on the other bus.
\<close>

datatype drive_phase = Quiet | Packet "u16 list" | Data "u16 list"

record drive =
  dr_slave_selected :: bool
  dr_phase :: drive_phase
  dr_busy :: nat
  dr_lba1 :: u8
  dr_lba2 :: u8

fun words_of :: "u8 list \<Rightarrow> u16 list" where
  "words_of (a # b # bs) = (ucast a OR push_bit 8 (ucast b)) # words_of bs"
| "words_of bs = []"

definition drive_status :: "drive \<Rightarrow> u8" where
  "drive_status d = (if dr_busy d > 0 then 0x80 else if dr_phase d = Quiet then 0x50 else 0x58)"

definition packet_lba :: "u16 list \<Rightarrow> u32" where
  "packet_lba ws = push_bit 24 (ucast (ws ! 1 AND 0xFF)) OR push_bit 16 (ucast (drop_bit 8 (ws ! 1))) OR
     push_bit 8 (ucast (ws ! 2 AND 0xFF)) OR ucast (drop_bit 8 (ws ! 2))"

definition drive_bus :: "(u32 \<Rightarrow> u8 list) \<Rightarrow> atapi_device \<Rightarrow> nat \<Rightarrow> drive ata_bus" where
  "drive_bus disk place lag =
     \<lparr>inb = (\<lambda>port d.
        if port = io_base place + 7 then
          (if dr_slave_selected d \<noteq> slave place then 0 else drive_status d,
           if dr_slave_selected d \<noteq> slave place then d else d\<lparr>dr_busy := dr_busy d - 1\<rparr>)
        else if port = io_base place + 4 then (dr_lba1 d, d)
        else if port = io_base place + 5 then (dr_lba2 d, d)
        else (0xFF, d)),
      inw = (\<lambda>port d.
        if port = io_base place then
          (case dr_phase d of
             Data (w # ws) \<Rightarrow> (w, if ws = [] then d\<lparr>dr_phase := Quiet, dr_busy := lag\<rparr> else d\<lparr>dr_phase := Data ws\<rparr>)
           | _ \<Rightarrow> (0xFFFF, d))
        else (0xFFFF, d)),
      outb = (\<lambda>port v d.
        if port = io_base place + 6 then d\<lparr>dr_slave_selected := (v AND 0x10 \<noteq> 0)\<rparr>
        else if port = io_base place + 4 then d\<lparr>dr_lba1 := v\<rparr>
        else if port = io_base place + 5 then d\<lparr>dr_lba2 := v\<rparr>
        else if port = io_base place + 7 \<and> dr_slave_selected d = slave place then
          (if v = 0xEC then d\<lparr>dr_lba1 := 0x14, dr_lba2 := 0xEB, dr_busy := lag\<rparr>
           else if v = 0xA1 then d\<lparr>dr_phase := Data (replicate 256 0), dr_busy := lag\<rparr>
           else if v = 0xA0 then d\<lparr>dr_phase := Packet [], dr_busy := lag\<rparr>
           else d)
        else d),
      outw = (\<lambda>port w d.
        if port = io_base place then
          (case dr_phase d of
             Packet ws \<Rightarrow>
               if length ws < 5 then d\<lparr>dr_phase := Packet (ws @ [w])\<rparr>
               else d\<lparr>dr_phase := Data (words_of (disk (packet_lba ws))), dr_busy := lag\<rparr>
           | _ \<Rightarrow> d)
        else d)\<rparr>"

definition drive_place :: "atapi_device \<Rightarrow> bool" where
  "drive_place p \<longleftrightarrow> p \<in> set candidates"

definition resting :: "drive \<Rightarrow> bool" where
  "resting d \<longleftrightarrow> dr_phase d = Quiet \<and> dr_busy d < ATA_TIMEOUT"

section \<open>Waiting for the drive\<close>

lemma drive_status_bits:
  "drive_status d AND 0x80 = 0 \<longleftrightarrow> dr_busy d = 0"
  "dr_busy d = 0 \<Longrightarrow> drive_status d AND 8 \<noteq> 0 \<longleftrightarrow> dr_phase d \<noteq> Quiet"
  "dr_busy d = 0 \<Longrightarrow> drive_status d AND (1 OR 0x20) = 0"
  "drive_status d \<noteq> 0"
  by (auto simp: drive_status_def)

lemma wait_not_busy_drive:
  assumes "dr_slave_selected d = slave p" and "dr_busy d < n"
  shows "ata_wait_not_busy (drive_bus disk p lag) (io_base p) n d = (True, d\<lparr>dr_busy := 0\<rparr>)"
  using assms
proof (induction n arbitrary: d)
  case (Suc n)
  show ?case
  proof (cases "dr_busy d = 0")
    case True
    then show ?thesis using Suc.prems by (simp add: drive_bus_def ATA_REG_STATUS_def ATA_SR_BSY_def drive_status_bits)
  next
    case False
    then show ?thesis using Suc.prems Suc.IH [of "d\<lparr>dr_busy := dr_busy d - 1\<rparr>"]
      by (simp add: drive_bus_def ATA_REG_STATUS_def ATA_SR_BSY_def drive_status_bits)
  qed
qed simp

lemma wait_drq_drive:
  assumes "dr_slave_selected d = slave p" and "dr_busy d < n" and "dr_phase d \<noteq> Quiet"
  shows "ata_wait_drq (drive_bus disk p lag) (io_base p) n d = (True, d\<lparr>dr_busy := 0\<rparr>)"
  using assms
proof (induction n arbitrary: d)
  case (Suc n)
  show ?case
  proof (cases "dr_busy d = 0")
    case True
    then show ?thesis using Suc.prems
      by (simp add: drive_bus_def ATA_REG_STATUS_def ATA_SR_BSY_def ATA_SR_DRQ_def drive_status_bits)
  next
    case False
    then show ?thesis using Suc.prems Suc.IH [of "d\<lparr>dr_busy := dr_busy d - 1\<rparr>"]
      by (simp add: drive_bus_def ATA_REG_STATUS_def ATA_SR_BSY_def ATA_SR_DRQ_def drive_status_bits)
  qed
qed simp

section \<open>Transfers\<close>

lemma word_bytes:
  fixes a b :: u8
  shows "ucast ((ucast a OR push_bit 8 (ucast b) :: u16) AND 0xFF) = a"
    and "ucast (drop_bit 8 (ucast a OR push_bit 8 (ucast b) :: u16) AND 0xFF) = b"
proof -
  have m: "(0xFF :: u16) = mask 8" by (simp add: mask_eq_exp_minus_1)
  show "ucast ((ucast a OR push_bit 8 (ucast b) :: u16) AND 0xFF) = a" unfolding m
    by (rule bit_word_eqI) (auto simp: bit_simps dest: bit_imp_le_length)
  show "ucast (drop_bit 8 (ucast a OR push_bit 8 (ucast b) :: u16) AND 0xFF) = b" unfolding m
    by (rule bit_word_eqI) (auto simp: bit_simps dest: bit_imp_le_length)
qed

lemma read_words_drive:
  "length bs = 2 * n \<Longrightarrow> 0 < n \<Longrightarrow> dr_phase d = Data (words_of bs) \<Longrightarrow>
    read_words (drive_bus disk p lag) (io_base p) n d = (bs, d\<lparr>dr_phase := Quiet, dr_busy := lag\<rparr>)"
proof (induction n arbitrary: bs d)
  case (Suc n)
  obtain a b cs where bs: "bs = a # b # cs" using Suc.prems(1) by (cases bs; cases "tl bs") auto
  have split: "ucast ((ucast a OR push_bit 8 (ucast b) :: u16) AND 0xFF) = a" "ucast (drop_bit 8 (ucast a OR push_bit 8 (ucast b) :: u16) AND 0xFF) = b"
    by (rule word_bytes)+
  show ?case
  proof (cases n)
    case 0
    then show ?thesis using Suc.prems bs split by (simp add: drive_bus_def ATA_REG_DATA_def)
  next
    case (Suc m)
    then have "words_of cs \<noteq> []" using Suc.prems(1) bs by (cases cs; cases "tl cs") auto
    then show ?thesis using Suc.prems bs split Suc.IH [of cs "d\<lparr>dr_phase := Data (words_of cs)\<rparr>"] Suc
      by (simp add: drive_bus_def ATA_REG_DATA_def)
  qed
qed simp

text \<open>The packet carries the number of the sector.\<close>

lemma word_parts:
  fixes a b :: u8
  defines "w \<equiv> ucast a OR push_bit 8 (ucast b) :: u16"
  shows "(ucast (w AND 0xFF) :: u32) = ucast a" and "(ucast (drop_bit 8 w) :: u32) = ucast b"
proof -
  have m: "(0xFF :: u16) = mask 8" by (simp add: mask_eq_exp_minus_1)
  show "(ucast (w AND 0xFF) :: u32) = ucast a" unfolding m w_def
    by (rule bit_word_eqI) (auto simp: bit_simps dest: bit_imp_le_length)
  show "(ucast (drop_bit 8 w) :: u32) = ucast b" unfolding w_def
    by (rule bit_word_eqI) (auto simp: bit_simps dest: bit_imp_le_length)
qed

lemma lba_bytes:
  fixes v :: u32
  shows "push_bit 24 (ucast (ucast (drop_bit 24 v AND 0xFF) :: u8)) OR push_bit 16 (ucast (ucast (drop_bit 16 v AND 0xFF) :: u8)) OR
    push_bit 8 (ucast (ucast (drop_bit 8 v AND 0xFF) :: u8)) OR ucast (ucast (v AND 0xFF) :: u8) = v"
proof -
  have m: "(0xFF :: u32) = mask 8" by (simp add: mask_eq_exp_minus_1)
  show ?thesis unfolding m
  proof (rule bit_word_eqI)
    fix n assume "n < LENGTH(32)"
    then have "n < 32" by simp
    then have "n < 8 \<or> (\<exists>k < 8. n = 8 + k) \<or> (\<exists>k < 8. n = 16 + k) \<or> (\<exists>k < 8. n = 24 + k)" by presburger
    then consider "n < 8" | k where "n = 8 + k" "k < 8" | k where "n = 16 + k" "k < 8" | k where "n = 24 + k" "k < 8" by blast
    then show "bit (push_bit 24 (ucast (ucast (drop_bit 24 v AND mask 8) :: u8) :: u32) OR push_bit 16 (ucast (ucast (drop_bit 16 v AND mask 8) :: u8)) OR
      push_bit 8 (ucast (ucast (drop_bit 8 v AND mask 8) :: u8)) OR ucast (ucast (v AND mask 8) :: u8)) n = bit v n"
      by cases (simp_all add: bit_simps)
  qed
qed

lemma packet_lba_sent:
  "packet_lba [w, ucast (ucast (drop_bit 24 v AND 0xFF) :: u8) OR push_bit 8 (ucast (ucast (drop_bit 16 v AND 0xFF) :: u8)),
     ucast (ucast (drop_bit 8 v AND 0xFF) :: u8) OR push_bit 8 (ucast (ucast (v AND 0xFF) :: u8)), x, y] = v"
  by (simp only: packet_lba_def nth_Cons_Suc nth_Cons_0 One_nat_def numeral_2_eq_2 word_parts lba_bytes)

lemma send_packet_drive:
  assumes "dr_phase d = Packet []"
  shows "send_packet (drive_bus disk p lag) (io_base p) (read_packet lba) d = d\<lparr>dr_phase := Data (words_of (disk lba)), dr_busy := lag\<rparr>"
  using assms packet_lba_sent by (simp add: read_packet_def drive_bus_def ATA_REG_DATA_def)

lemma select_drive:
  assumes p: "drive_place p"
  shows "ata_io_wait (drive_bus disk p lag) (ctrl_base p) (ata_select_drive (drive_bus disk p lag) (io_base p) sl d) = d\<lparr>dr_slave_selected := sl\<rparr>"
proof -
  have "ctrl_base p \<noteq> io_base p + 7" using p
    by (auto simp: drive_place_def candidates_def ATA_PRIMARY_IO_def ATA_SECONDARY_IO_def ATA_PRIMARY_CTRL_def ATA_SECONDARY_CTRL_def)
  then have "(\<lambda>d. snd (inb (drive_bus disk p lag) (ctrl_base p) d)) = id" by (auto simp: drive_bus_def)
  moreover have "(0xA0 OR 0x10 :: u8) AND 0x10 \<noteq> 0" "(0xA0 :: u8) AND 0x10 = 0" by simp_all
  ultimately show ?thesis
    by (simp add: ata_io_wait_def ata_select_drive_def id_funpow) (simp add: drive_bus_def ATA_REG_HDDEVSEL_def)
qed

section \<open>Reading sectors\<close>

lemma command_drive:
  assumes "dr_slave_selected d = slave p"
  shows "outb (drive_bus disk p lag) (io_base p + ATA_REG_COMMAND) ATA_CMD_PACKET
      (outb (drive_bus disk p lag) (io_base p + ATA_REG_LBA2) y (outb (drive_bus disk p lag) (io_base p + ATA_REG_LBA1) x
        (outb (drive_bus disk p lag) (io_base p + ATA_REG_FEATURES) z d))) =
    d\<lparr>dr_lba1 := x, dr_lba2 := y, dr_phase := Packet [], dr_busy := lag\<rparr>"
  using assms by (simp add: drive_bus_def ATA_REG_COMMAND_def ATA_REG_LBA1_def ATA_REG_LBA2_def ATA_REG_FEATURES_def ATA_CMD_PACKET_def)

definition after_read :: "atapi_device \<Rightarrow> drive \<Rightarrow> drive" where
  "after_read p d = d\<lparr>dr_slave_selected := slave p, dr_lba1 := 0, dr_lba2 := 8, dr_phase := Quiet, dr_busy := 0\<rparr>"

lemma read_block_drive:
  assumes p: "drive_place p" and d: "resting d" and lag: "lag < ATA_TIMEOUT" and sec: "length (disk lba) = 2048"
  shows "read_block (drive_bus disk p lag) p lba d = (Some (disk lba), after_read p d)"
proof -
  let ?B = "drive_bus disk p lag" and ?io = "io_base p"
  let ?d1 = "d\<lparr>dr_slave_selected := slave p, dr_busy := 0\<rparr>"
  let ?d2 = "d\<lparr>dr_slave_selected := slave p, dr_lba1 := 0, dr_lba2 := 8, dr_phase := Packet [], dr_busy := 0\<rparr>"
  let ?d3 = "d\<lparr>dr_slave_selected := slave p, dr_lba1 := 0, dr_lba2 := 8, dr_phase := Data (words_of (disk lba)), dr_busy := 0\<rparr>"
  have w1: "ata_wait_not_busy ?B ?io ATA_TIMEOUT (d\<lparr>dr_slave_selected := slave p\<rparr>) = (True, ?d1)"
    using wait_not_busy_drive [of "d\<lparr>dr_slave_selected := slave p\<rparr>" p ATA_TIMEOUT] d by (simp add: resting_def)
  have w2: "ata_wait_drq ?B ?io ATA_TIMEOUT (?d1\<lparr>dr_lba1 := 0, dr_lba2 := 8, dr_phase := Packet [], dr_busy := lag\<rparr>) = (True, ?d2)"
    by (subst wait_drq_drive) (use lag in simp_all)
  have w3: "ata_wait_drq ?B ?io ATA_TIMEOUT (send_packet ?B ?io (read_packet lba) ?d2) = (True, ?d3)"
    by (subst send_packet_drive, simp, subst wait_drq_drive) (use lag in simp_all)
  have r: "read_words ?B ?io 1024 ?d3 = (disk lba, ?d3\<lparr>dr_phase := Quiet, dr_busy := lag\<rparr>)"
    by (rule read_words_drive) (use sec in simp_all)
  have w4: "ata_wait_not_busy ?B ?io ATA_TIMEOUT (?d3\<lparr>dr_phase := Quiet, dr_busy := lag\<rparr>) = (True, after_read p d)"
    by (subst wait_not_busy_drive) (use lag in \<open>simp_all add: after_read_def\<close>)
  have s: "inb ?B (?io + ATA_REG_STATUS) (after_read p d) = (0x50, after_read p d)"
    by (simp add: drive_bus_def ATA_REG_STATUS_def after_read_def drive_status_def)
  have c: "outb ?B (?io + ATA_REG_COMMAND) ATA_CMD_PACKET (outb ?B (?io + ATA_REG_LBA2) (ucast (drop_bit 8 ATAPI_SECTOR_SIZE AND 0xFF))
      (outb ?B (?io + ATA_REG_LBA1) (ucast (ATAPI_SECTOR_SIZE AND 0xFF)) (outb ?B (?io + ATA_REG_FEATURES) 0 ?d1))) =
      ?d1\<lparr>dr_lba1 := 0, dr_lba2 := 8, dr_phase := Packet [], dr_busy := lag\<rparr>"
    by (subst command_drive) (simp_all add: ATAPI_SECTOR_SIZE_def)
  have n: "unat (ATAPI_SECTOR_SIZE div 2) = 1024" by (simp add: ATAPI_SECTOR_SIZE_def)
  have e: "(0x50 :: u8) AND (ATA_SR_ERR OR ATA_SR_DF) = 0" by (simp add: ATA_SR_ERR_def ATA_SR_DF_def)
  show ?thesis unfolding read_block_def Let_def select_drive [OF p] w1 prod.case c w2 w3 n r w4 s e by simp
qed

lemma after_read_resting: "resting (after_read p d)" "after_read p (after_read p d) = after_read p d"
  by (simp_all add: after_read_def resting_def ATA_TIMEOUT_def)

lemma read_block_loop_drive:
  assumes p: "drive_place p" and lag: "lag < ATA_TIMEOUT" and sec: "\<And>l. length (disk l) = 2048"
  shows "resting d \<Longrightarrow> 0 < n \<Longrightarrow> read_block_loop (drive_bus disk p lag) p lba n block d =
    (Some (concat (map (\<lambda>i. disk (lba + block + of_nat i)) [0..<n])), after_read p d)"
proof (induction n arbitrary: block d)
  case (Suc n)
  note r = read_block_drive [where disk = disk and lba = "lba + block", OF p Suc.prems(1) lag sec]
  have u: "[0..<Suc n] = 0 # map Suc [0..<n]" by (simp add: upt_conv_Cons map_Suc_upt del: upt_Suc)
  have cat: "concat (map (\<lambda>i. disk (lba + block + of_nat i)) [0..<Suc n]) =
      disk (lba + block) @ concat (map (\<lambda>i. disk (lba + (block + 1) + of_nat i)) [0..<n])"
    unfolding u by (simp add: o_def add.assoc)
  show ?case
  proof (cases n)
    case 0
    then show ?thesis using r by simp
  next
    case (Suc m)
    then have "read_block_loop (drive_bus disk p lag) p lba n (block + 1) (after_read p d) =
        (Some (concat (map (\<lambda>i. disk (lba + (block + 1) + of_nat i)) [0..<n])), after_read p d)"
      using Suc.IH [of "after_read p d" "block + 1"] after_read_resting [of p d] by simp
    then show ?thesis using r unfolding cat by simp
  qed
qed simp

section \<open>Finding the drive\<close>

lemma absent_bus:
  assumes "drive_place p" and "drive_place c" and "io_base c \<noteq> io_base p"
  shows "atapi_identify (drive_bus disk p lag) (io_base c) (ctrl_base c) (slave c) d = (False, d)"
proof -
  let ?B = "drive_bus disk p lag"
  have io: "io_base c + k \<noteq> io_base p + j" if "k \<in> {0, 1, 2, 3, 4, 5, 6, 7}" "j \<in> {4, 5, 6, 7}" for k j
    using assms that by (auto simp: drive_place_def candidates_def ATA_PRIMARY_IO_def ATA_SECONDARY_IO_def)
  have ct: "ctrl_base c \<noteq> io_base p + 7"
    using assms by (auto simp: drive_place_def candidates_def ATA_PRIMARY_IO_def ATA_SECONDARY_IO_def ATA_PRIMARY_CTRL_def ATA_SECONDARY_CTRL_def)
  then have idle: "(\<lambda>d. snd (inb ?B (ctrl_base c) d)) = id" by (auto simp: drive_bus_def)
  have i: "inb ?B (io_base c + 7) d = (0xFF, d)" for d using io assms(3) by (simp add: drive_bus_def)
  have o: "outb ?B (io_base c + k) v d = d" if "k \<in> {0, 1, 2, 3, 4, 5, 6, 7}" for k v d using io that assms(3) by (auto simp: drive_bus_def)
  have "ata_wait_not_busy ?B (io_base c) n d = (False, d)" for n d
    by (induction n) (simp_all add: i ATA_REG_STATUS_def ATA_SR_BSY_def)
  then show ?thesis
    by (simp add: atapi_identify_def ata_io_wait_def ata_select_drive_def idle id_funpow o i Let_def ATA_REG_STATUS_def
        ATA_REG_SECCOUNT0_def ATA_REG_LBA0_def ATA_REG_LBA1_def ATA_REG_LBA2_def ATA_REG_HDDEVSEL_def ATA_REG_COMMAND_def)
qed

lemma other_place:
  assumes p: "drive_place p" and c: "drive_place c" and io: "io_base c = io_base p" and sl: "slave c \<noteq> slave p"
  shows "\<exists>d'. atapi_identify (drive_bus disk p lag) (io_base c) (ctrl_base c) (slave c) d = (False, d') \<and> (resting d \<longrightarrow> resting d')"
proof -
  have "ctrl_base c = ctrl_base p" using p c io by (auto simp: drive_place_def candidates_def ATA_PRIMARY_IO_def ATA_SECONDARY_IO_def)
  then show ?thesis unfolding atapi_identify_def io
    by (simp only: select_drive [OF p]) (use sl in \<open>simp add: Let_def drive_bus_def resting_def ATA_REG_STATUS_def
        ATA_REG_SECCOUNT0_def ATA_REG_LBA0_def ATA_REG_LBA1_def ATA_REG_LBA2_def ATA_REG_COMMAND_def ATA_CMD_IDENTIFY_def\<close>)
qed

lemma own_place:
  assumes p: "drive_place p" and d: "resting d" and lag: "lag < ATA_TIMEOUT"
  shows "\<exists>d'. atapi_identify (drive_bus disk p lag) (io_base p) (ctrl_base p) (slave p) d = (True, d') \<and> resting d'"
proof -
  let ?B = "drive_bus disk p lag" and ?io = "io_base p"
  let ?d1 = "d\<lparr>dr_slave_selected := slave p, dr_lba1 := 0x14, dr_lba2 := 0xEB, dr_busy := lag\<rparr>"
  have o: "outb ?B (?io + ATA_REG_COMMAND) ATA_CMD_IDENTIFY (outb ?B (?io + ATA_REG_LBA2) 0 (outb ?B (?io + ATA_REG_LBA1) 0
      (outb ?B (?io + ATA_REG_LBA0) 0 (outb ?B (?io + ATA_REG_SECCOUNT0) 0 (d\<lparr>dr_slave_selected := slave p\<rparr>))))) = ?d1"
    by (simp add: drive_bus_def ATA_REG_SECCOUNT0_def ATA_REG_LBA0_def ATA_REG_LBA1_def ATA_REG_LBA2_def ATA_REG_COMMAND_def ATA_CMD_IDENTIFY_def)
  have i: "inb ?B (?io + ATA_REG_STATUS) ?d1 = (drive_status ?d1, ?d1\<lparr>dr_busy := lag - 1\<rparr>)"
    by (simp add: drive_bus_def ATA_REG_STATUS_def)
  have w: "ata_wait_not_busy ?B ?io ATA_TIMEOUT (?d1\<lparr>dr_busy := lag - 1\<rparr>) = (True, ?d1\<lparr>dr_busy := 0\<rparr>)"
    by (subst wait_not_busy_drive) (use lag in auto)
  have l: "inb ?B (?io + ATA_REG_LBA1) (?d1\<lparr>dr_busy := 0\<rparr>) = (ATAPI_SIG_LBA1, ?d1\<lparr>dr_busy := 0\<rparr>)"
    "inb ?B (?io + ATA_REG_LBA2) (?d1\<lparr>dr_busy := 0\<rparr>) = (ATAPI_SIG_LBA2, ?d1\<lparr>dr_busy := 0\<rparr>)"
    by (simp_all add: drive_bus_def ATA_REG_LBA1_def ATA_REG_LBA2_def ATAPI_SIG_LBA1_def ATAPI_SIG_LBA2_def)
  let ?d2 = "?d1\<lparr>dr_phase := Data (replicate 256 0), dr_busy := lag\<rparr>"
  have c: "outb ?B (?io + ATA_REG_COMMAND) ATA_CMD_IDENTIFY_PACKET (?d1\<lparr>dr_busy := 0\<rparr>) = ?d2"
    by (simp add: drive_bus_def ATA_REG_COMMAND_def ATA_CMD_IDENTIFY_PACKET_def)
  have q: "ata_wait_drq ?B ?io ATA_TIMEOUT ?d2 = (True, ?d2\<lparr>dr_busy := 0\<rparr>)"
    by (subst wait_drq_drive) (use lag in auto)
  have z: "words_of (replicate (2 * n) 0) = replicate n 0" for n by (induction n) simp_all
  have r: "read_words ?B ?io 256 (?d2\<lparr>dr_busy := 0\<rparr>) = (replicate 512 0, ?d2\<lparr>dr_phase := Quiet, dr_busy := lag\<rparr>)"
    by (subst read_words_drive [where bs = "replicate 512 0"]) (use z [of 256] in simp_all)
  have ne: "drive_status ?d1 \<noteq> 0" by (simp add: drive_status_bits)
  show ?thesis unfolding atapi_identify_def Let_def select_drive [OF p] o i prod.case w l c q r
    using ne lag by (simp add: resting_def)
qed

lemma find_drive_finds:
  assumes p: "drive_place p" and lag: "lag < ATA_TIMEOUT"
  shows "resting d \<Longrightarrow> p \<in> set cs \<Longrightarrow> set cs \<subseteq> set candidates \<Longrightarrow>
    \<exists>d'. find_drive (drive_bus disk p lag) cs d = (Some p, d') \<and> resting d'"
proof (induction cs arbitrary: d)
  case (Cons c cs)
  have c: "drive_place c" using Cons.prems(3) by (simp add: drive_place_def)
  show ?case
  proof (cases "c = p")
    case True
    then show ?thesis using own_place [OF p Cons.prems(1) lag, of disk] by auto
  next
    case False
    have "io_base c \<noteq> io_base p \<or> io_base c = io_base p \<and> slave c \<noteq> slave p"
      using False p c by (auto simp: drive_place_def candidates_def ATA_PRIMARY_IO_def ATA_SECONDARY_IO_def)
    then obtain d1 where "atapi_identify (drive_bus disk p lag) (io_base c) (ctrl_base c) (slave c) d = (False, d1)" "resting d1"
      using absent_bus [OF p c] other_place [OF p c] Cons.prems(1) by metis
    then show ?thesis using Cons.IH [of d1] Cons.prems False by simp
  qed
qed simp

text \<open>The sectors of a disc, from \<open>lba\<close> on.\<close>

definition disc_bytes :: "(u32 \<Rightarrow> u8 list) \<Rightarrow> u32 \<Rightarrow> u32 \<Rightarrow> u8 list" where
  "disc_bytes disk lba n = concat (map (\<lambda>i. disk (lba + of_nat i)) [0..<unat n])"

lemma atapi_read_drive:
  assumes "drive_place p" and "lag < ATA_TIMEOUT" and "\<And>l. length (disk l) = 2048" and "resting d" and "n \<noteq> 0"
  shows "atapi_read_blocks (drive_bus disk p lag) (Some p) lba n d = (Some (disc_bytes disk lba n), after_read p d)"
proof -
  have "0 < unat n" using assms(5) by (simp add: unat_gt_0)
  then show ?thesis using read_block_loop_drive [where disk = disk and n = "unat n" and lba = lba and block = 0, OF assms(1-4)] assms(5)
    by (simp add: atapi_read_blocks_def disc_bytes_def)
qed

lemma reads_repeat:
  assumes "drive_place p" and "lag < ATA_TIMEOUT" and "\<And>l. length (disk l) = 2048" and "resting d" and "n \<noteq> 0"
    and "atapi_read_blocks (drive_bus disk p lag) (Some p) lba' n' d = (r, d')"
  shows "fst (atapi_read_blocks (drive_bus disk p lag) (Some p) lba n d') = fst (atapi_read_blocks (drive_bus disk p lag) (Some p) lba n d)"
proof (cases "n' = 0")
  case True
  then show ?thesis using assms(6) by (simp add: atapi_read_blocks_def)
next
  case False
  have "resting d'" using atapi_read_drive [where disk = disk and lba = lba', OF assms(1-4) False] assms(6) after_read_resting(1) by auto
  then show ?thesis using atapi_read_drive [where disk = disk, OF assms(1-3) _ assms(5)] assms(4) by simp
qed



end
