(* ===== verification/Platform.thy ===== *)
theory Platform
  imports Util
begin

text \<open>
  \<^verbatim>\<open>arch/i386/protection.c\<close> and the vendor string of \<^verbatim>\<open>arch/i386/platform.c\<close>: the segment
  descriptors and the task state segment under which user mode runs.

  Addresses of statics (the tables and the stack) are parameters; loading the registers of the
  processor (\<^verbatim>\<open>gdt_flush\<close>, \<^verbatim>\<open>tss_flush\<close>) is assembly and only recorded by the values passed.
\<close>

record gdt_entry =
  limit_low :: u16
  base_low :: u16
  base_mid :: u8
  access :: u8
  gran :: u8
  base_high :: u8

record gdt_ptr =
  gp_limit :: u16
  gp_base :: u32

record tss_entry =
  prev_tss :: u32
  esp0 :: u32
  ss0 :: u32
  esp1 :: u32
  ss1 :: u32
  esp2 :: u32
  ss2 :: u32
  ts_cr3 :: u32
  ts_eip :: u32
  ts_eflags :: u32
  ts_eax :: u32
  ts_ecx :: u32
  ts_edx :: u32
  ts_ebx :: u32
  ts_esp :: u32
  ts_ebp :: u32
  ts_esi :: u32
  ts_edi :: u32
  ts_es :: u32
  ts_cs :: u32
  ts_ss :: u32
  ts_ds :: u32
  ts_fs :: u32
  ts_gs :: u32
  ts_ldt :: u32
  ts_trap :: u16
  iomap_base :: u16

record protection =
  gdt :: "gdt_entry list"
  gdtr :: gdt_ptr
  tss :: tss_entry
  ring3_kernel_stack_top :: u32
  loaded_data_selector :: u16
  loaded_tss_selector :: u16

definition gdt_set_gate :: "nat \<Rightarrow> u32 \<Rightarrow> u32 \<Rightarrow> u8 \<Rightarrow> u8 \<Rightarrow> gdt_entry list \<Rightarrow> gdt_entry list" where
  "gdt_set_gate i base limit acc gr g =
     g[i := \<lparr>limit_low = ucast (limit AND 0xFFFF), base_low = ucast (base AND 0xFFFF), base_mid = ucast (drop_bit 16 base AND 0xFF),
        access = acc, gran = ucast ((drop_bit 16 limit AND 0x0F) OR (ucast gr AND 0xF0)), base_high = ucast (drop_bit 24 base AND 0xFF)\<rparr>]"

definition tss_set_kernel_stack :: "u32 \<Rightarrow> protection \<Rightarrow> protection" where
  "tss_set_kernel_stack sp p = p\<lparr>tss := (tss p)\<lparr>esp0 := sp\<rparr>\<rparr>"

definition zero_gdt_entry :: gdt_entry where
  "zero_gdt_entry = \<lparr>limit_low = 0, base_low = 0, base_mid = 0, access = 0, gran = 0, base_high = 0\<rparr>"

definition zero_tss :: tss_entry where
  "zero_tss = \<lparr>prev_tss = 0, esp0 = 0, ss0 = 0, esp1 = 0, ss1 = 0, esp2 = 0, ss2 = 0, ts_cr3 = 0, ts_eip = 0, ts_eflags = 0,
     ts_eax = 0, ts_ecx = 0, ts_edx = 0, ts_ebx = 0, ts_esp = 0, ts_ebp = 0, ts_esi = 0, ts_edi = 0, ts_es = 0, ts_cs = 0,
     ts_ss = 0, ts_ds = 0, ts_fs = 0, ts_gs = 0, ts_ldt = 0, ts_trap = 0, iomap_base = 0\<rparr>"

definition sizeof_tss :: u32 where "sizeof_tss = 104"
definition sizeof_gdt :: u32 where "sizeof_gdt = 48"
definition sizeof_ring3_kernel_stack :: u32 where "sizeof_ring3_kernel_stack = 32768"

text \<open>\<open>gdt_at\<close>, \<open>tss_at\<close> and \<open>stack_at\<close> are the addresses of the statics.\<close>

definition protection_init :: "u32 \<Rightarrow> u32 \<Rightarrow> u32 \<Rightarrow> protection" where
  "protection_init gdt_at tss_at stack_at =
     (let g = replicate 6 zero_gdt_entry;
          g = gdt_set_gate 0 0 0 0 0 g;
          g = gdt_set_gate 1 0 0xFFFFF 0x9A 0xCF g;
          g = gdt_set_gate 2 0 0xFFFFF 0x92 0xCF g;
          g = gdt_set_gate 3 0 0xFFFFF 0xFA 0xCF g;
          g = gdt_set_gate 4 0 0xFFFFF 0xF2 0xCF g;
          g = gdt_set_gate 5 tss_at (sizeof_tss - 1) 0x89 0x00 g;
          top = stack_at + sizeof_ring3_kernel_stack
      in \<lparr>gdt = g, gdtr = \<lparr>gp_limit = ucast (sizeof_gdt - 1), gp_base = gdt_at\<rparr>,
          tss = zero_tss\<lparr>ss0 := 0x10, esp0 := top, ts_cs := 0x1B, ts_ss := 0x23, ts_ds := 0x23, ts_es := 0x23, ts_fs := 0x23,
            ts_gs := 0x23, iomap_base := ucast sizeof_tss\<rparr>,
          ring3_kernel_stack_top = top, loaded_data_selector = 0x10, loaded_tss_selector = 0x28\<rparr>)"

text \<open>The three registers of \<^verbatim>\<open>cpuid\<close> as the string of the vendor, with its terminator.\<close>

definition register_text :: "u32 \<Rightarrow> string" where
  "register_text r = map (\<lambda>i. char_of_byte (ucast (drop_bit (8 * i) r AND 0xFF))) [0..<4]"

definition cpu_vendor :: "u32 \<Rightarrow> u32 \<Rightarrow> u32 \<Rightarrow> string" where
  "cpu_vendor ebx ecx edx = register_text ebx @ register_text edx @ register_text ecx @ [NUL]"

section \<open>What the processor reads\<close>

text \<open>Base, limit and privilege of a descriptor as the processor decodes them.\<close>

definition segment_base :: "gdt_entry \<Rightarrow> u32" where
  "segment_base e = push_bit 24 (ucast (base_high e)) OR push_bit 16 (ucast (base_mid e)) OR ucast (base_low e)"

definition segment_limit :: "gdt_entry \<Rightarrow> u32" where
  "segment_limit e = push_bit 16 (ucast (gran e AND 0x0F)) OR ucast (limit_low e)"

definition segment_dpl :: "gdt_entry \<Rightarrow> u8" where
  "segment_dpl e = drop_bit 5 (access e) AND 3"

definition segment_pages :: "gdt_entry \<Rightarrow> bool" where
  "segment_pages e \<longleftrightarrow> gran e AND 0x80 \<noteq> 0"

definition is_code :: "gdt_entry \<Rightarrow> bool" where
  "is_code e \<longleftrightarrow> access e AND 0x98 = 0x98"

definition selected :: "gdt_entry list \<Rightarrow> u32 \<Rightarrow> gdt_entry" where
  "selected g sel = g ! unat (drop_bit 3 sel)"

lemma bits32: "n < 32 \<Longrightarrow> n < 16 \<or> (\<exists>k < 8. n = 16 + k) \<or> (\<exists>k < 8. n = 24 + k)" for n :: nat
  by presburger

lemma gate_base: "i < length g \<Longrightarrow> segment_base (gdt_set_gate i base limit acc gr g ! i) = base"
proof -
  have m: "(0xFFFF :: u32) = mask 16" "(0xFF :: u32) = mask 8" by (simp_all add: mask_eq_exp_minus_1)
  have "(push_bit 24 (ucast (ucast (drop_bit 24 base AND mask 8) :: u8)) OR push_bit 16 (ucast (ucast (drop_bit 16 base AND mask 8) :: u8)) OR
      ucast (ucast (base AND mask 16) :: u16) :: u32) = base"
  proof (rule bit_word_eqI)
    fix n assume "n < LENGTH(32)"
    then have "n < 16 \<or> (\<exists>k < 8. n = 16 + k) \<or> (\<exists>k < 8. n = 24 + k)" using bits32 by simp
    then consider "n < 16" | k where "n = 16 + k" "k < 8" | k where "n = 24 + k" "k < 8" by blast
    then show "bit (push_bit 24 (ucast (ucast (drop_bit 24 base AND mask 8) :: u8)) OR push_bit 16 (ucast (ucast (drop_bit 16 base AND mask 8) :: u8)) OR
      ucast (ucast (base AND mask 16) :: u16) :: u32) n = bit base n"
      by cases (simp_all add: bit_simps)
  qed
  then show "i < length g \<Longrightarrow> ?thesis" by (simp add: segment_base_def gdt_set_gate_def m)
qed

lemma gate_limit:
  assumes "i < length g" and "limit < 0x100000"
  shows "segment_limit (gdt_set_gate i base limit acc gr g ! i) = limit"
proof -
  have m: "(0xFFFF :: u32) = mask 16" "(0x0F :: u32) = mask 4" "(0x0F :: u8) = mask 4" "(0xF0 :: u32) = push_bit 4 (mask 4)"
    by (simp_all add: mask_eq_exp_minus_1)
  have "limit AND mask 20 = limit" using assms(2) by (intro less_mask_eq) simp
  then have small: "bit limit n \<Longrightarrow> n < 20" for n by (metis bit_and_iff bit_mask_iff)
  have "push_bit 16 (ucast (ucast ((drop_bit 16 limit AND mask 4) OR (ucast gr AND push_bit 4 (mask 4))) AND mask 4 :: u8)) OR
      ucast (ucast (limit AND mask 16) :: u16) = limit"
  proof (rule bit_word_eqI)
    fix n assume "n < LENGTH(32)"
    then have "n < 16 \<or> (\<exists>k < 16. n = 16 + k)" by simp presburger
    then consider "n < 16" | k where "n = 16 + k" "k < 16" by blast
    then show "bit (push_bit 16 (ucast (ucast ((drop_bit 16 limit AND mask 4) OR (ucast gr AND push_bit 4 (mask 4))) AND mask 4 :: u8)) OR
      ucast (ucast (limit AND mask 16) :: u16) :: u32) n = bit limit n"
      by cases (auto simp: bit_simps dest: small)
  qed
  then show ?thesis using assms(1) by (simp add: segment_limit_def gdt_set_gate_def m)
qed

lemma gate_other: "i \<noteq> j \<Longrightarrow> gdt_set_gate i base limit acc gr g ! j = g ! j"
  by (simp add: gdt_set_gate_def)

lemma gate_length [simp]: "length (gdt_set_gate i base limit acc gr g) = length g"
  by (simp add: gdt_set_gate_def)

lemma gate_access: "i < length g \<Longrightarrow> access (gdt_set_gate i base limit acc gr g ! i) = acc"
  by (simp add: gdt_set_gate_def)

lemma gate_pages:
  assumes "i < length g" shows "segment_pages (gdt_set_gate i base limit acc gr g ! i) \<longleftrightarrow> gr AND 0x80 \<noteq> 0"
proof -
  have m: "(0x0F :: u32) = mask 4" "(0xF0 :: u32) = push_bit 4 (mask 4)" by (simp_all add: mask_eq_exp_minus_1)
  have b: "x AND 0x80 \<noteq> 0 \<longleftrightarrow> bit x 7" for x :: u8 using bit_iff_and_push_bit_not_eq_0 [of x 7] by simp
  have "bit (ucast ((drop_bit 16 limit AND mask 4) OR (ucast gr AND push_bit 4 (mask 4))) :: u8) 7 = bit gr 7"
    by (auto simp: bit_simps)
  then show ?thesis using assms unfolding b segment_pages_def by (simp add: gdt_set_gate_def m)
qed

text \<open>
  C21: after \<^verbatim>\<open>protection_init\<close> the selectors that the entry into user mode loads (code \<^verbatim>\<open>0x1B\<close>,
  data \<^verbatim>\<open>0x23\<close>) name descriptors of privilege 3, and those of the kernel (\<^verbatim>\<open>0x08\<close> and \<^verbatim>\<open>0x10\<close>)
  descriptors of privilege 0; all four cover the 4 GB from address 0.  The task register names
  the descriptor of the task state segment, whose stack for traps is the end of the kernel's
  32 KB stack and whose I/O map lies beyond its limit, so that user mode has no port access.
\<close>

theorem protection_init_correct:
  "let p = protection_init gdt_at tss_at stack_at; ts = selected (gdt p) (ucast (loaded_tss_selector p)) in
   (\<forall>sel \<in> {0x08, 0x10, 0x1B, 0x23}. segment_base (selected (gdt p) sel) = 0 \<and> segment_limit (selected (gdt p) sel) = 0xFFFFF \<and>
      segment_pages (selected (gdt p) sel) \<and> ucast (segment_dpl (selected (gdt p) sel)) = sel AND 3) \<and>
   is_code (selected (gdt p) 0x1B) \<and> is_code (selected (gdt p) 0x08) \<and> \<not> is_code (selected (gdt p) 0x23) \<and>
   segment_base ts = tss_at \<and> segment_limit ts = 103 \<and> \<not> segment_pages ts \<and>
   esp0 (tss p) = stack_at + 32768 \<and> ss0 (tss p) = 0x10 \<and> segment_limit ts < ucast (iomap_base (tss p))"
proof -
  have sel: "unat (drop_bit 3 (0x08 :: u32)) = 1" "unat (drop_bit 3 (0x10 :: u32)) = 2" "unat (drop_bit 3 (0x1B :: u32)) = 3"
    "unat (drop_bit 3 (0x23 :: u32)) = 4" "unat (drop_bit 3 (0x28 :: u32)) = 5" by simp_all
  show ?thesis
    by (simp add: Let_def protection_init_def selected_def sel gate_base gate_limit gate_other gate_access gate_pages
        segment_dpl_def is_code_def sizeof_tss_def sizeof_ring3_kernel_stack_def)
qed

theorem protection_init_correct_witness:
  "segment_base (selected (gdt (protection_init 0x1000 0x2000 0x3000)) 0x1B) = 0 \<and>
   segment_limit (selected (gdt (protection_init 0x1000 0x2000 0x3000)) 0x23) = 0xFFFFF \<and>
   esp0 (tss (protection_init 0x1000 0x2000 0x3000)) = 0xB000"
  using protection_init_correct [of "0x1000" "0x2000" "0x3000"] by (simp add: Let_def)

end
