(* ===== verification/Boot.thy ===== *)
theory Boot
  imports ShellLine AtapiProps Platform
begin

text \<open>
  \<^verbatim>\<open>kernel/kmain.c\<close>: the start of the kernel, up to the loop of the shell.

  The parameters are what the boot loader and the linker provide: the multiboot information, the
  end of the kernel image, the addresses of its statics and of the interrupt stubs, the bus of
  the CD-ROM drive, and the uninitialised line buffers of the shells.  The interrupts that
  arrive during the start are counted with those of the first round of the loop.
\<close>

record 'd boot_params =
  bp_mbi :: "multiboot_video option"
  bp_magic :: u32
  bp_kernel_end :: u32
  bp_gdt_at :: u32
  bp_tss_at :: u32
  bp_stack_at :: u32
  bp_code_selector :: u16
  bp_stubs :: entry_stubs
  bp_bus :: "'d ata_bus"
  bp_line1 :: string
  bp_line2 :: string

definition bp_info :: "'d boot_params \<Rightarrow> multiboot_info option" where
  "bp_info P = map_option multiboot_info.truncate (bp_mbi P)"

abbreviation boot_say :: "string \<Rightarrow> world \<Rightarrow> world option" where
  "boot_say s \<equiv> say CONSOLE_BOTH s"

definition in_boot :: "(kernel \<Rightarrow> kernel) \<Rightarrow> world \<Rightarrow> world" where
  "in_boot f w = w\<lparr>w_kernel := f (w_kernel w)\<rparr>"

text \<open>The screen and the serial line, then the tables of the kernel.\<close>

definition boot_console :: "'d boot_params \<Rightarrow> world \<Rightarrow> world option" where
  "boot_console P w = in_console (\<lambda>c. term_clear (serial_init (term_init_with_multiboot (bp_mbi P) (bp_magic P) c))) w"

definition boot_tasks :: "kernel \<Rightarrow> kernel" where
  "boot_tasks k =
     k\<lparr>kn_sched := snd (task_spawn_kernel (Some ''shell-serial'') 0 (snd (task_spawn_kernel (Some ''shell-vga'') 0 (tasking_init (kn_procs k)))))\<rparr>"

definition kmain :: "'d boot_params \<Rightarrow> 'd \<Rightarrow> world \<Rightarrow> (protection \<times> 'd \<times> shells) option" where
  "kmain P d w =
     do { w \<leftarrow> boot_console P w;
          w \<leftarrow> boot_say (''kmain: console ok'' @ newline) w;
          let prot = protection_init (bp_gdt_at P) (bp_tss_at P) (bp_stack_at P);
          w \<leftarrow> boot_say (''kmain: protection ok'' @ newline) w;
          let w = in_boot (\<lambda>k. k\<lparr>heap := heap_init (bp_kernel_end P) (bp_info P) (bp_magic P)\<rparr>) w;
          w \<leftarrow> boot_say (''kmain: heap ok'' @ newline) w;
          let w = in_boot (\<lambda>k. k\<lparr>kn_sched := (kn_sched k)\<lparr>sc_procs := proc_init\<rparr>\<rparr>) w;
          w \<leftarrow> boot_say (''kmain: proc ok'' @ newline) w;
          let w = in_boot (\<lambda>k. k\<lparr>kn_ipc := ipc_init\<rparr>) w;
          w \<leftarrow> boot_say (''kmain: ipc ok'' @ newline) w;
          let w = in_boot (\<lambda>k. k\<lparr>kn_services := service_init\<rparr>) w;
          w \<leftarrow> boot_say (''kmain: services ok'' @ newline) w;
          let w = in_boot boot_tasks w;
          w \<leftarrow> boot_say (''kmain: tasking ok'' @ newline) w;
          let w = in_boot (\<lambda>k. k\<lparr>kn_irq := interrupts_init (bp_code_selector P) (bp_stubs P) (kn_irq k)\<rparr>) w;
          w \<leftarrow> boot_say (''kmain: irq timer on'' @ newline) w;
          let (st, d) = storage_init (bp_bus P) d (ie_storage (kn_fs (w_kernel w)));
          let w = in_boot (\<lambda>k. k\<lparr>kn_fs := (kn_fs k)\<lparr>ie_storage := st\<rparr>\<rparr>) w;
          w \<leftarrow> boot_say (''kmain: storage ok'' @ newline) w;
          w \<leftarrow> boot_say ''kmain: cd0 '' w;
          w \<leftarrow> boot_say ((if storage_find_device st ''cd0'' \<noteq> None then ''detected'' else ''missing'') @ newline) w;
          let w = in_boot (\<lambda>k. k\<lparr>kn_fs := fs_init (kn_fs k)\<rparr>) w;
          w \<leftarrow> boot_say (''kmain: fs ok'' @ newline) w;
          w \<leftarrow> boot_say ''kmain: mounts='' w;
          w \<leftarrow> say_dec CONSOLE_BOTH (fs_mount_count (kn_fs (w_kernel w))) w;
          w \<leftarrow> boot_say newline w;
          k \<leftarrow> vfs_init (w_kernel w);
          let w = in_boot (\<lambda>_. k) w;
          w \<leftarrow> boot_say (''kmain: vfs ok'' @ newline) w;
          w \<leftarrow> boot_say ''kmain: imported /bin programs='' w;
          w \<leftarrow> say_dec CONSOLE_BOTH (word_of_int (if exec_seed_programs < 0 then 0 else exec_seed_programs)) w;
          w \<leftarrow> boot_say newline w;
          w \<leftarrow> boot_say (''kmain: exec stubs ok'' @ newline) w;
          w \<leftarrow> boot_say (''kmain: entering shell'' @ newline) w;
          st \<leftarrow> shell_start (bp_line1 P) (bp_line2 P) w;
          Some (prot, d, st) }"

section \<open>From power-on to the shell\<close>

text \<open>The statics of the kernel as the image holds them.\<close>

definition static_kernel :: "kernel \<Rightarrow> bool" where
  "static_kernel k \<longleftrightarrow> vfs_nodes k = Map.empty \<and> vfs_root_node k = NULL \<and> fd_table k = replicate FD_MAX empty_fd \<and>
     user_cwd k = NULL \<and> ring3_active k = 0 \<and> ring3_current_pid k = 0 \<and> \<not> slots_initialized (kn_elf k) \<and> kn_output k = [] \<and>
     storage_inv (ie_storage (kn_fs k))"

lemma vfs_init_frame:
  assumes inv: "heap_inv (heap s)" and r: "vfs_init s = Some s'"
  shows "vfs_frame s s'"
proof (cases "s' = s")
  case False
  then obtain root s1 where a: "vfs_alloc_node [] VFS_NODE_DIR NULL s = Some (root, s1)"
    and rest: "(let t = s1\<lparr>vfs_root_node := root\<rparr> in
      do { (_, t) \<leftarrow> vfs_make_dir root (Some ''/bin'') t; (_, t) \<leftarrow> vfs_make_dir root (Some ''/docs'') t;
           (_, t) \<leftarrow> vfs_make_dir root (Some ''/mount'') t; (_, t) \<leftarrow> vfs_make_dir root (Some ''/mount/cdrom'') t;
           (_, t) \<leftarrow> vfs_make_dir root (Some ''/tmp'') t; (_, t) \<leftarrow> vfs_write_seed_file ''/docs/readme.txt'' readme_text t;
           (_, t) \<leftarrow> vfs_write_seed_file ''/docs/roadmap.txt'' roadmap_text t; Some t }) = Some s'"
    using r by (auto simp: vfs_init_def Let_def split: if_splits bind_splits)
  have f: "vfs_frame s (s1\<lparr>vfs_root_node := root\<rparr>)" using alloc_node_frame [OF inv a] by (simp add: vfs_frame_def data_from_def)
  have md: "vfs_make_dir cwd path t = Some (b, t') \<Longrightarrow> vfs_frame s t \<Longrightarrow> vfs_frame s t'" for cwd path t b t'
    using make_dir_frame [of t cwd path b t'] vfs_frame_trans vfs_frame_inv by blast
  have sf: "vfs_write_seed_file path d t = Some (b, t') \<Longrightarrow> vfs_frame s t \<Longrightarrow> vfs_frame s t'" for path d t b t'
    using seed_file_frame [of t path d b t'] vfs_frame_trans vfs_frame_inv by blast
  show ?thesis using rest unfolding Let_def by (clarsimp split: bind_splits) ((rule sf, assumption)+, (rule md, assumption)+, rule f)
qed (use inv in simp)

definition reaches :: "('a \<Rightarrow> bool) \<Rightarrow> 'a option \<Rightarrow> bool" where
  "reaches R r \<longleftrightarrow> (\<exists>x. r = Some x \<and> R x)"

text \<open>While the kernel starts, the console is in order and the state of the kernel is known.\<close>

definition at_kernel :: "kernel \<Rightarrow> world \<Rightarrow> bool" where
  "at_kernel k w \<longleftrightarrow> w_kernel w = k \<and> con_inv (w_console w)"

lemma at_boot: "at_kernel k w \<Longrightarrow> at_kernel (g k) (in_boot g w)"
  by (simp add: at_kernel_def in_boot_def)

lemma console_reaches:
  assumes "at_kernel k w" and "\<And>c. con_inv c \<Longrightarrow> con_safe c (g c)" and "\<And>w'. at_kernel k w' \<Longrightarrow> reaches R (f w')"
  shows "reaches R (in_console g w \<bind> f)"
proof -
  obtain c where "g (w_console w) = Some c" "con_inv c" using assms(1,2) by (auto simp: at_kernel_def con_safe_def)
  then show ?thesis using assms(1) assms(3) [of "w\<lparr>w_console := c\<rparr>"] by (simp add: in_console_def at_kernel_def)
qed

lemma print_reaches:
  "at_kernel k w \<Longrightarrow> (\<And>w'. at_kernel k w' \<Longrightarrow> reaches R (f w')) \<Longrightarrow> reaches R (in_console (console_print out s) w \<bind> f)"
  "at_kernel k w \<Longrightarrow> (\<And>w'. at_kernel k w' \<Longrightarrow> reaches R (f w')) \<Longrightarrow> reaches R (in_console (console_print_u32_dec out v) w \<bind> f)"
  by (rule console_reaches, assumption, erule console_print_safe number_safe(1), blast)+

lemma boot_console_reaches:
  assumes c: "con_fresh (w_console w)" and v: "video_fits (bp_mbi P)" and k: "w_kernel w = k"
    and f: "\<And>w'. at_kernel k w' \<Longrightarrow> reaches R (f w')"
  shows "reaches R (boot_console P w \<bind> f)"
proof -
  have "con_inv (serial_init (term_init_with_multiboot (bp_mbi P) (bp_magic P) (w_console w)))"
    using term_init_multiboot_inv [OF c v] by (simp add: serial_init_def con_inv_def con_geom_def on_screen_def)
  then obtain c' where "term_clear (serial_init (term_init_with_multiboot (bp_mbi P) (bp_magic P) (w_console w))) = Some c'" "con_inv c'"
    using term_clear_safe by (fastforce simp: con_safe_def)
  then show ?thesis using f [of "w\<lparr>w_console := c'\<rparr>"] k by (simp add: boot_console_def in_console_def at_kernel_def)
qed

lemma spawn_unloaded:
  assumes s: "sched_inv s" and im: "\<And>D. images_ok st D (sc_procs s)"
  shows "sched_inv (snd (task_spawn_kernel name ppid s))" and "images_ok st D (sc_procs (snd (task_spawn_kernel name ppid s)))"
proof -
  show "sched_inv (snd (task_spawn_kernel name ppid s))" using task_spawn_ok [OF s] by (simp add: task_spawn_kernel_def)
  note pinv = sched_inv_procs [OF s]
  have np: "0 < next_pid (sc_procs s)" using pinv by (simp add: proc_inv_def)
  have "sc_procs (snd (task_spawn_kernel name ppid s)) = sc_procs s \<or>
      proc_map (sc_procs (snd (task_spawn_kernel name ppid s))) =
        (proc_map (sc_procs s))(next_pid (sc_procs s) \<mapsto> (spawned name ppid (next_pid (sc_procs s)), empty_image))"
    using proc_spawn_ok [OF pinv, of _ name ppid] proc_spawn_full [of "sc_procs s" name ppid] np
    by (cases "alloc_slot (sc_procs s)") (auto simp: task_spawn_kernel_def task_spawn_def Let_def split: option.splits if_splits prod.splits)
  then show "images_ok st D (sc_procs (snd (task_spawn_kernel name ppid s)))"
  proof
    assume "proc_map (sc_procs (snd (task_spawn_kernel name ppid s))) =
        (proc_map (sc_procs s))(next_pid (sc_procs s) \<mapsto> (spawned name ppid (next_pid (sc_procs s)), empty_image))"
    from images_ok_put [OF im this] show ?thesis by (simp add: empty_image_def)
  qed (use im in simp)
qed

text \<open>The tables before the file system is started.\<close>

definition boot_kernel :: "'d boot_params \<Rightarrow> storage_state \<Rightarrow> kernel \<Rightarrow> kernel" where
  "boot_kernel P st k =
     (boot_tasks (k\<lparr>heap := heap_init (bp_kernel_end P) (bp_info P) (bp_magic P), kn_sched := (kn_sched k)\<lparr>sc_procs := proc_init\<rparr>,
        kn_ipc := ipc_init, kn_services := service_init\<rparr>))
     \<lparr>kn_irq := interrupts_init (bp_code_selector P) (bp_stubs P) (kn_irq k), kn_fs := fs_init ((kn_fs k)\<lparr>ie_storage := st\<rparr>)\<rparr>"

lemma proc_init_unloaded: "images_ok st D proc_init"
proof -
  have im: "\<forall>img \<in> set (images proc_init). \<not> im_loaded img"
    by (simp add: proc_init_def empty_image_def Let_def split: option.split)
  have "\<not> im_loaded img" if a: "proc_map proc_init pid = Some (p, img)" for pid p img
  proof -
    obtain i where "find_slot_by_pid proc_init pid = Some i" "img = images proc_init ! i"
      using a unfolding proc_map_find [OF proc_init_inv] by blast
    then show ?thesis using im find_slot_SomeD(1) [of proc_init pid i] proc_inv_len [OF proc_init_inv] by simp
  qed
  then show ?thesis by (auto simp: images_ok_def)
qed

lemma boot_tasks_sched:
  assumes "kn_procs k = proc_init"
  shows "sched_inv (kn_sched (boot_tasks k))" and "images_ok st D (kn_procs (boot_tasks k))"
proof -
  have "sc_procs (tasking_init proc_init) = proc_init" by (simp add: tasking_init_eq)
  note a = spawn_unloaded [OF tasking_init_inv [OF proc_init_inv]] and im = proc_init_unloaded
  have s1: "images_ok st D (sc_procs (snd (task_spawn_kernel n p (tasking_init proc_init))))" for st D n p
    by (rule a(2)) (simp add: tasking_init_eq im)
  note b = spawn_unloaded [OF a(1) s1]
  show "sched_inv (kn_sched (boot_tasks k))" using b(1) im by (simp add: boot_tasks_def assms tasking_init_eq)
  show "images_ok st D (kn_procs (boot_tasks k))" using b(2) im by (simp add: boot_tasks_def assms tasking_init_eq)
qed

lemma boot_tables:
  assumes k: "static_kernel k" and "0 < bp_kernel_end P" and "bp_kernel_end P \<le> 0xFFFFFFF0"
    and st: "unat (user_stacks_at (kn_elf k)) + stacks_size \<le> unat (bp_kernel_end P)"
  shows "tables_inv (boot_kernel P st' k)" and "files_inv (boot_kernel P st' k)" and "vfs_fresh (boot_kernel P st' k)" and "idle (boot_kernel P st' k)"
proof -
  let ?h = "heap_init (bp_kernel_end P) (bp_info P) (bp_magic P)"
  let ?K = "boot_kernel P st' k"
  note hw = heap_init_inv [OF assms(2,3), of "bp_info P" "bp_magic P"]
  have sel: "heap ?K = ?h" "kn_elf ?K = kn_elf k" "kn_ipc ?K = ipc_init" "kn_services ?K = service_init"
    "vfs_nodes ?K = Map.empty" "vfs_root_node ?K = NULL" "fd_table ?K = replicate FD_MAX empty_fd" "idle ?K"
    "kn_sched ?K = kn_sched (boot_tasks (k\<lparr>kn_sched := (kn_sched k)\<lparr>sc_procs := proc_init\<rparr>\<rparr>))"
    using k by (simp_all add: boot_kernel_def boot_tasks_def static_kernel_def idle_def)
  note s = boot_tasks_sched [of "k\<lparr>kn_sched := (kn_sched k)\<lparr>sc_procs := proc_init\<rparr>\<rparr>", folded sel(9)]
  have e: "elf_inv (kn_elf k)" using k by (simp add: elf_inv_def static_kernel_def)
  have "unat (user_stacks_at (kn_elf k)) + stacks_size \<le> unat (h_start ?h)" using st hw(2) by (simp add: word_le_nat_alt)
  then show "tables_inv ?K" using s e by (simp add: tables_inv_def sel ipc_init_inv service_init_inv)
  show "files_inv ?K" by (auto simp: files_inv_def fds_ok_def sel empty_fd_def)
  show "vfs_fresh ?K" using hw(1) by (simp add: vfs_fresh_def sel)
  show "idle ?K" by (rule sel)
qed

lemma in_boot_reaches:
  "at_kernel k w \<Longrightarrow> (\<And>w'. at_kernel (g k) w' \<Longrightarrow> reaches R (f w')) \<Longrightarrow> reaches R (let w' = in_boot g w in f w')"
  by (simp add: at_boot)

lemma storage_reaches:
  "at_kernel k w \<Longrightarrow> storage_init B d (ie_storage (kn_fs k)) = (st, d') \<Longrightarrow> (at_kernel k w \<Longrightarrow> reaches R (f st d')) \<Longrightarrow>
   reaches R (let (st, d) = storage_init B d (ie_storage (kn_fs (w_kernel w))) in f st d)"
  by (simp add: at_kernel_def)

lemma vfs_reaches:
  "at_kernel k w \<Longrightarrow> vfs_init k = Some k' \<Longrightarrow> (at_kernel k' (in_boot (\<lambda>_. k') w) \<Longrightarrow> reaches R (f k')) \<Longrightarrow>
   reaches R (vfs_init (w_kernel w) \<bind> f)"
  by (simp add: at_kernel_def in_boot_def)

lemma boot_tree:
  assumes k: "static_kernel k" and "0 < bp_kernel_end P" and "bp_kernel_end P \<le> 0xFFFFFFF0"
    and "unat (user_stacks_at (kn_elf k)) + stacks_size \<le> unat (bp_kernel_end P)"
    and "fst (kmalloc sizeof_vfs_node (boot_kernel P st k)) \<noteq> NULL"
  obtains k' where "vfs_init (boot_kernel P st k) = Some k'" "kn_inv k'" "idle k'" "kn_output k' = []" "kn_elf k' = kn_elf k"
    "kn_fs k' = fs_init ((kn_fs k)\<lparr>ie_storage := st\<rparr>)"
proof -
  let ?K = "boot_kernel P st k"
  note t = boot_tables [OF assms(1-4), of st]
  obtain k' where v: "vfs_init ?K = Some k'" "vfs_inv k'" "cwd_at k' (vfs_root k') []" using vfs_init_spec [OF t(3) assms(5)] .
  have h: "heap_inv (heap ?K)" using t(3) by (simp add: vfs_fresh_def)
  note fr = vfs_init_frame [OF h v(1)]
  have m: "vfs_state.more k' = vfs_state.more ?K" and ar: "same_arena (heap ?K) (heap k')" using fr by (simp_all add: vfs_frame_def)
  note s = same_more [OF m]
  have out: "kn_output k' = kn_output ?K" using m by (cases k'; cases ?K; simp)
  have r: "vfs_root_node k' \<noteq> NULL" using v(2,3) by (simp add: cwd_at_def vfs_root_def)
  have cwd: "user_cwd ?K = NULL" "kn_elf ?K = kn_elf k" "kn_output ?K = []" using k by (simp_all add: boot_kernel_def boot_tasks_def static_kernel_def)
  note rd = root_directory [OF v(2) r]
  have "run_inv (cwd_or_root k', k')" using v(2) rd by (auto simp: run_inv_def cwd_or_root_def s cwd vfs_root_def)
  moreover have "images_ok (user_stacks_at (kn_elf k)) D (kn_procs ?K)" for D
    using boot_tasks_sched(2) [of "k\<lparr>kn_sched := (kn_sched k)\<lparr>sc_procs := proc_init\<rparr>\<rparr>"] by (simp add: boot_kernel_def boot_tasks_def)
  then have "tables_inv k'" using t(1) ar by (simp add: tables_inv_def s cwd same_arena_def)
  ultimately have "kn_inv k'" using files_frame [OF t(2) h fr] by (simp add: kn_inv_def)
  moreover have "idle k'" using t(4) by (simp add: idle_def s)
  ultimately show thesis using that [OF v(1)] by (simp add: s out cwd) (simp add: boot_kernel_def boot_tasks_def)
qed

lemma let_reaches: "reaches R (f x) \<Longrightarrow> reaches R (let y = x in f y)"
  by simp

lemma world_at: "at_kernel k w \<Longrightarrow> w_kernel w = k" "at_kernel k w \<Longrightarrow> con_inv (w_console w)"
  by (simp_all add: at_kernel_def)

text \<open>
  C2: the start of the kernel reaches the loop of the shell in a good state.  From an image with
  empty tables, and with room in the heap for the root directory, no step of the start fails to
  return; it leaves the segment descriptors as specified, and the pair of shells it enters the
  loop with is a state of the sessions of which all properties hold.  What is required of the
  machine: an image that ends above the stacks of the user programs, a screen of a size that
  16 bits can count, a disc whose directories can be listed, and programs that only write to
  their own memory.
\<close>

theorem kmain_reaches_shell:
  assumes "static_kernel (w_kernel w)" and "con_fresh (w_console w)" and "video_fits (bp_mbi P)"
    and "0 < bp_kernel_end P" and "bp_kernel_end P \<le> 0xFFFFFFF0"
    and "unat (user_stacks_at (kn_elf (w_kernel w))) + stacks_size \<le> unat (bp_kernel_end P)"
    and "storage_init (bp_bus P) d (ie_storage (kn_fs (w_kernel w))) = (st, d')"
    and "fst (kmalloc sizeof_vfs_node (boot_kernel P st (w_kernel w))) \<noteq> NULL"
    and "cd_lists (fs_init ((kn_fs (w_kernel w))\<lparr>ie_storage := st\<rparr>))"
    and "confined (se_machine env) (user_stacks_at (kn_elf (w_kernel w)))"
    and "length (bp_line1 P) = 128" and "length (bp_line2 P) = 128"
  shows "\<exists>shells. kmain P d w = Some (protection_init (bp_gdt_at P) (bp_tss_at P) (bp_stack_at P), d', shells) \<and> shell_reach env shells"
proof -
  let ?k = "w_kernel w" and ?prot = "protection_init (bp_gdt_at P) (bp_tss_at P) (bp_stack_at P)"
  let ?R = "\<lambda>r. fst r = ?prot \<and> fst (snd r) = d' \<and> shell_reach env (snd (snd r))"
  obtain k' where v: "vfs_init (boot_kernel P st ?k) = Some k'" and k': "kn_inv k'" "idle k'" "kn_output k' = []" "kn_elf k' = kn_elf ?k"
    "kn_fs k' = fs_init ((kn_fs ?k)\<lparr>ie_storage := st\<rparr>)" using boot_tree [OF assms(1,4-6,8)] .
  have start: "reaches ?R (shell_start (bp_line1 P) (bp_line2 P) w' \<bind> (\<lambda>sh. Some (?prot, d', sh)))" if a: "at_kernel k' w'" for w'
  proof -
    have ok: "world_ok env w'" using k' assms(9,10) world_at [OF a] by (simp add: world_ok_def)
    obtain sh where "shell_start (bp_line1 P) (bp_line2 P) w' = Some sh" using shell_start_ok [OF ok assms(11,12)] by blast
    then show ?thesis using shell_reach.start [OF ok assms(11,12)] by (simp add: reaches_def)
  qed
  have "reaches ?R (kmain P d w)"
    unfolding kmain_def
    apply (rule boot_console_reaches [OF assms(2,3) refl])
    apply (erule print_reaches, rule let_reaches)
    apply (erule print_reaches in_boot_reaches)+
    apply (erule storage_reaches)
     apply (simp add: boot_tasks_def assms(7))
    apply (erule print_reaches in_boot_reaches)+
    apply (erule vfs_reaches)
     apply (subst v [symmetric], rule arg_cong [where f = vfs_init])
     apply (simp add: boot_kernel_def boot_tasks_def)
    apply (rule let_reaches)
    apply (erule print_reaches)+
    apply (erule start)
    done
  then show ?thesis by (force simp: reaches_def)
qed

section \<open>A machine without a drive\<close>

definition silent_bus :: "unit ata_bus" where
  "silent_bus = \<lparr>inb = \<lambda>_ _. (0, ()), inw = \<lambda>_ _. (0, ()), outb = \<lambda>_ _ _. (), outw = \<lambda>_ _ _. ()\<rparr>"

definition demo_static :: kernel where
  "demo_static = demo_kernel\<lparr>vfs_nodes := Map.empty, vfs_root_node := NULL, fd_table := replicate FD_MAX empty_fd, ring3_active := 0,
     ring3_current_pid := 0, kn_fs := iso_env.extend \<lparr>ie_storage = storage_empty, ie_beyond = \<lambda>_. 0\<rparr> (fs_state.fields [] 0)\<rparr>"

definition demo_boot :: "unit boot_params" where
  "demo_boot = \<lparr>bp_mbi = Some demo_video, bp_magic = MULTIBOOT_MAGIC, bp_kernel_end = 0x280000, bp_gdt_at = 0x110000, bp_tss_at = 0x111000,
     bp_stack_at = 0x112000, bp_code_selector = 8, bp_stubs = \<lparr>irq0_stub = 1, irq1_stub = 2, irq_default_stub = 3, syscall_stub = 4,
     ex6_stub = 5, ex13_stub = 6, ex14_stub = 7\<rparr>, bp_bus = silent_bus, bp_line1 = replicate 128 NUL, bp_line2 = replicate 128 NUL\<rparr>"

lemma silent_storage: "storage_init silent_bus () storage_empty = (storage_empty, ())"
  by code_simp

lemma demo_boot_room: "fst (kmalloc sizeof_vfs_node (boot_kernel demo_boot st k)) \<noteq> NULL"
proof -
  have h: "heap (boot_kernel demo_boot st k) = heap_init 0x280000 (bp_info demo_boot) MULTIBOOT_MAGIC"
    by (simp add: boot_kernel_def boot_tasks_def demo_boot_def)
  have "heap_init 0x280000 (bp_info demo_boot) MULTIBOOT_MAGIC = \<lparr>h_start = 0x280000, h_current = 0x280000, h_limit = 0x300000, h_ready = True\<rparr>"
    by code_simp
  then show ?thesis by (simp add: kmalloc_def h align_up_def sizeof_vfs_node_def)
qed

theorem kmain_reaches_shell_witness:
  "\<exists>shells. kmain demo_boot () \<lparr>w_kernel = demo_static, w_console = demo_console, serial_polls = []\<rparr> =
       Some (protection_init 0x110000 0x111000 0x112000, (), shells) \<and> shell_reach demo_env shells"
proof -
  let ?w = "\<lparr>w_kernel = demo_static, w_console = demo_console, serial_polls = []\<rparr>"
  have fs: "kn_fs demo_static = iso_env.extend \<lparr>ie_storage = storage_empty, ie_beyond = \<lambda>_. 0\<rparr> (fs_state.fields [] 0)"
    and st: "user_stacks_at (kn_elf demo_static) = 0x1F0000"
    by (simp_all add: demo_static_def demo_kernel_def vfs_state.defs kernel.defs demo_elf_state_def)
  have "static_kernel demo_static"
    by (simp add: static_kernel_def fs) (simp add: demo_static_def demo_kernel_def vfs_state.defs kernel.defs demo_elf_state_def
        iso_env.defs fs_state.defs storage_empty_inv)
  moreover have "storage_init (bp_bus demo_boot) () (ie_storage (kn_fs demo_static)) = (storage_empty, ())"
    by (simp add: fs iso_env.defs fs_state.defs silent_storage demo_boot_def)
  moreover have "fs_init ((kn_fs demo_static)\<lparr>ie_storage := storage_empty\<rparr>) = demo_fs0"
    by (simp add: fs demo_fs0_def iso_env.defs fs_state.defs)
  moreover have "confined (se_machine demo_env) st" for st by (simp add: demo_env_def demo_machine_confined)
  moreover have "video_fits (bp_mbi demo_boot)" by (simp add: video_fits_def demo_boot_def demo_video_def)
  moreover have "unat (user_stacks_at (kn_elf demo_static)) + stacks_size \<le> unat (bp_kernel_end demo_boot)"
    by (simp add: st demo_boot_def stacks_size_def ELF_PROC_SLOTS_def ELF_STACK_SIZE_def)
  ultimately have "\<exists>shells. kmain demo_boot () ?w = Some (protection_init (bp_gdt_at demo_boot) (bp_tss_at demo_boot) (bp_stack_at demo_boot), (), shells) \<and>
      shell_reach demo_env shells"
    by (intro kmain_reaches_shell) (simp_all add: demo_console_fresh demo_boot_room, simp_all add: demo_boot_def demo_fs0_lists)
  then show ?thesis by (simp add: demo_boot_def)
qed

end
